(* ===== verification/Gateway_Prelude.thy ===== *)
theory Gateway_Prelude
  imports Main "HOL-Library.Word" "HOL-Library.Monad_Syntax"
begin

text \<open>
  Shared vocabulary of the development: the C integer types at their widths, the result
  codes of \<^verbatim>\<open>components/os/sys_errno.h\<close>, the byte packing idioms of the protocol code
  (\<^verbatim>\<open>(uint16_t)(b[i]<<8)+b[i+1]\<close>, \<^verbatim>\<open>(x>>8)&0xff\<close>), arrays as lists with bounds-checked
  stores, and the generic list and word lemmas the components use.

  Undefined behaviour (an access outside an array) is the value \<^const>\<open>None\<close> of an
  option; the C return codes are ordinary values.
\<close>

unbundle bit_operations_syntax

named_theorems gw_bits \<open>packing and unpacking of machine words\<close>
named_theorems gw_buf \<open>reading and writing of byte buffers\<close>

section \<open>C types and result codes\<close>

type_synonym u8 = "8 word"
type_synonym u16 = "16 word"
type_synonym u32 = "32 word"
type_synonym u64 = "64 word"

text \<open>The codes of \<^verbatim>\<open>enum sys_errno\<close> that the modelled code returns.\<close>

definition SYS_OK :: int where "SYS_OK = 0"
definition SYS_FAIL :: int where "SYS_FAIL = -1"
definition SYS_E_TIMEOUT :: int where "SYS_E_TIMEOUT = -38"

lemmas sys_errno_defs = SYS_OK_def SYS_FAIL_def SYS_E_TIMEOUT_def

lemma sys_errno_distinct [simp]:
  "SYS_OK \<noteq> SYS_FAIL" "SYS_FAIL \<noteq> SYS_OK"
  "SYS_OK \<noteq> SYS_E_TIMEOUT" "SYS_E_TIMEOUT \<noteq> SYS_OK"
  "SYS_FAIL \<noteq> SYS_E_TIMEOUT" "SYS_E_TIMEOUT \<noteq> SYS_FAIL"
  by (simp_all add: sys_errno_defs)

section \<open>Packing and unpacking words\<close>

definition lo8 :: "u16 \<Rightarrow> u8" where
  "lo8 x = ucast (x AND 0xff)"

definition hi8 :: "u16 \<Rightarrow> u8" where
  "hi8 x = ucast (drop_bit 8 x AND 0xff)"

definition be16 :: "u8 \<Rightarrow> u8 \<Rightarrow> u16" where
  "be16 h l = push_bit 8 (ucast h) + ucast l"

definition be32 :: "u8 \<Rightarrow> u8 \<Rightarrow> u8 \<Rightarrow> u8 \<Rightarrow> u32" where
  "be32 a b c d = push_bit 24 (ucast a) + push_bit 16 (ucast b) + push_bit 8 (ucast c) + ucast d"

lemma and_255_mask: "x AND 255 = take_bit 8 (x :: u16)"
  by (simp add: take_bit_eq_mask mask_eq_exp_minus_1)

lemma bit_lo8 [gw_bits]: "bit (lo8 x) n \<longleftrightarrow> n < 8 \<and> bit x n"
  by (auto simp: lo8_def and_255_mask bit_simps)

lemma bit_hi8 [gw_bits]: "bit (hi8 x) n \<longleftrightarrow> n < 8 \<and> bit x (n + 8)"
  by (auto simp: hi8_def and_255_mask bit_simps add.commute)

lemma be16_or: "be16 h l = push_bit 8 (ucast h) OR ucast l"
proof -
  have "push_bit 8 (ucast h) AND (ucast l :: u16) = 0"
    by (rule bit_eqI) (auto simp: bit_simps dest: bit_imp_le_length)
  then show ?thesis
    by (simp add: be16_def disjunctive_add_eq_or)
qed

lemma bit_be16 [gw_bits]:
  "bit (be16 h l) n \<longleftrightarrow> (if n < 8 then bit l n else n < 16 \<and> bit h (n - 8))"
  by (auto simp: be16_or bit_simps dest: bit_imp_le_length)

lemma be16_hi8_lo8 [simp]: "be16 (hi8 x) (lo8 x) = x"
  by (rule bit_eqI) (auto simp: gw_bits)

lemma lo8_be16 [simp]: "lo8 (be16 h l) = l"
  by (rule bit_eqI) (auto simp: gw_bits dest: bit_imp_le_length)

lemma hi8_be16 [simp]: "hi8 (be16 h l) = h"
  by (rule bit_eqI) (auto simp: gw_bits dest: bit_imp_le_length)

lemma be16_inject [simp]: "be16 h l = be16 h' l' \<longleftrightarrow> h = h' \<and> l = l'"
  by (metis hi8_be16 lo8_be16)

lemma unat_be16: "unat (be16 h l) = unat h * 256 + unat l"
proof -
  have "unat h < 256" "unat l < 256"
    using unsigned_less [of h, where ?'a = nat] unsigned_less [of l, where ?'a = nat] by simp_all
  then show ?thesis
    by (simp add: be16_def push_bit_eq_mult unat_word_ariths unsigned_ucast_eq take_bit_nat_eq_self)
qed

lemma unat_u8_less [simp]: "unat (b :: u8) < 256"
  using unsigned_less [of b, where ?'a = nat] by simp

lemma unat_ge_128_iff: "128 \<le> unat (b :: u8) \<longleftrightarrow> bit b 7"
proof -
  have "bit b 7 \<longleftrightarrow> bit (unat b) 7" by (simp add: bit_unsigned_iff)
  also have "\<dots> \<longleftrightarrow> odd (unat b div 128)" by (simp add: bit_iff_odd)
  also have "\<dots> \<longleftrightarrow> 128 \<le> unat b"
  proof -
    have "unat b div 128 = 0 \<or> unat b div 128 = 1" using unat_u8_less [of b] by linarith
    then show ?thesis using unat_u8_less [of b] by (auto simp: div_eq_0_iff) 
  qed
  finally show ?thesis by simp
qed

lemma xor_cancel_left [simp]: "(a :: 'a::len word) XOR x = a XOR y \<longleftrightarrow> x = y"
  by (metis xor.assoc xor.left_neutral xor_self_eq)

lemma xor_cancel_right [simp]: "(x :: 'a::len word) XOR a = y XOR a \<longleftrightarrow> x = y"
  by (metis xor.commute xor_cancel_left)

lemma ucast_u8_u16_inject [simp]: "(ucast (x :: u8) :: u16) = ucast y \<longleftrightarrow> x = y"
proof
  assume eq: "(ucast x :: u16) = ucast y"
  have "x = ucast (ucast x :: u16)" by (rule bit_eqI) (auto simp: bit_simps)
  also have "\<dots> = ucast (ucast y :: u16)" by (simp add: eq)
  also have "\<dots> = y" by (rule bit_eqI) (auto simp: bit_simps)
  finally show "x = y" .
qed simp

section \<open>Arrays\<close>

text \<open>
  A C array is a list of its declared length. A store through an index that is not known to
  be in range is \<open>arr_put\<close>: \<^const>\<open>None\<close> stands for the undefined behaviour of a store
  outside the array.
\<close>

definition arr_put :: "'a list \<Rightarrow> nat \<Rightarrow> 'a \<Rightarrow> 'a list option" where
  "arr_put xs i x = (if i < length xs then Some (xs[i := x]) else None)"

lemma arr_put_Some [gw_buf]: "i < length xs \<Longrightarrow> arr_put xs i x = Some (xs[i := x])"
  by (simp add: arr_put_def)

lemma arr_put_None [gw_buf]: "length xs \<le> i \<Longrightarrow> arr_put xs i x = None"
  by (simp add: arr_put_def)

lemma arr_put_eq_None_iff: "arr_put xs i x = None \<longleftrightarrow> length xs \<le> i"
  by (simp add: arr_put_def not_less)

text \<open>A block of consecutive stores \<^verbatim>\<open>b[off]=d0; b[off+1]=d1; ...\<close> (or a \<^verbatim>\<open>memcpy\<close>).\<close>

definition buf_write :: "'a list \<Rightarrow> nat \<Rightarrow> 'a list \<Rightarrow> 'a list" where
  "buf_write b off d = take off b @ d @ drop (off + length d) b"

definition zeros :: "nat \<Rightarrow> u8 list" where
  "zeros n = replicate n 0"

lemma length_zeros [simp]: "length (zeros n) = n"
  by (simp add: zeros_def)

lemma nth_zeros [simp]: "i < n \<Longrightarrow> zeros n ! i = 0"
  by (simp add: zeros_def)

lemma length_buf_write [simp]:
  "off + length d \<le> length b \<Longrightarrow> length (buf_write b off d) = length b"
  by (simp add: buf_write_def)

lemma take_buf_write_0 [simp]: "take (length d) (buf_write b 0 d) = d"
  by (simp add: buf_write_def)

lemma take_buf_write_0' [simp]: "n = length d \<Longrightarrow> take n (buf_write b 0 d) = d"
  by simp

lemma nth_buf_write_0 [simp]: "i < length d \<Longrightarrow> buf_write b 0 d ! i = d ! i"
  by (simp add: buf_write_def nth_append)

lemma take_append_take: "m \<le> length xs \<Longrightarrow> take m (xs @ ys) = take m xs"
  by simp

lemma buf_write_step:
  "i < length b \<Longrightarrow> i + 1 + length d \<le> length b \<Longrightarrow> buf_write (b[i := x]) (Suc i) d = buf_write b i (x # d)"
  by (simp add: buf_write_def take_Suc_conv_app_nth drop_update_cancel)

lemma buf_write_Nil [simp]: "buf_write b i [] = b"
  by (simp add: buf_write_def)

lemma buf_write_append [simp]:
  "k = length xs \<Longrightarrow> buf_write (buf_write b 0 xs) k ys = buf_write b 0 (xs @ ys)"
  by (simp add: buf_write_def add.commute)

lemma nth_buf_write_0_append: "i < length d \<Longrightarrow> buf_write b 0 (d @ e) ! i = d ! i"
  by (simp add: buf_write_def nth_append)

lemma u8_below_measure: "i < unat (x :: u8) \<Longrightarrow> 255 - i < 256 - i"
  using unat_u8_less [of x] by linarith

text \<open>Small numbers in a byte.\<close>

lemma unat_of_nat_u8: "n < 256 \<Longrightarrow> unat (of_nat n :: u8) = n"
  by (simp add: unsigned_of_nat take_bit_nat_eq_self)

lemma unat_of_nat_u16: "n < 65536 \<Longrightarrow> unat (of_nat n :: u16) = n"
  by (simp add: unsigned_of_nat take_bit_nat_eq_self)

end
