(* ===== verification/Device_Data.thy ===== *)
theory Device_Data
  imports Gateway_Prelude
begin

text \<open>
  The global \<^verbatim>\<open>device_data\<close> of \<^verbatim>\<open>app/project_config.h\<close>, through which the threads of the
  gateway talk to each other, and \<^verbatim>\<open>sys_slave_type\<close>, an RS485 slave. The record has the
  fields of \<^verbatim>\<open>sys_type\<close> that the modelled components read or write, at their C widths (the
  two floating point thresholds as the bits of a \<^verbatim>\<open>float\<close>); the other measurements and the
  camera buffers belong to components that are not modelled.
\<close>

definition SLAVE_MAX_NUM :: nat where "SLAVE_MAX_NUM = 16"
definition CIRCUIT_BREAKER_MAX_NUM :: nat where "CIRCUIT_BREAKER_MAX_NUM = 32"

text \<open>\<^verbatim>\<open>enum sys_device_error\<close>: two sensors share the bit 0x0008.\<close>

definition SMOKE_SENSOR_ERROR :: u32 where "SMOKE_SENSOR_ERROR = 0x0001"
definition WATER_SENSOR_ERROR :: u32 where "WATER_SENSOR_ERROR = 0x0002"
definition LOCK_SENSOR_ERROR :: u32 where "LOCK_SENSOR_ERROR = 0x0004"
definition SPD_SENSOR_ERROR :: u32 where "SPD_SENSOR_ERROR = 0x0008"
definition CAMERA_SENSOR_ERROR :: u32 where "CAMERA_SENSOR_ERROR = 0x0008"

lemmas sensor_error_defs = SMOKE_SENSOR_ERROR_def WATER_SENSOR_ERROR_def LOCK_SENSOR_ERROR_def
  SPD_SENSOR_ERROR_def CAMERA_SENSOR_ERROR_def

record sys_slave_type =
  slave_addr :: u8
  device_type :: u8
  device_name :: "u8 list"

text \<open>The date and the time of the clock chip.\<close>

record stc_rtc_date_t =
  u8Year :: u8
  u8Month :: u8
  u8Day :: u8
  u8Weekday :: u8

record stc_rtc_time_t =
  u8Hour :: u8
  u8Minute :: u8
  u8Second :: u8
  u8AmPm :: u8

record sys_type =
  error_status :: u32
  error_status_old :: u32
  error_status_mqtt :: u32
  fan_open_temp :: u32
  fan_close_temp :: u32
  factory_flag :: u8
  rst_long_flag :: u8
  run_mode_id :: u8
  display_num :: u8
  c_date :: stc_rtc_date_t
  c_time :: stc_rtc_time_t
  smoke_in_error_flag :: u8
  water_in_error_flag :: u8
  lock_in_error_flag :: u8
  spd_in_error_flag :: u8
  camera_error_flag :: u8
  alarm_change_flag :: u8
  buzzer_change_flag :: u8
  buzzer_enable_flag :: u8
  phy_check_flag :: u8
  fan_temp_flag :: u8
  hot_humi_flag :: u8
  hot_fan_open_humi :: u8
  hot_fan_close_humi :: u8
  led_flag :: u8
  led_data_flag :: u8
  set_flag :: u8
  reclose_flag :: u8
  reclose_data_flag :: u8
  cbclose_flag :: u8
  cbclose_data_flag :: u8
  cbclose_data_addr :: u8
  cb_hold_flag :: u8
  autoeclosing_on_off_code :: u8
  autoeclosing_on_off_flag :: u8
  autoeclosing_enable_flag :: u8
  circuit_breaker_enable_flag :: u8
  slave_device_have_ack_flag :: u8
  query_slave_cnt :: u8
  query_slave_times_cnt :: u8
  save_slave_device_flag :: u8
  query_slave_finish_flag :: u8
  cb_slave_device_have_ack_flag :: u8
  cb_query_slave_cnt :: u8
  cb_slave_addr :: "u8 list"
  cb_slave_addr_cnt :: u8
  set_scan_flag :: u8
  own_slave_device :: "sys_slave_type list"
  power_monitoring_relay_data :: "u16 list"
  read_slave_device_cnt :: u8
  slave_device_max :: u8

text \<open>The global is in zero-initialised memory.\<close>

definition slave_zero :: sys_slave_type where
  "slave_zero = \<lparr>slave_addr = 0, device_type = 0, device_name = zeros 33\<rparr>"

definition device_data_init :: sys_type where
  "device_data_init = \<lparr>error_status = 0, error_status_old = 0, error_status_mqtt = 0,
     fan_open_temp = 0, fan_close_temp = 0, factory_flag = 0, rst_long_flag = 0,
     run_mode_id = 0, display_num = 0,
     c_date = \<lparr>u8Year = 0, u8Month = 0, u8Day = 0, u8Weekday = 0\<rparr>,
     c_time = \<lparr>u8Hour = 0, u8Minute = 0, u8Second = 0, u8AmPm = 0\<rparr>, smoke_in_error_flag = 0, water_in_error_flag = 0,
     lock_in_error_flag = 0, spd_in_error_flag = 0, camera_error_flag = 0, alarm_change_flag = 0,
     buzzer_change_flag = 0, buzzer_enable_flag = 0, phy_check_flag = 0, fan_temp_flag = 0,
     hot_humi_flag = 0, hot_fan_open_humi = 0, hot_fan_close_humi = 0, led_flag = 0,
     led_data_flag = 0, set_flag = 0, reclose_flag = 0, reclose_data_flag = 0, cbclose_flag = 0,
     cbclose_data_flag = 0, cbclose_data_addr = 0,
     cb_hold_flag = 0, autoeclosing_on_off_code = 0, autoeclosing_on_off_flag = 0,
     autoeclosing_enable_flag = 0, circuit_breaker_enable_flag = 0,
     slave_device_have_ack_flag = 0, query_slave_cnt = 0, query_slave_times_cnt = 0,
     save_slave_device_flag = 0, query_slave_finish_flag = 0, cb_slave_device_have_ack_flag = 0,
     cb_query_slave_cnt = 0, cb_slave_addr = zeros CIRCUIT_BREAKER_MAX_NUM, cb_slave_addr_cnt = 0,
     set_scan_flag = 0, own_slave_device = replicate SLAVE_MAX_NUM slave_zero,
     power_monitoring_relay_data = replicate SLAVE_MAX_NUM 0, read_slave_device_cnt = 0,
     slave_device_max = 0\<rparr>"

text \<open>The arrays keep their declared lengths.\<close>

definition wf_device :: "sys_type \<Rightarrow> bool" where
  "wf_device d \<longleftrightarrow> length (cb_slave_addr d) = CIRCUIT_BREAKER_MAX_NUM \<and>
     length (own_slave_device d) = SLAVE_MAX_NUM \<and>
     length (power_monitoring_relay_data d) = SLAVE_MAX_NUM"

lemma wf_device_init: "wf_device device_data_init"
  by (simp add: wf_device_def device_data_init_def)

end
