(* ===== verification/Modbus_Crc.thy ===== *)
theory Modbus_Crc
  imports Gateway_Prelude
begin

text \<open>
  The CRC-16 of the RS485 links. The repository holds three copies of one function:
  \<^verbatim>\<open>modbus_crc16\<close> (\<^verbatim>\<open>app/monitor_board_handle.c\<close>), \<^verbatim>\<open>circuit_breaker_modbus_crc16\<close>
  (\<^verbatim>\<open>app/circuit_breaker_rs485_handle.c\<close>) and \<^verbatim>\<open>autoeclosing_modbus_crc16\<close>
  (\<^verbatim>\<open>app/autoeclosing_rs485_handle.c\<close>), all with the polynomial 0xA001. The pointer argument
  is the list of bytes from the pointer on; every caller passes a length inside its buffer.

  The lemmas show that the register step is linear and injective, that a frame followed by
  its CRC (low byte first) leaves the register at 0 and no other trailer does, and that every
  error confined to two neighbouring bytes changes the CRC. The locale \<open>frame_check\<close> is the
  contract the frame builders and the reply handlers share.
\<close>

section \<open>The code\<close>

definition crc_step :: "u16 \<Rightarrow> u16 \<Rightarrow> u16" where
  "crc_step poly crc =
     (if crc AND 1 \<noteq> 0 then drop_bit 1 crc XOR poly else drop_bit 1 crc)"

fun crc_steps :: "u16 \<Rightarrow> nat \<Rightarrow> u16 \<Rightarrow> u16" where
  "crc_steps poly 0 crc = crc"
| "crc_steps poly (Suc i) crc = crc_steps poly i (crc_step poly crc)"

definition crc_byte :: "u16 \<Rightarrow> u16 \<Rightarrow> u8 \<Rightarrow> u16" where
  "crc_byte poly crc b = crc_steps poly 8 (crc XOR ucast b)"

definition crc16_with :: "u16 \<Rightarrow> u8 list \<Rightarrow> nat \<Rightarrow> u16" where
  "crc16_with poly ptr len =
     foldl (crc_byte poly) 0xffff (take (if len = 0 then 1 else len) ptr)"

definition modbus_crc16 :: "u8 list \<Rightarrow> nat \<Rightarrow> u16" where
  "modbus_crc16 = crc16_with 0xA001"

definition circuit_breaker_modbus_crc16 :: "u8 list \<Rightarrow> nat \<Rightarrow> u16" where
  "circuit_breaker_modbus_crc16 = crc16_with 0xA001"

definition autoeclosing_modbus_crc16 :: "u8 list \<Rightarrow> nat \<Rightarrow> u16" where
  "autoeclosing_modbus_crc16 = crc16_with 0xA001"

section \<open>The register step\<close>

lemma and_one_neq_0: "(x AND 1 \<noteq> 0) \<longleftrightarrow> bit (x :: 'a::len word) 0"
  by (simp add: and_one_eq bit_0 odd_iff_mod_2_eq_one)

lemma bit_crc_step:
  "bit (crc_step poly c) n \<longleftrightarrow> (bit c (Suc n) \<noteq> (bit c 0 \<and> bit poly n))"
  by (cases "bit c 0") (auto simp: crc_step_def and_one_neq_0 bit_simps)

lemma crc_step_xor: "crc_step poly (a XOR b) = crc_step poly a XOR crc_step poly b"
  by (rule bit_eqI) (auto simp: bit_crc_step bit_xor_iff)

lemma crc_step_0 [simp]: "crc_step poly 0 = 0"
  by (simp add: crc_step_def)

lemma crc_steps_xor: "crc_steps poly k (a XOR b) = crc_steps poly k a XOR crc_steps poly k b"
  by (induction k arbitrary: a b) (simp_all add: crc_step_xor)

lemma crc_steps_0 [simp]: "crc_steps poly k 0 = 0"
  by (induction k) simp_all

text \<open>
  A polynomial with its top bit set makes the step invertible: the fed-back bit can be read
  off bit 15 of the result.
\<close>

lemma crc_step_inj:
  assumes "bit poly 15" and eq: "crc_step poly a = crc_step poly b"
  shows "a = b"
proof -
  have step: "bit a (Suc n) \<noteq> (bit a 0 \<and> bit poly n) \<longleftrightarrow> bit b (Suc n) \<noteq> (bit b 0 \<and> bit poly n)" for n
    using eq bit_crc_step by metis
  have "\<not> bit a 16" "\<not> bit b 16"
    using bit_imp_le_length [of a 16] bit_imp_le_length [of b 16] by auto
  with step [of 15] assms(1) have zero: "bit a 0 = bit b 0"
    by (simp add: eval_nat_numeral)
  then have "bit a (Suc n) = bit b (Suc n)" for n
    using step [of n] by blast
  with zero have "bit a n = bit b n" for n
    by (cases n) auto
  then show ?thesis by (intro bit_word_eqI) simp
qed

lemma crc_steps_inj: "bit poly 15 \<Longrightarrow> crc_steps poly k a = crc_steps poly k b \<Longrightarrow> a = b"
  by (induction k arbitrary: a b) (auto dest: crc_step_inj)

lemma crc_steps_shift:
  "(\<And>n. n < k \<Longrightarrow> \<not> bit c n) \<Longrightarrow> crc_steps poly k c = drop_bit k c"
proof (induction k arbitrary: c)
  case 0
  then show ?case by simp
next
  case (Suc k)
  have "\<not> bit c 0" using Suc.prems by simp
  then have one: "crc_step poly c = drop_bit 1 c"
    by (simp add: crc_step_def and_one_neq_0)
  have "crc_steps poly k (drop_bit 1 c) = drop_bit k (drop_bit 1 c)"
    by (rule Suc.IH) (simp add: bit_drop_bit_eq Suc.prems)
  with one show ?case by simp
qed

lemma poly_A001_top: "bit (0xA001 :: u16) 15"
  by (simp add: bit_numeral_word_iff)

section \<open>Whole messages\<close>

lemma crc_byte_inj_crc:
  "bit poly 15 \<Longrightarrow> crc_byte poly a x = crc_byte poly b x \<longleftrightarrow> a = b"
  by (auto simp: crc_byte_def dest!: crc_steps_inj)

lemma crc_byte_inj_byte:
  "bit poly 15 \<Longrightarrow> crc_byte poly a x = crc_byte poly a y \<longleftrightarrow> x = y"
  by (auto simp: crc_byte_def dest!: crc_steps_inj)

lemma foldl_crc_inj:
  "bit poly 15 \<Longrightarrow> foldl (crc_byte poly) a xs = foldl (crc_byte poly) b xs \<longleftrightarrow> a = b"
  by (induction xs arbitrary: a b) (simp_all add: crc_byte_inj_crc)

text \<open>Feeding the register its own bytes, low byte first, empties it.\<close>

lemma crc_byte_lo8: "crc_byte poly c (lo8 c) = drop_bit 8 c"
proof -
  have low: "\<not> bit (c XOR ucast (lo8 c)) n" if "n < 8" for n
    using that by (auto simp: bit_xor_iff bit_simps gw_bits)
  then have "crc_byte poly c (lo8 c) = drop_bit 8 (c XOR ucast (lo8 c))"
    by (simp add: crc_byte_def crc_steps_shift)
  also have "\<dots> = drop_bit 8 c"
    by (rule bit_eqI) (auto simp: bit_xor_iff bit_simps gw_bits)
  finally show ?thesis .
qed

lemma crc_byte_hi8: "crc_byte poly (drop_bit 8 c) (hi8 c) = 0"
proof -
  have "drop_bit 8 c XOR ucast (hi8 c) = 0"
    by (rule bit_eqI) (auto simp: bit_xor_iff bit_simps gw_bits add.commute dest: bit_imp_le_length)
  then show ?thesis by (simp add: crc_byte_def)
qed

lemma crc_trailer_zero: "foldl (crc_byte poly) c [lo8 c, hi8 c] = 0"
  by (simp add: crc_byte_lo8 crc_byte_hi8)

lemma crc_trailer_zero_iff:
  assumes "bit poly 15"
  shows "foldl (crc_byte poly) c [l, h] = 0 \<longleftrightarrow> c = be16 h l"
proof
  assume z: "foldl (crc_byte poly) c [l, h] = 0"
  moreover have "foldl (crc_byte poly) (be16 h l) [l, h] = 0"
    using crc_trailer_zero [of poly "be16 h l"] by simp
  ultimately show "c = be16 h l"
    using foldl_crc_inj [OF assms] by metis
next
  assume "c = be16 h l"
  then show "foldl (crc_byte poly) c [l, h] = 0"
    using crc_trailer_zero [of poly "be16 h l"] by simp
qed

text \<open>
  Two neighbouring bytes: eight steps of a register below 256 never give a register below
  256 again, except from 0, because the same result comes from the shifted register.
\<close>

lemma crc_steps_8_small:
  assumes "bit poly 15" and small: "\<And>n. bit d n \<Longrightarrow> n < 8"
    and res: "\<And>n. bit (crc_steps poly 8 d) n \<Longrightarrow> n < 8"
  shows "d = 0"
proof -
  let ?r = "crc_steps poly 8 d"
  have "crc_steps poly 8 (push_bit 8 ?r) = drop_bit 8 (push_bit 8 ?r)"
    by (rule crc_steps_shift) (simp add: bit_simps)
  also have "\<dots> = ?r"
    by (rule bit_eqI) (auto simp: bit_simps dest: res)
  finally have "push_bit 8 ?r = d"
    using crc_steps_inj [OF assms(1)] by blast
  then have "\<not> bit d n" if "n < 8" for n
    using that by (metis bit_push_bit_iff leD)
  with small show "d = 0" by (intro bit_eqI) auto
qed

lemma crc_byte_pair_inj:
  assumes top: "bit poly 15"
    and eq: "crc_byte poly (crc_byte poly c x) y = crc_byte poly (crc_byte poly c x') y'"
  shows "x = x' \<and> y = y'"
proof -
  let ?d = "ucast x XOR ucast x' :: u16"
  let ?C = "crc_steps poly 8 c" and ?X = "crc_steps poly 8 (ucast x)"
    and ?X' = "crc_steps poly 8 (ucast x')"
  have "(?C XOR ?X) XOR ucast y = (?C XOR ?X') XOR ucast y'"
    using eq crc_steps_inj [OF top] by (simp add: crc_byte_def crc_steps_xor)
  then have "bit ((?C XOR ?X) XOR ucast y) n = bit ((?C XOR ?X') XOR ucast y') n" for n
    by simp
  then have d: "crc_steps poly 8 ?d = ucast y XOR ucast y'"
    by (intro bit_eqI) (auto simp: crc_steps_xor bit_xor_iff)
  have "?d = 0"
  proof (rule crc_steps_8_small [OF top])
    show "n < 8" if "bit ?d n" for n
      using that by (auto simp: bit_xor_iff bit_simps dest: bit_imp_le_length)
    show "n < 8" if "bit (crc_steps poly 8 ?d) n" for n
      using that unfolding d by (auto simp: bit_xor_iff bit_simps dest: bit_imp_le_length)
  qed
  then have "x = x'" by (metis ucast_u8_u16_inject xor_cancel_left xor_self_eq)
  with d have "y = y'" by (metis crc_steps_0 ucast_u8_u16_inject xor_cancel_left xor_self_eq)
  with \<open>x = x'\<close> show ?thesis ..
qed

text \<open>A burst inside two neighbouring bytes changes the CRC of the whole message.\<close>

lemma crc_burst:
  assumes "bit poly 15"
    and "foldl (crc_byte poly) c (pre @ [x, y] @ post) = foldl (crc_byte poly) c (pre @ [x', y'] @ post)"
  shows "x = x' \<and> y = y'"
proof -
  have "crc_byte poly (crc_byte poly (foldl (crc_byte poly) c pre) x) y
      = crc_byte poly (crc_byte poly (foldl (crc_byte poly) c pre) x') y'"
    using assms(2) foldl_crc_inj [OF assms(1)] by simp
  then show ?thesis by (rule crc_byte_pair_inj [OF assms(1)])
qed

section \<open>The contract of a frame check\<close>

text \<open>
  What the builders and the reply handlers rely on: the check of a buffer whose first
  \<open>n\<close> bytes are the message. The circuit breaker and reclosing links put the low byte of
  the CRC first (\<open>crc_le_ok\<close>), the monitor board link the high byte (\<open>crc_be_ok\<close>).
\<close>

definition crc_le_ok :: "(u8 list \<Rightarrow> nat \<Rightarrow> u16) \<Rightarrow> u8 list \<Rightarrow> nat \<Rightarrow> bool" where
  "crc_le_ok crc buf n \<longleftrightarrow> crc buf n = be16 (buf ! (n + 1)) (buf ! n)"

definition crc_be_ok :: "(u8 list \<Rightarrow> nat \<Rightarrow> u16) \<Rightarrow> u8 list \<Rightarrow> nat \<Rightarrow> bool" where
  "crc_be_ok crc buf n \<longleftrightarrow> crc buf n = be16 (buf ! n) (buf ! (n + 1))"

definition with_crc_le :: "(u8 list \<Rightarrow> nat \<Rightarrow> u16) \<Rightarrow> u8 list \<Rightarrow> u8 list" where
  "with_crc_le crc msg = msg @ [lo8 (crc msg (length msg)), hi8 (crc msg (length msg))]"

definition with_crc_be :: "(u8 list \<Rightarrow> nat \<Rightarrow> u16) \<Rightarrow> u8 list \<Rightarrow> u8 list" where
  "with_crc_be crc msg = msg @ [hi8 (crc msg (length msg)), lo8 (crc msg (length msg))]"

lemma length_with_crc [simp]:
  "length (with_crc_le crc msg) = length msg + 2" "length (with_crc_be crc msg) = length msg + 2"
  by (simp_all add: with_crc_le_def with_crc_be_def)

locale frame_check =
  fixes crc :: "u8 list \<Rightarrow> nat \<Rightarrow> u16"
  assumes crc_prefix: "0 < n \<Longrightarrow> take n xs = take n ys \<Longrightarrow> crc xs n = crc ys n"
    and crc_pair: "length pre + 2 + length post = n \<Longrightarrow>
      crc (pre @ [x, y] @ post) n = crc (pre @ [x', y'] @ post) n \<Longrightarrow> x = x' \<and> y = y'"
begin

lemma crc_own: "msg \<noteq> [] \<Longrightarrow> crc (msg @ rest) (length msg) = crc msg (length msg)"
  by (rule crc_prefix) simp_all

lemma own_frame_le: "msg \<noteq> [] \<Longrightarrow> crc_le_ok crc (with_crc_le crc msg @ rest) (length msg)"
  by (simp add: crc_le_ok_def with_crc_le_def crc_own nth_append)

lemma own_frame_be: "msg \<noteq> [] \<Longrightarrow> crc_be_ok crc (with_crc_be crc msg @ rest) (length msg)"
  by (simp add: crc_be_ok_def with_crc_be_def crc_own nth_append)

lemma pair_changes_crc:
  assumes "length pre + 2 + length post = n" and "(x', y') \<noteq> (x, y)"
  shows "crc (pre @ [x, y] @ post @ t) n \<noteq> crc (pre @ [x', y'] @ post @ t) n"
proof
  assume eq: "crc (pre @ [x, y] @ post @ t) n = crc (pre @ [x', y'] @ post @ t) n"
  have cut: "crc (pre @ [u, v] @ post @ t) n = crc (pre @ [u, v] @ post) n" for u v
    by (rule crc_prefix) (use assms(1) in auto)
  show False
    using crc_pair [OF assms(1), where x = x and y = y and x' = x' and y' = y'] eq cut [of x y] cut [of x' y'] assms(2) by auto
qed

lemma nth_after_pair:
  "length pre + 2 + length post \<le> i \<Longrightarrow>
     (pre @ [x, y] @ post @ t) ! i = (pre @ [x', y'] @ post @ t) ! i"
  by (simp add: nth_append nth_Cons')

lemma burst_rejected_le:
  assumes "length pre + 2 + length post = n" and "(x', y') \<noteq> (x, y)"
    and "crc_le_ok crc (pre @ [x, y] @ post @ t) n"
  shows "\<not> crc_le_ok crc (pre @ [x', y'] @ post @ t) n"
  using pair_changes_crc [OF assms(1,2), where t = t] assms(3) nth_after_pair [where i = n and pre = pre and post = post and t = t and x = x and y = y and x' = x' and y' = y']
    nth_after_pair [where i = "n + 1" and pre = pre and post = post and t = t and x = x and y = y and x' = x' and y' = y'] assms(1)
  by (simp add: crc_le_ok_def)

lemma burst_rejected_be:
  assumes "length pre + 2 + length post = n" and "(x', y') \<noteq> (x, y)"
    and "crc_be_ok crc (pre @ [x, y] @ post @ t) n"
  shows "\<not> crc_be_ok crc (pre @ [x', y'] @ post @ t) n"
  using pair_changes_crc [OF assms(1,2), where t = t] assms(3) nth_after_pair [where i = n and pre = pre and post = post and t = t and x = x and y = y and x' = x' and y' = y']
    nth_after_pair [where i = "n + 1" and pre = pre and post = post and t = t and x = x and y = y and x' = x' and y' = y'] assms(1)
  by (simp add: crc_be_ok_def)

end

lemma crc16_with_prefix:
  "0 < n \<Longrightarrow> take n xs = take n ys \<Longrightarrow> crc16_with poly xs n = crc16_with poly ys n"
  by (simp add: crc16_with_def)

lemma crc16_with_pair:
  "bit poly 15 \<Longrightarrow> length pre + 2 + length post = n \<Longrightarrow>
     crc16_with poly (pre @ [x, y] @ post) n = crc16_with poly (pre @ [x', y'] @ post) n \<Longrightarrow>
     x = x' \<and> y = y'"
  by (rule crc_burst [where poly = poly and c = "0xffff" and pre = pre and post = post])
    (auto simp: crc16_with_def)

lemmas crc16_laws = crc16_with_prefix crc16_with_pair [OF poly_A001_top]

interpretation mb: frame_check modbus_crc16
  by unfold_locales (simp_all only: modbus_crc16_def, (rule crc16_laws; assumption)+)

interpretation cb: frame_check circuit_breaker_modbus_crc16
  by unfold_locales (simp_all only: circuit_breaker_modbus_crc16_def, (rule crc16_laws; assumption)+)

interpretation ac: frame_check autoeclosing_modbus_crc16
  by unfold_locales (simp_all only: autoeclosing_modbus_crc16_def, (rule crc16_laws; assumption)+)

end
