(* ===== verification/Cb_Registers.thy ===== *)
theory Cb_Registers
  imports Modbus_Crc
begin

text \<open>
  The register images of a circuit breaker (\<^verbatim>\<open>cb_reg_input\<close>, \<^verbatim>\<open>cb_reg_holding\<close> and
  \<^verbatim>\<open>cb_reg_discrete\<close> of \<^verbatim>\<open>app/circuit_breaker_rs485_handle.h\<close>) and the assignments between
  them and the wire that \<^verbatim>\<open>read_hold_handle\<close>, \<^verbatim>\<open>write_hold_send_data\<close> and
  \<^verbatim>\<open>read_input_register_handle\<close> make (\<^verbatim>\<open>app/circuit_breaker_rs485_handle.c\<close>).

  A C struct whose fields all have one type is a function from its field names; the input
  image has one such function per width. The assignment lists carry the buffer indices of
  the source, statement by statement, in the source's order.
\<close>

section \<open>Registers\<close>

datatype hold_reg =
    REG1_RATED_CURRENT | REG1_SPUV | REG1_SPUVP | REG1_SPOV | REG1_SPOVP
  | REG1_SPVC | REG1_SPVCP | REG1_SPOT | REG1_SPOTP | REG1_SLEAKAGE
  | REG1_SLEAKAGEP | REG1_OL | REG1_OLP | REG1_OP | REG1_OPP
  | REG1_UVA | REG1_UVAP | REG1_UVB | REG1_UVBP | REG1_UVC
  | REG1_UVCP | REG1_OVA | REG1_OVAP | REG1_OVB | REG1_OVBP
  | REG1_OVC | REG1_OVCP | REG1_OCA | REG1_OCA_BK | REG1_OCAP
  | REG1_OCAP_BK | REG1_OCB | REG1_OCB_BK | REG1_OCBP | REG1_OCBP_BK
  | REG1_OCC | REG1_OCC_BK | REG1_OCCP | REG1_OCCP_BK | REG1_OTA
  | REG1_OTAP | REG1_OTB | REG1_OTBP | REG1_OTC | REG1_OTCP
  | REG1_OTN | REG1_OTNP | REG1_UBL | REG1_UBLP

datatype in_reg16 =
    REG0_ROCKER_SW | REG0_TYPE | REG0_VER | REG0_SPV | REG0_SPTEMP
  | REG0_LEAKAGE_C | REG0_TEMPINT | REG0_RATED_C | REG0_RSV | REG0_VA
  | REG0_VB | REG0_VC | REG0_VAVG | REG0_TEMPA | REG0_TEMPB
  | REG0_TEMPC | REG0_TEMPN | REG0_SPARK | REG0_NO_NLINE | REG0_OVER_HARMONIC
  | REG0_OPERATOR | REG0_FREQ | REG0_ALARM_MAP1 | REG0_ALARM_MAP2 | REG0_ALARM_MAP3

datatype in_reg32 =
    REG0_SPC | REG0_SPP | REG0_SPQ | REG0_SPS | REG0_AC
  | REG0_BC | REG0_CC | REG0_NC | REG0_PA | REG0_PB
  | REG0_PC | REG0_QA | REG0_QB | REG0_QC | REG0_SA
  | REG0_SB | REG0_SC

datatype in_reg64 =
    REG0_SPSE | REG0_SEA | REG0_SEB | REG0_SEC | REG0_SESTA
  | REG0_AE | REG0_AEA | REG0_AEB | REG0_AEC | REG0_RAE
  | REG0_RAEA | REG0_RAEB | REG0_RAEC

type_synonym cb_reg_holding = "hold_reg \<Rightarrow> u16"

record cb_reg_input =
  in16 :: "in_reg16 \<Rightarrow> u16"
  in32 :: "in_reg32 \<Rightarrow> u32"
  in64 :: "in_reg64 \<Rightarrow> u64"

record cb_reg_discrete =
  discrete1 :: u8
  discrete2 :: u8
  discrete3 :: u8
  discrete4 :: u8
  discrete5 :: u8
  discrete6 :: u8
  discrete7 :: u8
  discrete8 :: u8

text \<open>The images after the \<^verbatim>\<open>memset\<close> of the control thread.\<close>

definition reg_hold_zero :: cb_reg_holding where "reg_hold_zero = (\<lambda>_. 0)"

definition reg_in_zero :: cb_reg_input where
  "reg_in_zero = \<lparr>in16 = (\<lambda>_. 0), in32 = (\<lambda>_. 0), in64 = (\<lambda>_. 0)\<rparr>"

definition reg_discrete_zero :: cb_reg_discrete where
  "reg_discrete_zero = \<lparr>discrete1 = 0, discrete2 = 0, discrete3 = 0, discrete4 = 0,
     discrete5 = 0, discrete6 = 0, discrete7 = 0, discrete8 = 0\<rparr>"

section \<open>C expressions of the decoding\<close>

text \<open>
  \<^verbatim>\<open>(uint32_t)(b[i]<<24)+(uint32_t)(b[i+1]<<16)+...\<close> is the big-endian word \<^const>\<open>be32\<close>.
  In the 64 bit expression the lower four bytes are shifted as \<^verbatim>\<open>int\<close> and only then
  converted, so the fifth byte, shifted by 24, is sign-extended.
\<close>

definition c_u64 :: "u8 \<Rightarrow> u8 \<Rightarrow> u8 \<Rightarrow> u8 \<Rightarrow> u8 \<Rightarrow> u8 \<Rightarrow> u8 \<Rightarrow> u8 \<Rightarrow> u64" where
  "c_u64 a b c d e f g h =
     push_bit 56 (ucast a) + push_bit 48 (ucast b) + push_bit 40 (ucast c) + push_bit 32 (ucast d)
     + scast (push_bit 24 (ucast e) :: u32) + scast (push_bit 16 (ucast f) :: u32)
     + scast (push_bit 8 (ucast g) :: u32) + ucast h"

definition be64 :: "u8 \<Rightarrow> u8 \<Rightarrow> u8 \<Rightarrow> u8 \<Rightarrow> u8 \<Rightarrow> u8 \<Rightarrow> u8 \<Rightarrow> u8 \<Rightarrow> u64" where
  "be64 a b c d e f g h =
     push_bit 56 (ucast a) + push_bit 48 (ucast b) + push_bit 40 (ucast c) + push_bit 32 (ucast d)
     + push_bit 24 (ucast e) + push_bit 16 (ucast f) + push_bit 8 (ucast g) + ucast h"

section \<open>The assignments between registers and wire\<close>

text \<open>Register, index of the high byte, index of the low byte.\<close>

definition hold_read_map :: "(hold_reg \<times> nat \<times> nat) list" where
  "hold_read_map = [
    (REG1_RATED_CURRENT, 3, 4), (REG1_SPUV, 5, 6), (REG1_SPUVP, 7, 8),
    (REG1_SPOV, 9, 10), (REG1_SPOVP, 11, 12), (REG1_SPVC, 13, 14),
    (REG1_SPVCP, 15, 16), (REG1_SPOT, 17, 18), (REG1_SPOTP, 19, 20),
    (REG1_SLEAKAGE, 21, 22), (REG1_SLEAKAGEP, 23, 24), (REG1_OL, 25, 26),
    (REG1_OLP, 27, 28), (REG1_OP, 29, 30), (REG1_OPP, 31, 32),
    (REG1_UVA, 33, 34), (REG1_UVAP, 35, 36), (REG1_UVB, 37, 38),
    (REG1_UVBP, 39, 40), (REG1_UVC, 41, 42), (REG1_UVCP, 43, 44),
    (REG1_OVA, 45, 46), (REG1_OVAP, 47, 48), (REG1_OVB, 49, 50),
    (REG1_OVBP, 51, 52), (REG1_OVC, 53, 54), (REG1_OVCP, 55, 56),
    (REG1_OCA, 57, 58), (REG1_OCA_BK, 59, 60), (REG1_OCAP, 61, 62),
    (REG1_OCAP_BK, 63, 64), (REG1_OCB, 65, 66), (REG1_OCB_BK, 67, 68),
    (REG1_OCBP, 69, 70), (REG1_OCBP_BK, 71, 72), (REG1_OCC, 73, 74),
    (REG1_OCC_BK, 75, 76), (REG1_OCCP, 77, 78), (REG1_OCCP_BK, 79, 80),
    (REG1_OTA, 81, 82), (REG1_OTAP, 83, 84), (REG1_OTB, 85, 86),
    (REG1_OTBP, 87, 88), (REG1_OTC, 89, 90), (REG1_OTCP, 91, 92),
    (REG1_OTN, 93, 94), (REG1_OTNP, 95, 96), (REG1_UBL, 97, 98),
    (REG1_UBLP, 99, 100)]"

definition hold_write_map :: "(hold_reg \<times> nat \<times> nat) list" where
  "hold_write_map = [
    (REG1_SPUV, 7, 8), (REG1_SPUVP, 9, 10), (REG1_SPOV, 11, 12),
    (REG1_SPOVP, 13, 14), (REG1_SPVC, 15, 16), (REG1_SPVCP, 17, 18),
    (REG1_SPOT, 19, 20), (REG1_SPOTP, 21, 22), (REG1_SLEAKAGE, 23, 24),
    (REG1_SLEAKAGEP, 25, 26), (REG1_OL, 27, 28), (REG1_OLP, 29, 30),
    (REG1_OP, 31, 32), (REG1_OPP, 33, 34), (REG1_UVA, 35, 36),
    (REG1_UVAP, 37, 38), (REG1_UVB, 39, 40), (REG1_UVBP, 41, 42),
    (REG1_UVC, 43, 44), (REG1_UVCP, 45, 46), (REG1_OVA, 47, 48),
    (REG1_OVAP, 49, 50), (REG1_OVB, 51, 52), (REG1_OVBP, 53, 54),
    (REG1_OVC, 55, 56), (REG1_OVCP, 57, 58), (REG1_OCA, 59, 60),
    (REG1_OCA_BK, 61, 62), (REG1_OCAP, 63, 64), (REG1_OCAP_BK, 65, 66),
    (REG1_OCB, 67, 68), (REG1_OCB_BK, 69, 70), (REG1_OCBP, 71, 72),
    (REG1_OCBP_BK, 73, 74), (REG1_OCC, 75, 76), (REG1_OCC_BK, 77, 78),
    (REG1_OCCP, 79, 80), (REG1_OCCP_BK, 81, 82), (REG1_OTA, 83, 84),
    (REG1_OTAP, 85, 86), (REG1_OTB, 87, 88), (REG1_OTBP, 89, 90),
    (REG1_OTC, 91, 92), (REG1_OTCP, 93, 94), (REG1_OTN, 95, 96),
    (REG1_OTNP, 97, 98), (REG1_UBL, 99, 100), (REG1_UBLP, 101, 102)]"

text \<open>
  Input registers: the index is that of the first byte (the expressions use consecutive
  bytes). \<^verbatim>\<open>REG0_NC\<close> is a 32 bit field assigned from a 16 bit expression.
\<close>

datatype in_assign =
    In16 in_reg16 nat nat
  | In32of16 in_reg32 nat nat
  | In32 in_reg32 nat
  | In64 in_reg64 nat

definition in_read_map :: "in_assign list" where
  "in_read_map = [
    In16 REG0_ROCKER_SW 3 4, In16 REG0_TYPE 5 6, In16 REG0_VER 7 8,
    In32 REG0_SPC 9, In16 REG0_SPV 13 14, In32 REG0_SPP 15,
    In32 REG0_SPQ 19, In32 REG0_SPS 23, In64 REG0_SPSE 27,
    In16 REG0_SPTEMP 35 36, In16 REG0_LEAKAGE_C 37 38, In16 REG0_TEMPINT 39 40,
    In32 REG0_AC 41, In32 REG0_BC 45, In32 REG0_CC 49,
    In32of16 REG0_NC 53 54, In16 REG0_RATED_C 55 56, In16 REG0_RSV 57 58,
    In16 REG0_VA 59 60, In16 REG0_VB 61 62, In16 REG0_VC 63 64,
    In16 REG0_VAVG 65 66, In32 REG0_PA 67, In32 REG0_PB 71,
    In32 REG0_PC 75, In32 REG0_QA 79, In32 REG0_QB 83,
    In32 REG0_QC 87, In32 REG0_SA 91, In32 REG0_SB 95,
    In32 REG0_SC 99, In64 REG0_SEA 103, In64 REG0_SEB 111,
    In64 REG0_SEC 119, In64 REG0_SESTA 127, In16 REG0_TEMPA 135 136,
    In16 REG0_TEMPB 137 138, In16 REG0_TEMPC 139 140, In16 REG0_TEMPN 141 142,
    In16 REG0_SPARK 143 144, In16 REG0_NO_NLINE 145 146, In16 REG0_OVER_HARMONIC 147 148,
    In16 REG0_OPERATOR 149 150, In64 REG0_AE 151, In64 REG0_AEA 159,
    In64 REG0_AEB 167, In64 REG0_AEC 175, In64 REG0_RAE 183,
    In64 REG0_RAEA 191, In64 REG0_RAEB 199, In64 REG0_RAEC 207,
    In16 REG0_FREQ 215 216, In16 REG0_ALARM_MAP1 217 218, In16 REG0_ALARM_MAP2 219 220,
    In16 REG0_ALARM_MAP3 221 222]"

definition hold_decode :: "u8 list \<Rightarrow> cb_reg_holding \<Rightarrow> cb_reg_holding" where
  "hold_decode rx regs =
     foldl (\<lambda>r (f, hi, lo). r(f := be16 (rx ! hi) (rx ! lo))) regs hold_read_map"

definition hold_encode :: "cb_reg_holding \<Rightarrow> u8 list \<Rightarrow> u8 list" where
  "hold_encode regs tx =
     foldl (\<lambda>t (f, hi, lo). (t[hi := hi8 (regs f)])[lo := lo8 (regs f)]) tx hold_write_map"

fun in_step :: "u8 list \<Rightarrow> cb_reg_input \<Rightarrow> in_assign \<Rightarrow> cb_reg_input" where
  "in_step rx r (In16 f hi lo) = r\<lparr>in16 := (in16 r)(f := be16 (rx ! hi) (rx ! lo))\<rparr>"
| "in_step rx r (In32of16 f hi lo) = r\<lparr>in32 := (in32 r)(f := ucast (be16 (rx ! hi) (rx ! lo)))\<rparr>"
| "in_step rx r (In32 f i) =
     r\<lparr>in32 := (in32 r)(f := be32 (rx ! i) (rx ! (i + 1)) (rx ! (i + 2)) (rx ! (i + 3)))\<rparr>"
| "in_step rx r (In64 f i) =
     r\<lparr>in64 := (in64 r)(f := c_u64 (rx ! i) (rx ! (i + 1)) (rx ! (i + 2)) (rx ! (i + 3))
        (rx ! (i + 4)) (rx ! (i + 5)) (rx ! (i + 6)) (rx ! (i + 7)))\<rparr>"

definition in_decode :: "u8 list \<Rightarrow> cb_reg_input \<Rightarrow> cb_reg_input" where
  "in_decode rx regs = foldl (in_step rx) regs in_read_map"

section \<open>Properties of the tables\<close>

definition triple_bytes :: "(hold_reg \<times> nat \<times> nat) list \<Rightarrow> nat list" where
  "triple_bytes xs = concat (map (\<lambda>(f, hi, lo). [hi, lo]) xs)"

fun in_bytes :: "in_assign \<Rightarrow> nat list" where
  "in_bytes (In16 f hi lo) = [hi, lo]"
| "in_bytes (In32of16 f hi lo) = [hi, lo]"
| "in_bytes (In32 f i) = [i..<i + 4]"
| "in_bytes (In64 f i) = [i..<i + 8]"

text \<open>Every table reads or writes a contiguous block of the frame, each byte once, in order.\<close>

lemma hold_read_bytes: "triple_bytes hold_read_map = [3..<101]"
  by (simp add: triple_bytes_def hold_read_map_def)

lemma hold_write_bytes: "triple_bytes hold_write_map = [7..<103]"
  by (simp add: triple_bytes_def hold_write_map_def)

lemma in_read_bytes: "concat (map in_bytes in_read_map) = [3..<223]"
  by (simp add: in_read_map_def)

lemma triple_bytes_Cons [simp]: "triple_bytes ((f, hi, lo) # xs) = hi # lo # triple_bytes xs"
  by (simp add: triple_bytes_def)

lemma triple_bytes_mem: "(f, hi, lo) \<in> set xs \<Longrightarrow> hi \<in> set (triple_bytes xs) \<and> lo \<in> set (triple_bytes xs)"
  by (force simp: triple_bytes_def)

lemma hold_write_range:
  "(f, hi, lo) \<in> set hold_write_map \<Longrightarrow> 7 \<le> hi \<and> hi < 103 \<and> 7 \<le> lo \<and> lo < 103"
  by (drule triple_bytes_mem) (simp only: hold_write_bytes set_upt atLeastLessThan_iff)

lemma hold_read_range:
  "(f, hi, lo) \<in> set hold_read_map \<Longrightarrow> 3 \<le> hi \<and> hi < 101 \<and> 3 \<le> lo \<and> lo < 101"
  by (drule triple_bytes_mem) (simp only: hold_read_bytes set_upt atLeastLessThan_iff)

text \<open>The write request carries the registers of the read reply but the first, two bytes later.\<close>

lemma hold_maps_agree:
  "hold_read_map =
     (REG1_RATED_CURRENT, 3, 4) # map (\<lambda>(f, hi, lo). (f, hi - 2, lo - 2)) hold_write_map"
  by (simp add: hold_read_map_def hold_write_map_def)

lemma distinct_hold_read: "distinct (map fst hold_read_map)"
  by (simp add: hold_read_map_def)

lemma hold_read_complete: "\<exists>hi lo. (f, hi, lo) \<in> set hold_read_map"
  by (cases f) (simp_all add: hold_read_map_def)

section \<open>Decoding and encoding\<close>

lemma foldl_fun_upd_other:
  "f \<notin> fst ` set xs \<Longrightarrow> foldl (\<lambda>r (f, hi, lo). r(f := g hi lo)) r0 xs f = r0 f"
  by (induction xs arbitrary: r0) auto

lemma foldl_fun_upd:
  "distinct (map fst xs) \<Longrightarrow> (f, hi, lo) \<in> set xs \<Longrightarrow>
     foldl (\<lambda>r (f, hi, lo). r(f := g hi lo)) r0 xs f = g hi lo"
proof (induction xs arbitrary: r0)
  case (Cons x xs)
  then show ?case
    by (cases x) (auto simp: foldl_fun_upd_other fun_upd_same simp del: fun_upd_apply)
qed simp

lemma hold_decode_nth:
  "(f, hi, lo) \<in> set hold_read_map \<Longrightarrow> hold_decode rx regs f = be16 (rx ! hi) (rx ! lo)"
  unfolding hold_decode_def by (rule foldl_fun_upd [OF distinct_hold_read])

lemma foldl_put_other:
  "i \<notin> set (triple_bytes xs) \<Longrightarrow>
     foldl (\<lambda>t (f, hi, lo). (t[hi := a f])[lo := b f]) t xs ! i = t ! i"
  by (induction xs arbitrary: t) auto

lemma length_foldl_put [simp]:
  "length (foldl (\<lambda>t (f, hi, lo). (t[hi := a f])[lo := b f]) t xs) = length t"
  by (induction xs arbitrary: t) auto

lemma foldl_put:
  "distinct (triple_bytes xs) \<Longrightarrow> (\<forall>i \<in> set (triple_bytes xs). i < length t) \<Longrightarrow>
     (f, hi, lo) \<in> set xs \<Longrightarrow>
     foldl (\<lambda>t (f, hi, lo). (t[hi := a f])[lo := b f]) t xs ! hi = a f \<and>
     foldl (\<lambda>t (f, hi, lo). (t[hi := a f])[lo := b f]) t xs ! lo = b f"
proof (induction xs arbitrary: t)
  case (Cons x xs)
  obtain f' hi' lo' where x: "x = (f', hi', lo')" by (cases x) auto
  show ?case
  proof (cases "(f, hi, lo) = x")
    case True
    with Cons.prems x show ?thesis by (simp add: foldl_put_other)
  next
    case False
    with Cons.prems x show ?thesis
      by (simp only: foldl_Cons prod.case) (rule Cons.IH, auto)
  qed
qed simp

lemma length_hold_encode [simp]: "length (hold_encode regs tx) = length tx"
  by (simp add: hold_encode_def)

lemma hold_encode_nth:
  assumes "(f, hi, lo) \<in> set hold_write_map" and "103 \<le> length tx"
  shows "hold_encode regs tx ! hi = hi8 (regs f)" "hold_encode regs tx ! lo = lo8 (regs f)"
proof -
  have "distinct (triple_bytes hold_write_map)" "\<forall>i \<in> set (triple_bytes hold_write_map). i < length tx"
    using assms(2) by (simp_all only: hold_write_bytes distinct_upt set_upt atLeastLessThan_iff Ball_def) auto
  from foldl_put [OF this assms(1)]
  show "hold_encode regs tx ! hi = hi8 (regs f)" "hold_encode regs tx ! lo = lo8 (regs f)"
    by (simp_all add: hold_encode_def)
qed

lemma hold_encode_low: "i < 7 \<Longrightarrow> hold_encode regs tx ! i = tx ! i"
  unfolding hold_encode_def by (rule foldl_put_other) (simp only: hold_write_bytes set_upt atLeastLessThan_iff, arith)

text \<open>
  A slave that stores the 96 payload bytes of a write request and sends them back in a read
  reply gives every writable register back.
\<close>

lemma hold_write_read:
  assumes "103 \<le> length tx" and echo: "\<And>k. k < 96 \<Longrightarrow> rx ! (5 + k) = hold_encode regs tx ! (7 + k)"
    and "f \<noteq> REG1_RATED_CURRENT"
  shows "hold_decode rx old f = regs f"
proof -
  obtain hi lo where m: "(f, hi, lo) \<in> set hold_read_map" using hold_read_complete by blast
  with assms(3) obtain h l where w: "(f, h, l) \<in> set hold_write_map" "hi = h - 2" "lo = l - 2"
    by (auto simp: hold_maps_agree)
  note r = hold_write_range [OF w(1)]
  have "rx ! hi = hold_encode regs tx ! h" "rx ! lo = hold_encode regs tx ! l"
    using echo [of "h - 7"] echo [of "l - 7"] r w by (simp_all add: less_diff_conv2)
  then show ?thesis
    using hold_decode_nth [OF m, of rx old] hold_encode_nth [OF w(1) assms(1), of regs] by simp
qed

section \<open>The 64 bit expression\<close>

lemma bit_scast_u32_u64:
  "bit (scast (w :: u32) :: u64) n \<longleftrightarrow> n < 64 \<and> (if n < 32 then bit w n else bit w 31)"
  by (cases "n < 31"; cases "n = 31") (auto simp: bit_simps min_def)

lemma scast_u32_pos: "\<not> bit w 31 \<Longrightarrow> (scast (w :: u32) :: u64) = ucast w"
  by (rule bit_eqI) (auto simp: bit_scast_u32_u64 bit_simps dest: bit_imp_le_length)

lemma scast_u32_neg: "bit w 31 \<Longrightarrow> (scast (w :: u32) :: u64) = ucast w - 2 ^ 32"
proof -
  assume "bit w 31"
  have "(ucast w :: u64) AND push_bit 32 (mask 32) = 0"
    by (rule bit_eqI) (auto simp: bit_simps dest: bit_imp_le_length)
  then have "(ucast w :: u64) + push_bit 32 (mask 32) = ucast w OR push_bit 32 (mask 32)"
    by (rule disjunctive_add_eq_or)
  also have "\<dots> = scast w"
    using \<open>bit w 31\<close> by (intro bit_eqI) (auto simp: bit_scast_u32_u64 bit_simps dest: bit_imp_le_length)
  finally have "(scast w :: u64) = ucast w + push_bit 32 (mask 32)" by simp
  also have "push_bit 32 (mask 32) = (- (2 ^ 32) :: u64)" by (simp add: mask_eq_exp_minus_1 push_bit_eq_mult)
  finally show ?thesis by simp
qed

lemma c_u64_eq:
  "c_u64 a b c d e f g h = be64 a b c d e f g h - (if 128 \<le> unat e then 2 ^ 32 else 0)"
proof -
  have small: "\<not> bit (push_bit 16 (ucast f) :: u32) 31" "\<not> bit (push_bit 8 (ucast g) :: u32) 31"
    by (auto simp: bit_simps dest: bit_imp_le_length)
  have up: "(ucast (push_bit k (ucast (x :: u8)) :: u32) :: u64) = push_bit k (ucast x)" if "k \<le> 24" for k x
    using that by (intro bit_eqI) (auto simp: bit_simps dest: bit_imp_le_length)
  have e7: "128 \<le> unat e \<longleftrightarrow> bit e 7"
    by (rule unat_ge_128_iff)
  show ?thesis
    by (cases "bit (push_bit 24 (ucast e) :: u32) 31")
       (auto simp: c_u64_def be64_def scast_u32_pos [OF small(1)] scast_u32_pos [OF small(2)]
          scast_u32_pos scast_u32_neg up e7 bit_simps)
qed

end
