(* ===== verification/Uart_Receiver.thy ===== *)
theory Uart_Receiver
  imports Gateway_Prelude
begin

text \<open>
  What the three RS485 masters share: the interrupts of a USART, time as a list of ticks (the
  interrupts that arrive during one sleep; after the end of the list the line is quiet), and
  the interface of a receiver that appends bytes to a buffer of \<open>N\<close> bytes. The locale proves
  once that such a receiver stays inside its buffer exactly up to \<open>N\<close> bytes; the masters
  interpret it on their interrupt callbacks.
\<close>

datatype uart_irq = RxFull u8 | RxError | RxTimeout

type_synonym ticks = "uart_irq list list"

fun tick_now :: "ticks \<Rightarrow> uart_irq list" where
  "tick_now [] = []"
| "tick_now (t # ts) = t"

fun run_irqs :: "(uart_irq \<Rightarrow> 's \<Rightarrow> 's option) \<Rightarrow> uart_irq list \<Rightarrow> 's \<Rightarrow> 's option" where
  "run_irqs irq [] s = Some s"
| "run_irqs irq (i # is) s = do { s \<leftarrow> irq i s; run_irqs irq is s }"

fun rx_bytes :: "uart_irq list \<Rightarrow> u8 list" where
  "rx_bytes [] = []"
| "rx_bytes (RxFull b # is) = b # rx_bytes is"
| "rx_bytes (RxError # is) = rx_bytes is"
| "rx_bytes (RxTimeout # is) = rx_bytes is"

lemma rx_bytes_append [simp]: "rx_bytes (xs @ ys) = rx_bytes xs @ rx_bytes ys"
  by (induction xs rule: rx_bytes.induct) simp_all

lemma rx_bytes_map_RxFull [simp]: "rx_bytes (map RxFull bs) = bs"
  by (induction bs) simp_all

text \<open>A frame arriving in one tick, followed by the receive timeout.\<close>

definition answer :: "u8 list \<Rightarrow> uart_irq list" where
  "answer bs = map RxFull bs @ [RxTimeout]"

lemma rx_bytes_answer [simp]: "rx_bytes (answer bs) = bs"
  by (simp add: answer_def)

lemma RxTimeout_in_answer [simp]: "RxTimeout \<in> set (answer bs)"
  by (simp add: answer_def)

locale uart_receiver =
  fixes irq :: "uart_irq \<Rightarrow> 's \<Rightarrow> 's option" and ready :: "'s \<Rightarrow> bool"
    and buf :: "'s \<Rightarrow> u8 list" and cnt :: "'s \<Rightarrow> nat" and N :: nat
  assumes store: "ready s \<Longrightarrow> length (buf s) = N \<Longrightarrow> cnt s < N \<Longrightarrow>
      \<exists>t. irq (RxFull b) s = Some t \<and> ready t \<and> buf t = (buf s)[cnt s := b] \<and> cnt t = cnt s + 1"
    and overflow: "ready s \<Longrightarrow> length (buf s) = N \<Longrightarrow> cnt s = N \<Longrightarrow> irq (RxFull b) s = None"
    and other: "ready s \<Longrightarrow> i = RxError \<or> i = RxTimeout \<Longrightarrow>
      \<exists>t. irq i s = Some t \<and> ready t \<and> buf t = buf s \<and> cnt t = cnt s"
begin

lemma fill:
  "ready s \<Longrightarrow> length (buf s) = N \<Longrightarrow> cnt s + length (rx_bytes is) \<le> N \<Longrightarrow>
     \<exists>t. run_irqs irq is s = Some t \<and> ready t \<and> buf t = buf_write (buf s) (cnt s) (rx_bytes is) \<and>
       cnt t = cnt s + length (rx_bytes is)"
proof (induction "is" arbitrary: s rule: rx_bytes.induct)
  case (2 b "is")
  from "2.prems" obtain t where t: "irq (RxFull b) s = Some t" "ready t"
      "buf t = (buf s)[cnt s := b]" "cnt t = cnt s + 1"
    using store [of s b] by auto
  with "2.prems" "2.IH" [of t] show ?case by (auto simp: buf_write_step)
next
  case (3 "is")
  then obtain t where "irq RxError s = Some t" "ready t" "buf t = buf s" "cnt t = cnt s"
    using other by blast
  with "3.prems" "3.IH" [of t] show ?case by auto
next
  case (4 "is")
  then obtain t where "irq RxTimeout s = Some t" "ready t" "buf t = buf s" "cnt t = cnt s"
    using other by blast
  with "4.prems" "4.IH" [of t] show ?case by auto
qed auto

lemma overrun:
  "ready s \<Longrightarrow> length (buf s) = N \<Longrightarrow> cnt s \<le> N \<Longrightarrow> N < cnt s + length (rx_bytes is) \<Longrightarrow>
     run_irqs irq is s = None"
proof (induction "is" arbitrary: s rule: rx_bytes.induct)
  case (2 b "is")
  show ?case
  proof (cases "cnt s = N")
    case True
    then show ?thesis using overflow "2.prems" by simp
  next
    case False
    with "2.prems" obtain t where t: "irq (RxFull b) s = Some t" "ready t"
        "buf t = (buf s)[cnt s := b]" "cnt t = cnt s + 1"
      using store [of s b] by auto
    with "2.prems" "2.IH" [of t] False show ?thesis by simp
  qed
next
  case (3 "is")
  then obtain t where "irq RxError s = Some t" "ready t" "buf t = buf s" "cnt t = cnt s"
    using other by blast
  with "3.prems" "3.IH" [of t] show ?case by simp
next
  case (4 "is")
  then obtain t where "irq RxTimeout s = Some t" "ready t" "buf t = buf s" "cnt t = cnt s"
    using other by blast
  with "4.prems" "4.IH" [of t] show ?case by simp
qed simp

theorem bounds:
  assumes "ready s" and "length (buf s) = N" and "cnt s \<le> N"
  shows "run_irqs irq is s = None \<longleftrightarrow> N < cnt s + length (rx_bytes is)"
  using fill [OF assms(1,2), of "is"] overrun [OF assms, of "is"] by (metis not_less option.distinct(1))

end

end
