(* ===== verification/Circuit_Breaker.thy ===== *)
theory Circuit_Breaker
  imports Device_Data Cb_Registers Uart_Receiver
begin

text \<open>
  The Modbus master of the circuit breakers (\<^verbatim>\<open>app/circuit_breaker_rs485_handle.c\<close>): the
  interrupt callbacks that fill the receive buffer, the request builders, the reply
  handlers and one iteration of \<^verbatim>\<open>circuit_breaker_control_thread\<close>.

  Time is a list of ticks: the element for one \<^verbatim>\<open>os_thread_sleep\<close> is the list of interrupts
  that arrive during it; after the end of the list the line is quiet. Interrupts arrive only
  while the thread sleeps. \<^const>\<open>None\<close> is undefined behaviour: an access outside an array.
\<close>

section \<open>State\<close>

record cb_state =
  circuit_timeout_flag :: u8
  circuit_rx_cnt :: u16
  circuit_breaker_rx_buf :: "u8 list"
  circuit_breaker_tx_buf :: "u8 list"
  reg_in :: "cb_reg_input list"
  reg_hold :: "cb_reg_holding list"
  reg_discrete :: "cb_reg_discrete list"
  device_data :: sys_type
  usart_out :: "u8 list list" \<comment> \<open>the frames given to the USART\<close>

definition wf_cb :: "cb_state \<Rightarrow> bool" where
  "wf_cb s \<longleftrightarrow> length (circuit_breaker_rx_buf s) = 300 \<and> length (circuit_breaker_tx_buf s) = 300 \<and>
     length (reg_in s) = CIRCUIT_BREAKER_MAX_NUM \<and> length (reg_hold s) = CIRCUIT_BREAKER_MAX_NUM \<and>
     length (reg_discrete s) = CIRCUIT_BREAKER_MAX_NUM \<and> wf_device (device_data s)"

text \<open>The zero-initialised globals.\<close>

definition cb_state_init :: cb_state where
  "cb_state_init = \<lparr>circuit_timeout_flag = 0, circuit_rx_cnt = 0, circuit_breaker_rx_buf = zeros 300,
     circuit_breaker_tx_buf = zeros 300, reg_in = replicate CIRCUIT_BREAKER_MAX_NUM reg_in_zero,
     reg_hold = replicate CIRCUIT_BREAKER_MAX_NUM reg_hold_zero,
     reg_discrete = replicate CIRCUIT_BREAKER_MAX_NUM reg_discrete_zero,
     device_data = device_data_init, usart_out = []\<rparr>"

section \<open>Interrupts\<close>

definition circuit_breaker_USART7_RxFull_IrqCallback :: "u8 \<Rightarrow> cb_state \<Rightarrow> cb_state option" where
  "circuit_breaker_USART7_RxFull_IrqCallback u8Data s =
     do {
       buf \<leftarrow> arr_put (circuit_breaker_rx_buf s) (unat (circuit_rx_cnt s)) u8Data;
       let cnt = circuit_rx_cnt s + 1;
       Some (s\<lparr>circuit_breaker_rx_buf := buf, circuit_rx_cnt := (if cnt > 300 then 0 else cnt)\<rparr>)
     }"

definition circuit_breaker_USART7_RxTimeout_IrqCallback :: "cb_state \<Rightarrow> cb_state" where
  "circuit_breaker_USART7_RxTimeout_IrqCallback s = s\<lparr>circuit_timeout_flag := 1\<rparr>"

fun cb_irq :: "uart_irq \<Rightarrow> cb_state \<Rightarrow> cb_state option" where
  "cb_irq (RxFull b) s = circuit_breaker_USART7_RxFull_IrqCallback b s"
| "cb_irq RxError s = Some s"
| "cb_irq RxTimeout s = Some (circuit_breaker_USART7_RxTimeout_IrqCallback s)"

abbreviation cb_irqs :: "uart_irq list \<Rightarrow> cb_state \<Rightarrow> cb_state option" where
  "cb_irqs \<equiv> run_irqs cb_irq"

section \<open>Requests\<close>

text \<open>Sending the first \<open>n\<close> bytes of the transmit buffer, byte by byte.\<close>

definition cb_transmit :: "nat \<Rightarrow> cb_state \<Rightarrow> cb_state" where
  "cb_transmit n s = s\<lparr>usart_out := usart_out s @ [take n (circuit_breaker_tx_buf s)]\<rparr>"

text \<open>Bytes 0 to 5 of the transmit buffer, their CRC low byte first, and the transmission.\<close>

definition cb_request :: "u8 list \<Rightarrow> cb_state \<Rightarrow> cb_state" where
  "cb_request hdr s =
     (let tx = buf_write (circuit_breaker_tx_buf s) 0 hdr;
          checksum = circuit_breaker_modbus_crc16 tx 6;
          tx = (tx[6 := lo8 checksum])[7 := hi8 checksum]
      in cb_transmit 8 (s\<lparr>circuit_breaker_tx_buf := tx\<rparr>))"

definition set_coil_send_data :: "u8 \<Rightarrow> u8 \<Rightarrow> cb_state \<Rightarrow> cb_state" where
  "set_coil_send_data addr_data open_close_flag =
     cb_request [addr_data, 0x05, 0x00, 0x00, (if open_close_flag = 1 then 0xff else 0x00), 0x00]"

definition read_hold_send_data :: "u8 \<Rightarrow> cb_state \<Rightarrow> cb_state" where
  "read_hold_send_data addr_data = cb_request [addr_data, 0x03, 0x0f, 0xa0, 0x00, 0x31]"

definition read_discrete_send_data :: "u8 \<Rightarrow> cb_state \<Rightarrow> cb_state" where
  "read_discrete_send_data addr_data = cb_request [addr_data, 0x02, 0x07, 0xd0, 0x00, 0x39]"

definition read_input_send_data :: "u8 \<Rightarrow> cb_state \<Rightarrow> cb_state" where
  "read_input_send_data addr_data = cb_request [addr_data, 0x04, 0x0b, 0xb8, 0x00, 0x6e]"

text \<open>The write request reads \<^verbatim>\<open>reg_hold[addr_data]\<close>, outside the array from address 32 on.\<close>

definition write_hold_send_data :: "u8 \<Rightarrow> cb_state \<Rightarrow> cb_state option" where
  "write_hold_send_data addr_data s =
     (if unat addr_data < length (reg_hold s) then
        let tx = buf_write (circuit_breaker_tx_buf s) 0 [addr_data, 0x10, 0x0f, 0xa1, 0x00, 0x30, 0x60];
            tx = hold_encode (reg_hold s ! unat addr_data) tx;
            checksum = circuit_breaker_modbus_crc16 tx 103;
            tx = (tx[103 := lo8 checksum])[104 := hi8 checksum]
        in Some (cb_transmit 105 (s\<lparr>circuit_breaker_tx_buf := tx\<rparr>))
      else None)"

section \<open>Replies\<close>

text \<open>
  The five reply handlers share one loop: up to \<open>timeout\<close> times sleep for 10 ms, and when
  the receive timeout has fired reset the flag and the counter and evaluate the buffer.
  All exits of the evaluation clear the buffer.
\<close>

fun cb_wait :: "(cb_state \<Rightarrow> (int \<times> cb_state) option) \<Rightarrow> nat \<Rightarrow> ticks \<Rightarrow> cb_state \<Rightarrow>
    (int \<times> cb_state \<times> ticks) option" where
  "cb_wait eval 0 ts s = Some (SYS_E_TIMEOUT, s, ts)"
| "cb_wait eval (Suc n) ts s =
     do {
       s \<leftarrow> cb_irqs (tick_now ts) s;
       if circuit_timeout_flag s = 1 then
         do {
           (r, s) \<leftarrow> eval (s\<lparr>circuit_timeout_flag := 0, circuit_rx_cnt := 0\<rparr>);
           Some (r, s, tl ts)
         }
       else cb_wait eval n (tl ts) s
     }"

definition cb_clear_rx :: "cb_state \<Rightarrow> cb_state" where
  "cb_clear_rx s = s\<lparr>circuit_breaker_rx_buf := zeros 300\<rparr>"

text \<open>
  Address, function code, CRC over \<open>n\<close> bytes, then the handler's own update.
\<close>

definition cb_eval :: "u8 \<Rightarrow> u8 \<Rightarrow> (u8 list \<Rightarrow> nat) \<Rightarrow> (u8 list \<Rightarrow> cb_state \<Rightarrow> cb_state option) \<Rightarrow>
    cb_state \<Rightarrow> (int \<times> cb_state) option" where
  "cb_eval addr_data fn len update s =
     (let rx = circuit_breaker_rx_buf s in
      if rx ! 0 = addr_data then
        if rx ! 1 = fn then
          let n = len rx;
              checksum = circuit_breaker_modbus_crc16 rx n;
              read_checksum = be16 (rx ! (n + 1)) (rx ! n)
          in if checksum = read_checksum then
               do { s \<leftarrow> update rx s; Some (SYS_OK, cb_clear_rx s) }
             else Some (SYS_FAIL, cb_clear_rx s)
        else Some (SYS_FAIL, cb_clear_rx s)
      else Some (SYS_FAIL, cb_clear_rx s))"

text \<open>\<^verbatim>\<open>circuit_breaker_rx_buf[2]+3\<close>\<close>

definition reply_len :: "u8 list \<Rightarrow> nat" where
  "reply_len rx = unat (rx ! 2) + 3"

definition read_coil_handle :: "u8 \<Rightarrow> nat \<Rightarrow> ticks \<Rightarrow> cb_state \<Rightarrow> (int \<times> cb_state \<times> ticks) option" where
  "read_coil_handle addr_data = cb_wait (cb_eval addr_data 0x05 (\<lambda>_. 6) (\<lambda>_. Some))"

definition write_hold_handle :: "u8 \<Rightarrow> nat \<Rightarrow> ticks \<Rightarrow> cb_state \<Rightarrow> (int \<times> cb_state \<times> ticks) option" where
  "write_hold_handle addr_data = cb_wait (cb_eval addr_data 0x10 (\<lambda>_. 6) (\<lambda>_. Some))"

definition hold_update :: "u8 \<Rightarrow> u8 list \<Rightarrow> cb_state \<Rightarrow> cb_state option" where
  "hold_update addr_data rx s =
     do {
       regs \<leftarrow> arr_put (reg_hold s) (unat addr_data) (hold_decode rx (reg_hold s ! unat addr_data));
       Some (s\<lparr>reg_hold := regs\<rparr>)
     }"

definition read_hold_handle :: "u8 \<Rightarrow> nat \<Rightarrow> ticks \<Rightarrow> cb_state \<Rightarrow> (int \<times> cb_state \<times> ticks) option" where
  "read_hold_handle addr_data = cb_wait (cb_eval addr_data 0x03 reply_len (hold_update addr_data))"

definition discrete_update :: "u8 \<Rightarrow> u8 list \<Rightarrow> cb_state \<Rightarrow> cb_state option" where
  "discrete_update addr_data rx s =
     do {
       regs \<leftarrow> arr_put (reg_discrete s) (unat addr_data)
         ((reg_discrete s ! unat addr_data)\<lparr>discrete2 := rx ! 4\<rparr>);
       Some (s\<lparr>reg_discrete := regs\<rparr>)
     }"

definition read_discrete_handle :: "u8 \<Rightarrow> nat \<Rightarrow> ticks \<Rightarrow> cb_state \<Rightarrow> (int \<times> cb_state \<times> ticks) option" where
  "read_discrete_handle addr_data =
     cb_wait (cb_eval addr_data 0x02 reply_len (discrete_update addr_data))"

definition input_update :: "u8 \<Rightarrow> u8 list \<Rightarrow> cb_state \<Rightarrow> cb_state option" where
  "input_update addr_data rx s =
     do {
       regs \<leftarrow> arr_put (reg_in s) (unat addr_data) (in_decode rx (reg_in s ! unat addr_data));
       Some (s\<lparr>reg_in := regs,
         device_data := (device_data s)\<lparr>cb_slave_device_have_ack_flag := 1\<rparr>\<rparr>)
     }"

definition read_input_register_handle ::
    "u8 \<Rightarrow> nat \<Rightarrow> ticks \<Rightarrow> cb_state \<Rightarrow> (int \<times> cb_state \<times> ticks) option" where
  "read_input_register_handle addr_data =
     cb_wait (cb_eval addr_data 0x04 reply_len (input_update addr_data))"

section \<open>The control thread\<close>

record cb_locals =
  scan_flag :: u8
  scan_ok :: u8
  read_hold_flag :: u8

definition cb_locals_init :: cb_locals where
  "cb_locals_init = \<lparr>scan_flag = 0, scan_ok = 0, read_hold_flag = 0\<rparr>"

text \<open>What the thread does before its loop: the register images are cleared.\<close>

definition cb_thread_init :: "cb_state \<Rightarrow> cb_state" where
  "cb_thread_init s = s\<lparr>reg_in := replicate CIRCUIT_BREAKER_MAX_NUM reg_in_zero,
     reg_hold := replicate CIRCUIT_BREAKER_MAX_NUM reg_hold_zero,
     reg_discrete := replicate CIRCUIT_BREAKER_MAX_NUM reg_discrete_zero,
     device_data := (device_data s)\<lparr>cb_query_slave_cnt := 1, cb_slave_addr_cnt := 0\<rparr>\<rparr>"

text \<open>One address of the scan (\<^verbatim>\<open>scan_flag==0\<close>).\<close>

definition cb_scan_record :: "cb_locals \<times> sys_type \<Rightarrow> (cb_locals \<times> sys_type) option" where
  "cb_scan_record ld =
     (let (l, d) = ld; i = unat (cb_slave_addr_cnt d) in
      do {
        (l, d) \<leftarrow>
          (if cb_slave_device_have_ack_flag d = 1 then
             do {
               a \<leftarrow> arr_put (cb_slave_addr d) i (cb_query_slave_cnt d);
               Some (l\<lparr>scan_ok := 1\<rparr>, d\<lparr>cb_slave_device_have_ack_flag := 0, cb_slave_addr := a\<rparr>)
             }
           else
             do {
               a \<leftarrow> arr_put (cb_slave_addr d) i 0xff;
               Some (l, d\<lparr>cb_slave_addr := a\<rparr>)
             });
        let d = d\<lparr>cb_query_slave_cnt := cb_query_slave_cnt d + 1,
                  cb_slave_addr_cnt := cb_slave_addr_cnt d + 1\<rparr>;
        Some (if cb_slave_addr_cnt d \<ge> 0x20 then
                let d = d\<lparr>cb_query_slave_cnt := 1, cb_slave_addr_cnt := 0\<rparr>
                in if scan_ok l = 1 then (l\<lparr>scan_flag := 1\<rparr>, d\<lparr>cb_slave_addr_cnt := 0\<rparr>) else (l, d)
              else (l, d))
      })"

definition cb_scan_iter :: "ticks \<Rightarrow> cb_locals \<Rightarrow> cb_state \<Rightarrow> (cb_locals \<times> cb_state \<times> ticks) option" where
  "cb_scan_iter ts l s =
     do {
       let a = cb_query_slave_cnt (device_data s);
       (r, s, ts) \<leftarrow> read_input_register_handle a 20 ts (read_input_send_data a s);
       (l, d) \<leftarrow> cb_scan_record (l, device_data s);
       Some (l, s\<lparr>device_data := d\<rparr>, ts)
     }"

text \<open>The poll of one known breaker.\<close>

definition cb_poll_one :: "u8 \<Rightarrow> cb_locals \<Rightarrow> ticks \<Rightarrow> cb_state \<Rightarrow> (cb_state \<times> ticks) option" where
  "cb_poll_one addr l ts s =
     do {
       (s, ts) \<leftarrow>
         (if read_hold_flag l = 0 then
            do {
              (r, s, ts) \<leftarrow> read_hold_handle addr 20 ts (read_hold_send_data addr s);
              Some (s, ts)
            }
          else Some (s, ts));
       (r, s, ts) \<leftarrow> read_input_register_handle addr 20 ts (read_input_send_data addr s);
       let s = s\<lparr>device_data := (device_data s)\<lparr>cb_slave_device_have_ack_flag := 0\<rparr>\<rparr>;
       (r, s, ts) \<leftarrow> read_discrete_handle addr 20 ts (read_discrete_send_data addr s);
       Some (s, ts)
     }"

text \<open>The two commands other threads can post.\<close>

definition cb_close_cmd :: "ticks \<Rightarrow> cb_state \<Rightarrow> (cb_state \<times> ticks) option" where
  "cb_close_cmd ts s =
     (let d = device_data s in
      if cbclose_flag d = 1 then
        do {
          let s = s\<lparr>device_data := d\<lparr>cbclose_flag := 0\<rparr>\<rparr>;
          let s = set_coil_send_data (cbclose_data_addr d) (reclose_data_flag d) s;
          (r, s, ts) \<leftarrow> read_coil_handle (cbclose_data_addr d) 30 ts s;
          Some (s\<lparr>device_data := (device_data s)\<lparr>reclose_data_flag := 0, cbclose_data_addr := 0xff\<rparr>\<rparr>, ts)
        }
      else Some (s, ts))"

definition cb_hold_cmd :: "ticks \<Rightarrow> cb_state \<Rightarrow> (cb_state \<times> ticks) option" where
  "cb_hold_cmd ts s =
     (let d = device_data s in
      if cb_hold_flag d = 1 then
        do {
          let s = s\<lparr>device_data := d\<lparr>cb_hold_flag := 0\<rparr>\<rparr>;
          s \<leftarrow> write_hold_send_data (cbclose_data_addr d) s;
          (r, s, ts) \<leftarrow> write_hold_handle (cbclose_data_addr d) 30 ts s;
          Some (s, ts)
        }
      else Some (s, ts))"

definition cb_run_iter :: "ticks \<Rightarrow> cb_locals \<Rightarrow> cb_state \<Rightarrow> (cb_locals \<times> cb_state \<times> ticks) option" where
  "cb_run_iter ts l s =
     (let i = unat (cb_slave_addr_cnt (device_data s)) in
      if i < length (cb_slave_addr (device_data s)) then
        do {
          let addr_tmp = cb_slave_addr (device_data s) ! i;
          (s, ts) \<leftarrow> (if addr_tmp \<noteq> 0xff then cb_poll_one addr_tmp l ts s else Some (s, ts));
          let d = device_data s;
          let cnt = cb_slave_addr_cnt d + 1;
          let s = s\<lparr>device_data := d\<lparr>cb_slave_addr_cnt := (if cnt \<ge> 0x20 then 0 else cnt)\<rparr>\<rparr>;
          let l = (if cnt \<ge> 0x20 then l\<lparr>read_hold_flag := 1\<rparr> else l);
          (s, ts) \<leftarrow> cb_close_cmd ts s;
          (s, ts) \<leftarrow> cb_hold_cmd ts s;
          Some (l, s, ts)
        }
      else None)"

text \<open>One iteration of \<^verbatim>\<open>while(1)\<close>, with the 50 ms sleep at its end.\<close>

definition circuit_breaker_control_iter ::
    "ticks \<Rightarrow> cb_locals \<Rightarrow> cb_state \<Rightarrow> (cb_locals \<times> cb_state \<times> ticks) option" where
  "circuit_breaker_control_iter ts l s =
     do {
       (l, s, ts) \<leftarrow> (if scan_flag l = 0 then cb_scan_iter ts l s else cb_run_iter ts l s);
       s \<leftarrow> cb_irqs (tick_now ts) s;
       Some (l, s, tl ts)
     }"

section \<open>Interrupts: bounds and effect\<close>

lemma cnt_step: "unat (c :: u16) < 300 \<Longrightarrow> unat (c + 1) = unat c + 1 \<and> \<not> c + 1 > 300"
  by (simp add: word_less_nat_alt unat_word_ariths)

text \<open>As long as the bytes fit, the callbacks append them and only touch buffer, counter, flag.\<close>

lemma cb_irqs_fit:
  assumes "length (circuit_breaker_rx_buf s) = 300"
    and "unat (circuit_rx_cnt s) + length (rx_bytes is) \<le> 300"
  shows "cb_irqs is s = Some (s\<lparr>circuit_breaker_rx_buf :=
      buf_write (circuit_breaker_rx_buf s) (unat (circuit_rx_cnt s)) (rx_bytes is),
    circuit_rx_cnt := circuit_rx_cnt s + of_nat (length (rx_bytes is)),
    circuit_timeout_flag := (if RxTimeout \<in> set is then 1 else circuit_timeout_flag s)\<rparr>)"
  using assms
proof (induction "is" arbitrary: s rule: rx_bytes.induct)
  case (2 b "is")
  have c: "unat (circuit_rx_cnt s) < 300" using "2.prems" by simp
  let ?s = "s\<lparr>circuit_breaker_rx_buf := (circuit_breaker_rx_buf s)[unat (circuit_rx_cnt s) := b],
    circuit_rx_cnt := circuit_rx_cnt s + 1\<rparr>"
  have "cb_irqs (RxFull b # is) s = cb_irqs is ?s"
    using c cnt_step [OF c] "2.prems"
    by (simp add: circuit_breaker_USART7_RxFull_IrqCallback_def arr_put_Some)
  also have "\<dots> = Some (?s\<lparr>circuit_breaker_rx_buf :=
      buf_write (circuit_breaker_rx_buf ?s) (unat (circuit_rx_cnt ?s)) (rx_bytes is),
    circuit_rx_cnt := circuit_rx_cnt ?s + of_nat (length (rx_bytes is)),
    circuit_timeout_flag := (if RxTimeout \<in> set is then 1 else circuit_timeout_flag ?s)\<rparr>)"
    by (rule "2.IH") (use "2.prems" cnt_step [OF c] in simp_all)
  finally show ?case
    using c cnt_step [OF c] "2.prems" by (simp add: buf_write_step add.assoc)
qed (simp_all add: circuit_breaker_USART7_RxTimeout_IrqCallback_def)

text \<open>The receiver interface on this master's callbacks.\<close>

interpretation cb_rx: uart_receiver cb_irq "\<lambda>_. True" circuit_breaker_rx_buf "\<lambda>s. unat (circuit_rx_cnt s)" 300
proof unfold_locales
  fix s :: cb_state and b
  assume "length (circuit_breaker_rx_buf s) = 300" and c: "unat (circuit_rx_cnt s) < 300"
  then show "\<exists>t. cb_irq (RxFull b) s = Some t \<and> True \<and>
      circuit_breaker_rx_buf t = (circuit_breaker_rx_buf s)[unat (circuit_rx_cnt s) := b] \<and>
      unat (circuit_rx_cnt t) = unat (circuit_rx_cnt s) + 1"
    using cnt_step [OF c] by (simp add: circuit_breaker_USART7_RxFull_IrqCallback_def arr_put_Some)
qed (auto simp: circuit_breaker_USART7_RxFull_IrqCallback_def circuit_breaker_USART7_RxTimeout_IrqCallback_def arr_put_None)

text \<open>The fields the interrupts leave alone.\<close>

definition cb_same_regs :: "cb_state \<Rightarrow> cb_state \<Rightarrow> bool" where
  "cb_same_regs s t \<longleftrightarrow> reg_in t = reg_in s \<and> reg_hold t = reg_hold s \<and>
     reg_discrete t = reg_discrete s \<and> device_data t = device_data s"

lemma cb_same_regs_refl [simp, intro]: "cb_same_regs s s"
  by (simp add: cb_same_regs_def)

lemma cb_same_regs_trans: "cb_same_regs s t \<Longrightarrow> cb_same_regs t u \<Longrightarrow> cb_same_regs s u"
  by (simp add: cb_same_regs_def)

lemma cb_irq_frame:
  "cb_irq i s = Some t \<Longrightarrow> cb_same_regs s t \<and> usart_out t = usart_out s \<and>
     circuit_breaker_tx_buf t = circuit_breaker_tx_buf s \<and>
     length (circuit_breaker_rx_buf t) = length (circuit_breaker_rx_buf s)"
  by (cases i) (auto simp: cb_same_regs_def circuit_breaker_USART7_RxFull_IrqCallback_def
    circuit_breaker_USART7_RxTimeout_IrqCallback_def arr_put_def Let_def split: bind_splits if_splits)

lemma cb_irqs_frame:
  "cb_irqs is s = Some t \<Longrightarrow> cb_same_regs s t \<and> usart_out t = usart_out s \<and>
     circuit_breaker_tx_buf t = circuit_breaker_tx_buf s \<and>
     length (circuit_breaker_rx_buf t) = length (circuit_breaker_rx_buf s)"
proof (induction "is" arbitrary: s)
  case (Cons i "is")
  then obtain u where u: "cb_irq i s = Some u" "cb_irqs is u = Some t"
    by (auto split: bind_splits)
  with cb_irq_frame [OF u(1)] Cons.IH [OF u(2)] show ?case
    by (auto intro: cb_same_regs_trans)
qed auto

lemma wf_cb_same_regs:
  "cb_same_regs s t \<Longrightarrow> circuit_breaker_tx_buf t = circuit_breaker_tx_buf s \<Longrightarrow>
     length (circuit_breaker_rx_buf t) = length (circuit_breaker_rx_buf s) \<Longrightarrow> wf_cb s \<Longrightarrow> wf_cb t"
  by (simp add: wf_cb_def cb_same_regs_def)

lemma wf_cb_irqs: "cb_irqs is s = Some t \<Longrightarrow> wf_cb s \<Longrightarrow> wf_cb t"
  using cb_irqs_frame wf_cb_same_regs by blast

section \<open>Replies: what the handlers accept\<close>

text \<open>Between two exchanges the receiver is empty.\<close>

definition cb_ready :: "cb_state \<Rightarrow> bool" where
  "cb_ready s \<longleftrightarrow> wf_cb s \<and> circuit_timeout_flag s = 0 \<and> circuit_rx_cnt s = 0 \<and>
     circuit_breaker_rx_buf s = zeros 300"

lemma cb_wait_quiet:
  "circuit_timeout_flag s \<noteq> 1 \<Longrightarrow> cb_wait eval (k + n) (replicate k [] @ ts) s = cb_wait eval n ts s"
  by (induction k) simp_all

lemma cb_wait_answer:
  assumes "cb_ready s" and "length bs \<le> 300"
  shows "cb_wait eval (Suc n) (answer bs # ts) s =
    do {
      (r, t) \<leftarrow> eval (s\<lparr>circuit_breaker_rx_buf := bs @ zeros (300 - length bs)\<rparr>);
      Some (r, t, ts)
    }"
proof -
  have "buf_write (zeros 300) 0 bs = bs @ zeros (300 - length bs)"
    using assms(2) by (simp add: buf_write_def zeros_def)
  then have "cb_irqs (answer bs) s = Some (s\<lparr>circuit_breaker_rx_buf := bs @ zeros (300 - length bs),
      circuit_rx_cnt := of_nat (length bs), circuit_timeout_flag := 1\<rparr>)"
    using assms by (subst cb_irqs_fit) (auto simp: cb_ready_def answer_def)
  moreover have "s\<lparr>circuit_breaker_rx_buf := b, circuit_timeout_flag := 0, circuit_rx_cnt := 0\<rparr> =
      s\<lparr>circuit_breaker_rx_buf := b\<rparr>" for b
    using assms(1) by (simp add: cb_ready_def)
  ultimately show ?thesis by simp
qed

lemma cb_eval_genuine:
  assumes "circuit_breaker_rx_buf s = with_crc_le circuit_breaker_modbus_crc16 msg @ rest"
    and "2 \<le> length msg" "msg ! 0 = addr" "msg ! 1 = fn"
    and "len (circuit_breaker_rx_buf s) = length msg"
  shows "cb_eval addr fn len update s =
    do { s \<leftarrow> update (circuit_breaker_rx_buf s) s; Some (SYS_OK, cb_clear_rx s) }"
proof -
  have "crc_le_ok circuit_breaker_modbus_crc16 (circuit_breaker_rx_buf s) (length msg)"
    unfolding assms(1) using assms(2) by (intro cb.own_frame_le) auto
  moreover have "circuit_breaker_rx_buf s ! 0 = addr" "circuit_breaker_rx_buf s ! 1 = fn"
    using assms(1-4) by (cases msg; auto simp: with_crc_le_def nth_append)+
  ultimately show ?thesis
    using assms(5) by (simp add: cb_eval_def crc_le_ok_def Let_def)
qed

lemma cb_eval_bad_crc:
  assumes "\<not> crc_le_ok circuit_breaker_modbus_crc16 (circuit_breaker_rx_buf s) (len (circuit_breaker_rx_buf s))"
  shows "cb_eval addr fn len update s = Some (SYS_FAIL, cb_clear_rx s)"
  using assms by (simp add: cb_eval_def crc_le_ok_def Let_def)

text \<open>A whole exchange: after \<open>k\<close> quiet polls the genuine frame \<open>msg\<close> arrives.\<close>

lemma cb_exchange:
  assumes "cb_ready s" and "k < timeout" and "length msg \<le> 298" and "2 \<le> length msg"
    and "msg ! 0 = addr" "msg ! 1 = fn"
    and len: "len (with_crc_le circuit_breaker_modbus_crc16 msg @ zeros (298 - length msg)) = length msg"
  shows "cb_wait (cb_eval addr fn len update) timeout
      (replicate k [] @ answer (with_crc_le circuit_breaker_modbus_crc16 msg) # ts) s =
    do {
      s \<leftarrow> update (with_crc_le circuit_breaker_modbus_crc16 msg @ zeros (298 - length msg))
        (s\<lparr>circuit_breaker_rx_buf := with_crc_le circuit_breaker_modbus_crc16 msg @ zeros (298 - length msg)\<rparr>);
      Some (SYS_OK, cb_clear_rx s, ts)
    }"
proof -
  obtain n where n: "timeout = k + Suc n" using assms(2) less_iff_Suc_add by auto
  have flag: "circuit_timeout_flag s \<noteq> 1" using assms(1) by (simp add: cb_ready_def)
  let ?f = "with_crc_le circuit_breaker_modbus_crc16 msg"
  have z: "300 - length ?f = 298 - length msg" by simp
  show ?thesis
    unfolding n cb_wait_quiet [OF flag]
    by (subst cb_wait_answer [OF assms(1)], use assms(3) in simp, subst cb_eval_genuine [where msg = msg])
      (use assms z in \<open>simp_all add: Option.bind_assoc\<close>)
qed

text \<open>
  Two neighbouring bytes of the checked part changed on the way: the reply is refused and
  nothing but the receiver changes.
\<close>

lemma cb_exchange_burst:
  assumes "cb_ready s" and "k < timeout"
    and msg: "pre @ [x, y] @ post = msg" and "(x', y') \<noteq> (x, y)" and "length msg \<le> 298"
    and trailer: "[l, h] = [lo8 (circuit_breaker_modbus_crc16 msg (length msg)),
      hi8 (circuit_breaker_modbus_crc16 msg (length msg))]"
    and len: "\<And>b. take 3 b = take 3 (pre @ [x', y'] @ post) \<Longrightarrow> len b = length msg"
    and "3 \<le> length msg"
  shows "cb_wait (cb_eval addr fn len update) timeout
      (replicate k [] @ answer (pre @ [x', y'] @ post @ [l, h]) # ts) s =
    Some (SYS_FAIL, s, ts)"
proof -
  obtain n where n: "timeout = k + Suc n" using assms(2) less_iff_Suc_add by auto
  have flag: "circuit_timeout_flag s \<noteq> 1" using assms(1) by (simp add: cb_ready_def)
  let ?z = "zeros (298 - length msg)"
  have lm: "length pre + 2 + length post = length msg" using msg by auto
  have "crc_le_ok circuit_breaker_modbus_crc16 (with_crc_le circuit_breaker_modbus_crc16 msg @ ?z) (length msg)"
    using msg by (intro cb.own_frame_le) auto
  then have "crc_le_ok circuit_breaker_modbus_crc16 (pre @ [x, y] @ post @ [l, h] @ ?z) (length msg)"
    using trailer msg [symmetric] by (simp add: with_crc_le_def)
  from cb.burst_rejected_le [OF lm assms(4) this]
  have bad: "\<not> crc_le_ok circuit_breaker_modbus_crc16 (pre @ [x', y'] @ post @ [l, h] @ ?z) (length msg)" .
  have "take 3 (pre @ [x', y'] @ post @ [l, h] @ ?z) = take 3 (pre @ [x', y'] @ post)"
    using lm assms(8) take_append_take [of 3 "pre @ [x', y'] @ post" "[l, h] @ ?z"] by simp
  then have len': "len (pre @ [x', y'] @ post @ [l, h] @ ?z) = length msg" by (rule len)
  have rx: "(pre @ [x', y'] @ post @ [l, h]) @ zeros (300 - length (pre @ [x', y'] @ post @ [l, h]))
      = pre @ [x', y'] @ post @ [l, h] @ ?z"
    using lm by simp
  have cl: "cb_clear_rx (s\<lparr>circuit_breaker_rx_buf := b\<rparr>) = s" for b
    using assms(1) by (simp add: cb_clear_rx_def cb_ready_def)
  show ?thesis
    unfolding n cb_wait_quiet [OF flag]
    apply (subst cb_wait_answer [OF assms(1)])
    subgoal using lm assms(5) by simp
    subgoal unfolding rx by (subst cb_eval_bad_crc) (use bad len' cl in simp_all)
    done
qed


lemma cb_ready_init: "cb_ready cb_state_init"
  by (simp add: cb_ready_def wf_cb_def cb_state_init_def wf_device_init)

section \<open>Requests: frames and frame conditions\<close>

lemma cb_request_same:
  "cb_same_regs s (cb_request hdr s)"
  by (simp add: cb_same_regs_def cb_request_def cb_transmit_def Let_def)

lemma cb_request_ready:
  "cb_ready s \<Longrightarrow> length hdr = 6 \<Longrightarrow> cb_ready (cb_request hdr s)"
  by (simp add: cb_ready_def wf_cb_def cb_request_def cb_transmit_def Let_def)

text \<open>What goes to the line is the header with its own CRC, whatever the buffer held before.\<close>

lemma cb_request_frame:
  assumes "length (circuit_breaker_tx_buf s) = 300" and "length hdr = 6"
  shows "usart_out (cb_request hdr s) =
    usart_out s @ [with_crc_le circuit_breaker_modbus_crc16 hdr]"
proof -
  let ?tx = "buf_write (circuit_breaker_tx_buf s) 0 hdr"
  have crc: "circuit_breaker_modbus_crc16 ?tx 6 = circuit_breaker_modbus_crc16 hdr 6"
    by (rule cb.crc_prefix) (use assms in simp_all)
  have tx: "?tx = hdr @ drop 6 (circuit_breaker_tx_buf s)"
    using assms(2) by (simp add: buf_write_def)
  have "take 8 ((?tx[6 := x])[7 := y]) = hdr @ [x, y]" for x y
    unfolding tx using assms
    by (cases "drop 6 (circuit_breaker_tx_buf s)"; cases "tl (drop 6 (circuit_breaker_tx_buf s))")
      (auto simp: list_update_append take_Cons' dest: arg_cong [where f = length])
  then show ?thesis
    using assms(2) by (simp add: cb_request_def cb_transmit_def with_crc_le_def crc Let_def)
qed

lemmas cb_request_defs = set_coil_send_data_def read_hold_send_data_def read_discrete_send_data_def
  read_input_send_data_def

section \<open>Silence and failed replies\<close>

lemma cb_wait_silent:
  "circuit_timeout_flag s \<noteq> 1 \<Longrightarrow>
     cb_wait eval k (replicate k [] @ ts) s = Some (SYS_E_TIMEOUT, s, ts)"
  using cb_wait_quiet [of s eval k 0 ts] by simp

lemma cb_wait_no_timeout:
  assumes "\<forall>t \<in> set ts. RxTimeout \<notin> set t" and "circuit_timeout_flag s \<noteq> 1"
    and "cb_wait eval k ts s = Some (r, t, ts')"
  shows "r = SYS_E_TIMEOUT \<and> ts' = drop k ts \<and> cb_same_regs s t"
  using assms
proof (induction k arbitrary: ts s)
  case (Suc k)
  obtain u where u: "cb_irqs (tick_now ts) s = Some u"
    using Suc.prems(3) by (auto split: bind_splits)
  have quiet: "RxTimeout \<notin> set (tick_now ts)" using Suc.prems(1) by (cases ts) auto
  have flag: "circuit_timeout_flag u = circuit_timeout_flag s"
    using u quiet
  proof (induction "tick_now ts" arbitrary: s ts)
    case Nil
    then show ?case by (metis run_irqs.simps(1) option.inject)
  next
    case (Cons i "is")
    from Cons.prems(1) Cons.hyps(2) obtain v where v: "cb_irq i s = Some v" "cb_irqs is v = Some u"
      by (metis run_irqs.simps(2) bind_eq_Some_conv)
    have "circuit_timeout_flag v = circuit_timeout_flag s"
      using v(1) Cons.prems(2) Cons.hyps(2) [symmetric]
      by (cases i) (auto simp: circuit_breaker_USART7_RxFull_IrqCallback_def Let_def split: bind_splits)
    moreover have "circuit_timeout_flag u = circuit_timeout_flag v"
      using Cons.hyps(1) [of "[is]" v] v(2) Cons.prems(2) Cons.hyps(2) [symmetric] by simp
    ultimately show ?case by simp
  qed
  then have "cb_wait eval k (tl ts) u = Some (r, t, ts')"
    using Suc.prems(2,3) u by simp
  moreover have "\<forall>t \<in> set (tl ts). RxTimeout \<notin> set t"
    using Suc.prems(1) by (cases ts) auto
  ultimately have "r = SYS_E_TIMEOUT \<and> ts' = drop k (tl ts) \<and> cb_same_regs u t"
    using Suc.IH flag Suc.prems(2) by metis
  then show ?case
    using cb_irqs_frame [OF u] cb_same_regs_trans by (auto simp: drop_Suc)
qed auto

text \<open>A reply that does not return \<^const>\<open>SYS_OK\<close> leaves registers and device data alone.\<close>

lemma cb_eval_fail:
  "cb_eval addr fn len update s = Some (r, t) \<Longrightarrow> r \<noteq> SYS_OK \<Longrightarrow> r = SYS_FAIL \<and> t = cb_clear_rx s"
  by (auto simp: cb_eval_def Let_def split: if_splits bind_splits)

lemma cb_wait_fail:
  "cb_wait (cb_eval addr fn len update) k ts s = Some (r, t, ts') \<Longrightarrow> r \<noteq> SYS_OK \<Longrightarrow>
     (r = SYS_FAIL \<or> r = SYS_E_TIMEOUT) \<and> cb_same_regs s t"
proof (induction k arbitrary: ts s)
  case (Suc k)
  then obtain u where u: "cb_irqs (tick_now ts) s = Some u" by (auto split: bind_splits)
  note frame = cb_irqs_frame [OF u]
  show ?case
  proof (cases "circuit_timeout_flag u = 1")
    case True
    then have "cb_eval addr fn len update (u\<lparr>circuit_timeout_flag := 0, circuit_rx_cnt := 0\<rparr>) = Some (r, t)"
      using Suc.prems(1) u by (auto split: bind_splits)
    from cb_eval_fail [OF this Suc.prems(2)] frame show ?thesis
      by (auto simp: cb_clear_rx_def cb_same_regs_def)
  next
    case False
    then have "cb_wait (cb_eval addr fn len update) k (tl ts) u = Some (r, t, ts')"
      using Suc.prems(1) u by simp
    from Suc.IH [OF this Suc.prems(2)] frame show ?thesis by (auto intro: cb_same_regs_trans)
  qed
qed auto

end
