(* ===== verification/Cb_Scan.thy ===== *)
theory Cb_Scan
  imports Circuit_Breaker
begin

text \<open>
  The bus scan of the circuit breaker thread, from the exchange with one address up to the
  sweep over all 32 addresses, against an environment that says of every address whether a
  breaker answers there, after how many 10 ms polls, and with which register contents.
\<close>

section \<open>The environment\<close>

datatype cb_reply = Silent | Reply nat "u8 list" \<comment> \<open>delay in polls, the 220 data bytes\<close>

fun reply_ok :: "cb_reply \<Rightarrow> bool" where
  "reply_ok Silent = True"
| "reply_ok (Reply k d) = (k < 20 \<and> length d = 220)"

definition input_reply :: "u8 \<Rightarrow> u8 list \<Rightarrow> u8 list" where
  "input_reply addr d = [addr, 0x04, 220] @ d"

text \<open>The ticks of one iteration: the reply window and the sleep that ends the iteration.\<close>

fun reply_ticks :: "u8 \<Rightarrow> cb_reply \<Rightarrow> ticks" where
  "reply_ticks a Silent = replicate 20 [] @ [[]]"
| "reply_ticks a (Reply k d) =
     replicate k [] @ [answer (with_crc_le circuit_breaker_modbus_crc16 (input_reply a d)), []]"

section \<open>One exchange\<close>

lemma input_exchange:
  assumes "cb_ready s" and "k < 20" and "length d = 220" and "unat addr < 32"
  shows "read_input_register_handle addr 20
      (replicate k [] @ answer (with_crc_le circuit_breaker_modbus_crc16 (input_reply addr d)) # ts) s =
    Some (SYS_OK, s\<lparr>reg_in := (reg_in s)[unat addr :=
        in_decode (with_crc_le circuit_breaker_modbus_crc16 (input_reply addr d) @ zeros 75)
          (reg_in s ! unat addr)],
      device_data := (device_data s)\<lparr>cb_slave_device_have_ack_flag := 1\<rparr>\<rparr>, ts)"
proof -
  let ?f = "with_crc_le circuit_breaker_modbus_crc16 (input_reply addr d)"
  have len: "reply_len (?f @ zeros (298 - length (input_reply addr d))) = length (input_reply addr d)"
    using assms(3) by (simp add: reply_len_def input_reply_def with_crc_le_def)
  have "read_input_register_handle addr 20 (replicate k [] @ answer ?f # ts) s =
    do {
      s \<leftarrow> input_update addr (?f @ zeros (298 - length (input_reply addr d)))
        (s\<lparr>circuit_breaker_rx_buf := ?f @ zeros (298 - length (input_reply addr d))\<rparr>);
      Some (SYS_OK, cb_clear_rx s, ts)
    }"
    unfolding read_input_register_handle_def
    by (rule cb_exchange [where len = reply_len and msg = "input_reply addr d", OF assms(1,2) _ _ _ _ len]) (use assms(3) in \<open>simp_all add: input_reply_def\<close>)
  then show ?thesis
    using assms by (simp add: input_update_def arr_put_Some cb_ready_def wf_cb_def CIRCUIT_BREAKER_MAX_NUM_def
      cb_clear_rx_def input_reply_def)
qed

text \<open>A breaker at an address the arrays do not have: its first genuine reply.\<close>

lemma input_exchange_outside:
  assumes "cb_ready s" and "k < 20" and "length d = 220" and "32 \<le> unat addr"
  shows "read_input_register_handle addr 20
      (replicate k [] @ answer (with_crc_le circuit_breaker_modbus_crc16 (input_reply addr d)) # ts) s = None"
proof -
  let ?f = "with_crc_le circuit_breaker_modbus_crc16 (input_reply addr d)"
  have len: "reply_len (?f @ zeros (298 - length (input_reply addr d))) = length (input_reply addr d)"
    using assms(3) by (simp add: reply_len_def input_reply_def with_crc_le_def)
  show ?thesis
    unfolding read_input_register_handle_def
    by (subst cb_exchange [where len = reply_len and msg = "input_reply addr d", OF assms(1,2) _ _ _ _ len])
      (use assms in \<open>simp_all add: input_reply_def input_update_def arr_put_None cb_ready_def wf_cb_def
        CIRCUIT_BREAKER_MAX_NUM_def\<close>)
qed

section \<open>One iteration of the scan\<close>

text \<open>The effect of an iteration on the part of the state the scan is about.\<close>

definition scan_at :: "nat \<Rightarrow> cb_locals \<Rightarrow> cb_state \<Rightarrow> bool" where
  "scan_at n l s \<longleftrightarrow> cb_ready s \<and> scan_flag l = 0 \<and>
     cb_query_slave_cnt (device_data s) = of_nat (Suc n) \<and>
     cb_slave_addr_cnt (device_data s) = of_nat n \<and>
     cb_slave_device_have_ack_flag (device_data s) = 0"

lemma cb_ready_device:
  "cb_ready s \<Longrightarrow> wf_device d \<Longrightarrow> cb_ready (s\<lparr>device_data := d\<rparr>)"
  by (simp add: cb_ready_def wf_cb_def)

lemma sends_same:
  "reg_in (read_input_send_data a s) = reg_in s"
  "reg_hold (read_input_send_data a s) = reg_hold s"
  "reg_discrete (read_input_send_data a s) = reg_discrete s"
  "device_data (read_input_send_data a s) = device_data s"
  using cb_request_same by (simp_all add: read_input_send_data_def cb_same_regs_def)

lemma sends_ready: "cb_ready s \<Longrightarrow> cb_ready (read_input_send_data a s)"
  by (simp add: read_input_send_data_def cb_request_ready)

lemma u8_Suc_ge_32: "n < 32 \<Longrightarrow> (0x20 \<le> (of_nat n :: u8) + 1) \<longleftrightarrow> n = 31"
  by (simp add: word_le_nat_alt unat_word_ariths unat_of_nat_u8) linarith

definition scan_entry :: "nat \<Rightarrow> cb_reply \<Rightarrow> u8" where
  "scan_entry n e = (if e = Silent then 0xff else of_nat (Suc n))"

text \<open>The bookkeeping after the exchange, before and at the last address.\<close>

lemma cb_scan_record_step:
  assumes "n < 32" and "wf_device d"
    and "cb_query_slave_cnt d = of_nat (Suc n)" and "cb_slave_addr_cnt d = of_nat n"
    and "ack = (cb_slave_device_have_ack_flag d = 1)"
    and ok: "ok = (if ack then 1 else scan_ok l)"
  shows "cb_scan_record (l, d) = Some
    (l\<lparr>scan_ok := ok, scan_flag := (if n = 31 \<and> ok = 1 then 1 else scan_flag l)\<rparr>,
     d\<lparr>cb_slave_device_have_ack_flag := (if ack then 0 else cb_slave_device_have_ack_flag d),
       cb_slave_addr := (cb_slave_addr d)[n := (if ack then of_nat (Suc n) else 0xff)],
       cb_query_slave_cnt := (if n = 31 then 1 else of_nat (Suc (Suc n))),
       cb_slave_addr_cnt := (if n = 31 then 0 else of_nat (Suc n))\<rparr>)"
  using assms u8_Suc_ge_32 [OF assms(1)]
  by (simp add: cb_scan_record_def arr_put_Some wf_device_def CIRCUIT_BREAKER_MAX_NUM_def unat_of_nat_u8
      add.commute Let_def)


text \<open>The two kinds of iteration.\<close>

lemma scan_at_device: "scan_at n l s \<Longrightarrow> wf_device (device_data s)"
  by (simp add: scan_at_def cb_ready_def wf_cb_def)

definition scan_next :: "nat \<Rightarrow> bool \<Rightarrow> cb_locals \<Rightarrow> cb_locals" where
  "scan_next n ack l =
     (let ok = (if ack then 1 else scan_ok l)
      in l\<lparr>scan_ok := ok, scan_flag := (if n = 31 \<and> ok = 1 then 1 else scan_flag l)\<rparr>)"

definition scan_device :: "nat \<Rightarrow> bool \<Rightarrow> sys_type \<Rightarrow> sys_type" where
  "scan_device n ack d = d\<lparr>cb_slave_device_have_ack_flag := 0,
     cb_slave_addr := (cb_slave_addr d)[n := (if ack then of_nat (Suc n) else 0xff)],
     cb_query_slave_cnt := (if n = 31 then 1 else of_nat (Suc (Suc n))),
     cb_slave_addr_cnt := (if n = 31 then 0 else of_nat (Suc n))\<rparr>"

lemma wf_scan_device: "wf_device d \<Longrightarrow> wf_device (scan_device n ack d)"
  by (simp add: wf_device_def scan_device_def)

lemma scan_iter_silent:
  assumes "n < 32" and at: "scan_at n l s"
  shows "circuit_breaker_control_iter (reply_ticks (of_nat (Suc n)) Silent @ ts) l s =
    Some (scan_next n False l,
      (read_input_send_data (of_nat (Suc n)) s)\<lparr>device_data := scan_device n False (device_data s)\<rparr>, ts)"
proof -
  let ?s = "read_input_send_data (of_nat (Suc n)) s"
  have r: "read_input_register_handle (of_nat (Suc n)) 20 (replicate 20 [] @ [] # ts) ?s =
      Some (SYS_E_TIMEOUT, ?s, [] # ts)"
    unfolding read_input_register_handle_def
    by (rule cb_wait_silent)
      (use sends_ready [of s "of_nat (Suc n)"] at in \<open>simp add: scan_at_def cb_ready_def\<close>)
  have d: "cb_scan_record (l, device_data s) =
      Some (scan_next n False l, scan_device n False (device_data s))"
    using assms(1) at scan_at_device [OF at]
    by (subst cb_scan_record_step [where n = n and ack = False and ok = "scan_ok l"])
      (auto simp: scan_at_def scan_next_def scan_device_def)
  show ?thesis
    using at r d
    by (simp add: circuit_breaker_control_iter_def cb_scan_iter_def scan_at_def sends_same)
qed

lemma scan_iter_reply:
  assumes "n < 31" and at: "scan_at n l s" and "k < 20" and "length d = 220"
  shows "circuit_breaker_control_iter (reply_ticks (of_nat (Suc n)) (Reply k d) @ ts) l s =
    Some (scan_next n True l,
      (read_input_send_data (of_nat (Suc n)) s)
        \<lparr>reg_in := (reg_in s)[Suc n :=
           in_decode (with_crc_le circuit_breaker_modbus_crc16 (input_reply (of_nat (Suc n)) d) @ zeros 75)
             (reg_in s ! Suc n)],
         device_data := scan_device n True (device_data s)\<rparr>, ts)"
proof -
  let ?a = "of_nat (Suc n) :: u8"
  let ?s = "read_input_send_data ?a s"
  let ?f = "with_crc_le circuit_breaker_modbus_crc16 (input_reply ?a d)"
  have u: "unat ?a = Suc n" using assms(1) by (intro unat_of_nat_u8) simp
  have ready: "cb_ready ?s" using at sends_ready by (simp add: scan_at_def)
  have r: "read_input_register_handle ?a 20 (replicate k [] @ answer ?f # [] # ts) ?s =
      Some (SYS_OK, ?s\<lparr>reg_in := (reg_in s)[Suc n := in_decode (?f @ zeros 75) (reg_in s ! Suc n)],
        device_data := (device_data s)\<lparr>cb_slave_device_have_ack_flag := 1\<rparr>\<rparr>, [] # ts)"
    using input_exchange [OF ready assms(3,4), of ?a "[] # ts"] assms(1) unfolding u
    by (simp add: sends_same)
  have d: "cb_scan_record (l, (device_data s)\<lparr>cb_slave_device_have_ack_flag := 1\<rparr>) =
      Some (scan_next n True l, scan_device n True (device_data s))"
    using assms(1) at scan_at_device [OF at]
    by (subst cb_scan_record_step [where n = n and ack = True and ok = 1])
      (auto simp: scan_at_def scan_next_def scan_device_def wf_device_def)
  show ?thesis
    using at r d
    by (simp add: circuit_breaker_control_iter_def cb_scan_iter_def scan_at_def Let_def)
qed


section \<open>The sweep\<close>

fun cb_iters :: "nat \<Rightarrow> ticks \<Rightarrow> cb_locals \<Rightarrow> cb_state \<Rightarrow> (cb_locals \<times> cb_state \<times> ticks) option" where
  "cb_iters 0 ts l s = Some (l, s, ts)"
| "cb_iters (Suc n) ts l s =
     do { (l, s, ts) \<leftarrow> circuit_breaker_control_iter ts l s; cb_iters n ts l s }"

fun sweep_ticks :: "nat \<Rightarrow> cb_reply list \<Rightarrow> ticks" where
  "sweep_ticks n [] = []"
| "sweep_ticks n (e # es) = reply_ticks (of_nat (Suc n)) e @ sweep_ticks (Suc n) es"

fun swept_reg :: "u8 \<Rightarrow> cb_reply \<Rightarrow> cb_reg_input \<Rightarrow> cb_reg_input" where
  "swept_reg a Silent r = r"
| "swept_reg a (Reply k d) r =
     in_decode (with_crc_le circuit_breaker_modbus_crc16 (input_reply a d) @ zeros 75) r"

definition swept :: "nat \<Rightarrow> cb_reply list \<Rightarrow> cb_locals \<Rightarrow> cb_state \<Rightarrow> cb_locals \<Rightarrow> cb_state \<Rightarrow> bool" where
  "swept n es l s l' s' \<longleftrightarrow> cb_ready s' \<and>
     (scan_flag l' = 1 \<longleftrightarrow> scan_ok l = 1 \<or> (\<exists>e \<in> set es. e \<noteq> Silent)) \<and>
     (\<forall>j < 32. cb_slave_addr (device_data s') ! j =
        (if j < n then cb_slave_addr (device_data s) ! j else scan_entry j (es ! (j - n)))) \<and>
     (\<forall>j < 32. reg_in s' ! j =
        (if j \<le> n then reg_in s ! j else swept_reg (of_nat j) (es ! (j - Suc n)) (reg_in s ! j))) \<and>
     reg_hold s' = reg_hold s \<and> reg_discrete s' = reg_discrete s"

lemma scan_iter_outside:
  assumes "scan_at 31 l s" and "k < 20" and "length d = 220"
  shows "circuit_breaker_control_iter (reply_ticks 32 (Reply k d) @ ts) l s = None"
proof -
  have "read_input_register_handle 32 20
      (replicate k [] @ answer (with_crc_le circuit_breaker_modbus_crc16 (input_reply 32 d)) # [] # ts)
      (read_input_send_data 32 s) = None"
    by (rule input_exchange_outside) (use assms sends_ready in \<open>simp_all add: scan_at_def\<close>)
  then show ?thesis
    using assms(1) by (simp add: circuit_breaker_control_iter_def cb_scan_iter_def scan_at_def)
qed

lemma scan_iter:
  assumes "n < 32" and "scan_at n l s" and "reply_ok e" and "n = 31 \<longrightarrow> e = Silent"
  obtains t where "\<And>ts. circuit_breaker_control_iter (reply_ticks (of_nat (Suc n)) e @ ts) l s =
      Some (scan_next n (e \<noteq> Silent) l, t, ts)" and
    "cb_ready t" and "device_data t = scan_device n (e \<noteq> Silent) (device_data s)" and
    "reg_in t = (reg_in s)[Suc n := swept_reg (of_nat (Suc n)) e (reg_in s ! Suc n)]" and
    "reg_hold t = reg_hold s" and "reg_discrete t = reg_discrete s"
proof (cases e)
  case Silent
  let ?t = "(read_input_send_data (of_nat (Suc n)) s)\<lparr>device_data := scan_device n False (device_data s)\<rparr>"
  have "cb_ready ?t"
    using sends_ready assms(2) by (intro cb_ready_device) (simp_all add: wf_scan_device scan_at_def cb_ready_def wf_cb_def)
  then show ?thesis
    using that [of ?t] scan_iter_silent [OF assms(1,2)] Silent by (simp add: sends_same)
next
  case (Reply k d)
  then have n: "n < 31" "k < 20" "length d = 220" using assms by auto
  let ?r = "(reg_in s)[Suc n := swept_reg (of_nat (Suc n)) e (reg_in s ! Suc n)]"
  let ?t = "(read_input_send_data (of_nat (Suc n)) s)\<lparr>reg_in := ?r, device_data := scan_device n True (device_data s)\<rparr>"
  have "cb_ready ?t"
    using sends_ready [of s "of_nat (Suc n)"] assms(2) sends_same(4) [of "of_nat (Suc n)" s]
    by (simp add: wf_scan_device scan_at_def cb_ready_def wf_cb_def)
  then show ?thesis
    using that [of ?t] scan_iter_reply [OF n(1) assms(2) n(2,3)] Reply by (simp add: sends_same)
qed

text \<open>If address 32 answers, its registers are stored outside the arrays.\<close>

lemma sweep:
  assumes "n + length es = 32" and "es \<noteq> []" and "scan_at n l s" and "\<forall>e \<in> set es. reply_ok e"
  shows "if last es = Silent
    then \<exists>l' s'. cb_iters (length es) (sweep_ticks n es) l s = Some (l', s', []) \<and> swept n es l s l' s'
    else cb_iters (length es) (sweep_ticks n es) l s = None"
  using assms
proof (induction es arbitrary: n l s)
  case (Cons e es)
  show ?case
  proof (cases "n = 31 \<and> e \<noteq> Silent")
    case True
    then obtain k d where "e = Reply k d" "k < 20" "length d = 220" "es = []"
      using Cons.prems(1,4) by (cases e) auto
    then show ?thesis using True scan_iter_outside [of l s k d "[]"] Cons.prems(3) by simp
  next
    case False
    then have n: "n < 32" and last: "n = 31 \<longrightarrow> e = Silent" using Cons.prems(1) by auto
    have ok: "reply_ok e" using Cons.prems(4) by simp
    obtain t where t: "\<And>ts. circuit_breaker_control_iter (reply_ticks (of_nat (Suc n)) e @ ts) l s =
        Some (scan_next n (e \<noteq> Silent) l, t, ts)"
      and ready: "cb_ready t" and dev: "device_data t = scan_device n (e \<noteq> Silent) (device_data s)"
      and reg: "reg_in t = (reg_in s)[Suc n := swept_reg (of_nat (Suc n)) e (reg_in s ! Suc n)]"
      and same: "reg_hold t = reg_hold s" "reg_discrete t = reg_discrete s"
      by (rule scan_iter [OF n Cons.prems(3) ok last]) (rule that; assumption)
    let ?l = "scan_next n (e \<noteq> Silent) l"
    have len: "length (cb_slave_addr (device_data s)) = 32" "length (reg_in s) = 32"
      using Cons.prems(3) by (simp_all add: scan_at_def cb_ready_def wf_cb_def wf_device_def CIRCUIT_BREAKER_MAX_NUM_def)
    show ?thesis
    proof (cases "es = []")
      case True
      then have "n = 31" "e = Silent" using Cons.prems(1) last by auto
      then show ?thesis
        using t [of "[]"] ready dev reg same len True Cons.prems(3)
        by (auto simp: swept_def scan_next_def scan_device_def scan_at_def scan_entry_def nth_list_update Let_def)
    next
      case False
      then have "n < 31" using Cons.prems(1) by (cases es) auto
      then have "scan_at (Suc n) ?l t"
        using Cons.prems(3) ready dev by (auto simp: scan_at_def scan_next_def scan_device_def Let_def)
      from Cons.IH [OF _ False this] Cons.prems
      have IH: "if last es = Silent
        then \<exists>l' s'. cb_iters (length es) (sweep_ticks (Suc n) es) ?l t = Some (l', s', []) \<and> swept (Suc n) es ?l t l' s'
        else cb_iters (length es) (sweep_ticks (Suc n) es) ?l t = None" by simp
      have "swept n (e # es) l s l' s'" if "swept (Suc n) es ?l t l' s'" for l' s'
        using that len same unfolding swept_def dev reg
        by (auto simp: scan_next_def scan_device_def scan_entry_def nth_list_update nth_Cons'
            less_Suc_eq le_Suc_eq Let_def)
      with IH t False show ?thesis by (auto split: if_splits)
    qed
  qed
qed simp

end
