(* ===== verification/Cb_Properties.thy ===== *)
theory Cb_Properties
  imports Cb_Scan
begin

text \<open>What the circuit breaker master guarantees, and the corners where it does not.\<close>

section \<open>Helper facts\<close>

lemma cb_thread_init_ready: "cb_ready s \<Longrightarrow> cb_ready (cb_thread_init s)"
  by (simp add: cb_ready_def wf_cb_def cb_thread_init_def wf_device_def)

text \<open>Registers of the input image that one assignment of the table does not name.\<close>

fun names64 :: "in_assign \<Rightarrow> in_reg64 list" where
  "names64 (In64 f i) = [f]"
| "names64 _ = []"

lemma in_step_other: "f \<notin> set (names64 a) \<Longrightarrow> in64 (in_step rx r a) f = in64 r f"
  by (cases a) auto

lemma foldl_in_step_other:
  "f \<notin> set (concat (map names64 as)) \<Longrightarrow> in64 (foldl (in_step rx) r as) f = in64 r f"
  by (induction as arbitrary: r) (auto simp: in_step_other)

lemma foldl_in_step64:
  "distinct (concat (map names64 as)) \<Longrightarrow> In64 f i \<in> set as \<Longrightarrow>
     in64 (foldl (in_step rx) r as) f = in64 (in_step rx r (In64 f i)) f"
proof (induction as arbitrary: r)
  case (Cons a as)
  show ?case
  proof (cases "a = In64 f i")
    case True
    then show ?thesis using Cons.prems(1) foldl_in_step_other [of f as rx "in_step rx r a"] by auto
  next
    case False
    then show ?thesis using Cons by auto
  qed
qed simp

lemma distinct_names64: "distinct (concat (map names64 in_read_map))"
  by (simp add: in_read_map_def)

lemma coil_reply_same:
  "read_coil_handle a n ts s = Some (r, t, ts') \<Longrightarrow> cb_same_regs s t \<and>
     circuit_breaker_tx_buf t = circuit_breaker_tx_buf s"
  unfolding read_coil_handle_def
proof (induction n arbitrary: ts s)
  case (Suc n)
  then obtain u where u: "cb_irqs (tick_now ts) s = Some u" by (auto split: bind_splits)
  note frame = cb_irqs_frame [OF u]
  show ?case
  proof (cases "circuit_timeout_flag u = 1")
    case True
    then show ?thesis
      using Suc.prems u frame
      by (auto simp: cb_eval_def cb_clear_rx_def cb_same_regs_def Let_def split: bind_splits if_splits)
  next
    case False
    then show ?thesis
      using Suc.prems u frame Suc.IH [of "tl ts" u] by (auto intro: cb_same_regs_trans)
  qed
qed auto

section \<open>Properties\<close>

text \<open>C1: A full bus scan. From the cleared start of the thread, 32 iterations of its loop against
  an environment in which every address may stay silent or answer within its reply window. If
  address 32 is silent, the address table holds exactly the addresses that answered (0xff
  elsewhere), each answered address has its decoded input registers, all other images are still
  cleared, and the scan is over iff somebody answered. If address 32 answers, the scan writes
  outside the arrays, which have no element 32.\<close>

theorem cb_scan_sweep:
  assumes "cb_ready s" and "cb_slave_device_have_ack_flag (device_data s) = 0"
    and "length es = 32" and "\<forall>e \<in> set es. reply_ok e"
  shows "if last es = Silent
    then \<exists>l' s'. cb_iters 32 (sweep_ticks 0 es) cb_locals_init (cb_thread_init s) = Some (l', s', []) \<and>
      (scan_flag l' = 1 \<longleftrightarrow> (\<exists>e \<in> set es. e \<noteq> Silent)) \<and>
      (\<forall>j < 32. cb_slave_addr (device_data s') ! j = (if es ! j = Silent then 0xff else of_nat (Suc j))) \<and>
      (\<forall>j < 32. reg_in s' ! j = (if j = 0 then reg_in_zero else swept_reg (of_nat j) (es ! (j - 1)) reg_in_zero)) \<and>
      reg_hold s' = reg_hold (cb_thread_init s) \<and> reg_discrete s' = reg_discrete (cb_thread_init s)
    else cb_iters 32 (sweep_ticks 0 es) cb_locals_init (cb_thread_init s) = None"
proof -
  have "scan_at 0 cb_locals_init (cb_thread_init s)"
    using assms(1,2) cb_thread_init_ready by (simp add: scan_at_def cb_locals_init_def cb_thread_init_def)
  moreover have "es \<noteq> []" using assms(3) by auto
  ultimately have "if last es = Silent
    then \<exists>l' s'. cb_iters 32 (sweep_ticks 0 es) cb_locals_init (cb_thread_init s) = Some (l', s', []) \<and>
      swept 0 es cb_locals_init (cb_thread_init s) l' s'
    else cb_iters 32 (sweep_ticks 0 es) cb_locals_init (cb_thread_init s) = None"
    using sweep [of 0 es cb_locals_init "cb_thread_init s", unfolded assms(3) add_0_left, OF refl _ _ assms(4)] by blast
  moreover have "reg_in (cb_thread_init s) ! j = reg_in_zero" if "j < 32" for j
    using that by (simp add: cb_thread_init_def CIRCUIT_BREAKER_MAX_NUM_def)
  ultimately show ?thesis
    by (fastforce simp: swept_def scan_entry_def cb_locals_init_def split: if_splits)
qed

theorem cb_scan_sweep_witness:
  "(\<exists>l' s'. cb_iters 32 (sweep_ticks 0 (Reply 3 (zeros 220) # replicate 31 Silent)) cb_locals_init
      (cb_thread_init cb_state_init) = Some (l', s', []) \<and>
    scan_flag l' = 1 \<and> cb_slave_addr (device_data s') ! 0 = 1 \<and> cb_slave_addr (device_data s') ! 1 = 0xff) \<and>
   cb_iters 32 (sweep_ticks 0 (replicate 31 Silent @ [Reply 3 (zeros 220)])) cb_locals_init (cb_thread_init cb_state_init) = None"
proof -
  have "cb_slave_device_have_ack_flag (device_data cb_state_init) = 0"
    by (simp add: cb_state_init_def device_data_init_def)
  note sweep = cb_scan_sweep [OF cb_ready_init this]
  from sweep [of "Reply 3 (zeros 220) # replicate 31 Silent"]
  obtain l' s' where r: "cb_iters 32 (sweep_ticks 0 (Reply 3 (zeros 220) # replicate 31 Silent)) cb_locals_init
      (cb_thread_init cb_state_init) = Some (l', s', [])" and "scan_flag l' = 1"
    and a: "\<forall>j < 32. cb_slave_addr (device_data s') ! j =
      (if (Reply 3 (zeros 220) # replicate 31 Silent) ! j = Silent then 0xff else of_nat (Suc j))"
    by auto
  moreover have "cb_slave_addr (device_data s') ! 0 = 1" "cb_slave_addr (device_data s') ! 1 = 0xff"
    using a [rule_format, of 0] a [rule_format, of 1] by simp_all
  moreover have "cb_iters 32 (sweep_ticks 0 (replicate 31 Silent @ [Reply 3 (zeros 220)])) cb_locals_init (cb_thread_init cb_state_init) = None"
    using sweep [of "replicate 31 Silent @ [Reply 3 (zeros 220)]"] by (auto split: if_splits)
  ultimately show ?thesis by blast
qed

text \<open>C40: The register arrays have 32 elements but the scan also asks address 32: a genuine reply
  from a breaker with that address, as late as the window allows, is stored outside the arrays.\<close>

theorem cb_scan_address_32:
  assumes "scan_at 31 l s" and "k < 20" and "length d = 220"
  shows "circuit_breaker_control_iter (reply_ticks 32 (Reply k d) @ ts) l s = None"
  by (rule scan_iter_outside [OF assms])

theorem cb_scan_address_32_witness:
  "circuit_breaker_control_iter (reply_ticks 32 (Reply 0 (zeros 220))) cb_locals_init
     (cb_state_init\<lparr>device_data := device_data_init\<lparr>cb_query_slave_cnt := 32, cb_slave_addr_cnt := 31\<rparr>\<rparr>) = None"
proof -
  have "scan_at 31 cb_locals_init
      (cb_state_init\<lparr>device_data := device_data_init\<lparr>cb_query_slave_cnt := 32, cb_slave_addr_cnt := 31\<rparr>\<rparr>)"
    using cb_ready_device [OF cb_ready_init, of
      "device_data_init\<lparr>cb_query_slave_cnt := 32, cb_slave_addr_cnt := 31\<rparr>"] wf_device_init
    by (simp add: scan_at_def cb_locals_init_def wf_device_def) (simp add: device_data_init_def)
  from cb_scan_address_32 [OF this, of 0 "zeros 220" "[]"] show ?thesis by simp
qed

text \<open>C15: Reading the settings. When the genuine reply with the 98 payload bytes arrives inside the
  window, the handler succeeds, the 49 holding registers in the order of their addresses are the
  49 consecutive big-endian words of the payload, and nothing else changes.\<close>

theorem read_hold_decodes:
  assumes "cb_ready s" and "k < n" and "length d = 98" and "unat a < 32"
  shows "\<exists>regs. read_hold_handle a n
      (replicate k [] @ answer (with_crc_le circuit_breaker_modbus_crc16 ([a, 3, 98] @ d)) # ts) s =
      Some (SYS_OK, s\<lparr>reg_hold := (reg_hold s)[unat a := regs]\<rparr>, ts) \<and>
    map regs [REG1_RATED_CURRENT, REG1_SPUV, REG1_SPUVP, REG1_SPOV, REG1_SPOVP, REG1_SPVC, REG1_SPVCP,
      REG1_SPOT, REG1_SPOTP, REG1_SLEAKAGE, REG1_SLEAKAGEP, REG1_OL, REG1_OLP, REG1_OP, REG1_OPP,
      REG1_UVA, REG1_UVAP, REG1_UVB, REG1_UVBP, REG1_UVC, REG1_UVCP, REG1_OVA, REG1_OVAP, REG1_OVB,
      REG1_OVBP, REG1_OVC, REG1_OVCP, REG1_OCA, REG1_OCA_BK, REG1_OCAP, REG1_OCAP_BK, REG1_OCB,
      REG1_OCB_BK, REG1_OCBP, REG1_OCBP_BK, REG1_OCC, REG1_OCC_BK, REG1_OCCP, REG1_OCCP_BK, REG1_OTA,
      REG1_OTAP, REG1_OTB, REG1_OTBP, REG1_OTC, REG1_OTCP, REG1_OTN, REG1_OTNP, REG1_UBL, REG1_UBLP] =
    map (\<lambda>i. be16 (d ! (2 * i)) (d ! (2 * i + 1))) [0..<49]"
proof -
  let ?msg = "[a, 3, 98] @ d"
  let ?rx = "with_crc_le circuit_breaker_modbus_crc16 ?msg @ zeros (298 - length ?msg)"
  have len: "reply_len ?rx = length ?msg"
    using assms(3) by (simp add: reply_len_def with_crc_le_def)
  have "read_hold_handle a n (replicate k [] @ answer (with_crc_le circuit_breaker_modbus_crc16 ?msg) # ts) s =
    do {
      s \<leftarrow> hold_update a ?rx (s\<lparr>circuit_breaker_rx_buf := ?rx\<rparr>);
      Some (SYS_OK, cb_clear_rx s, ts)
    }"
    unfolding read_hold_handle_def
    by (rule cb_exchange [where len = reply_len and msg = ?msg, OF assms(1,2) _ _ _ _ len])
      (use assms(3) in simp_all)
  also have "\<dots> = Some (SYS_OK, s\<lparr>reg_hold := (reg_hold s)[unat a := hold_decode ?rx (reg_hold s ! unat a)]\<rparr>, ts)"
    using assms by (simp add: hold_update_def arr_put_Some cb_ready_def wf_cb_def CIRCUIT_BREAKER_MAX_NUM_def cb_clear_rx_def)
  finally have handle: "read_hold_handle a n (replicate k [] @ answer (with_crc_le circuit_breaker_modbus_crc16 ?msg) # ts) s =
    Some (SYS_OK, s\<lparr>reg_hold := (reg_hold s)[unat a := hold_decode ?rx (reg_hold s ! unat a)]\<rparr>, ts)" .
  have dec: "hold_decode ?rx old f = be16 (d ! (hi - 3)) (d ! (lo - 3))"
    if m: "(f, hi, lo) \<in> set hold_read_map" for f hi lo old
  proof -
    have "?rx ! i = d ! (i - 3)" if "3 \<le> i" "i < 101" for i
      using that assms(3) by (auto simp: with_crc_le_def nth_append nth_Cons' numeral_3_eq_3)
    with hold_read_range [OF m] have "?rx ! hi = d ! (hi - 3)" "?rx ! lo = d ! (lo - 3)" by simp_all
    then show ?thesis using hold_decode_nth [OF m, of ?rx old] by simp
  qed
  have "map (\<lambda>(f, hi, lo). hold_decode ?rx (reg_hold s ! unat a) f) hold_read_map =
      map (\<lambda>(f, hi, lo). be16 (d ! (hi - 3)) (d ! (lo - 3))) hold_read_map"
    using dec by (intro map_cong) auto
  then have "map (hold_decode ?rx (reg_hold s ! unat a)) (map fst hold_read_map) =
      map (\<lambda>i. be16 (d ! (2 * i)) (d ! (2 * i + 1))) [0..<49]"
    by (simp add: hold_read_map_def upt_rec)
  with handle show ?thesis
    by (intro exI [of _ "hold_decode ?rx (reg_hold s ! unat a)"]) (simp add: hold_read_map_def)
qed

theorem read_hold_decodes_witness:
  "\<exists>regs. read_hold_handle 5 20
      (replicate 2 [] @ [answer (with_crc_le circuit_breaker_modbus_crc16 ([5, 3, 98] @ [1, 2] @ zeros 96))]) cb_state_init =
      Some (SYS_OK, cb_state_init\<lparr>reg_hold := (reg_hold cb_state_init)[5 := regs]\<rparr>, []) \<and>
    regs REG1_RATED_CURRENT = 0x0102"
proof -
  have "0 < length [0..<49]" by simp
  with read_hold_decodes [OF cb_ready_init, of 2 20 "[1, 2] @ zeros 96" 5 "[]"] show ?thesis
    by (auto simp: be16_def upt_rec)
qed

text \<open>C16: Settings survive the bus. Whatever registers are sent with a write request, a breaker that
  stores the 96 payload bytes and returns them behind any rated current gives every one of the
  48 writable registers back in the next read reply.\<close>

theorem write_then_read_hold:
  assumes "wf_cb s" and "unat a < 32" and "f \<noteq> REG1_RATED_CURRENT"
  shows "\<exists>t frame. write_hold_send_data a s = Some t \<and> usart_out t = usart_out s @ [frame] \<and>
    length frame = 105 \<and> crc_le_ok circuit_breaker_modbus_crc16 frame 103 \<and>
    take 7 frame = [a, 0x10, 0x0f, 0xa1, 0x00, 0x30, 0x60] \<and>
    hold_decode ([a, 3, 98, c1, c2] @ take 96 (drop 7 frame) @ trailer) old f = (reg_hold s ! unat a) f"
proof -
  let ?hdr = "[a, 0x10, 0x0f, 0xa1, 0x00, 0x30, 0x60] :: u8 list"
  let ?tx0 = "buf_write (circuit_breaker_tx_buf s) 0 ?hdr"
  let ?tx = "hold_encode (reg_hold s ! unat a) ?tx0"
  let ?crc = "circuit_breaker_modbus_crc16 ?tx 103"
  let ?frame = "take 105 ((?tx[103 := lo8 ?crc])[104 := hi8 ?crc])"
  have len: "length ?tx0 = 300" "length ?tx = 300"
    using assms(1) by (simp_all add: wf_cb_def)
  have t: "write_hold_send_data a s = Some (cb_transmit 105
      (s\<lparr>circuit_breaker_tx_buf := (?tx[103 := lo8 ?crc])[104 := hi8 ?crc]\<rparr>))"
    using assms by (simp add: write_hold_send_data_def wf_cb_def CIRCUIT_BREAKER_MAX_NUM_def Let_def)
  have out: "usart_out (cb_transmit 105
      (s\<lparr>circuit_breaker_tx_buf := (?tx[103 := lo8 ?crc])[104 := hi8 ?crc]\<rparr>)) = usart_out s @ [?frame]"
    by (simp add: cb_transmit_def)
  have l105: "length ?frame = 105" using len by simp
  have "circuit_breaker_modbus_crc16 ?frame 103 = ?crc"
    by (rule cb.crc_prefix) (simp_all add: take_update_cancel)
  then have crc: "crc_le_ok circuit_breaker_modbus_crc16 ?frame 103"
    using len by (simp add: crc_le_ok_def)
  have "take 7 ?frame = take 7 ?tx" by simp
  also have "\<dots> = ?hdr"
    by (rule nth_equalityI) (use len in \<open>simp_all add: hold_encode_low\<close>)
  finally have t7: "take 7 ?frame = ?hdr" .
  have "hold_decode ([a, 3, 98, c1, c2] @ take 96 (drop 7 ?frame) @ trailer) old f = (reg_hold s ! unat a) f"
  proof (rule hold_write_read [OF _ _ assms(3)])
    fix k :: nat
    assume k: "k < 96"
    have "([a, 3, 98, c1, c2] @ take 96 (drop 7 ?frame) @ trailer) ! (5 + k) = take 96 (drop 7 ?frame) ! k"
      using k l105 by (simp add: nth_append)
    also have "\<dots> = ?tx ! (7 + k)" using k l105 len by simp
    finally show "([a, 3, 98, c1, c2] @ take 96 (drop 7 ?frame) @ trailer) ! (5 + k) = ?tx ! (7 + k)" .
  qed (use len in simp)
  with t out l105 crc t7 show ?thesis by blast
qed

theorem write_then_read_hold_witness:
  "\<exists>t frame. write_hold_send_data 7 cb_state_init = Some t \<and> usart_out t = [frame] \<and> length frame = 105"
proof -
  have "wf_cb cb_state_init" using cb_ready_init by (simp add: cb_ready_def)
  from write_then_read_hold [OF this, of 7 REG1_SPUV 0 0 "[]" reg_hold_zero] show ?thesis
    by (auto simp: cb_state_init_def)
qed

text \<open>C14: Two neighbouring data bytes of a settings reply hit by a disturbance, in any of the
  65535 ways: the reply is refused, and the state is exactly the state before the exchange.\<close>

theorem read_hold_burst_refused:
  assumes "cb_ready s" and "k < n" and "length pre + 2 + length post = 98" and "(x', y') \<noteq> (x, y)"
    and "msg = [a, 3, 98] @ pre @ [x, y] @ post"
  shows "read_hold_handle a n (replicate k [] @
      answer ([a, 3, 98] @ pre @ [x', y'] @ post @
        [lo8 (circuit_breaker_modbus_crc16 msg 101), hi8 (circuit_breaker_modbus_crc16 msg 101)]) # ts) s =
    Some (SYS_FAIL, s, ts)"
proof -
  have "reply_len b = 101" if "take 3 b = take 3 (([a, 3, 98] @ pre) @ [x', y'] @ post)" for b
  proof -
    have "b ! 2 = take 3 b ! 2" by simp
    then show ?thesis using that by (simp add: reply_len_def)
  qed
  then show ?thesis
    using cb_exchange_burst [where pre = "[a, 3, 98] @ pre" and post = post and x = x and y = y and x' = x' and
        y' = y' and msg = msg and len = reply_len and s = s and k = k and timeout = n and ts = ts and addr = a and
        fn = 3 and update = "hold_update a" and l = "lo8 (circuit_breaker_modbus_crc16 msg 101)" and
        h = "hi8 (circuit_breaker_modbus_crc16 msg 101)"] assms
    unfolding read_hold_handle_def by simp
qed

theorem read_hold_burst_refused_witness:
  "read_hold_handle 5 20 [answer ([5, 3, 98] @ [] @ [1, 0] @ zeros 96 @
      [lo8 (circuit_breaker_modbus_crc16 ([5, 3, 98] @ [] @ [0, 0] @ zeros 96) 101),
       hi8 (circuit_breaker_modbus_crc16 ([5, 3, 98] @ [] @ [0, 0] @ zeros 96) 101)])] cb_state_init =
    Some (SYS_FAIL, cb_state_init, [])"
  using read_hold_burst_refused [OF cb_ready_init, of 0 20 "[]" "zeros 96" 1 0 0 0
    "[5, 3, 98] @ [] @ [0, 0] @ zeros 96" 5 "[]"] by simp

text \<open>C29: All five reply handlers: on any input, a result other than success is failure or timeout and
  leaves every register image and the shared device data as they were.\<close>

theorem handlers_fail_clean:
  assumes "h \<in> {read_coil_handle, write_hold_handle, read_hold_handle, read_discrete_handle,
      read_input_register_handle}"
    and "h a n ts s = Some (r, t, ts')" and "r \<noteq> SYS_OK"
  shows "(r = SYS_FAIL \<or> r = SYS_E_TIMEOUT) \<and> reg_in t = reg_in s \<and> reg_hold t = reg_hold s \<and>
    reg_discrete t = reg_discrete s \<and> device_data t = device_data s"
proof -
  obtain fn len update where "h a = cb_wait (cb_eval a fn len update)"
    using assms(1) by (auto simp: read_coil_handle_def write_hold_handle_def read_hold_handle_def
      read_discrete_handle_def read_input_register_handle_def)
  with cb_wait_fail assms(2,3) show ?thesis unfolding cb_same_regs_def by metis
qed

theorem handlers_fail_clean_witness:
  "\<exists>t. read_coil_handle 1 30 (replicate 30 []) cb_state_init = Some (SYS_E_TIMEOUT, t, []) \<and>
     reg_hold t = reg_hold cb_state_init"
proof -
  have r: "read_coil_handle 1 30 (replicate 30 []) cb_state_init = Some (SYS_E_TIMEOUT, cb_state_init, [])"
    using cb_wait_silent [of cb_state_init _ 30 "[]"] by (simp add: read_coil_handle_def cb_state_init_def)
  show ?thesis
    using handlers_fail_clean [where h = read_coil_handle, OF _ r] r by auto
qed

text \<open>C39: The receive interrupts stay inside the 300-byte buffer exactly as long as at most 300
  bytes have arrived since the counter was last reset; the counter check comes one byte too late.\<close>

theorem cb_receiver_bounds:
  assumes "length (circuit_breaker_rx_buf s) = 300" and "unat (circuit_rx_cnt s) \<le> 300"
  shows "cb_irqs is s = None \<longleftrightarrow> 300 < unat (circuit_rx_cnt s) + length (rx_bytes is)"
  by (rule cb_rx.bounds [OF TrueI assms])

theorem cb_receiver_bounds_witness:
  "cb_irqs (map RxFull (zeros 301)) cb_state_init = None \<and> cb_irqs (map RxFull (zeros 300)) cb_state_init \<noteq> None"
proof -
  have s: "length (circuit_breaker_rx_buf cb_state_init) = 300" "unat (circuit_rx_cnt cb_state_init) \<le> 300"
    by (simp_all add: cb_state_init_def)
  show ?thesis
    using cb_receiver_bounds [OF s, of "map RxFull (zeros 301)"] cb_receiver_bounds [OF s, of "map RxFull (zeros 300)"]
    by (simp add: cb_state_init_def)
qed

text \<open>The 64-bit energy counters of an input reply. Each is the big-endian value of its eight
  bytes, except that the C expression sign-extends the fifth byte: from 128 on the stored
  value is too small by 2 ^ 32.\<close>

theorem in_decode_energy:
  assumes "In64 f i \<in> set in_read_map"
  shows "in64 (in_decode rx regs) f =
    be64 (rx ! i) (rx ! (i + 1)) (rx ! (i + 2)) (rx ! (i + 3)) (rx ! (i + 4)) (rx ! (i + 5)) (rx ! (i + 6)) (rx ! (i + 7))
    - (if 128 \<le> unat (rx ! (i + 4)) then 2 ^ 32 else 0)"
  using foldl_in_step64 [OF distinct_names64 assms, of rx regs] c_u64_eq by (simp add: in_decode_def)

theorem in_decode_energy_witness:
  "In64 REG0_SPSE 27 \<in> set in_read_map \<and>
   in64 (in_decode (zeros 31 @ [128] @ zeros 200) reg_in_zero) REG0_SPSE = 0x80000000 - 2 ^ 32"
proof -
  have m: "In64 REG0_SPSE 27 \<in> set in_read_map" by (simp add: in_read_map_def)
  show ?thesis
    using m in_decode_energy [OF m, of "zeros 31 @ [128] @ zeros 200" reg_in_zero]
    by (simp add: nth_append be64_def)
qed

text \<open>The four short requests put on the line exactly their header followed by its own CRC, low
  byte first, whatever the transmit buffer held before; a slave's CRC check accepts each.\<close>

theorem requests_on_the_line:
  assumes "length (circuit_breaker_tx_buf s) = 300"
  shows "usart_out (set_coil_send_data a on s) = usart_out s @
      [with_crc_le circuit_breaker_modbus_crc16 [a, 5, 0, 0, if on = 1 then 0xff else 0, 0]] \<and>
    usart_out (read_hold_send_data a s) = usart_out s @
      [with_crc_le circuit_breaker_modbus_crc16 [a, 3, 0x0f, 0xa0, 0, 49]] \<and>
    usart_out (read_discrete_send_data a s) = usart_out s @
      [with_crc_le circuit_breaker_modbus_crc16 [a, 2, 0x07, 0xd0, 0, 57]] \<and>
    usart_out (read_input_send_data a s) = usart_out s @
      [with_crc_le circuit_breaker_modbus_crc16 [a, 4, 0x0b, 0xb8, 0, 110]] \<and>
    crc_le_ok circuit_breaker_modbus_crc16
      (with_crc_le circuit_breaker_modbus_crc16 [a, fn, r1, r0, n1, n0]) 6"
  using cb_request_frame [OF assms] cb.own_frame_le [of "[a, fn, r1, r0, n1, n0]" "[]"]
  by (simp add: cb_request_defs eval_nat_numeral)

theorem requests_on_the_line_witness:
  "usart_out (set_coil_send_data 3 1 cb_state_init) =
     [with_crc_le circuit_breaker_modbus_crc16 [3, 5, 0, 0, 0xff, 0]]"
  using requests_on_the_line [of cb_state_init 3 1, THEN conjunct1] by (simp add: cb_state_init_def)

text \<open>When a switch command and a settings command are pending in the same iteration, handling
  the first sets the target address to 0xff, and the second then reads the settings of
  breaker 255, outside the register array.\<close>

theorem both_commands_outside:
  assumes "wf_cb s" and "cbclose_flag (device_data s) = 1" and "cb_hold_flag (device_data s) = 1"
    and "cb_close_cmd ts s = Some (s', ts')"
  shows "cb_hold_cmd ts' s' = None"
proof -
  let ?d = "device_data s"
  let ?s = "set_coil_send_data (cbclose_data_addr ?d) (reclose_data_flag ?d)
    (s\<lparr>device_data := ?d\<lparr>cbclose_flag := 0\<rparr>\<rparr>)"
  from assms(2,4) obtain r t where
    t: "read_coil_handle (cbclose_data_addr ?d) 30 ts ?s = Some (r, t, ts')"
    and s': "s' = t\<lparr>device_data := (device_data t)\<lparr>reclose_data_flag := 0, cbclose_data_addr := 0xff\<rparr>\<rparr>"
    by (auto simp: cb_close_cmd_def Let_def split: bind_splits)
  have "cb_same_regs (s\<lparr>device_data := ?d\<lparr>cbclose_flag := 0\<rparr>\<rparr>) ?s"
    unfolding set_coil_send_data_def by (rule cb_request_same)
  with coil_reply_same [OF t] have "reg_hold t = reg_hold s" "device_data t = ?d\<lparr>cbclose_flag := 0\<rparr>"
    by (simp_all add: cb_same_regs_def)
  then show ?thesis
    using assms(1,3) by (simp add: s' cb_hold_cmd_def write_hold_send_data_def wf_cb_def CIRCUIT_BREAKER_MAX_NUM_def)
qed

theorem both_commands_outside_witness:
  "\<exists>s' ts'. cb_close_cmd (replicate 30 [])
      (cb_state_init\<lparr>device_data := device_data_init\<lparr>cbclose_flag := 1, cbclose_data_addr := 2, cb_hold_flag := 1\<rparr>\<rparr>)
      = Some (s', ts') \<and> cb_hold_cmd ts' s' = None"
proof -
  let ?d = "device_data_init\<lparr>cbclose_flag := 1, cbclose_data_addr := 2, cb_hold_flag := 1\<rparr>"
  let ?s = "cb_state_init\<lparr>device_data := ?d\<rparr>"
  let ?t = "set_coil_send_data 2 (reclose_data_flag ?d) (cb_state_init\<lparr>device_data := ?d\<lparr>cbclose_flag := 0\<rparr>\<rparr>)"
  have wf: "wf_cb ?s" "cb_ready (cb_state_init\<lparr>device_data := ?d\<lparr>cbclose_flag := 0\<rparr>\<rparr>)"
    using cb_ready_init wf_device_init cb_ready_device [OF cb_ready_init, of "?d\<lparr>cbclose_flag := 0\<rparr>"]
    by (simp_all add: cb_ready_def wf_cb_def wf_device_def)
  have "circuit_timeout_flag ?t = 0"
    using cb_request_ready [OF wf(2)] by (simp add: set_coil_send_data_def cb_ready_def)
  then have "read_coil_handle 2 30 (replicate 30 []) ?t = Some (SYS_E_TIMEOUT, ?t, [])"
    using cb_wait_silent [of ?t _ 30 "[]"] by (simp add: read_coil_handle_def)
  then have c: "\<exists>s' ts'. cb_close_cmd (replicate 30 []) ?s = Some (s', ts')"
    by (simp add: cb_close_cmd_def)
  then obtain s' ts' where c: "cb_close_cmd (replicate 30 []) ?s = Some (s', ts')" by blast
  have "cb_hold_cmd ts' s' = None" by (rule both_commands_outside [OF wf(1) _ _ c]) simp_all
  with c show ?thesis by blast
qed

end
