(* ===== verification/Monitor_Board.thy ===== *)
theory Monitor_Board
  imports Device_Data Modbus_Crc
begin

text \<open>
  The RS485 master of the power monitoring boards (\<^verbatim>\<open>app/monitor_board_handle.c\<close>): the
  interrupt callback that assembles frames byte by byte and decodes them, the request
  builders, and the polling branch of \<^verbatim>\<open>modbus_control_thread\<close>. A frame is
  \<^verbatim>\<open>f5 5f id lenH lenL fn ... crcH crcL 0d 0a\<close>; the length counts what follows it up to the
  CRC. \<^const>\<open>None\<close> is an access outside an array.
\<close>

section \<open>State\<close>

datatype pb_reg = relay_status | ac_voltage_value | ac_current_value
  | dc1_voltage_value | dc1_current_value | dc2_voltage_value | dc2_current_value
  | dc3_voltage_value | dc3_current_value | dc4_voltage_value | dc4_current_value
  | dc5_voltage_value | dc5_current_value | dc6_voltage_value | dc6_current_value
  | dc7_voltage_value | dc7_current_value | device_sw_ver | device_hw_ver | device_rs485_id

type_synonym power_monitoring_board_data = "pb_reg \<Rightarrow> u16"

record mb_state =
  buf_rev :: "u8 list"
  buf_rev_cnt :: u8
  mcu_id :: u8
  rs485_addr_buf :: u16
  mcu_data_len :: u16
  power_board_data :: "power_monitoring_board_data list"
  slave_device_tmp :: sys_slave_type
  rev_timerout_cnt :: u8
  rev_timerout_flag :: u8
  control_slave_relay_cnt :: u8
  slave_ok :: u8 \<comment> \<open>\<^verbatim>\<open>sys_psm.slave_ok\<close>\<close>
  mb_device :: sys_type \<comment> \<open>\<^verbatim>\<open>device_data\<close>\<close>
  mb_out :: "u8 list list" \<comment> \<open>the frames given to the USART\<close>

definition wf_mb :: "mb_state \<Rightarrow> bool" where
  "wf_mb s \<longleftrightarrow> length (buf_rev s) = 256 \<and> length (power_board_data s) = SLAVE_MAX_NUM \<and>
     length (device_name (slave_device_tmp s)) = 33 \<and> wf_device (mb_device s)"

definition mb_state_init :: mb_state where
  "mb_state_init = \<lparr>buf_rev = zeros 256, buf_rev_cnt = 0, mcu_id = 0, rs485_addr_buf = 0, mcu_data_len = 0,
     power_board_data = replicate SLAVE_MAX_NUM (\<lambda>_. 0), slave_device_tmp = slave_zero,
     rev_timerout_cnt = 0, rev_timerout_flag = 0, control_slave_relay_cnt = 0, slave_ok = 0,
     mb_device = device_data_init, mb_out = []\<rparr>"

lemma wf_mb_init: "wf_mb mb_state_init"
  by (simp add: wf_mb_def mb_state_init_def slave_zero_def wf_device_init)

section \<open>Constants\<close>

definition MCU_HEAD1_CODE :: u8 where "MCU_HEAD1_CODE = 0xf5"
definition MCU_HEAD2_CODE :: u8 where "MCU_HEAD2_CODE = 0x5f"
definition MCU_END1_CODE :: u8 where "MCU_END1_CODE = 0x0d"
definition MCU_END2_CODE :: u8 where "MCU_END2_CODE = 0x0A"
definition MCU_FUN_SEARCH :: u8 where "MCU_FUN_SEARCH = 0x01"
definition MCU_FUN_READ :: u8 where "MCU_FUN_READ = 0x02"
definition MCU_FUN_WRITE :: u8 where "MCU_FUN_WRITE = 0x03"
definition MCU_FUN_ASK_SEARCH :: u8 where "MCU_FUN_ASK_SEARCH = 0x81"
definition MCU_FUN_ASK_READ :: u8 where "MCU_FUN_ASK_READ = 0x82"
definition MCU_FUN_ASK_WRITE :: u8 where "MCU_FUN_ASK_WRITE = 0x83"
definition POWER_MONITOR_BOARD :: u8 where "POWER_MONITOR_BOARD = 0x02"
definition ADDR_RELAY1_STATUS :: u16 where "ADDR_RELAY1_STATUS = 0x0000"
definition ADDR_DRIVER_TYPE :: u16 where "ADDR_DRIVER_TYPE = 0xff00"
definition ADDR_DRIVER_NAME :: u16 where "ADDR_DRIVER_NAME = 0xff04"
definition FAN_RELAY :: u16 where "FAN_RELAY = 0x0100"
definition LIGHTING_RELAY :: u16 where "LIGHTING_RELAY = 0x0200"
definition DC7_RELAY :: u16 where "DC7_RELAY = 0x0080"

lemmas mb_consts = MCU_HEAD1_CODE_def MCU_HEAD2_CODE_def MCU_END1_CODE_def MCU_END2_CODE_def
  MCU_FUN_SEARCH_def MCU_FUN_READ_def MCU_FUN_WRITE_def MCU_FUN_ASK_SEARCH_def MCU_FUN_ASK_READ_def
  MCU_FUN_ASK_WRITE_def POWER_MONITOR_BOARD_def ADDR_RELAY1_STATUS_def ADDR_DRIVER_TYPE_def
  ADDR_DRIVER_NAME_def

section \<open>Decoding a complete frame\<close>

text \<open>
  The read reply is a sequence of (address, value) pairs at fixed places: each is taken over
  when the address bytes are the expected ones. Expected address, place of the pair, register.
\<close>

definition pb_read_map :: "(u16 \<times> nat \<times> pb_reg) list" where
  "pb_read_map = [
    (0x0000, 6, relay_status),
    (0x0002, 10, ac_voltage_value), (0x0003, 14, ac_current_value),
    (0x0008, 18, dc1_voltage_value), (0x0009, 22, dc1_current_value),
    (0x000a, 26, dc2_voltage_value), (0x000b, 30, dc2_current_value),
    (0x000c, 34, dc3_voltage_value), (0x000d, 38, dc3_current_value),
    (0x000e, 42, dc4_voltage_value), (0x000f, 46, dc4_current_value),
    (0x0010, 50, dc5_voltage_value), (0x0011, 54, dc5_current_value),
    (0x0012, 58, dc6_voltage_value), (0x0013, 62, dc6_current_value),
    (0x0014, 66, dc7_voltage_value), (0x0015, 70, dc7_current_value),
    (0xff01, 74, device_sw_ver), (0xff02, 78, device_hw_ver)]"

definition pb_take :: "u8 list \<Rightarrow> nat \<Rightarrow> u16 \<times> nat \<times> pb_reg \<Rightarrow> mb_state \<Rightarrow> mb_state" where
  "pb_take buf n e s =
     (let (a, i, r) = e; s = s\<lparr>rs485_addr_buf := be16 (buf ! i) (buf ! (i + 1))\<rparr>
      in if rs485_addr_buf s = a then
           s\<lparr>power_board_data := (power_board_data s)[n :=
             ((power_board_data s ! n)(r := be16 (buf ! (i + 2)) (buf ! (i + 3))))]\<rparr>
         else s)"

definition mb_ask_search :: "mb_state \<Rightarrow> mb_state option" where
  "mb_ask_search s =
     (let buf = buf_rev s;
          d = (slave_device_tmp s)\<lparr>slave_addr := buf ! 2\<rparr>;
          d = (if be16 (buf ! 6) (buf ! 7) = ADDR_DRIVER_TYPE then d\<lparr>device_type := buf ! 9\<rparr> else d);
          a = be16 (buf ! 18) (buf ! 19)
      in do {
        d \<leftarrow> (if a = ADDR_DRIVER_NAME then
                (if 34 \<le> length (device_name d) then
                   Some (d\<lparr>device_name := buf_write (device_name d) 0 (take 34 (drop 20 buf))\<rparr>)
                 else None)
              else Some d);
        Some (s\<lparr>slave_device_tmp := d, rs485_addr_buf := a,
          mb_device := (mb_device s)\<lparr>slave_device_have_ack_flag := 1\<rparr>\<rparr>)
      })"

definition mb_ask_read :: "mb_state \<Rightarrow> mb_state option" where
  "mb_ask_read s =
     (let buf = buf_rev s; d = mb_device s; n = unat (read_slave_device_cnt d) in
      if n < length (own_slave_device d) then
        Some (if slave_addr (own_slave_device d ! n) = buf ! 2 \<and>
                 device_type (own_slave_device d ! n) = POWER_MONITOR_BOARD
              then foldl (\<lambda>s e. pb_take buf n e s) s pb_read_map else s)
      else None)"

definition mb_ask_write :: "mb_state \<Rightarrow> mb_state option" where
  "mb_ask_write s =
     (let buf = buf_rev s; d = mb_device s; n = unat (control_slave_relay_cnt s) in
      if n < length (own_slave_device d) then
        Some (if slave_addr (own_slave_device d ! n) = buf ! 2 \<and>
                 device_type (own_slave_device d ! n) = POWER_MONITOR_BOARD
              then pb_take buf n (ADDR_RELAY1_STATUS, 6, relay_status) s else s)
      else None)"

text \<open>CRC check and dispatch on the function code.\<close>

definition mb_frame_done :: "mb_state \<Rightarrow> mb_state option" where
  "mb_frame_done s =
     (let buf = buf_rev s; n = unat (mcu_data_len s);
          mcu_checksum_read = be16 (buf ! (n + 3)) (buf ! (n + 4));
          mcu_checksum_cnt = modbus_crc16 (drop 2 buf) (n + 1)
      in if mcu_checksum_read = mcu_checksum_cnt then
           if buf ! 5 = MCU_FUN_ASK_SEARCH then mb_ask_search s
           else if buf ! 5 = MCU_FUN_ASK_READ then mb_ask_read s
           else if buf ! 5 = MCU_FUN_ASK_WRITE then mb_ask_write s
           else Some s
         else Some s)"

section \<open>The receive interrupt\<close>

definition mb_store :: "u8 \<Rightarrow> mb_state \<Rightarrow> mb_state" where
  "mb_store tmp s = s\<lparr>buf_rev := (buf_rev s)[unat (buf_rev_cnt s) := tmp], buf_rev_cnt := buf_rev_cnt s + 1\<rparr>"

definition USART4_RxFull_IrqCallback :: "u8 \<Rightarrow> mb_state \<Rightarrow> mb_state option" where
  "USART4_RxFull_IrqCallback tmp s0 =
     (let s = s0\<lparr>rev_timerout_cnt := 0\<rparr>; c = buf_rev_cnt s in
      if c = 0 then
        Some (if tmp = MCU_HEAD1_CODE then mb_store tmp s else s)
      else if c = 1 then
        Some (if tmp = MCU_HEAD2_CODE then (mb_store tmp s)\<lparr>rev_timerout_flag := 1\<rparr>
              else s\<lparr>buf_rev_cnt := 0\<rparr>)
      else if c = 2 then
        Some ((mb_store tmp s)\<lparr>mcu_id := tmp\<rparr>)
      else if c = 3 \<or> c = 4 then
        (let s = mb_store tmp s in
         Some (if buf_rev_cnt s = 5 then
                 let s = s\<lparr>mcu_data_len := be16 (buf_rev s ! 3) (buf_rev s ! 4)\<rparr>
                 in if mcu_data_len s \<ge> 256 then s\<lparr>buf_rev_cnt := 0\<rparr> else s
               else s))
      else
        (let s = mb_store tmp s in
         if unat (buf_rev_cnt s) \<ge> unat (mcu_data_len s) + 7 then
           do { s \<leftarrow> mb_frame_done s; Some (s\<lparr>buf_rev_cnt := 0\<rparr>) }
         else Some s))"

fun mb_rx :: "u8 list \<Rightarrow> mb_state \<Rightarrow> mb_state option" where
  "mb_rx [] s = Some s"
| "mb_rx (b # bs) s = do { s \<leftarrow> USART4_RxFull_IrqCallback b s; mb_rx bs s }"

section \<open>Requests\<close>

text \<open>
  The builders fill a local buffer: header, address, \<open>len\<close>, the body \<open>fn...\<close>, the CRC of
  \<open>len + 1\<close> bytes from index 2 on, high byte first, and the end bytes.
\<close>

definition mb_frame :: "u8 \<Rightarrow> u16 \<Rightarrow> u8 list \<Rightarrow> u8 list" where
  "mb_frame addr len body =
     (let msg = [addr, hi8 len, lo8 len] @ body;
          checksum = modbus_crc16 msg (unat len + 1)
      in [MCU_HEAD1_CODE, MCU_HEAD2_CODE] @ msg @ [hi8 checksum, lo8 checksum, MCU_END1_CODE, MCU_END2_CODE])"

definition mb_send :: "u8 list \<Rightarrow> mb_state \<Rightarrow> mb_state" where
  "mb_send f s = s\<lparr>mb_out := mb_out s @ [f]\<rparr>"

definition search_slave_driver_id :: "u8 \<Rightarrow> mb_state \<Rightarrow> mb_state" where
  "search_slave_driver_id addr =
     mb_send (mb_frame addr 6 [MCU_FUN_SEARCH, hi8 ADDR_DRIVER_TYPE, lo8 ADDR_DRIVER_TYPE, 0xfe])"

definition control_slave_relay :: "u8 \<Rightarrow> u16 \<Rightarrow> mb_state \<Rightarrow> mb_state" where
  "control_slave_relay addr relay_data =
     mb_send (mb_frame addr 7 [MCU_FUN_WRITE, hi8 ADDR_RELAY1_STATUS, lo8 ADDR_RELAY1_STATUS,
       hi8 relay_data, lo8 relay_data])"

text \<open>The read request goes out twice: byte by byte, then as a block.\<close>

definition read_slave_data :: "u8 \<Rightarrow> u8 \<Rightarrow> mb_state \<Rightarrow> mb_state" where
  "read_slave_data addr slave_type s =
     (let f = mb_frame addr 7 [MCU_FUN_READ, hi8 ADDR_DRIVER_TYPE, lo8 ADDR_DRIVER_TYPE, 0x00, slave_type]
      in mb_send f (mb_send f s))"

section \<open>The thread while the slave list is known\<close>

text \<open>What happens during a sleep: the bytes that arrive.\<close>

type_synonym rx_ticks = "u8 list list"

fun rx_now :: "rx_ticks \<Rightarrow> u8 list" where
  "rx_now [] = []"
| "rx_now (t # ts) = t"

definition mb_sleep :: "rx_ticks \<Rightarrow> mb_state \<Rightarrow> (mb_state \<times> rx_ticks) option" where
  "mb_sleep ts s = do { s \<leftarrow> mb_rx (rx_now ts) s; Some (s, tl ts) }"

definition mb_thread_init :: "mb_state \<Rightarrow> mb_state" where
  "mb_thread_init s =
     (let r = replicate SLAVE_MAX_NUM 0x03ff;
          r = r[0 := r ! 0 AND NOT FAN_RELAY];
          r = r[0 := r ! 0 AND NOT LIGHTING_RELAY];
          r = r[0 := r ! 0 AND NOT DC7_RELAY]
      in s\<lparr>mb_device := (mb_device s)\<lparr>power_monitoring_relay_data := r\<rparr>\<rparr>)"

text \<open>The reads of all slaves, from index \<open>i\<close> on; the loop compares with the current maximum.\<close>

function mb_read_all :: "nat \<Rightarrow> rx_ticks \<Rightarrow> mb_state \<Rightarrow> (mb_state \<times> rx_ticks) option" where
  "mb_read_all i ts s =
     (if i < unat (slave_device_max (mb_device s)) then
        if i < length (own_slave_device (mb_device s)) then
          do {
            let d = own_slave_device (mb_device s) ! i;
            (s, ts) \<leftarrow> mb_sleep ts (read_slave_data (slave_addr d) (device_type d) s);
            let s = s\<lparr>mb_device := (mb_device s)\<lparr>read_slave_device_cnt := read_slave_device_cnt (mb_device s) + 1\<rparr>\<rparr>;
            mb_read_all (i + 1) ts s
          }
        else None
      else Some (s, ts))"
  by pat_completeness auto
termination by (relation "measure (\<lambda>(i, ts, s). 256 - i)") (auto intro: u8_below_measure)

text \<open>The relay loop: a board whose relays differ from the wanted ones is told.\<close>

function mb_sync_relays :: "nat \<Rightarrow> rx_ticks \<Rightarrow> mb_state \<Rightarrow> (mb_state \<times> rx_ticks) option" where
  "mb_sync_relays i ts s =
     (if i < unat (slave_device_max (mb_device s)) then
        if i < length (own_slave_device (mb_device s)) \<and> i < length (power_board_data s) \<and>
           i < length (power_monitoring_relay_data (mb_device s)) then
          let d = own_slave_device (mb_device s) ! i; want = power_monitoring_relay_data (mb_device s) ! i in
          if device_type d = POWER_MONITOR_BOARD \<and> (power_board_data s ! i) relay_status \<noteq> want then
            do {
              let s = s\<lparr>power_board_data := (power_board_data s)[i := (power_board_data s ! i)(relay_status := want)],
                        control_slave_relay_cnt := of_nat i\<rparr>;
              (s, ts) \<leftarrow> mb_sleep ts (control_slave_relay (slave_addr d) want s);
              mb_sync_relays (i + 1) ts s
            }
          else mb_sync_relays (i + 1) ts s
        else None
      else Some (s, ts))"
  by pat_completeness auto
termination by (relation "measure (\<lambda>(i, ts, s). 256 - i)") (auto intro: u8_below_measure)

declare mb_read_all.simps [simp del] mb_sync_relays.simps [simp del]

text \<open>The receive timeout at the end of every iteration.\<close>

definition mb_rx_timeout :: "mb_state \<Rightarrow> mb_state" where
  "mb_rx_timeout s =
     (if rev_timerout_flag s = 1 then
        let s = s\<lparr>rev_timerout_cnt := rev_timerout_cnt s + 1\<rparr>
        in if rev_timerout_cnt s \<ge> 10
           then s\<lparr>rev_timerout_flag := 0, rev_timerout_cnt := 0, buf_rev_cnt := 0\<rparr> else s
      else s)"

text \<open>
  The branch \<^verbatim>\<open>sys_psm.slave_ok==1\<close> without the request for a new scan, the timeout and the
  sleep of 100 ms. \<open>timer\<close> is the local \<^verbatim>\<open>timer_5s_cnt\<close>.
\<close>

definition mb_poll_iter :: "rx_ticks \<Rightarrow> u16 \<Rightarrow> mb_state \<Rightarrow> (u16 \<times> mb_state \<times> rx_ticks) option" where
  "mb_poll_iter ts timer s =
     do {
       let timer = timer + 1;
       (timer, s, ts) \<leftarrow>
         (if timer \<ge> 50 then
            do {
              let s = s\<lparr>mb_device := (mb_device s)\<lparr>read_slave_device_cnt := 0\<rparr>\<rparr>;
              (s, ts) \<leftarrow> mb_read_all 0 ts s;
              Some (0, s, ts)
            }
          else Some (timer, s, ts));
       (s, ts) \<leftarrow> mb_sync_relays 0 ts s;
       (s, ts) \<leftarrow> mb_sleep ts (mb_rx_timeout s);
       Some (timer, s, ts)
     }"

text \<open>
  The accessors \<^verbatim>\<open>read_power_board_..._value\<close> for the reports, before the conversion to volts
  and amperes: the register each of them returns.
\<close>

fun getter_source :: "pb_reg \<Rightarrow> pb_reg" where
  "getter_source dc2_voltage_value = dc1_voltage_value"
| "getter_source dc3_voltage_value = dc1_voltage_value"
| "getter_source dc4_voltage_value = dc1_voltage_value"
| "getter_source dc5_voltage_value = dc1_voltage_value"
| "getter_source dc6_voltage_value = dc1_voltage_value"
| "getter_source dc7_voltage_value = dc1_voltage_value"
| "getter_source dc2_current_value = dc1_current_value"
| "getter_source dc3_current_value = dc1_current_value"
| "getter_source dc4_current_value = dc1_current_value"
| "getter_source dc5_current_value = dc1_current_value"
| "getter_source dc6_current_value = dc1_current_value"
| "getter_source dc7_current_value = dc1_current_value"
| "getter_source r = r"

definition read_power_board :: "pb_reg \<Rightarrow> u8 \<Rightarrow> mb_state \<Rightarrow> u16 option" where
  "read_power_board r num s =
     (if unat num < length (power_board_data s)
      then Some ((power_board_data s ! unat num) (getter_source r)) else None)"

section \<open>Assembling a frame\<close>

lemma mb_rx_append: "mb_rx (xs @ ys) = (\<lambda>s. do { t \<leftarrow> mb_rx xs s; mb_rx ys t })"
  by (induction xs) (auto intro!: ext simp: Option.bind_assoc)

lemma mb_rx_single: "mb_rx [b] s = USART4_RxFull_IrqCallback b s"
  by (cases "USART4_RxFull_IrqCallback b s") simp_all

lemma mb_rx_head:
  assumes "buf_rev_cnt s = 0" and "length (buf_rev s) = 256" and "be16 h l < 256"
  shows "mb_rx [MCU_HEAD1_CODE, MCU_HEAD2_CODE, a, h, l] s =
    Some (s\<lparr>rev_timerout_cnt := 0, buf_rev := buf_write (buf_rev s) 0 [MCU_HEAD1_CODE, MCU_HEAD2_CODE, a, h, l],
      buf_rev_cnt := 5, rev_timerout_flag := 1, mcu_id := a, mcu_data_len := be16 h l\<rparr>)"
proof -
  have b: "length b = 256 \<Longrightarrow> b[0 := u, Suc 0 := v, 2 := w, 3 := x, 4 := y] = buf_write b 0 [u, v, w, x, y]"
    for b and u v w x y :: u8
    by (rule nth_equalityI, simp, simp add: buf_write_def nth_append nth_Cons' nth_list_update,
      rule impI, rule arg_cong [where f = "nth b"], arith)
  have "b[0 := u, Suc 0 := v, 2 := w, 3 := x, 4 := y] ! 3 = x \<and> b[0 := u, Suc 0 := v, 2 := w, 3 := x, 4 := y] ! 4 = y"
    if "length b = 256" for b and u v w x y :: u8
    using that by simp
  with b show ?thesis
    using assms by (simp add: USART4_RxFull_IrqCallback_def mb_store_def Let_def not_le)
qed

lemma u8_cnt_step: "unat (c :: u8) < 255 \<Longrightarrow> unat (c + 1) = unat c + 1"
  by (simp add: unat_word_ariths)

lemma u8_cnt_ge_5: "5 \<le> unat (c :: u8) \<Longrightarrow> c \<noteq> 0 \<and> c \<noteq> 1 \<and> c \<noteq> 2 \<and> c \<noteq> 3 \<and> c \<noteq> 4"
  by auto

lemma mb_rx_body:
  assumes "length (buf_rev s) = 256" and "rev_timerout_cnt s = 0" and "5 \<le> unat (buf_rev_cnt s)"
    and "unat (buf_rev_cnt s) + length bs \<le> 255" and "unat (buf_rev_cnt s) + length bs < unat (mcu_data_len s) + 7"
  shows "mb_rx bs s = Some (s\<lparr>buf_rev := buf_write (buf_rev s) (unat (buf_rev_cnt s)) bs,
      buf_rev_cnt := buf_rev_cnt s + of_nat (length bs)\<rparr>)"
  using assms
proof (induction bs arbitrary: s)
  case (Cons b bs)
  have c: "unat (buf_rev_cnt s + 1) = unat (buf_rev_cnt s) + 1"
    using Cons.prems(4) by (intro u8_cnt_step) simp
  have "USART4_RxFull_IrqCallback b s = Some (mb_store b s)"
    using Cons.prems(2,5) u8_cnt_ge_5 [OF Cons.prems(3)] c
    by (simp add: USART4_RxFull_IrqCallback_def mb_store_def Let_def)
  moreover have "mb_rx bs (mb_store b s) = Some ((mb_store b s)\<lparr>
      buf_rev := buf_write (buf_rev (mb_store b s)) (unat (buf_rev_cnt (mb_store b s))) bs,
      buf_rev_cnt := buf_rev_cnt (mb_store b s) + of_nat (length bs)\<rparr>)"
    by (rule Cons.IH) (use Cons.prems c in \<open>simp_all add: mb_store_def\<close>)
  ultimately show ?case
    using Cons.prems c by (simp add: mb_store_def buf_write_step add.assoc)
qed simp

lemma mb_rx_last:
  assumes "rev_timerout_cnt s = 0" and "5 \<le> unat (buf_rev_cnt s)"
    and "unat (mcu_data_len s) + 7 \<le> unat (buf_rev_cnt s + 1)"
  shows "USART4_RxFull_IrqCallback b s =
    do { t \<leftarrow> mb_frame_done (mb_store b s); Some (t\<lparr>buf_rev_cnt := 0\<rparr>) }"
proof -
  have "s\<lparr>rev_timerout_cnt := 0\<rparr> = s" using assms(1) by simp
  moreover have "unat (mcu_data_len (mb_store b s)) + 7 \<le> unat (buf_rev_cnt (mb_store b s))"
    using assms(3) by (simp add: mb_store_def)
  ultimately show ?thesis
    using u8_cnt_ge_5 [OF assms(2)] by (simp add: USART4_RxFull_IrqCallback_def Let_def)
qed

text \<open>The state in which a complete frame is evaluated.\<close>

definition mb_received :: "u8 list \<Rightarrow> mb_state \<Rightarrow> mb_state" where
  "mb_received f s = s\<lparr>rev_timerout_cnt := 0, buf_rev := buf_write (buf_rev s) 0 f,
     buf_rev_cnt := of_nat (length f), rev_timerout_flag := 1, mcu_id := f ! 2,
     mcu_data_len := be16 (f ! 3) (f ! 4)\<rparr>"

lemma mb_rx_frame:
  assumes "buf_rev_cnt s = 0" and "length (buf_rev s) = 256"
    and "be16 h l = of_nat n" and "n \<le> 248" and "length rest = n + 2"
  shows "mb_rx ([MCU_HEAD1_CODE, MCU_HEAD2_CODE, a, h, l] @ rest) s =
    do {
      t \<leftarrow> mb_frame_done (mb_received ([MCU_HEAD1_CODE, MCU_HEAD2_CODE, a, h, l] @ rest) s);
      Some (t\<lparr>buf_rev_cnt := 0\<rparr>)
    }"
proof -
  let ?hd = "[MCU_HEAD1_CODE, MCU_HEAD2_CODE, a, h, l]"
  have n: "unat (of_nat n :: u16) = n" using assms(4) by (intro unat_of_nat_u16) simp
  then have "be16 h l < 256" using assms(3,4) by (simp add: word_less_nat_alt)
  note hd = mb_rx_head [OF assms(1,2) this, of a]
  obtain bs b where rest: "rest = bs @ [b]" using assms(5) by (cases rest rule: rev_cases) auto
  then have bs: "length bs = n + 1" using assms(5) by simp
  let ?s1 = "s\<lparr>rev_timerout_cnt := 0, buf_rev := buf_write (buf_rev s) 0 ?hd,
      buf_rev_cnt := 5, rev_timerout_flag := 1, mcu_id := a, mcu_data_len := be16 h l\<rparr>"
  let ?s2 = "?s1\<lparr>buf_rev := buf_write (buf_rev s) 0 (?hd @ bs), buf_rev_cnt := 5 + of_nat (length bs)\<rparr>"
  have "mb_rx bs ?s1 = Some (?s1\<lparr>buf_rev := buf_write (buf_rev ?s1) (unat (buf_rev_cnt ?s1)) bs,
      buf_rev_cnt := buf_rev_cnt ?s1 + of_nat (length bs)\<rparr>)"
    by (rule mb_rx_body) (use assms bs n in simp_all)
  then have two: "mb_rx bs ?s1 = Some ?s2"
    by simp
  have c: "unat (5 + of_nat (length bs) :: u8) = n + 6"
    using assms(4) bs unat_of_nat_u8 [of "n + 6"] by (simp add: algebra_simps)
  then have c1: "unat (5 + of_nat (length bs) + 1 :: u8) = n + 7"
    using assms(4) u8_cnt_step [of "5 + of_nat (length bs)"] by simp
  have st: "mb_store b ?s2 = mb_received (?hd @ rest) s"
  proof -
    have "(buf_write (buf_rev s) 0 (?hd @ bs))[n + 6 := b] = buf_write (buf_rev s) 0 (?hd @ bs @ [b])"
      using buf_write_append [of "n + 6" "?hd @ bs" "buf_rev s" "[b]"] bs assms(2,4)
        buf_write_step [of "n + 6" "buf_write (buf_rev s) 0 (?hd @ bs)" "[]" b] by simp
    then show ?thesis
      using bs c by (simp add: mb_store_def mb_received_def rest algebra_simps)
  qed
  have "USART4_RxFull_IrqCallback b ?s2 =
      do { t \<leftarrow> mb_frame_done (mb_store b ?s2); Some (t\<lparr>buf_rev_cnt := 0\<rparr>) }"
    by (rule mb_rx_last) (use c c1 n assms(3) in simp_all)
  then have three: "mb_rx [b] ?s2 = do { t \<leftarrow> mb_frame_done (mb_store b ?s2); Some (t\<lparr>buf_rev_cnt := 0\<rparr>) }"
    unfolding mb_rx_single .
  have "mb_rx (?hd @ rest) s = do { t \<leftarrow> mb_rx ?hd s; u \<leftarrow> mb_rx bs t; mb_rx [b] u }"
    unfolding rest mb_rx_append by (simp only:)
  also have "\<dots> = mb_rx [b] ?s2"
    unfolding hd Option.bind_lunit two by (rule refl)
  finally show ?thesis
    unfolding three st .
qed


section \<open>Evaluating a frame\<close>

text \<open>The CRC check of a buffer that starts with a frame.\<close>

lemma mb_frame_parts:
  "mb_frame addr (of_nat (length body + 2)) body =
     [MCU_HEAD1_CODE, MCU_HEAD2_CODE, addr, hi8 (of_nat (length body + 2)), lo8 (of_nat (length body + 2))] @
     body @ [hi8 (modbus_crc16 ([addr, hi8 (of_nat (length body + 2)), lo8 (of_nat (length body + 2))] @ body) (length body + 3)),
      lo8 (modbus_crc16 ([addr, hi8 (of_nat (length body + 2)), lo8 (of_nat (length body + 2))] @ body) (length body + 3)),
      MCU_END1_CODE, MCU_END2_CODE]"
  if "length body \<le> 246"
  using that unat_of_nat_u16 [of "length body + 2"] by (simp add: mb_frame_def Let_def numeral_3_eq_3)

lemma mb_frame_done_ok:
  "unat (mcu_data_len t) = n \<Longrightarrow>
     mb_frame_done t =
       (if be16 (buf_rev t ! (n + 3)) (buf_rev t ! (n + 4)) = modbus_crc16 (drop 2 (buf_rev t)) (n + 1) then
          if buf_rev t ! 5 = MCU_FUN_ASK_SEARCH then mb_ask_search t
          else if buf_rev t ! 5 = MCU_FUN_ASK_READ then mb_ask_read t
          else if buf_rev t ! 5 = MCU_FUN_ASK_WRITE then mb_ask_write t
          else Some t
        else Some t)"
  by (simp add: mb_frame_done_def Let_def)

lemma mb_frame_accept:
  assumes "length body \<le> 246" and "body \<noteq> []" and "buf_rev_cnt s = 0" and "length (buf_rev s) = 256"
  shows "mb_rx (mb_frame addr (of_nat (length body + 2)) body) s =
    (let t = mb_received (mb_frame addr (of_nat (length body + 2)) body) s in
     do {
       u \<leftarrow> (if hd body = MCU_FUN_ASK_SEARCH then mb_ask_search t
            else if hd body = MCU_FUN_ASK_READ then mb_ask_read t
            else if hd body = MCU_FUN_ASK_WRITE then mb_ask_write t else Some t);
       Some (u\<lparr>buf_rev_cnt := 0\<rparr>)
     })"
proof -
  let ?n = "length body + 2"
  let ?L = "of_nat ?n :: u16"
  let ?msg = "[addr, hi8 ?L, lo8 ?L] @ body"
  let ?crc = "modbus_crc16 ?msg (length body + 3)"
  let ?f = "mb_frame addr ?L body"
  let ?t = "mb_received ?f s"
  note f = mb_frame_parts [OF assms(1), of addr]
  have n: "unat ?L = ?n" using assms(1) by (intro unat_of_nat_u16) simp
  have rx: "mb_rx ?f s = do { t \<leftarrow> mb_frame_done ?t; Some (t\<lparr>buf_rev_cnt := 0\<rparr>) }"
    unfolding f by (rule mb_rx_frame [OF assms(3,4), where n = ?n]) (use assms(1) in simp_all)
  have "?f ! 3 = hi8 ?L" "?f ! 4 = lo8 ?L" unfolding f by simp_all
  then have "mcu_data_len ?t = ?L" by (simp add: mb_received_def del: of_nat_add of_nat_Suc)
  then have len: "unat (mcu_data_len ?t) = ?n" using n by (simp only:)
  have buf: "buf_rev ?t = buf_write (buf_rev s) 0 ?f" by (simp add: mb_received_def)
  have d2: "drop 2 (buf_rev ?t) = ?msg @ [hi8 ?crc, lo8 ?crc] @ [MCU_END1_CODE, MCU_END2_CODE] @
      drop (length body + 9) (buf_rev s)"
    by (subst buf, subst f) (simp add: buf_write_def eval_nat_numeral)
  have crc: "crc_be_ok modbus_crc16 (drop 2 (buf_rev ?t)) (length ?msg)"
    using mb.own_frame_be [of ?msg "[MCU_END1_CODE, MCU_END2_CODE] @ drop (length body + 9) (buf_rev s)"]
    unfolding d2 with_crc_be_def by (simp add: numeral_3_eq_3)
  have "length ?f = length body + 9" by (subst f) simp
  then have nth: "drop 2 (buf_rev ?t) ! k = buf_rev ?t ! (k + 2)" for k
    using assms(1,4) by (subst (1 2) buf) (simp add: add.commute)
  have "be16 (buf_rev ?t ! (?n + 3)) (buf_rev ?t ! (?n + 4)) = modbus_crc16 (drop 2 (buf_rev ?t)) (?n + 1)"
    using crc nth [of "length ?msg"] nth [of "length ?msg + 1"]
    by (simp add: crc_be_ok_def add.commute add.left_commute numeral_eq_Suc)
  moreover have "buf_rev ?t ! 5 = hd body"
    using assms(2) by (subst buf, subst f) (cases body, simp_all add: buf_write_def)
  ultimately show ?thesis
    unfolding rx Let_def mb_frame_done_ok [OF len] by (simp only: if_True simp_thms)
qed

end
