(* ===== verification/Mb_Properties.thy ===== *)
theory Mb_Properties
  imports Monitor_Board
begin

text \<open>What the monitor board master guarantees, and where it does not.\<close>

section \<open>Decoding the pairs of a read reply\<close>

text \<open>The body of a read reply that carries the values \<open>v\<close>.\<close>

definition pb_reply_body :: "power_monitoring_board_data \<Rightarrow> u8 list" where
  "pb_reply_body v = MCU_FUN_ASK_READ #
     concat (map (\<lambda>(a, i, r). [hi8 a, lo8 a, hi8 (v r), lo8 (v r)]) pb_read_map)"

lemma length_pb_reply_body: "length (pb_reply_body v) = 77"
  by (simp add: pb_reply_body_def pb_read_map_def)

lemma pb_reply_body_pairs:
  "\<forall>(a, i, r) \<in> set pb_read_map.
     pb_reply_body v ! (i - 5 + 0) = hi8 a \<and> pb_reply_body v ! (i - 5 + 1) = lo8 a \<and>
     pb_reply_body v ! (i - 5 + 2) = hi8 (v r) \<and> pb_reply_body v ! (i - 5 + 3) = lo8 (v r)"
  by (simp add: pb_reply_body_def pb_read_map_def)

lemma pb_read_range: "\<forall>(a, i, r) \<in> set pb_read_map. 6 \<le> i \<and> i + 3 < 82"
  by (simp add: pb_read_map_def)

lemma foldl_pb_take:
  assumes "\<forall>(a, i, r) \<in> set es. be16 (buf ! i) (buf ! (i + 1)) = a \<and> be16 (buf ! (i + 2)) (buf ! (i + 3)) = v r"
    and "n < length (power_board_data s)"
  shows "power_board_data (foldl (\<lambda>s e. pb_take buf n e s) s es) =
      (power_board_data s)[n := (\<lambda>r. if r \<in> (\<lambda>(a, i, r). r) ` set es then v r else (power_board_data s ! n) r)] \<and>
    mb_device (foldl (\<lambda>s e. pb_take buf n e s) s es) = mb_device s \<and>
    buf_rev (foldl (\<lambda>s e. pb_take buf n e s) s es) = buf_rev s"
  using assms
proof (induction es arbitrary: s)
  case (Cons e es)
  obtain a i r where e: "e = (a, i, r)" by (cases e) auto
  let ?s = "pb_take buf n e s"
  have s: "power_board_data ?s = (power_board_data s)[n := (power_board_data s ! n)(r := v r)]"
      "mb_device ?s = mb_device s" "buf_rev ?s = buf_rev s"
    using Cons.prems(1) by (simp_all add: pb_take_def e Let_def)
  have sn: "power_board_data ?s ! n = (power_board_data s ! n)(r := v r)"
    using s(1) Cons.prems(2) by simp
  have IH: "power_board_data (foldl (\<lambda>s e. pb_take buf n e s) ?s es) =
      (power_board_data ?s)[n := (\<lambda>r. if r \<in> (\<lambda>(a, i, r). r) ` set es then v r else (power_board_data ?s ! n) r)] \<and>
    mb_device (foldl (\<lambda>s e. pb_take buf n e s) ?s es) = mb_device ?s \<and>
    buf_rev (foldl (\<lambda>s e. pb_take buf n e s) ?s es) = buf_rev ?s"
    by (rule Cons.IH) (use Cons.prems s in auto)
  have "(\<lambda>x. if x \<in> (\<lambda>(a, i, r). r) ` set es then v x else ((power_board_data s ! n)(r := v r)) x) =
      (\<lambda>x. if x \<in> (\<lambda>(a, i, r). r) ` set (e # es) then v x else (power_board_data s ! n) x)"
    by (auto simp: e fun_eq_iff)
  then show ?case using IH [unfolded sn] s by (simp only: foldl_Cons list_update_overwrite simp_thms)
qed auto

lemma pb_read_regs: "(\<lambda>(a, i, r). r) ` set pb_read_map = UNIV - {device_rs485_id}"
proof
  show "UNIV - {device_rs485_id} \<subseteq> (\<lambda>(a, i, r). r) ` set pb_read_map"
  proof
    fix r assume "r \<in> UNIV - {device_rs485_id}"
    then show "r \<in> (\<lambda>(a, i, r). r) ` set pb_read_map" by (cases r) (auto simp: pb_read_map_def)
  qed
qed (auto simp: pb_read_map_def)

section \<open>Properties\<close>

text \<open>C2: A whole read exchange. When the board that is being read sends its reply with the values
  \<open>v\<close> in the wire format, byte by byte into the receive interrupt, all 19 values of that board
  are taken over, no other board changes, and the receiver is ready for the next frame.\<close>

theorem read_reply_decoded:
  assumes "wf_mb s" and "buf_rev_cnt s = 0" and "unat (read_slave_device_cnt (mb_device s)) = n" and "n < 16"
    and "slave_addr (own_slave_device (mb_device s) ! n) = a"
    and "device_type (own_slave_device (mb_device s) ! n) = POWER_MONITOR_BOARD"
  shows "\<exists>t. mb_rx (mb_frame a 79 (pb_reply_body v)) s = Some t \<and> buf_rev_cnt t = 0 \<and>
    power_board_data t = (power_board_data s)[n := v(device_rs485_id := (power_board_data s ! n) device_rs485_id)]"
proof -
  let ?b = "pb_reply_body v"
  let ?f = "mb_frame a (of_nat (length ?b + 2)) ?b"
  let ?t = "mb_received ?f s"
  have len: "length ?b \<le> 246" "?b \<noteq> []" "hd ?b = MCU_FUN_ASK_READ"
    by (simp_all add: length_pb_reply_body) (simp_all add: pb_reply_body_def)
  have L: "of_nat (length ?b + 2) = (79 :: u16)" by (simp add: length_pb_reply_body)
  have rx: "mb_rx (mb_frame a 79 ?b) s = do { u \<leftarrow> mb_ask_read ?t; Some (u\<lparr>buf_rev_cnt := 0\<rparr>) }"
    using mb_frame_accept [OF len(1,2) assms(2), of a] assms(1) len(3)
    unfolding L by (simp add: wf_mb_def Let_def mb_consts)
  have f: "?f ! 2 = a" "k < 77 \<Longrightarrow> ?f ! (5 + k) = ?b ! k" "length ?f = 86" for k
    by (subst mb_frame_parts [OF len(1)]; simp add: length_pb_reply_body nth_append)+
  have buf: "k < 86 \<Longrightarrow> buf_rev ?t ! k = ?f ! k" for k
    using f(3) by (simp add: mb_received_def buf_write_def nth_append)
  have pairs: "\<forall>(a, i, r) \<in> set pb_read_map. be16 (buf_rev ?t ! i) (buf_rev ?t ! (i + 1)) = a \<and>
      be16 (buf_rev ?t ! (i + 2)) (buf_rev ?t ! (i + 3)) = v r"
  proof (rule ballI, clarify, goal_cases)
    case (1 a i r)
    then have p: "?b ! (i - 5 + 0) = hi8 a" "?b ! (i - 5 + 1) = lo8 a"
          "?b ! (i - 5 + 2) = hi8 (v r)" "?b ! (i - 5 + 3) = lo8 (v r)"
        and i: "6 \<le> i" "i + 3 < 82"
      using pb_reply_body_pairs [of v] pb_read_range by fastforce+
    have "buf_rev ?t ! (i + j) = ?b ! (i - 5 + j)" if "j \<le> 3" for j
      using f(2) [of "i - 5 + j"] buf [of "i + j"] i that by simp
    from this [of 0] this [of 1] this [of 2] this [of 3]
    have "buf_rev ?t ! (i + 0) = hi8 a" "buf_rev ?t ! (i + 1) = lo8 a"
        "buf_rev ?t ! (i + 2) = hi8 (v r)" "buf_rev ?t ! (i + 3) = lo8 (v r)"
      unfolding p by simp_all
    then show ?case by simp
  qed
  have rd: "mb_ask_read ?t = Some (foldl (\<lambda>u e. pb_take (buf_rev ?t) n e u) ?t pb_read_map)"
    using assms(1,3-6) buf [of 2] f(1)
    by (simp add: mb_ask_read_def mb_received_def wf_mb_def wf_device_def SLAVE_MAX_NUM_def Let_def)
  have n: "n < length (power_board_data ?t)"
    using assms(1,4) by (simp add: mb_received_def wf_mb_def SLAVE_MAX_NUM_def)
  have p: "power_board_data ?t = power_board_data s" by (simp add: mb_received_def)
  have "(\<lambda>r. if r \<in> UNIV - {device_rs485_id} then v r else (power_board_data s ! n) r) =
      v(device_rs485_id := (power_board_data s ! n) device_rs485_id)" by auto
  then show ?thesis
    unfolding rx rd using foldl_pb_take [OF pairs n] unfolding p pb_read_regs by auto
qed

theorem read_reply_decoded_witness:
  "\<exists>t. mb_rx (mb_frame 0 79 (pb_reply_body (\<lambda>_. 0x1234)))
      (mb_state_init\<lparr>mb_device := device_data_init\<lparr>own_slave_device := (replicate 16 slave_zero)[0 := slave_zero\<lparr>device_type := POWER_MONITOR_BOARD\<rparr>]\<rparr>\<rparr>)
      = Some t \<and> (power_board_data t ! 0) dc7_current_value = 0x1234"
proof -
  let ?s = "mb_state_init\<lparr>mb_device := device_data_init\<lparr>own_slave_device := (replicate 16 slave_zero)[0 := slave_zero\<lparr>device_type := POWER_MONITOR_BOARD\<rparr>]\<rparr>\<rparr>"
  have wf: "wf_mb ?s"
    using wf_mb_init wf_device_init by (simp add: wf_mb_def wf_device_def SLAVE_MAX_NUM_def)
  have cfg: "buf_rev_cnt ?s = 0" "unat (read_slave_device_cnt (mb_device ?s)) = 0"
      "slave_addr (own_slave_device (mb_device ?s) ! 0) = 0"
      "device_type (own_slave_device (mb_device ?s) ! 0) = POWER_MONITOR_BOARD"
      "power_board_data ?s = replicate 16 (\<lambda>_. 0)"
    by (simp_all add: mb_state_init_def device_data_init_def slave_zero_def SLAVE_MAX_NUM_def)
  obtain t where "mb_rx (mb_frame 0 79 (pb_reply_body (\<lambda>_. 0x1234))) ?s = Some t"
    and "power_board_data t = (power_board_data ?s)[0 := (\<lambda>_. 0x1234)(device_rs485_id := (power_board_data ?s ! 0) device_rs485_id)]"
    using read_reply_decoded [OF wf cfg(1,2) zero_less_numeral cfg(3,4)] by blast
  then show ?thesis unfolding cfg(5) by auto
qed

text \<open>C31: Two neighbouring bytes of the body of any frame hit by a disturbance: the frame is
  dropped; boards, slave list and shared data are as before and the receiver is ready again.\<close>

theorem frame_burst_dropped:
  assumes "wf_mb s" and "buf_rev_cnt s = 0" and "length pre + 2 + length post \<le> 246" and "(x', y') \<noteq> (x, y)"
    and n: "n = length pre + length post + 4"
    and c: "c = modbus_crc16 ([a, hi8 (of_nat n), lo8 (of_nat n)] @ pre @ [x, y] @ post) (n + 1)"
  shows "\<exists>t. mb_rx ([MCU_HEAD1_CODE, MCU_HEAD2_CODE, a, hi8 (of_nat n), lo8 (of_nat n)] @ pre @ [x', y'] @ post @
        [hi8 c, lo8 c, MCU_END1_CODE, MCU_END2_CODE]) s = Some t \<and>
      buf_rev_cnt t = 0 \<and> power_board_data t = power_board_data s \<and>
      slave_device_tmp t = slave_device_tmp s \<and> mb_device t = mb_device s"
proof -
  let ?hl = "[a, hi8 (of_nat n), lo8 (of_nat n)] :: u8 list"
  let ?rest = "pre @ [x', y'] @ post @ [hi8 c, lo8 c, MCU_END1_CODE, MCU_END2_CODE]"
  let ?f = "[MCU_HEAD1_CODE, MCU_HEAD2_CODE, a, hi8 (of_nat n), lo8 (of_nat n)] @ ?rest"
  let ?t = "mb_received ?f s"
  let ?tail = "[MCU_END1_CODE, MCU_END2_CODE] @ drop (n + 7) (buf_rev s)"
  have rx: "mb_rx ?f s = do { t \<leftarrow> mb_frame_done ?t; Some (t\<lparr>buf_rev_cnt := 0\<rparr>) }"
    by (rule mb_rx_frame [where n = n]) (use assms(1-3) n in \<open>simp_all add: wf_mb_def\<close>)
  have "unat (of_nat n :: u16) = n" using assms(3) n by (intro unat_of_nat_u16) simp
  then have len: "unat (mcu_data_len ?t) = n" by (simp add: mb_received_def)
  have d2: "drop 2 (buf_rev ?t) = (?hl @ pre) @ [x', y'] @ post @ [hi8 c, lo8 c] @ ?tail"
    using n by (simp add: mb_received_def buf_write_def eval_nat_numeral)
  have l: "length (?hl @ pre) + 2 + length post = n + 1" using n by simp
  have "crc_be_ok modbus_crc16 ((?hl @ pre) @ [x, y] @ post @ [hi8 c, lo8 c] @ ?tail) (n + 1)"
    using mb.own_frame_be [of "?hl @ pre @ [x, y] @ post" ?tail] c n
    by (simp add: with_crc_be_def eval_nat_numeral)
  from mb.burst_rejected_be [OF l assms(4) this]
  have bad: "\<not> crc_be_ok modbus_crc16 (drop 2 (buf_rev ?t)) (n + 1)" unfolding d2 .
  have "length ?f = n + 7" using n by simp
  then have nth: "drop 2 (buf_rev ?t) ! k = buf_rev ?t ! (k + 2)" for k
    using assms(1,3) n by (simp add: mb_received_def wf_mb_def add.commute)
  have "be16 (buf_rev ?t ! (n + 3)) (buf_rev ?t ! (n + 4)) \<noteq> modbus_crc16 (drop 2 (buf_rev ?t)) (n + 1)"
    using bad nth [of "n + 1"] nth [of "n + 2"] unfolding crc_be_ok_def by (simp add: numeral_eq_Suc)
  then have "mb_frame_done ?t = Some ?t" unfolding mb_frame_done_ok [OF len] by (simp only: if_False)
  then show ?thesis unfolding rx by (simp add: mb_received_def)
qed

theorem frame_burst_dropped_witness:
  "\<exists>c t. mb_rx ([MCU_HEAD1_CODE, MCU_HEAD2_CODE, 1, hi8 (of_nat 7), lo8 (of_nat 7)] @ [0x83] @ [1, 0] @ [0, 0] @
        [hi8 c, lo8 c, MCU_END1_CODE, MCU_END2_CODE]) mb_state_init = Some t \<and>
      power_board_data t = power_board_data mb_state_init"
proof -
  have s: "buf_rev_cnt mb_state_init = 0" by (simp add: mb_state_init_def)
  let ?c = "modbus_crc16 ([1, hi8 (of_nat 7), lo8 (of_nat 7)] @ [0x83] @ [0, 0] @ [0, 0]) (7 + 1)"
  have "\<exists>t. mb_rx ([MCU_HEAD1_CODE, MCU_HEAD2_CODE, 1, hi8 (of_nat 7), lo8 (of_nat 7)] @ [0x83] @ [1, 0] @ [0, 0] @
        [hi8 ?c, lo8 ?c, MCU_END1_CODE, MCU_END2_CODE]) mb_state_init = Some t \<and>
      buf_rev_cnt t = 0 \<and> power_board_data t = power_board_data mb_state_init \<and>
      slave_device_tmp t = slave_device_tmp mb_state_init \<and> mb_device t = mb_device mb_state_init"
    by (rule frame_burst_dropped [OF wf_mb_init s, where x = 0 and y = 0]) simp_all
  then show ?thesis by blast
qed

text \<open>A length field of 249 to 255 passes the length check but can never be completed: the 8-bit
  counter wraps after 256 bytes, which are swallowed without any frame being evaluated.\<close>

theorem long_frame_swallowed:
  assumes "wf_mb s" and "buf_rev_cnt s = 0" and "249 \<le> l" and "length rest = 251"
  shows "\<exists>t. mb_rx ([MCU_HEAD1_CODE, MCU_HEAD2_CODE, a, 0, l] @ rest) s = Some t \<and> buf_rev_cnt t = 0 \<and>
    power_board_data t = power_board_data s \<and> slave_device_tmp t = slave_device_tmp s \<and> mb_device t = mb_device s"
proof -
  let ?hd = "[MCU_HEAD1_CODE, MCU_HEAD2_CODE, a, 0, l]"
  have l: "249 \<le> unat l" using assms(3) by (simp add: word_le_nat_alt)
  have u: "unat (be16 0 l) = unat l" by (simp add: unat_be16)
  have lt: "be16 0 l < 256" using u by (simp add: word_less_nat_alt)
  have len: "length (buf_rev s) = 256" using assms(1) by (simp add: wf_mb_def)
  let ?s1 = "s\<lparr>rev_timerout_cnt := 0, buf_rev := buf_write (buf_rev s) 0 ?hd, buf_rev_cnt := 5,
    rev_timerout_flag := 1, mcu_id := a, mcu_data_len := be16 0 l\<rparr>"
  have hd: "mb_rx ?hd s = Some ?s1" by (rule mb_rx_head [OF assms(2) len lt])
  obtain bs b where rest: "rest = bs @ [b]" using assms(4) by (cases rest rule: rev_cases) auto
  then have bs: "length bs = 250" using assms(4) by simp
  let ?s2 = "?s1\<lparr>buf_rev := buf_write (buf_rev ?s1) (unat (buf_rev_cnt ?s1)) bs,
    buf_rev_cnt := buf_rev_cnt ?s1 + of_nat (length bs)\<rparr>"
  have two: "mb_rx bs ?s1 = Some ?s2"
    by (rule mb_rx_body) (use l u bs len in simp_all)
  have c: "buf_rev_cnt ?s2 = 255" using bs by simp
  have z: "rev_timerout_cnt ?s2 = 0" by simp
  have "mb_rx [b] u = Some (mb_store b u)" if "buf_rev_cnt u = 255" "rev_timerout_cnt u = 0" for u
  proof -
    have "u\<lparr>rev_timerout_cnt := 0\<rparr> = u" using that(2) by simp
    moreover have "buf_rev_cnt (mb_store b u) = 0" using that(1) by (simp add: mb_store_def)
    ultimately show ?thesis using that(1) by (simp add: mb_rx_single USART4_RxFull_IrqCallback_def Let_def)
  qed
  from this [OF c z] have three: "mb_rx [b] ?s2 = Some (mb_store b ?s2)" .
  have "mb_rx (?hd @ rest) s = do { t \<leftarrow> mb_rx ?hd s; u \<leftarrow> mb_rx bs t; mb_rx [b] u }"
    unfolding rest mb_rx_append by (simp only:)
  also have "\<dots> = Some (mb_store b ?s2)"
    unfolding hd Option.bind_lunit two three by (rule refl)
  finally show ?thesis using bs by (simp add: mb_store_def)
qed

theorem long_frame_swallowed_witness:
  "\<exists>t. mb_rx ([MCU_HEAD1_CODE, MCU_HEAD2_CODE, 3, 0, 249] @ zeros 251) mb_state_init = Some t \<and> buf_rev_cnt t = 0"
  using long_frame_swallowed [OF wf_mb_init, of 249 "zeros 251" 3] by (auto simp: mb_state_init_def)

text \<open>Search replies. With a device type and without a name the address and type are recorded
  and the acknowledge flag is set; with the name field the copy of 34 bytes leaves the 33 bytes
  of \<^verbatim>\<open>device_name\<close>.\<close>

theorem search_reply_taken:
  assumes "wf_mb s" and "buf_rev_cnt s = 0" and "15 \<le> length body" and "length body \<le> 246"
    and "hd body = MCU_FUN_ASK_SEARCH" and "be16 (body ! 1) (body ! 2) = ADDR_DRIVER_TYPE"
  shows "if be16 (body ! 13) (body ! 14) = ADDR_DRIVER_NAME
    then mb_rx (mb_frame a (of_nat (length body + 2)) body) s = None
    else \<exists>t. mb_rx (mb_frame a (of_nat (length body + 2)) body) s = Some t \<and>
      slave_device_tmp t = (slave_device_tmp s)\<lparr>slave_addr := a, device_type := body ! 4\<rparr> \<and>
      slave_device_have_ack_flag (mb_device t) = 1 \<and> power_board_data t = power_board_data s"
proof -
  let ?f = "mb_frame a (of_nat (length body + 2)) body"
  let ?t = "mb_received ?f s"
  have ne: "body \<noteq> []" using assms(3) by auto
  have rx: "mb_rx ?f s = do { u \<leftarrow> mb_ask_search ?t; Some (u\<lparr>buf_rev_cnt := 0\<rparr>) }"
    using mb_frame_accept [OF assms(4) ne assms(2), of a] assms(1,5) unfolding Let_def
    by (simp add: wf_mb_def)
  have f: "?f ! 2 = a" "k < length body \<Longrightarrow> ?f ! (5 + k) = body ! k" "length ?f = length body + 9" for k
    by (subst mb_frame_parts [OF assms(4)]; simp add: nth_append)+
  have buf: "k < length ?f \<Longrightarrow> buf_rev ?t ! k = ?f ! k" for k
    by (simp add: mb_received_def buf_write_def nth_append)
  have "buf_rev ?t ! 2 = a" "buf_rev ?t ! 6 = body ! 1" "buf_rev ?t ! 7 = body ! 2" "buf_rev ?t ! 9 = body ! 4"
      "buf_rev ?t ! 18 = body ! 13" "buf_rev ?t ! 19 = body ! 14"
    using buf [of 2] buf [of "5 + 1"] buf [of "5 + 2"] buf [of "5 + 4"] buf [of "5 + 13"] buf [of "5 + 14"]
      f(1,3) f(2) [of 1] f(2) [of 2] f(2) [of 4] f(2) [of 13] f(2) [of 14] assms(3) ne by simp_all
  then show ?thesis
    using assms(1,6) unfolding rx
    by (simp add: mb_ask_search_def mb_received_def wf_mb_def Let_def)
qed

theorem search_reply_taken_witness:
  "mb_rx (mb_frame 3 (of_nat (length ([0x81, 0xff, 0, 0, 2] @ zeros 8 @ [0xff, 4]) + 2))
     ([0x81, 0xff, 0, 0, 2] @ zeros 8 @ [0xff, 4])) mb_state_init = None"
proof -
  have s: "buf_rev_cnt mb_state_init = 0" by (simp add: mb_state_init_def)
  show ?thesis
    using search_reply_taken [OF wf_mb_init s, of "[0x81, 0xff, 0, 0, 2] @ zeros 8 @ [0xff, 4]" 3]
    by (simp add: nth_append mb_consts be16_def)
qed

text \<open>
  The invariant of the receive interrupt and of the thread: arrays of their sizes, at most 16 boards,
  and counters in range. The read counter of the thread ends at the number of boards and stays there
  until the next poll, so that 16 is in its range.
\<close>

definition mb_safe :: "mb_state \<Rightarrow> bool" where
  "mb_safe s \<longleftrightarrow> wf_mb s \<and> unat (slave_device_max (mb_device s)) \<le> 16 \<and>
     unat (read_slave_device_cnt (mb_device s)) \<le> 16 \<and> unat (control_slave_relay_cnt s) < 16"

lemma mb_safe_pb_take: "mb_safe s \<Longrightarrow> mb_safe (pb_take buf n e s)"
  by (cases e) (auto simp: pb_take_def mb_safe_def wf_mb_def Let_def)

lemma mb_safe_foldl: "mb_safe s \<Longrightarrow> mb_safe (foldl (\<lambda>s e. pb_take buf n e s) s es)"
  by (induction es arbitrary: s) (simp_all add: mb_safe_pb_take)

lemma mb_safe_own: "mb_safe s \<Longrightarrow> length (own_slave_device (mb_device s)) = 16"
  by (simp add: mb_safe_def wf_mb_def wf_device_def SLAVE_MAX_NUM_def)

lemma mb_safe_range:
  "mb_safe s \<Longrightarrow> unat (read_slave_device_cnt (mb_device s)) \<le> 16 \<and> unat (control_slave_relay_cnt s) < 16"
  by (simp add: mb_safe_def)

lemma mb_ask_read_safe:
  "mb_safe s \<Longrightarrow> case mb_ask_read s of Some t \<Rightarrow> mb_safe t | None \<Rightarrow> unat (read_slave_device_cnt (mb_device s)) = 16"
  using mb_safe_foldl mb_safe_own mb_safe_range by (fastforce simp: mb_ask_read_def Let_def)

lemma mb_ask_write_safe: "mb_safe s \<Longrightarrow> \<exists>t. mb_ask_write s = Some t \<and> mb_safe t"
  using mb_safe_pb_take mb_safe_own mb_safe_range by (auto simp: mb_ask_write_def Let_def)

lemma mb_ask_search_safe:
  "mb_safe s \<Longrightarrow> be16 (buf_rev s ! 18) (buf_rev s ! 19) = ADDR_DRIVER_NAME \<or>
     (\<exists>t. mb_ask_search s = Some t \<and> mb_safe t)"
  by (auto simp: mb_ask_search_def mb_safe_def wf_mb_def wf_device_def Let_def)

lemma mb_ask_search_outcome:
  "mb_safe s \<Longrightarrow> mb_ask_search s = Some t \<Longrightarrow> mb_safe t"
  by (auto simp: mb_ask_search_def mb_safe_def wf_mb_def wf_device_def Let_def split: if_splits)

lemma mb_frame_done_safe:
  assumes "mb_safe s"
  shows "case mb_frame_done s of Some t \<Rightarrow> mb_safe t
    | None \<Rightarrow> buf_rev s ! 5 = MCU_FUN_ASK_SEARCH \<and> be16 (buf_rev s ! 18) (buf_rev s ! 19) = ADDR_DRIVER_NAME \<or>
        buf_rev s ! 5 = MCU_FUN_ASK_READ \<and> unat (read_slave_device_cnt (mb_device s)) = 16"
  using mb_ask_read_safe [OF assms] mb_ask_write_safe [OF assms] mb_ask_search_safe [OF assms]
    mb_ask_search_outcome [OF assms] assms
  by (auto simp: mb_frame_done_def Let_def split: option.splits)

lemma mb_safe_upd [simp]:
  "mb_safe (s\<lparr>buf_rev_cnt := c\<rparr>) = mb_safe s" "mb_safe (s\<lparr>rev_timerout_cnt := c\<rparr>) = mb_safe s"
  "mb_safe (s\<lparr>rev_timerout_flag := c\<rparr>) = mb_safe s" "mb_safe (s\<lparr>mcu_id := c\<rparr>) = mb_safe s"
  "mb_safe (s\<lparr>mcu_data_len := w\<rparr>) = mb_safe s"
  by (simp_all add: mb_safe_def wf_mb_def)

lemma mb_safe_store: "mb_safe s \<Longrightarrow> mb_safe (mb_store b s)"
  by (simp add: mb_safe_def wf_mb_def mb_store_def)

lemma rx_byte_ok:
  assumes "mb_safe s"
  shows "case USART4_RxFull_IrqCallback b s of
      Some t \<Rightarrow> mb_safe t
    | None \<Rightarrow> let buf = (buf_rev s)[unat (buf_rev_cnt s) := b] in
        buf ! 5 = MCU_FUN_ASK_SEARCH \<and> be16 (buf ! 18) (buf ! 19) = ADDR_DRIVER_NAME \<or>
        buf ! 5 = MCU_FUN_ASK_READ \<and> unat (read_slave_device_cnt (mb_device s)) = 16"
proof -
  let ?s = "s\<lparr>rev_timerout_cnt := 0\<rparr>"
  let ?t = "mb_store b ?s"
  have s: "mb_safe ?s" "mb_safe ?t" using assms mb_safe_store by simp_all
  have buf: "buf_rev ?t = (buf_rev s)[unat (buf_rev_cnt s) := b]" "mb_device ?t = mb_device s" by (simp_all add: mb_store_def)
  show ?thesis
    using s mb_frame_done_safe [OF s(2)] unfolding buf
    by (auto simp: USART4_RxFull_IrqCallback_def Let_def split: option.splits bind_splits)
qed

section \<open>The thread\<close>

text \<open>What the receive interrupt leaves alone: all of the shared data but one flag.\<close>

definition same_poll :: "mb_state \<Rightarrow> mb_state \<Rightarrow> bool" where
  "same_poll s t \<longleftrightarrow> control_slave_relay_cnt t = control_slave_relay_cnt s \<and>
     (\<exists>c. mb_device t = (mb_device s)\<lparr>slave_device_have_ack_flag := c\<rparr>)"

lemma same_poll_refl: "same_poll s s"
  unfolding same_poll_def by (intro conjI exI [of _ "slave_device_have_ack_flag (mb_device s)"]) simp_all

lemma same_poll_trans: "same_poll s t \<Longrightarrow> same_poll t u \<Longrightarrow> same_poll s u"
  by (auto simp: same_poll_def)

lemma same_poll_take: "same_poll s (foldl (\<lambda>s e. pb_take buf n e s) s es)"
proof (induction es arbitrary: s)
  case (Cons e es)
  have "same_poll s (pb_take buf n e s)"
    using same_poll_refl [of s] by (cases e) (auto simp: pb_take_def same_poll_def Let_def)
  then show ?case using Cons.IH [of "pb_take buf n e s"] same_poll_trans by simp
qed (simp add: same_poll_refl)

lemma mb_frame_done_same: "mb_frame_done s = Some t \<Longrightarrow> same_poll s t"
  using same_poll_refl [of s] same_poll_take [of s] same_poll_take [of s _ _ "[_]"]
  by (auto simp: mb_frame_done_def mb_ask_search_def mb_ask_read_def mb_ask_write_def Let_def same_poll_def split: if_splits bind_splits)

lemma same_poll_fields [simp]:
  "same_poll (s\<lparr>buf_rev_cnt := c\<rparr>) t = same_poll s t" "same_poll (s\<lparr>rev_timerout_cnt := c\<rparr>) t = same_poll s t"
  "same_poll s (t\<lparr>buf_rev_cnt := c\<rparr>) = same_poll s t" "same_poll s (t\<lparr>rev_timerout_cnt := c\<rparr>) = same_poll s t"
  "same_poll s (t\<lparr>rev_timerout_flag := c\<rparr>) = same_poll s t" "same_poll s (t\<lparr>mcu_id := c\<rparr>) = same_poll s t"
  "same_poll s (t\<lparr>mcu_data_len := w\<rparr>) = same_poll s t" "same_poll (mb_store b s) t = same_poll s t" "same_poll s (mb_store b t) = same_poll s t"
  by (simp_all add: same_poll_def mb_store_def)

lemma mb_rx_byte_same: "USART4_RxFull_IrqCallback b s = Some t \<Longrightarrow> same_poll s t"
  using mb_frame_done_same [of "mb_store b (s\<lparr>rev_timerout_cnt := 0\<rparr>)"]
  by (auto simp: USART4_RxFull_IrqCallback_def Let_def same_poll_refl split: if_splits bind_splits)

lemma mb_rx_kept: "mb_rx bs s = Some t \<Longrightarrow> mb_safe s \<Longrightarrow> mb_safe t \<and> same_poll s t"
proof (induction bs arbitrary: s)
  case (Cons b bs)
  then obtain u where u: "USART4_RxFull_IrqCallback b s = Some u" "mb_rx bs u = Some t" by (auto split: bind_splits)
  have "mb_safe u" using rx_byte_ok [OF Cons.prems(2), of b] u(1) by simp
  then show ?case using Cons.IH [OF u(2)] mb_rx_byte_same [OF u(1)] same_poll_trans by blast
qed (simp add: same_poll_refl)

lemma mb_sleep_kept: "mb_sleep ts s = Some (t, ts') \<Longrightarrow> mb_safe s \<Longrightarrow> mb_safe t \<and> same_poll s t"
  using mb_rx_kept by (auto simp: mb_sleep_def split: bind_splits)

lemma read_slave_data_same: "mb_safe (read_slave_data a d s) = mb_safe s" "same_poll (read_slave_data a d s) t = same_poll s t"
  by (simp_all add: read_slave_data_def mb_send_def mb_safe_def wf_mb_def same_poll_def Let_def)

lemma mb_read_all_kept:
  "mb_read_all i ts s = Some (t, ts') \<Longrightarrow> mb_safe s \<Longrightarrow> unat (read_slave_device_cnt (mb_device s)) = i \<Longrightarrow> mb_safe t"
proof (induction "16 - i" arbitrary: i ts s rule: less_induct)
  case less
  show ?case
  proof (cases "i < unat (slave_device_max (mb_device s))")
    case True
    have i: "i < 16" using True less.prems(2) by (simp add: mb_safe_def)
    let ?d = "own_slave_device (mb_device s) ! i"
    obtain u us where u: "mb_sleep ts (read_slave_data (slave_addr ?d) (device_type ?d) s) = Some (u, us)"
      and r: "mb_read_all (i + 1) us (u\<lparr>mb_device := (mb_device u)\<lparr>read_slave_device_cnt := read_slave_device_cnt (mb_device u) + 1\<rparr>\<rparr>) = Some (t, ts')"
      using less.prems(1) True by (subst (asm) mb_read_all.simps) (auto simp: Let_def split: if_splits bind_splits)
    have k: "mb_safe u" "same_poll s u" using mb_sleep_kept [OF u] less.prems(2) by (simp_all add: read_slave_data_same)
    then have c: "unat (read_slave_device_cnt (mb_device u) + 1) = i + 1"
      using less.prems(3) i by (auto simp: same_poll_def u8_cnt_step)
    show ?thesis
      by (rule less.hyps [OF _ r]) (use i c k(1) in \<open>auto simp: mb_safe_def wf_mb_def wf_device_def\<close>)
  next
    case False
    then show ?thesis using less.prems by (subst (asm) mb_read_all.simps) simp
  qed
qed

lemma mb_sync_relays_kept: "mb_sync_relays i ts s = Some (t, ts') \<Longrightarrow> mb_safe s \<Longrightarrow> mb_safe t"
proof (induction "16 - i" arbitrary: i ts s rule: less_induct)
  case less
  show ?case
  proof (cases "i < unat (slave_device_max (mb_device s))")
    case True
    have i: "i < 16" using True less.prems(2) by (simp add: mb_safe_def)
    let ?d = "own_slave_device (mb_device s) ! i" and ?want = "power_monitoring_relay_data (mb_device s) ! i"
    let ?s = "s\<lparr>power_board_data := (power_board_data s)[i := (power_board_data s ! i)(relay_status := ?want)], control_slave_relay_cnt := of_nat i\<rparr>"
    have "unat (of_nat i :: u8) = i" using i by (intro unat_of_nat_u8) simp
    then have s: "mb_safe (control_slave_relay (slave_addr ?d) ?want ?s)"
      using less.prems(2) i by (simp add: control_slave_relay_def mb_send_def mb_safe_def wf_mb_def)
    consider u us where "mb_sleep ts (control_slave_relay (slave_addr ?d) ?want ?s) = Some (u, us)" "mb_sync_relays (i + 1) us u = Some (t, ts')"
      | "mb_sync_relays (i + 1) ts s = Some (t, ts')"
      using less.prems(1) True by (subst (asm) mb_sync_relays.simps) (auto simp: Let_def split: if_splits bind_splits)
    then show ?thesis
    proof cases
      case 1
      then show ?thesis using mb_sleep_kept [OF 1(1) s] i by (intro less.hyps [OF _ 1(2)]) auto
    next
      case 2
      then show ?thesis using i less.prems(2) by (intro less.hyps [OF _ 2]) auto
    qed
  next
    case False
    then show ?thesis using less.prems by (subst (asm) mb_sync_relays.simps) simp
  qed
qed

lemma mb_poll_iter_kept:
  assumes "mb_poll_iter ts timer s = Some (timer', t, ts')" and "mb_safe s"
  shows "mb_safe t"
proof -
  let ?s = "s\<lparr>mb_device := (mb_device s)\<lparr>read_slave_device_cnt := 0\<rparr>\<rparr>"
  have "mb_safe ?s" using assms(2) by (simp add: mb_safe_def wf_mb_def wf_device_def)
  then obtain u us v vs where u: "mb_safe u" "mb_sync_relays 0 us u = Some (v, vs)" "mb_sleep vs (mb_rx_timeout v) = Some (t, ts')"
    using assms mb_read_all_kept [of 0 ts ?s] by (auto simp: mb_poll_iter_def Let_def split: if_splits bind_splits)
  have "mb_safe (mb_rx_timeout v)" using mb_sync_relays_kept [OF u(2,1)] by (simp add: mb_rx_timeout_def Let_def)
  then show ?thesis using mb_sleep_kept [OF u(3)] by blast
qed

text \<open>C13: Memory safety of the receive interrupt. The invariant, which has the arrays at their sizes and the
  counters in range, is kept by every byte and by every iteration of the polling thread with
  whatever bytes arrive, as long as no access is outside an array; and a byte makes such an access
  only if it completes a search reply with a name, or a read reply while the read counter is 16,
  which it is after a poll of 16 boards.\<close>

theorem rx_byte_safe:
  assumes "mb_safe s"
  shows "(case USART4_RxFull_IrqCallback b s of
      Some t \<Rightarrow> mb_safe t
    | None \<Rightarrow> let buf = (buf_rev s)[unat (buf_rev_cnt s) := b] in
        buf ! 5 = MCU_FUN_ASK_SEARCH \<and> be16 (buf ! 18) (buf ! 19) = ADDR_DRIVER_NAME \<or>
        buf ! 5 = MCU_FUN_ASK_READ \<and> unat (read_slave_device_cnt (mb_device s)) = 16) \<and>
    (case mb_poll_iter ts timer s of Some (timer', t, ts') \<Rightarrow> mb_safe t | None \<Rightarrow> True)"
  using rx_byte_ok [OF assms, of b] mb_poll_iter_kept [OF _ assms, of ts timer] by (auto split: option.split)

theorem rx_byte_safe_witness:
  "mb_safe mb_state_init \<and> (\<exists>t. USART4_RxFull_IrqCallback 0xf5 mb_state_init = Some t \<and> mb_safe t)"
proof -
  have c: "mb_safe mb_state_init"
    using wf_mb_init by (simp add: mb_safe_def) (simp add: mb_state_init_def device_data_init_def)
  have "buf_rev mb_state_init ! 5 = 0" "buf_rev_cnt mb_state_init = 0" by (simp_all add: mb_state_init_def)
  then show ?thesis
    using rx_byte_safe [OF c, of "0xf5" "[]" 0, THEN conjunct1] c
    by (auto simp: mb_consts split: option.splits)
qed

section \<open>Quiet lines\<close>

lemma mb_sleep_quiet: "mb_sleep [] s = Some (s, [])"
  by (simp add: mb_sleep_def)

text \<open>The state of the receiver.\<close>

definition rx_state :: "mb_state \<Rightarrow> u8 \<times> u8 \<times> u8" where
  "rx_state s = (buf_rev_cnt s, rev_timerout_flag s, rev_timerout_cnt s)"

text \<open>The boards from number \<open>i\<close> on that have to be told, and what they are told.\<close>

definition untold :: "nat \<Rightarrow> mb_state \<Rightarrow> nat list" where
  "untold i s = filter (\<lambda>j. device_type (own_slave_device (mb_device s) ! j) = POWER_MONITOR_BOARD \<and>
       (power_board_data s ! j) relay_status \<noteq> power_monitoring_relay_data (mb_device s) ! j)
     [i..<unat (slave_device_max (mb_device s))]"

definition relay_request :: "mb_state \<Rightarrow> nat \<Rightarrow> u8 list" where
  "relay_request s j = mb_frame (slave_addr (own_slave_device (mb_device s) ! j)) 7
     [MCU_FUN_WRITE, hi8 ADDR_RELAY1_STATUS, lo8 ADDR_RELAY1_STATUS,
      hi8 (power_monitoring_relay_data (mb_device s) ! j), lo8 (power_monitoring_relay_data (mb_device s) ! j)]"

lemma untold_later:
  "mb_device u = mb_device s \<Longrightarrow> \<forall>j > i. power_board_data u ! j = power_board_data s ! j \<Longrightarrow>
   untold (i + 1) u = untold (i + 1) s"
  by (auto simp: untold_def intro!: filter_cong)

lemma mb_sync_relays_effect:
  assumes "wf_mb s" and "unat (slave_device_max (mb_device s)) \<le> 16"
  shows "\<exists>t. mb_sync_relays i [] s = Some (t, []) \<and> mb_device t = mb_device s \<and> wf_mb t \<and> rx_state t = rx_state s \<and>
    mb_out t = mb_out s @ map (relay_request s) (untold i s) \<and>
    (\<forall>j < 16. power_board_data t ! j =
      (if i \<le> j \<and> j < unat (slave_device_max (mb_device s)) \<and>
          device_type (own_slave_device (mb_device s) ! j) = POWER_MONITOR_BOARD
       then (power_board_data s ! j)(relay_status := power_monitoring_relay_data (mb_device s) ! j)
       else power_board_data s ! j))"
  using assms
proof (induction "16 - i" arbitrary: i s)
  case 0
  then show ?case by (subst mb_sync_relays.simps) (auto simp: untold_def)
next
  case (Suc k)
  let ?d = "mb_device s"
  show ?case
  proof (cases "i < unat (slave_device_max ?d)")
    case True
    have i: "i < 16" using True Suc.prems(2) by simp
    have len: "length (own_slave_device ?d) = 16" "length (power_board_data s) = 16"
        "length (power_monitoring_relay_data ?d) = 16"
      using Suc.prems(1) by (simp_all add: wf_mb_def wf_device_def SLAVE_MAX_NUM_def)
    have k: "k = 16 - (i + 1)" using Suc.hyps(2) i by simp
    let ?want = "power_monitoring_relay_data ?d ! i"
    have upt: "[i..<unat (slave_device_max ?d)] = i # [i + 1..<unat (slave_device_max ?d)]"
      using True by (simp add: upt_conv_Cons)
    show ?thesis
    proof (cases "device_type (own_slave_device ?d ! i) = POWER_MONITOR_BOARD \<and> (power_board_data s ! i) relay_status \<noteq> ?want")
      case step: True
      let ?u = "control_slave_relay (slave_addr (own_slave_device ?d ! i)) ?want
        (s\<lparr>power_board_data := (power_board_data s)[i := (power_board_data s ! i)(relay_status := ?want)],
           control_slave_relay_cnt := of_nat i\<rparr>)"
      have u: "mb_device ?u = ?d" "wf_mb ?u" "power_board_data ?u = (power_board_data s)[i := (power_board_data s ! i)(relay_status := ?want)]"
        and u': "rx_state ?u = rx_state s" "mb_out ?u = mb_out s @ [relay_request s i]"
        using Suc.prems(1) by (simp_all add: control_slave_relay_def mb_send_def wf_mb_def rx_state_def relay_request_def)
      have later: "untold i s = i # untold (i + 1) ?u" "relay_request ?u = relay_request s"
        using step untold_later [OF u(1), of i] u(3) upt u(1) by (auto simp: untold_def relay_request_def)
      have "mb_sync_relays i [] s = mb_sync_relays (i + 1) [] ?u"
        using True step len i by (subst mb_sync_relays.simps) (simp add: mb_sleep_quiet Let_def)
      moreover obtain t where t: "mb_sync_relays (i + 1) [] ?u = Some (t, [])" "mb_device t = ?d" "wf_mb t" "rx_state t = rx_state ?u"
          "mb_out t = mb_out ?u @ map (relay_request ?u) (untold (i + 1) ?u)"
        and p: "\<forall>j < 16. power_board_data t ! j =
          (if i + 1 \<le> j \<and> j < unat (slave_device_max ?d) \<and>
              device_type (own_slave_device ?d ! j) = POWER_MONITOR_BOARD
           then (power_board_data ?u ! j)(relay_status := power_monitoring_relay_data ?d ! j)
           else power_board_data ?u ! j)"
        using Suc.hyps(1) [OF k u(2), unfolded u(1), OF Suc.prems(2)] by blast
      have "power_board_data t ! j =
          (if i \<le> j \<and> j < unat (slave_device_max ?d) \<and>
              device_type (own_slave_device ?d ! j) = POWER_MONITOR_BOARD
           then (power_board_data s ! j)(relay_status := power_monitoring_relay_data ?d ! j)
           else power_board_data s ! j)" if "j < 16" for j
        using p [rule_format, OF that] step True len i unfolding u(3) by (cases "j = i") auto
      moreover have "mb_out t = mb_out s @ map (relay_request s) (untold i s)" "rx_state t = rx_state s"
        using t(4,5) later u' by simp_all
      ultimately show ?thesis using t(1-3) by auto
    next
      case skip: False
      then have "mb_sync_relays i [] s = mb_sync_relays (i + 1) [] s"
        using True len i by (subst mb_sync_relays.simps) (auto simp: Let_def)
      moreover have "(power_board_data s ! i)(relay_status := ?want) = power_board_data s ! i"
        if "device_type (own_slave_device ?d ! i) = POWER_MONITOR_BOARD"
        using skip that by auto
      note same = this
      have later: "untold i s = untold (i + 1) s" using skip upt by (auto simp: untold_def)
      obtain t where t: "mb_sync_relays (i + 1) [] s = Some (t, [])" "mb_device t = ?d" "wf_mb t" "rx_state t = rx_state s"
          "mb_out t = mb_out s @ map (relay_request s) (untold (i + 1) s)"
        and p: "\<forall>j < 16. power_board_data t ! j =
          (if i + 1 \<le> j \<and> j < unat (slave_device_max ?d) \<and>
              device_type (own_slave_device ?d ! j) = POWER_MONITOR_BOARD
           then (power_board_data s ! j)(relay_status := power_monitoring_relay_data ?d ! j)
           else power_board_data s ! j)"
        using Suc.hyps(1) [OF k Suc.prems] by blast
      have "power_board_data t ! j =
          (if i \<le> j \<and> j < unat (slave_device_max ?d) \<and>
              device_type (own_slave_device ?d ! j) = POWER_MONITOR_BOARD
           then (power_board_data s ! j)(relay_status := power_monitoring_relay_data ?d ! j)
           else power_board_data s ! j)" if "j < 16" for j
        using p [rule_format, OF that] same by (cases "j = i") auto
      ultimately show ?thesis using t later by auto
    qed
  next
    case False
    then show ?thesis using Suc.prems(1) by (subst mb_sync_relays.simps) (auto simp: untold_def)
  qed
qed

text \<open>C30: One pass of the relay loop on a quiet line sends, in order, one write request with its address, the wanted relay
  state and the checksum to every known power board that is recorded at another state, and
  nothing else, and ends with every known power board recorded at the wanted state, all other
  registers and the requests of other threads untouched.\<close>

theorem relays_synchronised:
  assumes "wf_mb s" and "unat (slave_device_max (mb_device s)) \<le> 16"
  shows "let n = unat (slave_device_max (mb_device s)); board = (!) (own_slave_device (mb_device s));
      want = (!) (power_monitoring_relay_data (mb_device s));
      asked = (\<lambda>j. device_type (board j) = POWER_MONITOR_BOARD);
      request = (\<lambda>j. [0xf5, 0x5f] @ with_crc_be modbus_crc16 [slave_addr (board j), 0, 7, 3, 0, 0, hi8 (want j), lo8 (want j)] @ [0x0d, 0x0a])
    in \<exists>t. mb_sync_relays 0 [] s = Some (t, []) \<and> mb_device t = mb_device s \<and>
      mb_out t = mb_out s @ map request (filter (\<lambda>j. asked j \<and> (power_board_data s ! j) relay_status \<noteq> want j) [0..<n]) \<and>
      (\<forall>j < n. power_board_data t ! j =
        (if asked j then (power_board_data s ! j)(relay_status := want j) else power_board_data s ! j))"
proof -
  obtain t where "mb_sync_relays 0 [] s = Some (t, [])" "mb_device t = mb_device s" "mb_out t = mb_out s @ map (relay_request s) (untold 0 s)"
    and p: "\<forall>j < 16. power_board_data t ! j =
      (if 0 \<le> j \<and> j < unat (slave_device_max (mb_device s)) \<and>
          device_type (own_slave_device (mb_device s) ! j) = POWER_MONITOR_BOARD
       then (power_board_data s ! j)(relay_status := power_monitoring_relay_data (mb_device s) ! j)
       else power_board_data s ! j)"
    using mb_sync_relays_effect [OF assms, of 0] by blast
  moreover have "relay_request s j = [0xf5, 0x5f] @ with_crc_be modbus_crc16 [slave_addr (own_slave_device (mb_device s) ! j), 0, 7, 3, 0, 0,
      hi8 (power_monitoring_relay_data (mb_device s) ! j), lo8 (power_monitoring_relay_data (mb_device s) ! j)] @ [0x0d, 0x0a]" for j
  proof -
    have "hi8 (7 :: u16) = 0" "lo8 (7 :: u16) = 7" "hi8 (0 :: u16) = 0" "lo8 (0 :: u16) = 0" by code_simp+
    moreover have "unat (7 :: u16) + 1 = length [a, 0, 7, 3, 0, 0, b, c]" for a b c :: u8 by simp
    ultimately show ?thesis
      unfolding relay_request_def mb_frame_def with_crc_be_def mb_consts Let_def by (simp del: length_Cons) (simp add: eval_nat_numeral)
  qed
  ultimately show ?thesis using assms(2) by (auto simp: untold_def Let_def)
qed

theorem relays_synchronised_witness:
  "let d = (device_data_init\<lparr>own_slave_device := (replicate 16 slave_zero)[0 := slave_zero\<lparr>slave_addr := 5, device_type := POWER_MONITOR_BOARD\<rparr>],
      slave_device_max := 1, power_monitoring_relay_data := (replicate 16 0)[0 := 0x3ff]\<rparr>) in
   \<exists>t. mb_sync_relays 0 [] (mb_state_init\<lparr>mb_device := d\<rparr>) = Some (t, []) \<and>
     mb_out t = [[0xf5, 0x5f] @ with_crc_be modbus_crc16 [5, 0, 7, 3, 0, 0, 3, 0xff] @ [0x0d, 0x0a]] \<and>
     (power_board_data t ! 0) relay_status = 0x3ff"
proof -
  let ?d = "device_data_init\<lparr>own_slave_device := (replicate 16 slave_zero)[0 := slave_zero\<lparr>slave_addr := 5, device_type := POWER_MONITOR_BOARD\<rparr>],
      slave_device_max := 1, power_monitoring_relay_data := (replicate 16 0)[0 := 0x3ff]\<rparr>"
  have wf: "wf_mb (mb_state_init\<lparr>mb_device := ?d\<rparr>)"
    using wf_mb_init wf_device_init by (simp add: wf_mb_def wf_device_def SLAVE_MAX_NUM_def zeros_def)
  have n: "unat (slave_device_max (mb_device (mb_state_init\<lparr>mb_device := ?d\<rparr>))) \<le> 16" by simp
  have "hi8 (0x3ff :: u16) = 3" "lo8 (0x3ff :: u16) = 0xff" by code_simp+
  with relays_synchronised [OF wf n] show ?thesis
    by (simp add: Let_def zeros_def mb_state_init_def SLAVE_MAX_NUM_def) (elim exE conjE, intro exI conjI, assumption+, simp)
qed

text \<open>Rounds of the polling thread in which no byte arrives.\<close>

fun mb_rounds :: "nat \<Rightarrow> u16 \<Rightarrow> mb_state \<Rightarrow> (u16 \<times> mb_state) option" where
  "mb_rounds 0 timer s = Some (timer, s)"
| "mb_rounds (Suc n) timer s = do { (timer, s, _) \<leftarrow> mb_poll_iter [] timer s; mb_rounds n timer s }"

lemma mb_read_all_quiet:
  "mb_safe s \<Longrightarrow> unat (read_slave_device_cnt (mb_device s)) = i \<Longrightarrow>
   \<exists>t. mb_read_all i [] s = Some (t, []) \<and> rx_state t = rx_state s"
proof (induction "16 - i" arbitrary: i s rule: less_induct)
  case less
  show ?case
  proof (cases "i < unat (slave_device_max (mb_device s))")
    case True
    let ?d = "own_slave_device (mb_device s) ! i"
    let ?u = "read_slave_data (slave_addr ?d) (device_type ?d) s"
    let ?v = "?u\<lparr>mb_device := (mb_device ?u)\<lparr>read_slave_device_cnt := read_slave_device_cnt (mb_device ?u) + 1\<rparr>\<rparr>"
    have i: "i < 16" using True less.prems(1) by (simp add: mb_safe_def)
    have v: "mb_safe ?u" "mb_device ?u = mb_device s" "rx_state ?v = rx_state s"
      using less.prems(1) by (simp_all add: read_slave_data_same) (simp_all add: read_slave_data_def mb_send_def rx_state_def Let_def)
    have c: "unat (read_slave_device_cnt (mb_device s) + 1) = i + 1" using less.prems(2) i by (simp add: u8_cnt_step)
    have "mb_safe ?v" using v(1,2) c i by (simp add: mb_safe_def wf_mb_def wf_device_def)
    moreover have "16 - (i + 1) < 16 - i" using i by simp
    moreover have "unat (read_slave_device_cnt (mb_device ?v)) = i + 1" using c v(2) by simp
    ultimately obtain t where "mb_read_all (i + 1) [] ?v = Some (t, [])" "rx_state t = rx_state ?v"
      using less.hyps by blast
    then show ?thesis
      using True v(3) i mb_safe_own [OF less.prems(1)]
      by (subst mb_read_all.simps) (simp add: mb_sleep_quiet Let_def)
  next
    case False
    then show ?thesis by (subst mb_read_all.simps) simp
  qed
qed

lemma mb_poll_iter_quiet:
  assumes "mb_safe s"
  shows "\<exists>timer' t. mb_poll_iter [] timer s = Some (timer', t, []) \<and> mb_safe t \<and>
    rx_state t = (if rev_timerout_flag s \<noteq> 1 then rx_state s
      else if rev_timerout_cnt s + 1 \<ge> 10 then (0, 0, 0) else (buf_rev_cnt s, 1, rev_timerout_cnt s + 1))"
proof -
  let ?s = "s\<lparr>mb_device := (mb_device s)\<lparr>read_slave_device_cnt := 0\<rparr>\<rparr>"
  have "mb_safe ?s" using assms by (simp add: mb_safe_def wf_mb_def wf_device_def)
  then obtain r where r: "mb_read_all 0 [] ?s = Some (r, [])" "rx_state r = rx_state s" "mb_safe r"
    using mb_read_all_quiet [of ?s 0] mb_read_all_kept [of 0 "[]" ?s] by (auto simp: rx_state_def)
  have step: "\<exists>t. (do { (u, ts) \<leftarrow> mb_sync_relays 0 [] v; (u, ts) \<leftarrow> mb_sleep ts (mb_rx_timeout u); Some (tm, u, ts) }) = Some (tm, t, []) \<and>
      rx_state t = (if rev_timerout_flag s \<noteq> 1 then rx_state s
        else if rev_timerout_cnt s + 1 \<ge> 10 then (0, 0, 0) else (buf_rev_cnt s, 1, rev_timerout_cnt s + 1))"
    if v: "mb_safe v" "rx_state v = rx_state s" for v and tm :: u16
  proof -
    have "wf_mb v" "unat (slave_device_max (mb_device v)) \<le> 16" using v(1) by (simp_all add: mb_safe_def)
    from mb_sync_relays_effect [OF this, of 0] obtain u where "mb_sync_relays 0 [] v = Some (u, [])" "rx_state u = rx_state s"
      using v(2) by auto
    then show ?thesis by (auto simp: mb_sleep_quiet mb_rx_timeout_def rx_state_def Let_def)
  qed
  show ?thesis
  proof (cases "timer + 1 \<ge> 50")
    case True
    then show ?thesis
      using step [OF r(3,2), of 0] r(1) mb_poll_iter_kept [OF _ assms, of "[]" timer] by (auto simp: mb_poll_iter_def Let_def)
  next
    case False
    then show ?thesis
      using step [OF assms refl, of "timer + 1"] mb_poll_iter_kept [OF _ assms, of "[]" timer] by (auto simp: mb_poll_iter_def Let_def)
  qed
qed

lemma mb_rounds_idle:
  "mb_safe s \<Longrightarrow> rev_timerout_flag s \<noteq> 1 \<Longrightarrow> \<exists>timer' t. mb_rounds n timer s = Some (timer', t) \<and> rx_state t = rx_state s"
proof (induction n arbitrary: timer s)
  case (Suc n)
  obtain tm u where u: "mb_poll_iter [] timer s = Some (tm, u, [])" "mb_safe u" "rx_state u = rx_state s"
    using mb_poll_iter_quiet [OF Suc.prems(1), of timer] Suc.prems(2) by auto
  then have "rev_timerout_flag u \<noteq> 1" using Suc.prems(2) by (simp add: rx_state_def)
  from Suc.IH [OF u(2) this, of tm] u(1,3) show ?case by auto
qed simp

lemma mb_rounds_count:
  "mb_safe s \<Longrightarrow> rev_timerout_flag s = 1 \<Longrightarrow> unat (rev_timerout_cnt s) < 10 \<Longrightarrow> 10 \<le> unat (rev_timerout_cnt s) + n \<Longrightarrow>
   \<exists>timer' t. mb_rounds n timer s = Some (timer', t) \<and> rx_state t = (0, 0, 0)"
proof (induction n arbitrary: timer s)
  case (Suc n)
  have c: "unat (rev_timerout_cnt s + 1) = unat (rev_timerout_cnt s) + 1" using Suc.prems(3) by (simp add: u8_cnt_step)
  obtain tm u where u: "mb_poll_iter [] timer s = Some (tm, u, [])" "mb_safe u"
      "rx_state u = (if rev_timerout_cnt s + 1 \<ge> 10 then (0, 0, 0) else (buf_rev_cnt s, 1, rev_timerout_cnt s + 1))"
    using mb_poll_iter_quiet [OF Suc.prems(1), of timer] Suc.prems(2) by auto
  show ?case
  proof (cases "rev_timerout_cnt s + 1 \<ge> 10")
    case True
    then show ?thesis using u mb_rounds_idle [OF u(2), of n tm] by (auto simp: rx_state_def)
  next
    case False
    then have "unat (rev_timerout_cnt s) + 1 < 10" using c by (simp add: word_le_nat_alt)
    then show ?thesis using u False c Suc.prems(4) Suc.IH [OF u(2), of tm] by (auto simp: rx_state_def)
  qed
qed simp

text \<open>Only with the timeout armed is more than one byte of a frame there.\<close>

lemma rx_byte_armed:
  assumes "USART4_RxFull_IrqCallback b s = Some t" and "rev_timerout_flag s \<noteq> 1 \<Longrightarrow> buf_rev_cnt s = 0 \<or> buf_rev_cnt s = 1"
  shows "rev_timerout_flag t \<noteq> 1 \<Longrightarrow> buf_rev_cnt t = 0 \<or> buf_rev_cnt t = 1" and "rev_timerout_cnt t = 0"
proof -
  have take: "rx_state (foldl (\<lambda>s e. pb_take buf n e s) s es) = rx_state s" for buf n s es
    by (induction es arbitrary: s) (auto simp: pb_take_def rx_state_def Let_def)
  have evaluated: "rx_state u = rx_state v" if "mb_frame_done v = Some u" for u v
    using that take [of _ _ v] take [of _ _ v "[_]"]
    by (auto simp: mb_frame_done_def mb_ask_search_def mb_ask_read_def mb_ask_write_def Let_def rx_state_def split: if_splits bind_splits)
  let ?v = "mb_store b (s\<lparr>rev_timerout_cnt := 0\<rparr>)" and ?armed = "\<lambda>t. (rev_timerout_flag t \<noteq> 1 \<longrightarrow> buf_rev_cnt t = 0 \<or> buf_rev_cnt t = 1) \<and> rev_timerout_cnt t = 0"
  note rx = USART4_RxFull_IrqCallback_def Let_def
  have v: "rev_timerout_flag ?v = rev_timerout_flag s" "rev_timerout_cnt ?v = 0" "buf_rev_cnt ?v = buf_rev_cnt s + 1"
    by (simp_all add: mb_store_def)
  consider "buf_rev_cnt s = 0" | "buf_rev_cnt s = 1" | "buf_rev_cnt s = 2" | "buf_rev_cnt s = 3 \<or> buf_rev_cnt s = 4"
    | "buf_rev_cnt s \<notin> {0, 1, 2, 3, 4}" by auto
  then have "?armed t"
  proof cases
    case 1
    then show ?thesis using assms(1) v by (auto simp: rx split: if_splits)
  next
    case 2
    then show ?thesis using assms(1) v by (auto simp: rx split: if_splits)
  next
    case 3
    then show ?thesis using assms v by (auto simp: rx split: if_splits)
  next
    case 4
    then have "rev_timerout_flag s = 1" by (intro ccontr [of "rev_timerout_flag s = 1"]) (use assms(2) in auto)
    moreover have "rev_timerout_flag t = rev_timerout_flag s \<and> rev_timerout_cnt t = 0"
      using assms(1) 4 by (auto simp: rx mb_store_def split: if_splits)
    ultimately show ?thesis by simp
  next
    case 5
    then have "rev_timerout_flag s = 1" by (intro ccontr [of "rev_timerout_flag s = 1"]) (use assms(2) in auto)
    moreover have "t = ?v \<or> (\<exists>u. mb_frame_done ?v = Some u \<and> t = u\<lparr>buf_rev_cnt := 0\<rparr>)"
      using assms(1) 5 by (auto simp: rx split: if_splits bind_splits)
    ultimately show ?thesis using v evaluated [of ?v] by (auto simp: rx_state_def)
  qed
  then show "rev_timerout_flag t \<noteq> 1 \<Longrightarrow> buf_rev_cnt t = 0 \<or> buf_rev_cnt t = 1" "rev_timerout_cnt t = 0" by blast+
qed

lemma mb_rx_armed:
  "mb_rx bs s = Some t \<Longrightarrow> bs \<noteq> [] \<Longrightarrow> (rev_timerout_flag s \<noteq> 1 \<longrightarrow> buf_rev_cnt s = 0 \<or> buf_rev_cnt s = 1) \<Longrightarrow>
   (rev_timerout_flag t \<noteq> 1 \<longrightarrow> buf_rev_cnt t = 0 \<or> buf_rev_cnt t = 1) \<and> rev_timerout_cnt t = 0"
proof (induction bs arbitrary: s)
  case (Cons b bs)
  then obtain u where u: "USART4_RxFull_IrqCallback b s = Some u" "mb_rx bs u = Some t" by (auto split: bind_splits)
  show ?case
  proof (cases "bs = []")
    case True
    then show ?thesis using u rx_byte_armed [OF u(1)] Cons.prems(3) by auto
  next
    case False
    then show ?thesis using rx_byte_armed(1) [OF u(1)] Cons.prems(3) by (intro Cons.IH [OF u(2)]) auto
  qed
qed simp

text \<open>C38: An interrupted frame and the receiver. After any bytes from a state that waits for a
  header, at least ten silent rounds of the polling thread bring the receiver back to waiting for
  a header, with one exception: a first header byte alone, while the timeout is not armed, stays
  in the receiver however many silent rounds follow.\<close>

theorem receiver_recovers:
  assumes "mb_safe s" and "buf_rev_cnt s = 0" and "bs \<noteq> []" and "mb_rx bs s = Some t" and "10 \<le> n"
  shows "\<exists>timer' u. mb_rounds n timer t = Some (timer', u) \<and>
    buf_rev_cnt u = (if buf_rev_cnt t = 1 \<and> rev_timerout_flag t \<noteq> 1 then 1 else 0)"
proof -
  have t: "mb_safe t" using mb_rx_kept [OF assms(4,1)] by blast
  have a: "rev_timerout_flag t \<noteq> 1 \<longrightarrow> buf_rev_cnt t = 0 \<or> buf_rev_cnt t = 1" "rev_timerout_cnt t = 0"
    using mb_rx_armed [OF assms(4,3)] assms(2) by auto
  show ?thesis
  proof (cases "rev_timerout_flag t = 1")
    case True
    then show ?thesis using mb_rounds_count [OF t True, of n timer] a(2) assms(5) by (auto simp: rx_state_def)
  next
    case False
    then show ?thesis using mb_rounds_idle [OF t False, of n timer] a(1) by (auto simp: rx_state_def)
  qed
qed

theorem receiver_recovers_witness:
  "(\<exists>t u timer'. mb_rx [0xf5, 0x5f, 3] mb_state_init = Some t \<and> mb_rounds 10 0 t = Some (timer', u) \<and> buf_rev_cnt u = 0) \<and>
   (\<exists>t u timer'. mb_rx [0xf5] mb_state_init = Some t \<and> mb_rounds 1000 0 t = Some (timer', u) \<and> buf_rev_cnt u = 1)"
proof -
  have c: "mb_safe mb_state_init" "buf_rev_cnt mb_state_init = 0"
    using wf_mb_init by (simp_all add: mb_safe_def) (simp_all add: mb_state_init_def device_data_init_def)
  obtain t where t: "mb_rx [0xf5, 0x5f, 3] mb_state_init = Some t" "rev_timerout_flag t = 1"
    by (auto simp: USART4_RxFull_IrqCallback_def mb_store_def mb_consts mb_state_init_def Let_def)
  obtain v where v: "mb_rx [0xf5] mb_state_init = Some v" "buf_rev_cnt v = 1" "rev_timerout_flag v = 0"
    by (auto simp: USART4_RxFull_IrqCallback_def mb_store_def mb_consts mb_state_init_def Let_def)
  show ?thesis
    using receiver_recovers [OF c _ t(1), of 10 0] receiver_recovers [OF c _ v(1), of 1000 0] t v by auto
qed

text \<open>The report accessors of the DC channels 2 to 7 return channel 1, whatever was measured.\<close>

theorem dc_accessors_channel_1:
  "read_power_board dc2_voltage_value num s = read_power_board dc1_voltage_value num s \<and>
   read_power_board dc7_current_value num s = read_power_board dc1_current_value num s \<and>
   (wf_mb s \<longrightarrow> unat num < 16 \<longrightarrow>
     read_power_board dc3_current_value num s = Some ((power_board_data s ! unat num) dc1_current_value))"
  by (simp add: read_power_board_def wf_mb_def SLAVE_MAX_NUM_def)

theorem dc_accessors_channel_1_witness:
  "read_power_board dc3_current_value 0 mb_state_init = Some 0"
  using dc_accessors_channel_1 [of 0 mb_state_init] wf_mb_init by (simp add: mb_state_init_def SLAVE_MAX_NUM_def)

end
