(* ===== verification/Autoeclosing.thy ===== *)
theory Autoeclosing
  imports Device_Data Modbus_Crc Uart_Receiver
begin

text \<open>
  The Modbus master of the automatic recloser (\<^verbatim>\<open>app/autoeclosing_rs485_handle.c\<close>): receive
  interrupts, requests, reply handlers and one iteration of \<^verbatim>\<open>autoeclosing_control_thread\<close>.
  \<^const>\<open>None\<close> is an access outside an array. The handlers look at the flag before each
  10 ms sleep; interrupts arrive during sleeps.
\<close>

section \<open>State\<close>

record autoeclosing_register_data =
  voltage_value :: u16
  current_value :: u16
  creepage_current_value :: u16
  reclosing_times :: u16
  over_voltage_value :: u16
  low_voltage_value :: u16
  device_status :: u16
  do_status :: u16
  fault_opening_times :: u16

record ac_state =
  timeout_flag :: u8
  rx_cnt :: u8
  autoeclosing_rx_buf :: "u8 list"
  autoeclosing_tx_buf :: "u8 list"
  autoeclosing_data :: autoeclosing_register_data
  ac_device :: sys_type \<comment> \<open>\<^verbatim>\<open>device_data\<close>\<close>
  ac_out :: "u8 list list" \<comment> \<open>the frames given to the USART\<close>

definition AUTOCLOSING_ADDR :: u8 where "AUTOCLOSING_ADDR = 0x01"

definition ac_state_init :: ac_state where
  "ac_state_init = \<lparr>timeout_flag = 0, rx_cnt = 0, autoeclosing_rx_buf = zeros 128,
     autoeclosing_tx_buf = zeros 128, autoeclosing_data = \<lparr>voltage_value = 0, current_value = 0,
       creepage_current_value = 0, reclosing_times = 0, over_voltage_value = 0, low_voltage_value = 0,
       device_status = 0, do_status = 0, fault_opening_times = 0\<rparr>,
     ac_device = device_data_init, ac_out = []\<rparr>"

section \<open>Interrupts\<close>

definition USART7_RxFull_IrqCallback :: "u8 \<Rightarrow> ac_state \<Rightarrow> ac_state option" where
  "USART7_RxFull_IrqCallback u8Data s =
     do {
       buf \<leftarrow> arr_put (autoeclosing_rx_buf s) (unat (rx_cnt s)) u8Data;
       let cnt = rx_cnt s + 1;
       Some (s\<lparr>autoeclosing_rx_buf := buf, rx_cnt := (if cnt > 128 then 0 else cnt)\<rparr>)
     }"

definition USART7_RxTimeout_IrqCallback :: "ac_state \<Rightarrow> ac_state" where
  "USART7_RxTimeout_IrqCallback s = s\<lparr>timeout_flag := 1\<rparr>"

fun ac_irq :: "uart_irq \<Rightarrow> ac_state \<Rightarrow> ac_state option" where
  "ac_irq (RxFull b) s = USART7_RxFull_IrqCallback b s"
| "ac_irq RxError s = Some s"
| "ac_irq RxTimeout s = Some (USART7_RxTimeout_IrqCallback s)"

abbreviation ac_irqs :: "uart_irq list \<Rightarrow> ac_state \<Rightarrow> ac_state option" where
  "ac_irqs \<equiv> run_irqs ac_irq"

section \<open>Requests\<close>

definition ac_request :: "u8 list \<Rightarrow> ac_state \<Rightarrow> ac_state" where
  "ac_request hdr s =
     (let tx = buf_write (autoeclosing_tx_buf s) 0 hdr;
          checksum = autoeclosing_modbus_crc16 tx 6;
          tx = (tx[6 := lo8 checksum])[7 := hi8 checksum]
      in s\<lparr>autoeclosing_tx_buf := tx, ac_out := ac_out s @ [take 8 tx]\<rparr>)"

definition read_register_autoeclosing :: "ac_state \<Rightarrow> ac_state" where
  "read_register_autoeclosing = ac_request [AUTOCLOSING_ADDR, 0x03, 0x00, 0x01, 0x00, 0x0b]"

definition read_do_autoeclosing :: "ac_state \<Rightarrow> ac_state" where
  "read_do_autoeclosing = ac_request [AUTOCLOSING_ADDR, 0x01, 0x00, 0x30, 0x00, 0x04]"

definition read_di_autoeclosing :: "ac_state \<Rightarrow> ac_state" where
  "read_di_autoeclosing = ac_request [AUTOCLOSING_ADDR, 0x02, 0x00, 0x00, 0x00, 0x0c]"

definition send_closing_on_autoeclosing :: "ac_state \<Rightarrow> ac_state" where
  "send_closing_on_autoeclosing = ac_request [AUTOCLOSING_ADDR, 0x05, 0x00, 0x31, 0xff, 0x00]"

definition send_closing_off_autoeclosing :: "ac_state \<Rightarrow> ac_state" where
  "send_closing_off_autoeclosing = ac_request [AUTOCLOSING_ADDR, 0x05, 0x00, 0x32, 0xff, 0x00]"

section \<open>Replies\<close>

text \<open>The loop of the three handlers; all exits of the evaluation clear the buffer.\<close>

fun ac_wait :: "(ac_state \<Rightarrow> (int \<times> ac_state) option) \<Rightarrow> nat \<Rightarrow> ticks \<Rightarrow> ac_state \<Rightarrow>
    (int \<times> ac_state \<times> ticks) option" where
  "ac_wait eval 0 ts s = Some (SYS_E_TIMEOUT, s, ts)"
| "ac_wait eval (Suc n) ts s =
     (if timeout_flag s = 1 then
        do { (r, s) \<leftarrow> eval (s\<lparr>timeout_flag := 0, rx_cnt := 0\<rparr>); Some (r, s, ts) }
      else do { s \<leftarrow> ac_irqs (tick_now ts) s; ac_wait eval n (tl ts) s })"

definition ac_clear_rx :: "ac_state \<Rightarrow> ac_state" where
  "ac_clear_rx s = s\<lparr>autoeclosing_rx_buf := zeros 128\<rparr>"

text \<open>
  Address, function code, CRC over \<open>len\<close> bytes against the bytes behind the payload that byte 2
  announces, then the handler's own update (which may refuse). The two CRC bytes are read at
  \<^verbatim>\<open>3+rx[2]\<close> and \<^verbatim>\<open>4+rx[2]\<close>, which may lie outside the buffer.
\<close>

definition ac_eval :: "u8 \<Rightarrow> (u8 list \<Rightarrow> nat) \<Rightarrow> (u8 list \<Rightarrow> ac_state \<Rightarrow> int \<times> ac_state) \<Rightarrow>
    ac_state \<Rightarrow> (int \<times> ac_state) option" where
  "ac_eval fn len update s =
     (let rx = autoeclosing_rx_buf s; n = unat (rx ! 2) in
      if rx ! 0 = AUTOCLOSING_ADDR then
        if rx ! 1 = fn then
          if n + 4 < length rx then
            let checksum = autoeclosing_modbus_crc16 rx (len rx);
                read_checksum = be16 (rx ! (4 + n)) (rx ! (3 + n))
            in if checksum = read_checksum
               then let (r, s) = update rx s in Some (r, ac_clear_rx s)
               else Some (SYS_FAIL, ac_clear_rx s)
          else None
        else Some (SYS_FAIL, ac_clear_rx s)
      else Some (SYS_FAIL, ac_clear_rx s))"

definition ac_reply_len :: "u8 list \<Rightarrow> nat" where
  "ac_reply_len rx = unat (rx ! 2) + 3"

definition register_update :: "u8 list \<Rightarrow> ac_state \<Rightarrow> int \<times> ac_state" where
  "register_update rx s = (SYS_OK, s\<lparr>autoeclosing_data := (autoeclosing_data s)\<lparr>
     voltage_value := be16 (rx ! 3) (rx ! 4),
     current_value := be16 (rx ! 5) (rx ! 6),
     creepage_current_value := be16 (rx ! 7) (rx ! 8),
     reclosing_times := be16 (rx ! 9) (rx ! 10),
     over_voltage_value := be16 (rx ! 11) (rx ! 12),
     low_voltage_value := be16 (rx ! 13) (rx ! 14),
     device_status := be16 (rx ! 15) (rx ! 16),
     fault_opening_times := be16 (rx ! 17) (rx ! 18)\<rparr>\<rparr>)"

definition read_register_handle :: "nat \<Rightarrow> ticks \<Rightarrow> ac_state \<Rightarrow> (int \<times> ac_state \<times> ticks) option" where
  "read_register_handle = ac_wait (ac_eval 0x03 ac_reply_len register_update)"

definition do_update :: "u8 list \<Rightarrow> ac_state \<Rightarrow> int \<times> ac_state" where
  "do_update rx s = (SYS_OK, s\<lparr>autoeclosing_data := (autoeclosing_data s)\<lparr>do_status := ucast (rx ! 3)\<rparr>\<rparr>)"

definition read_do_handle :: "nat \<Rightarrow> ticks \<Rightarrow> ac_state \<Rightarrow> (int \<times> ac_state \<times> ticks) option" where
  "read_do_handle = ac_wait (ac_eval 0x01 (\<lambda>_. 4) do_update)"

definition closing_update :: "u8 \<Rightarrow> u8 list \<Rightarrow> ac_state \<Rightarrow> int \<times> ac_state" where
  "closing_update cmd rx s = (if rx ! 3 = cmd then SYS_OK else SYS_FAIL, s)"

definition send_closing_on_off_handle ::
    "u8 \<Rightarrow> nat \<Rightarrow> ticks \<Rightarrow> ac_state \<Rightarrow> (int \<times> ac_state \<times> ticks) option" where
  "send_closing_on_off_handle cmd = ac_wait (ac_eval 0x05 ac_reply_len (closing_update cmd))"

section \<open>The control thread\<close>

definition ac_sleep :: "ticks \<Rightarrow> ac_state \<Rightarrow> (ac_state \<times> ticks) option" where
  "ac_sleep ts s = do { s \<leftarrow> ac_irqs (tick_now ts) s; Some (s, tl ts) }"

definition ac_read_all :: "ticks \<Rightarrow> ac_state \<Rightarrow> (ac_state \<times> ticks) option" where
  "ac_read_all ts s =
     do {
       (r, s, ts) \<leftarrow> read_register_handle 200 ts (read_register_autoeclosing s);
       (s, ts) \<leftarrow> ac_sleep ts s;
       (r, s, ts) \<leftarrow> read_do_handle 200 ts (read_do_autoeclosing s);
       ac_sleep ts s
     }"

definition ac_on_off :: "ticks \<Rightarrow> ac_state \<Rightarrow> (ac_state \<times> ticks) option" where
  "ac_on_off ts s =
     (if autoeclosing_on_off_flag (ac_device s) = 1 then
        do {
          let s = s\<lparr>ac_device := (ac_device s)\<lparr>autoeclosing_on_off_flag := 0\<rparr>\<rparr>;
          (s, ts) \<leftarrow>
            (if autoeclosing_on_off_code (ac_device s) = 1 then
               do { (r, s, ts) \<leftarrow> send_closing_on_off_handle 0x31 10 ts (send_closing_on_autoeclosing s); Some (s, ts) }
             else if autoeclosing_on_off_code (ac_device s) = 2 then
               do { (r, s, ts) \<leftarrow> send_closing_on_off_handle 0x32 10 ts (send_closing_off_autoeclosing s); Some (s, ts) }
             else Some (s, ts));
          Some (s\<lparr>ac_device := (ac_device s)\<lparr>autoeclosing_on_off_code := 0\<rparr>\<rparr>, ts)
        }
      else Some (s, ts))"

text \<open>One iteration of \<^verbatim>\<open>while(1)\<close>; \<open>cnt\<close> is the local \<^verbatim>\<open>time_1sec_cnt\<close>.\<close>

definition autoeclosing_control_iter :: "ticks \<Rightarrow> u8 \<Rightarrow> ac_state \<Rightarrow> (u8 \<times> ac_state \<times> ticks) option" where
  "autoeclosing_control_iter ts cnt s =
     do {
       let cnt = cnt + 1;
       (cnt, s, ts) \<leftarrow>
         (if cnt \<ge> 50 then do { (s, ts) \<leftarrow> ac_read_all ts s; Some (0, s, ts) } else Some (cnt, s, ts));
       (s, ts) \<leftarrow> ac_on_off ts s;
       (s, ts) \<leftarrow> ac_sleep ts s;
       Some (cnt, s, ts)
     }"

section \<open>The receiver\<close>

lemma ac_cnt_step: "unat (c :: u8) < 128 \<Longrightarrow> unat (c + 1) = unat c + 1 \<and> \<not> c + 1 > 128"
  by (simp add: word_less_nat_alt unat_word_ariths)

interpretation ac_rx: uart_receiver ac_irq "\<lambda>_. True" autoeclosing_rx_buf "\<lambda>s. unat (rx_cnt s)" 128
proof unfold_locales
  fix s :: ac_state and b
  assume "length (autoeclosing_rx_buf s) = 128" and c: "unat (rx_cnt s) < 128"
  then show "\<exists>t. ac_irq (RxFull b) s = Some t \<and> True \<and>
      autoeclosing_rx_buf t = (autoeclosing_rx_buf s)[unat (rx_cnt s) := b] \<and>
      unat (rx_cnt t) = unat (rx_cnt s) + 1"
    using ac_cnt_step [OF c] by (simp add: USART7_RxFull_IrqCallback_def arr_put_Some)
qed (auto simp: USART7_RxFull_IrqCallback_def USART7_RxTimeout_IrqCallback_def arr_put_None)

text \<open>Everything but buffer, counter and flag is left alone.\<close>

definition ac_same :: "ac_state \<Rightarrow> ac_state \<Rightarrow> bool" where
  "ac_same s t \<longleftrightarrow> autoeclosing_data t = autoeclosing_data s \<and> ac_device t = ac_device s \<and>
     ac_out t = ac_out s \<and> autoeclosing_tx_buf t = autoeclosing_tx_buf s"

lemma ac_irq_same: "ac_irq i s = Some t \<Longrightarrow> ac_same s t"
  by (cases i) (auto simp: ac_same_def USART7_RxFull_IrqCallback_def USART7_RxTimeout_IrqCallback_def
    Let_def split: bind_splits)

lemma ac_irqs_same: "ac_irqs is s = Some t \<Longrightarrow> ac_same s t"
proof (induction "is" arbitrary: s)
  case (Cons i "is")
  then obtain u where "ac_irq i s = Some u" "ac_irqs is u = Some t" by (auto split: bind_splits)
  with ac_irq_same Cons.IH show ?case unfolding ac_same_def by metis
qed (simp add: ac_same_def)

lemma ac_irqs_answer_flag: "ac_irqs (is @ [RxTimeout]) s = Some t \<Longrightarrow> timeout_flag t = 1"
proof (induction "is" arbitrary: s)
  case (Cons i "is")
  then show ?case by (auto split: bind_splits)
qed (auto simp: USART7_RxTimeout_IrqCallback_def)

lemma ac_wait_quiet:
  "timeout_flag s \<noteq> 1 \<Longrightarrow> ac_wait eval (k + n) (replicate k [] @ ts) s = ac_wait eval n ts s"
  by (induction k) simp_all

definition ac_ready :: "ac_state \<Rightarrow> bool" where
  "ac_ready s \<longleftrightarrow> length (autoeclosing_rx_buf s) = 128 \<and> length (autoeclosing_tx_buf s) = 128 \<and>
     rx_cnt s = 0 \<and> timeout_flag s = 0"

text \<open>A frame of at most 128 bytes that arrives in one tick is evaluated at the next look.\<close>

lemma ac_wait_answer:
  assumes "ac_ready s" and "length bs \<le> 128"
  shows "ac_wait eval (Suc (Suc n)) (answer bs # ts) s =
    do { (r, t) \<leftarrow> eval (s\<lparr>autoeclosing_rx_buf := buf_write (autoeclosing_rx_buf s) 0 bs\<rparr>); Some (r, t, ts) }"
proof -
  have s: "length (autoeclosing_rx_buf s) = 128" "unat (rx_cnt s) + length (rx_bytes (answer bs)) \<le> 128"
      "timeout_flag s \<noteq> 1" "rx_cnt s = 0" "timeout_flag s = 0"
    using assms by (simp_all add: ac_ready_def)
  obtain t where t: "ac_irqs (answer bs) s = Some t" "autoeclosing_rx_buf t = buf_write (autoeclosing_rx_buf s) 0 bs"
    using ac_rx.fill [OF TrueI s(1,2)] s(4) by auto
  have "timeout_flag t = 1" using ac_irqs_answer_flag t(1) unfolding answer_def by blast
  moreover have "t\<lparr>timeout_flag := 0, rx_cnt := 0\<rparr> = s\<lparr>autoeclosing_rx_buf := buf_write (autoeclosing_rx_buf s) 0 bs\<rparr>"
    using ac_irqs_same [OF t(1)] t(2) s(4,5) by (intro ac_state.equality) (simp_all add: ac_same_def)
  ultimately show ?thesis using s(3) t(1) by simp
qed

section \<open>Properties\<close>

text \<open>C37: Reading the recloser. A genuine reply with 22 data bytes that arrives in the window sets the
  eight measured values to the big-endian words at their places, and only those.\<close>

theorem recloser_registers_decoded:
  assumes "ac_ready s" and "k + 2 \<le> n" and "length d = 22"
  shows "\<exists>t. read_register_handle n
      (replicate k [] @ answer (with_crc_le autoeclosing_modbus_crc16 ([AUTOCLOSING_ADDR, 3, 22] @ d)) # ts) s = Some (SYS_OK, t, ts) \<and>
    ac_ready t \<and> ac_device t = ac_device s \<and>
    autoeclosing_data t = (autoeclosing_data s)\<lparr>voltage_value := be16 (d ! 0) (d ! 1),
      current_value := be16 (d ! 2) (d ! 3), creepage_current_value := be16 (d ! 4) (d ! 5),
      reclosing_times := be16 (d ! 6) (d ! 7), over_voltage_value := be16 (d ! 8) (d ! 9),
      low_voltage_value := be16 (d ! 10) (d ! 11), device_status := be16 (d ! 12) (d ! 13),
      fault_opening_times := be16 (d ! 14) (d ! 15)\<rparr>"
proof -
  let ?msg = "[AUTOCLOSING_ADDR, 3, 22] @ d"
  let ?f = "with_crc_le autoeclosing_modbus_crc16 ?msg"
  let ?rx = "buf_write (autoeclosing_rx_buf s) 0 ?f"
  have n: "n = k + Suc (Suc (n - k - 2))" using assms(2) by simp
  have fl: "timeout_flag s \<noteq> 1" and len: "length ?f \<le> 128" using assms by (simp_all add: ac_ready_def)
  have rx: "?rx = ?f @ drop 27 (autoeclosing_rx_buf s)" using assms(3) by (simp add: buf_write_def)
  have "crc_le_ok autoeclosing_modbus_crc16 ?rx 25"
    unfolding rx using ac.own_frame_le [of ?msg] assms(3) by simp
  moreover have "?rx ! 0 = AUTOCLOSING_ADDR" "?rx ! 1 = 3" "?rx ! 2 = 22" "length ?rx = 128"
    using assms unfolding rx by (simp_all add: with_crc_le_def nth_append ac_ready_def)
  ultimately have ev: "ac_eval 3 ac_reply_len register_update (s\<lparr>autoeclosing_rx_buf := ?rx\<rparr>) =
      Some (SYS_OK, ac_clear_rx (snd (register_update ?rx (s\<lparr>autoeclosing_rx_buf := ?rx\<rparr>))))"
    by (simp add: ac_eval_def ac_reply_len_def crc_le_ok_def register_update_def Let_def)
  have "?rx ! (3 + i) = d ! i" if "i < 22" for i
    unfolding rx using that assms(3) by (simp add: with_crc_le_def nth_append)
  from this [of 0] this [of 1] this [of 2] this [of 3] this [of 4] this [of 5] this [of 6] this [of 7] this [of 8]
    this [of 9] this [of 10] this [of 11] this [of 12] this [of 13] this [of 14] this [of 15]
  have d: "?rx ! 3 = d ! 0" "?rx ! 4 = d ! 1" "?rx ! 5 = d ! 2" "?rx ! 6 = d ! 3" "?rx ! 7 = d ! 4" "?rx ! 8 = d ! 5"
      "?rx ! 9 = d ! 6" "?rx ! 10 = d ! 7" "?rx ! 11 = d ! 8" "?rx ! 12 = d ! 9" "?rx ! 13 = d ! 10" "?rx ! 14 = d ! 11"
      "?rx ! 15 = d ! 12" "?rx ! 16 = d ! 13" "?rx ! 17 = d ! 14" "?rx ! 18 = d ! 15" by simp_all
  show ?thesis
    using assms(1) d unfolding read_register_handle_def
    by (subst n, subst ac_wait_quiet [OF fl], subst ac_wait_answer [OF assms(1) len], subst ev)
      (simp add: register_update_def ac_clear_rx_def ac_ready_def del: append_Cons)
qed

theorem recloser_registers_decoded_witness:
  "\<exists>t. read_register_handle 200
      (replicate 0 [] @ [answer (with_crc_le autoeclosing_modbus_crc16 ([AUTOCLOSING_ADDR, 3, 22] @ [0, 230] @ zeros 20))])
      ac_state_init = Some (SYS_OK, t, []) \<and> voltage_value (autoeclosing_data t) = 230"
proof -
  have r: "ac_ready ac_state_init" by (simp add: ac_ready_def ac_state_init_def)
  show ?thesis
    using recloser_registers_decoded [OF r, of 0 200 "[0, 230] @ zeros 20" "[]"]
    by (auto simp: be16_def)
qed

lemma echo_crc:
  "autoeclosing_modbus_crc16 [AUTOCLOSING_ADDR, 5, 0] 3 \<noteq> be16 0xff 0x31"
  "autoeclosing_modbus_crc16 [AUTOCLOSING_ADDR, 5, 0] 3 \<noteq> be16 0xff 0x32"
  by code_simp+

text \<open>Switching the recloser on or off is never confirmed. The standard reply to the command is
  its echo; the handler takes the CRC over the first three bytes and compares it with two bytes
  of the command, so a genuine echo is refused whatever the confirmation code.\<close>

theorem switch_echo_refused:
  assumes "ac_ready s" and "k + 2 \<le> n" and "c = 0x31 \<or> c = 0x32"
  shows "\<exists>t. send_closing_on_off_handle cmd n
      (replicate k [] @ answer (with_crc_le autoeclosing_modbus_crc16 [AUTOCLOSING_ADDR, 5, 0, c, 0xff, 0]) # ts) s
      = Some (SYS_FAIL, t, ts)"
proof -
  let ?msg = "[AUTOCLOSING_ADDR, 5, 0, c, 0xff, 0]"
  let ?f = "with_crc_le autoeclosing_modbus_crc16 ?msg"
  let ?rx = "buf_write (autoeclosing_rx_buf s) 0 ?f"
  have n: "n = k + Suc (Suc (n - k - 2))" using assms(2) by simp
  have fl: "timeout_flag s \<noteq> 1" and len: "length ?f \<le> 128" using assms by (simp_all add: ac_ready_def)
  have rx: "?rx = ?f @ drop 8 (autoeclosing_rx_buf s)" by (simp add: buf_write_def eval_nat_numeral)
  have at: "?rx ! 0 = AUTOCLOSING_ADDR" "?rx ! 1 = 5" "?rx ! 2 = 0" "?rx ! 3 = c" "?rx ! 4 = 0xff" "length ?rx = 128"
    using assms(1) unfolding rx by (simp_all add: with_crc_le_def ac_ready_def)
  have "take 3 ?rx = take 3 [AUTOCLOSING_ADDR, 5, 0]"
    unfolding rx by (simp add: with_crc_le_def numeral_3_eq_3)
  then have "autoeclosing_modbus_crc16 ?rx 3 = autoeclosing_modbus_crc16 [AUTOCLOSING_ADDR, 5, 0] 3"
    by (intro ac.crc_prefix) simp_all
  also have "\<dots> \<noteq> be16 0xff c"
    using assms(3) echo_crc by auto
  finally have "ac_eval 5 ac_reply_len (closing_update cmd) (s\<lparr>autoeclosing_rx_buf := ?rx\<rparr>) =
      Some (SYS_FAIL, ac_clear_rx (s\<lparr>autoeclosing_rx_buf := ?rx\<rparr>))"
    using at by (simp add: ac_eval_def ac_reply_len_def Let_def)
  then show ?thesis
    unfolding send_closing_on_off_handle_def
    by (subst n, subst ac_wait_quiet [OF fl], subst ac_wait_answer [OF assms(1) len]) simp
qed

theorem switch_echo_refused_witness:
  "\<exists>t. send_closing_on_off_handle 0x31 10
      (replicate 1 [] @ [answer (with_crc_le autoeclosing_modbus_crc16 [AUTOCLOSING_ADDR, 5, 0, 0x31, 0xff, 0])]) ac_state_init
      = Some (SYS_FAIL, t, [])"
proof -
  have r: "ac_ready ac_state_init" by (simp add: ac_ready_def ac_state_init_def)
  from switch_echo_refused [OF r, of 1 10 "0x31" "0x31" "[]"] show ?thesis by simp
qed

text \<open>A reply whose byte 2 announces 124 or more data bytes makes each of the three handlers read
  its CRC outside the 128-byte buffer, before any check has been passed.\<close>

theorem recloser_length_unchecked:
  assumes "timeout_flag s = 1" and "length (autoeclosing_rx_buf s) = 128"
    and "autoeclosing_rx_buf s ! 0 = AUTOCLOSING_ADDR" and "124 \<le> autoeclosing_rx_buf s ! 2" and "0 < n"
  shows "(autoeclosing_rx_buf s ! 1 = 3 \<longrightarrow> read_register_handle n ts s = None) \<and>
    (autoeclosing_rx_buf s ! 1 = 1 \<longrightarrow> read_do_handle n ts s = None) \<and>
    (autoeclosing_rx_buf s ! 1 = 5 \<longrightarrow> send_closing_on_off_handle c n ts s = None)"
proof -
  have "124 \<le> unat (autoeclosing_rx_buf s ! 2)" using assms(4) by (simp add: word_le_nat_alt)
  with assms show ?thesis
    by (cases n) (simp_all add: read_register_handle_def read_do_handle_def send_closing_on_off_handle_def
      ac_eval_def Let_def)
qed

theorem recloser_length_unchecked_witness:
  "read_register_handle 200 [] (ac_state_init\<lparr>timeout_flag := 1,
     autoeclosing_rx_buf := [AUTOCLOSING_ADDR, 3, 200] @ zeros 125\<rparr>) = None"
  using recloser_length_unchecked [of "ac_state_init\<lparr>timeout_flag := 1,
     autoeclosing_rx_buf := [AUTOCLOSING_ADDR, 3, 200] @ zeros 125\<rparr>" 200 "[]" 0]
  by (simp add: word_le_nat_alt)

text \<open>The receive interrupts of the recloser stay inside the 128-byte buffer exactly as long as at
  most 128 bytes have arrived since the counter was reset.\<close>

theorem recloser_receiver_bounds:
  assumes "length (autoeclosing_rx_buf s) = 128" and "unat (rx_cnt s) \<le> 128"
  shows "ac_irqs is s = None \<longleftrightarrow> 128 < unat (rx_cnt s) + length (rx_bytes is)"
  by (rule ac_rx.bounds [OF TrueI assms])

theorem recloser_receiver_bounds_witness:
  "ac_irqs (map RxFull (zeros 129)) ac_state_init = None"
  using recloser_receiver_bounds [of ac_state_init "map RxFull (zeros 129)"] by (simp add: ac_state_init_def)

end
