(* ===== verification/Lock_Relay.thy ===== *)
theory Lock_Relay
  imports Device_Data Uart_Receiver
begin

text \<open>
  The relay between the door lock's RS485 line and its TCP connection
  (\<^verbatim>\<open>app/lock_rs485_handle.c\<close>): frames from the lock are handed to the TCP side, one answer
  per frame goes back to the lock, and an unanswered frame is given up after a minute.
  \<^const>\<open>None\<close> is an access outside an array.
\<close>

definition PHY_LINK_ON :: u8 where "PHY_LINK_ON = 1"

record lock_state =
  lock_rx_buf :: "u8 list"
  lock_timeout_cnt :: u8
  lock_rx_frame_flag :: u8
  lock_rx_buf_len :: u8
  lock_send_tcp_flag :: u8
  lock_rev_tcp_flag :: u8
  lock_send_tcp_buf :: "u8 list"
  lock_send_tcp_len :: u8
  lock_rev_tcp_buf :: "u8 list"
  lock_rev_tcp_len :: u8
  lock_send_rev_flag :: u8
  lock_device :: sys_type \<comment> \<open>\<^verbatim>\<open>device_data\<close>\<close>
  lock_out :: "u8 list list" \<comment> \<open>the frames given to \<^verbatim>\<open>send_lock_data\<close>\<close>

definition wf_lock :: "lock_state \<Rightarrow> bool" where
  "wf_lock s \<longleftrightarrow> length (lock_rx_buf s) = 128 \<and> length (lock_send_tcp_buf s) = 128 \<and>
     length (lock_rev_tcp_buf s) = 128"

definition lock_state_init :: lock_state where
  "lock_state_init = \<lparr>lock_rx_buf = zeros 128, lock_timeout_cnt = 0, lock_rx_frame_flag = 0,
     lock_rx_buf_len = 0, lock_send_tcp_flag = 0, lock_rev_tcp_flag = 0, lock_send_tcp_buf = zeros 128,
     lock_send_tcp_len = 0, lock_rev_tcp_buf = zeros 128, lock_rev_tcp_len = 0, lock_send_rev_flag = 0,
     lock_device = device_data_init, lock_out = []\<rparr>"

section \<open>Interrupts\<close>

definition USART2_RxFull_IrqCallback :: "u8 \<Rightarrow> lock_state \<Rightarrow> lock_state option" where
  "USART2_RxFull_IrqCallback u8Data s =
     (if phy_check_flag (lock_device s) = PHY_LINK_ON then
        do {
          buf \<leftarrow> arr_put (lock_rx_buf s) (unat (lock_rx_buf_len s)) u8Data;
          let n = lock_rx_buf_len s + 1;
          Some (s\<lparr>lock_rx_buf := buf, lock_rx_buf_len := (if n > 128 then 0 else n)\<rparr>)
        }
      else Some s)"

definition USART2_RxTimeout_IrqCallback :: "lock_state \<Rightarrow> lock_state" where
  "USART2_RxTimeout_IrqCallback s =
     (if phy_check_flag (lock_device s) = PHY_LINK_ON
      then s\<lparr>lock_rx_frame_flag := 1, lock_timeout_cnt := 0\<rparr> else s)"

fun lock_irq :: "uart_irq \<Rightarrow> lock_state \<Rightarrow> lock_state option" where
  "lock_irq (RxFull b) s = USART2_RxFull_IrqCallback b s"
| "lock_irq RxError s = Some s"
| "lock_irq RxTimeout s = Some (USART2_RxTimeout_IrqCallback s)"

abbreviation lock_irqs :: "uart_irq list \<Rightarrow> lock_state \<Rightarrow> lock_state option" where
  "lock_irqs \<equiv> run_irqs lock_irq"

section \<open>The control thread\<close>

text \<open>A complete frame from the lock goes to the TCP buffer; its place is zeroed.\<close>

definition lock_take_frame :: "lock_state \<Rightarrow> lock_state option" where
  "lock_take_frame s =
     (if lock_rx_frame_flag s = 1 then
        do {
          s \<leftarrow> (if lock_rx_buf_len s \<noteq> 0 then
                  let n = unat (lock_rx_buf_len s) in
                  if n \<le> length (lock_rx_buf s) \<and> n \<le> length (lock_send_tcp_buf s) then
                    Some (s\<lparr>lock_send_tcp_len := lock_rx_buf_len s,
                            lock_send_tcp_buf := buf_write (lock_send_tcp_buf s) 0 (take n (lock_rx_buf s)),
                            lock_rx_buf := buf_write (lock_rx_buf s) 0 (zeros n),
                            lock_send_tcp_flag := 1, lock_send_rev_flag := 1\<rparr>)
                  else None
                else Some s);
          Some (s\<lparr>lock_rx_buf_len := 0, lock_rx_frame_flag := 0\<rparr>)
        }
      else Some s)"

text \<open>An answer from TCP goes to the lock when one is awaited.\<close>

definition lock_give_answer :: "lock_state \<Rightarrow> lock_state" where
  "lock_give_answer s =
     (if lock_rev_tcp_flag s = 1 \<and> lock_send_rev_flag s = 1 then
        s\<lparr>lock_out := lock_out s @ [take (unat (lock_rev_tcp_len s)) (lock_rev_tcp_buf s)],
          lock_timeout_cnt := 120, lock_send_tcp_flag := 0, lock_rev_tcp_flag := 0, lock_send_rev_flag := 0\<rparr>
      else s)"

definition lock_count :: "lock_state \<Rightarrow> lock_state" where
  "lock_count s =
     (if lock_send_tcp_flag s = 1 then
        let s = s\<lparr>lock_timeout_cnt := lock_timeout_cnt s + 1\<rparr>
        in if lock_timeout_cnt s \<ge> 120
           then s\<lparr>lock_timeout_cnt := 0, lock_send_tcp_flag := 0, lock_send_rev_flag := 0\<rparr> else s
      else s)"

definition lock_step :: "lock_state \<Rightarrow> lock_state option" where
  "lock_step s =
     do {
       s \<leftarrow> (if phy_check_flag (lock_device s) = PHY_LINK_ON
             then do { s \<leftarrow> lock_take_frame s; Some (lock_give_answer s) } else Some s);
       Some (lock_count s)
     }"

text \<open>One iteration of \<^verbatim>\<open>lock_control_thread\<close>, with the 500 ms sleep at its end.\<close>

definition lock_control_iter :: "uart_irq list \<Rightarrow> lock_state \<Rightarrow> lock_state option" where
  "lock_control_iter is s = do { s \<leftarrow> lock_step s; lock_irqs is s }"

section \<open>Accessors of the TCP side\<close>

definition get_lock_send_tcp_status :: "lock_state \<Rightarrow> u8" where
  "get_lock_send_tcp_status s = lock_send_tcp_flag s"


definition set_lock_tcp_rev_status :: "u8 \<Rightarrow> lock_state \<Rightarrow> lock_state" where
  "set_lock_tcp_rev_status flag s = s\<lparr>lock_rev_tcp_flag := flag\<rparr>"

definition get_lock_tcp_send_len :: "lock_state \<Rightarrow> u8" where
  "get_lock_tcp_send_len s = lock_send_tcp_len s"

definition get_lock_tcp_send_data :: "lock_state \<Rightarrow> u8 list" where
  "get_lock_tcp_send_data s = lock_send_tcp_buf s"

definition set_lock_tcp_send_data :: "u8 list \<Rightarrow> u8 \<Rightarrow> lock_state \<Rightarrow> lock_state option" where
  "set_lock_tcp_send_data buf len s =
     (if unat len \<le> length buf \<and> unat len \<le> length (lock_send_tcp_buf s)
      then Some (s\<lparr>lock_send_tcp_len := len, lock_send_tcp_buf := buf_write (lock_send_tcp_buf s) 0 (take (unat len) buf)\<rparr>)
      else None)"

definition get_lock_tcp_rev_len :: "lock_state \<Rightarrow> u8" where
  "get_lock_tcp_rev_len s = lock_rev_tcp_len s"

definition get_lock_tcp_rev_data :: "lock_state \<Rightarrow> u8 list" where
  "get_lock_tcp_rev_data s = lock_rev_tcp_buf s"

definition set_lock_tcp_rev_data :: "u8 list \<Rightarrow> u8 \<Rightarrow> lock_state \<Rightarrow> lock_state option" where
  "set_lock_tcp_rev_data buf len s =
     (if unat len \<le> length buf \<and> unat len \<le> length (lock_rev_tcp_buf s)
      then Some (s\<lparr>lock_rev_tcp_len := len, lock_rev_tcp_buf := buf_write (lock_rev_tcp_buf s) 0 (take (unat len) buf)\<rparr>)
      else None)"

section \<open>The receiver\<close>

lemma lock_cnt_step: "unat (c :: u8) < 128 \<Longrightarrow> unat (c + 1) = unat c + 1 \<and> \<not> c + 1 > 128"
  by (simp add: word_less_nat_alt unat_word_ariths)

text \<open>With the Ethernet link up the callbacks are a receiver of 128 bytes.\<close>

interpretation lock_rx: uart_receiver lock_irq "\<lambda>s. phy_check_flag (lock_device s) = PHY_LINK_ON"
  lock_rx_buf "\<lambda>s. unat (lock_rx_buf_len s)" 128
proof unfold_locales
  fix s :: lock_state and b
  assume "phy_check_flag (lock_device s) = PHY_LINK_ON" "length (lock_rx_buf s) = 128"
    and c: "unat (lock_rx_buf_len s) < 128"
  then show "\<exists>t. lock_irq (RxFull b) s = Some t \<and> phy_check_flag (lock_device t) = PHY_LINK_ON \<and>
      lock_rx_buf t = (lock_rx_buf s)[unat (lock_rx_buf_len s) := b] \<and>
      unat (lock_rx_buf_len t) = unat (lock_rx_buf_len s) + 1"
    using lock_cnt_step [OF c] by (simp add: USART2_RxFull_IrqCallback_def arr_put_Some)
qed (auto simp: USART2_RxFull_IrqCallback_def USART2_RxTimeout_IrqCallback_def arr_put_None)

definition lock_same :: "lock_state \<Rightarrow> lock_state \<Rightarrow> bool" where
  "lock_same s t \<longleftrightarrow> lock_send_tcp_buf t = lock_send_tcp_buf s \<and> lock_rev_tcp_buf t = lock_rev_tcp_buf s \<and>
     lock_rev_tcp_len t = lock_rev_tcp_len s \<and> lock_rev_tcp_flag t = lock_rev_tcp_flag s \<and>
     lock_device t = lock_device s \<and> lock_out t = lock_out s"

lemma lock_irq_same: "lock_irq i s = Some t \<Longrightarrow> lock_same s t"
  by (cases i) (auto simp: lock_same_def USART2_RxFull_IrqCallback_def USART2_RxTimeout_IrqCallback_def
    Let_def split: bind_splits if_splits)

lemma lock_irqs_same: "lock_irqs is s = Some t \<Longrightarrow> lock_same s t"
proof (induction "is" arbitrary: s)
  case (Cons i "is")
  then obtain u where "lock_irq i s = Some u" "lock_irqs is u = Some t" by (auto split: bind_splits)
  with lock_irq_same Cons.IH show ?case unfolding lock_same_def by metis
qed (simp add: lock_same_def)

lemma lock_irqs_answer_flag:
  "lock_irqs (is @ [RxTimeout]) s = Some t \<Longrightarrow> phy_check_flag (lock_device s) = PHY_LINK_ON \<Longrightarrow>
     lock_rx_frame_flag t = 1"
proof (induction "is" arbitrary: s)
  case (Cons i "is")
  then obtain u where u: "lock_irq i s = Some u" "lock_irqs (is @ [RxTimeout]) u = Some t" by (auto split: bind_splits)
  then have "phy_check_flag (lock_device u) = PHY_LINK_ON"
    using lock_irq_same Cons.prems(2) by (simp add: lock_same_def)
  then show ?case using Cons.IH u(2) by blast
qed (auto simp: USART2_RxTimeout_IrqCallback_def)

section \<open>The thread's step on an idle line\<close>

lemma lock_count_keeps [simp]:
  "lock_out (lock_count s) = lock_out s" "lock_device (lock_count s) = lock_device s"
  "lock_rx_frame_flag (lock_count s) = lock_rx_frame_flag s" "lock_rev_tcp_flag (lock_count s) = lock_rev_tcp_flag s"
  by (simp_all add: lock_count_def Let_def)

lemma lock_count_rev_flag: "lock_send_rev_flag s \<noteq> 1 \<Longrightarrow> lock_send_rev_flag (lock_count s) \<noteq> 1"
  by (simp add: lock_count_def Let_def)

lemma lock_give_answer_keeps [simp]:
  "lock_device (lock_give_answer s) = lock_device s" "lock_rx_frame_flag (lock_give_answer s) = lock_rx_frame_flag s"
  by (simp_all add: lock_give_answer_def)

lemma lock_step_idle:
  "phy_check_flag (lock_device s) = PHY_LINK_ON \<Longrightarrow> lock_rx_frame_flag s = 0 \<Longrightarrow>
     lock_step s = Some (lock_count (lock_give_answer s))"
  by (simp add: lock_step_def lock_take_frame_def)

text \<open>A frame from the lock that is taken.\<close>

lemma lock_take_frame_new:
  assumes "wf_lock s" and "lock_rx_frame_flag s = 1" and "lock_rx_buf_len s \<noteq> 0" and "unat (lock_rx_buf_len s) \<le> 128"
  shows "lock_take_frame s = Some (s\<lparr>lock_send_tcp_len := lock_rx_buf_len s,
      lock_send_tcp_buf := buf_write (lock_send_tcp_buf s) 0 (take (unat (lock_rx_buf_len s)) (lock_rx_buf s)),
      lock_rx_buf := buf_write (lock_rx_buf s) 0 (zeros (unat (lock_rx_buf_len s))),
      lock_send_tcp_flag := 1, lock_send_rev_flag := 1, lock_rx_buf_len := 0, lock_rx_frame_flag := 0\<rparr>)"
  using assms by (simp add: lock_take_frame_def wf_lock_def Let_def)

text \<open>Iterations of the thread with what the interrupts bring during each of them.\<close>

fun lock_iters :: "uart_irq list list \<Rightarrow> lock_state \<Rightarrow> lock_state option" where
  "lock_iters [] s = Some s"
| "lock_iters (is # iss) s = do { s \<leftarrow> lock_control_iter is s; lock_iters iss s }"

text \<open>Without an answer of the TCP side nothing is sent to the lock.\<close>

lemma lock_step_silent:
  "lock_step s = Some t \<Longrightarrow> lock_rev_tcp_flag s \<noteq> 1 \<Longrightarrow> lock_out t = lock_out s \<and> lock_rev_tcp_flag t = lock_rev_tcp_flag s"
  by (auto simp: lock_step_def lock_take_frame_def lock_give_answer_def Let_def split: if_splits bind_splits)

lemma lock_iters_silent:
  "lock_iters iss s = Some t \<Longrightarrow> lock_rev_tcp_flag s \<noteq> 1 \<Longrightarrow> lock_out t = lock_out s"
proof (induction iss arbitrary: s)
  case (Cons i iss)
  then obtain u v where u: "lock_step s = Some u" "lock_irqs i u = Some v" "lock_iters iss v = Some t"
    by (auto simp: lock_control_iter_def split: bind_splits)
  show ?case
    using lock_step_silent [OF u(1) Cons.prems(2)] lock_irqs_same [OF u(2)] Cons.IH [OF u(3)] Cons.prems(2)
    by (simp add: lock_same_def)
qed simp





section \<open>Properties\<close>

text \<open>C32: A frame of 1 to 128 bytes from the lock, received while the link is up and the receive
  buffer empty. If no answer of the TCP side is pending, the frame is what the TCP side reads after
  the next iteration: status 1, its length, and its bytes at the front of the buffer. If an answer
  is pending, that answer is sent to the lock and the frame is dropped: the status says that there
  is nothing to read. The receive buffer is empty again in both cases.\<close>

theorem lock_frame_relayed:
  assumes "wf_lock s" and "phy_check_flag (lock_device s) = PHY_LINK_ON" and "lock_rx_buf_len s = 0"
    and "bs \<noteq> []" and "length bs \<le> 128"
  shows "\<exists>t u. lock_irqs (answer bs) s = Some t \<and> lock_step t = Some u \<and> lock_rx_buf_len u = 0 \<and> lock_rx_frame_flag u = 0 \<and>
    (if lock_rev_tcp_flag s = 1
     then get_lock_send_tcp_status u = 0 \<and> lock_out u = lock_out s @ [take (unat (lock_rev_tcp_len s)) (lock_rev_tcp_buf s)]
     else get_lock_send_tcp_status u = 1 \<and> unat (get_lock_tcp_send_len u) = length bs \<and>
       take (length bs) (get_lock_tcp_send_data u) = bs \<and> lock_out u = lock_out s)"
proof -
  have len: "length (lock_rx_buf s) = 128" "unat (lock_rx_buf_len s) + length (rx_bytes (answer bs)) \<le> 128"
    using assms by (simp_all add: wf_lock_def)
  obtain t where t: "lock_irqs (answer bs) s = Some t" "lock_rx_buf t = buf_write (lock_rx_buf s) 0 bs"
      "unat (lock_rx_buf_len t) = length bs"
    using lock_rx.fill [OF assms(2) len] assms(3) by auto
  have same: "lock_same s t" by (rule lock_irqs_same [OF t(1)])
  have fr: "lock_rx_frame_flag t = 1"
    using lock_irqs_answer_flag [OF _ assms(2)] t(1) unfolding answer_def by blast
  have "lock_rx_buf_len t \<noteq> 0" using t(3) assms(4) by auto
  then have take: "lock_take_frame t = Some (t\<lparr>lock_send_tcp_len := lock_rx_buf_len t,
      lock_send_tcp_buf := buf_write (lock_send_tcp_buf t) 0 bs,
      lock_rx_buf := buf_write (lock_rx_buf t) 0 (zeros (length bs)),
      lock_send_tcp_flag := 1, lock_send_rev_flag := 1, lock_rx_buf_len := 0, lock_rx_frame_flag := 0\<rparr>)"
    using fr t(2,3) same assms(1,5) by (simp add: lock_take_frame_def wf_lock_def lock_same_def Let_def)
  have "lock_timeout_cnt t = 0"
    using t(1) assms(2) unfolding answer_def
  proof (induction bs arbitrary: s)
    case Nil
    then show ?case by (auto simp: USART2_RxTimeout_IrqCallback_def)
  next
    case (Cons b bs)
    then obtain v where v: "lock_irq (RxFull b) s = Some v" "lock_irqs (map RxFull bs @ [RxTimeout]) v = Some t"
      by (auto split: bind_splits)
    with Cons.IH lock_irq_same [OF v(1)] Cons.prems(2) show ?case by (simp add: lock_same_def)
  qed
  then show ?thesis
    using same assms(2) t(1,3)
    by (auto simp: lock_step_def take lock_give_answer_def lock_count_def lock_same_def Let_def
      get_lock_send_tcp_status_def get_lock_tcp_send_len_def get_lock_tcp_send_data_def word_le_nat_alt)
qed

theorem lock_frame_relayed_witness:
  "\<exists>t u. lock_irqs (answer [1, 2, 3]) (lock_state_init\<lparr>lock_device := device_data_init\<lparr>phy_check_flag := 1\<rparr>\<rparr>) = Some t \<and>
    lock_step t = Some u \<and> take 3 (get_lock_tcp_send_data u) = [1, 2, 3]"
proof -
  have "wf_lock (lock_state_init\<lparr>lock_device := device_data_init\<lparr>phy_check_flag := 1\<rparr>\<rparr>)"
    by (simp add: wf_lock_def lock_state_init_def)
  from lock_frame_relayed [OF this, of "[1, 2, 3]"] show ?thesis
    by (auto simp: lock_state_init_def PHY_LINK_ON_def numeral_3_eq_3)
qed

text \<open>C33: An answer of the TCP side while the link is up. If a frame of the lock is waiting for one, or
  is just complete, the answer is sent to the lock in the next iteration, and in whatever
  iterations follow, with whatever new frames of the lock, nothing more is sent until the TCP side gives
  another answer. Otherwise nothing is sent and the answer stays pending.\<close>

theorem lock_answer_once:
  assumes "wf_lock s" and "phy_check_flag (lock_device s) = PHY_LINK_ON" and "unat (lock_rx_buf_len s) \<le> 128"
    and "set_lock_tcp_rev_data buf n s = Some t"
  shows "\<exists>u. lock_step (set_lock_tcp_rev_status 1 t) = Some u \<and>
    (if lock_send_rev_flag s = 1 \<or> lock_rx_frame_flag s = 1 \<and> lock_rx_buf_len s \<noteq> 0
     then lock_out u = lock_out s @ [take (unat n) buf] \<and> (\<forall>iss v. lock_iters iss u = Some v \<longrightarrow> lock_out v = lock_out u)
     else lock_out u = lock_out s \<and> lock_rev_tcp_flag u = 1 \<and> take (unat (lock_rev_tcp_len u)) (lock_rev_tcp_buf u) = take (unat n) buf)"
proof -
  have n: "unat n \<le> length buf" "unat n \<le> 128" and
    t: "t = s\<lparr>lock_rev_tcp_len := n, lock_rev_tcp_buf := buf_write (lock_rev_tcp_buf s) 0 (take (unat n) buf)\<rparr>"
    using assms(1,4) by (auto simp: set_lock_tcp_rev_data_def wf_lock_def split: if_splits)
  let ?t = "set_lock_tcp_rev_status 1 t"
  let ?waits = "lock_send_rev_flag s = 1 \<or> lock_rx_frame_flag s = 1 \<and> lock_rx_buf_len s \<noteq> 0"
  have wf: "wf_lock ?t" and same: "lock_rx_frame_flag ?t = lock_rx_frame_flag s" "lock_rx_buf_len ?t = lock_rx_buf_len s"
      "lock_send_rev_flag ?t = lock_send_rev_flag s" "lock_rev_tcp_flag ?t = 1" "lock_rev_tcp_len ?t = n" "lock_out ?t = lock_out s"
      "take (unat n) (lock_rev_tcp_buf ?t) = take (unat n) buf"
    using assms(1) n by (simp_all add: t set_lock_tcp_rev_status_def wf_lock_def)
  have old: "lock_take_frame ?t = Some (if lock_rx_frame_flag s = 1 then ?t\<lparr>lock_rx_buf_len := 0, lock_rx_frame_flag := 0\<rparr> else ?t)"
    if "\<not> (lock_rx_frame_flag s = 1 \<and> lock_rx_buf_len s \<noteq> 0)"
    using that same(1,2) by (simp add: lock_take_frame_def)
  obtain w where w: "lock_take_frame ?t = Some w" "lock_send_rev_flag w = (if ?waits then 1 else lock_send_rev_flag s)"
      "lock_rev_tcp_flag w = 1" "lock_rev_tcp_len w = n" "take (unat n) (lock_rev_tcp_buf w) = take (unat n) buf" "lock_out w = lock_out s"
  proof (cases "lock_rx_frame_flag s = 1 \<and> lock_rx_buf_len s \<noteq> 0")
    case True
    then show thesis using same assms(3) by (intro that [OF lock_take_frame_new [OF wf]]) simp_all
  next
    case False
    then show thesis using old [OF False] same by (intro that [OF old [OF False]]) simp_all
  qed
  have step: "lock_step ?t = Some (lock_count (lock_give_answer w))"
    using assms(2) w(1) by (simp add: lock_step_def t set_lock_tcp_rev_status_def)
  show ?thesis
  proof (cases ?waits)
    case True
    have u: "lock_out (lock_count (lock_give_answer w)) = lock_out s @ [take (unat n) buf]"
        "lock_rev_tcp_flag (lock_count (lock_give_answer w)) \<noteq> 1"
      using True w by (simp_all add: lock_give_answer_def)
    show ?thesis using True step u lock_iters_silent [OF _ u(2)] by (intro exI [of _ "lock_count (lock_give_answer w)"]) auto
  next
    case False
    then have "lock_give_answer w = w" using w by (auto simp: lock_give_answer_def)
    moreover have "lock_rev_tcp_len (lock_count w) = lock_rev_tcp_len w" "lock_rev_tcp_buf (lock_count w) = lock_rev_tcp_buf w"
      by (simp_all add: lock_count_def Let_def)
    ultimately show ?thesis using False step w by auto
  qed
qed

theorem lock_answer_once_witness:
  "\<exists>t u. set_lock_tcp_rev_data [7, 8] 2 (lock_state_init\<lparr>lock_device := device_data_init\<lparr>phy_check_flag := 1\<rparr>,
      lock_send_rev_flag := 1\<rparr>) = Some t \<and>
    lock_step (set_lock_tcp_rev_status 1 t) = Some u \<and> lock_out u = [[7, 8]]"
proof -
  let ?s = "lock_state_init\<lparr>lock_device := device_data_init\<lparr>phy_check_flag := 1\<rparr>, lock_send_rev_flag := 1\<rparr>"
  have s: "wf_lock ?s" "phy_check_flag (lock_device ?s) = PHY_LINK_ON" "unat (lock_rx_buf_len ?s) \<le> 128"
      "lock_out ?s = []" "lock_send_rev_flag ?s = 1"
    by (simp_all add: wf_lock_def lock_state_init_def PHY_LINK_ON_def)
  obtain t where t: "set_lock_tcp_rev_data [7, 8] 2 ?s = Some t"
    by (simp add: set_lock_tcp_rev_data_def lock_state_init_def)
  from lock_answer_once [OF s(1-3) t] t show ?thesis unfolding s(4,5) by auto
qed



end
