(* ===== verification/Mqtt_Wire.thy ===== *)
theory Mqtt_Wire
  imports Gateway_Prelude
begin

text \<open>
  The wire primitives of the MQTT library (\<^verbatim>\<open>components/mqtt/MQTTPacket.c\<close>): header byte,
  variable length remaining length, 16-bit integers and strings. A read pointer is the rest of
  the buffer it points into, reading past the end of the buffer is \<^const>\<open>None\<close>; an end
  pointer is the distance \<open>enddata - curdata\<close>, which may become negative. What a writer puts
  behind its pointer is the list of the bytes written. Lengths written are non-negative;
  \<^verbatim>\<open>char\<close> is unsigned, as on the target (ARM).
\<close>

section \<open>Header byte\<close>

text \<open>\<^verbatim>\<open>enum msgTypes\<close> and \<^verbatim>\<open>enum errors\<close>\<close>

definition CONNECT :: u8 where "CONNECT = 1"
definition CONNACK :: u8 where "CONNACK = 2"
definition PUBLISH :: u8 where "PUBLISH = 3"
definition PUBACK :: u8 where "PUBACK = 4"
definition PUBREC :: u8 where "PUBREC = 5"
definition PUBREL :: u8 where "PUBREL = 6"
definition PUBCOMP :: u8 where "PUBCOMP = 7"
definition SUBSCRIBE :: u8 where "SUBSCRIBE = 8"
definition SUBACK :: u8 where "SUBACK = 9"
definition UNSUBSCRIBE :: u8 where "UNSUBSCRIBE = 10"
definition UNSUBACK :: u8 where "UNSUBACK = 11"
definition PINGREQ :: u8 where "PINGREQ = 12"
definition DISCONNECT :: u8 where "DISCONNECT = 14"

definition MQTTPACKET_BUFFER_TOO_SHORT :: int where "MQTTPACKET_BUFFER_TOO_SHORT = -2"
definition MQTTPACKET_READ_ERROR :: int where "MQTTPACKET_READ_ERROR = -1"

lemmas msg_types = CONNECT_def CONNACK_def PUBLISH_def PUBACK_def PUBREC_def PUBREL_def PUBCOMP_def
  SUBSCRIBE_def SUBACK_def UNSUBSCRIBE_def UNSUBACK_def PINGREQ_def DISCONNECT_def

text \<open>The bit fields of \<^verbatim>\<open>MQTTHeader\<close>; an assignment keeps the low bits of its value.\<close>

definition header_byte :: "u8 \<Rightarrow> u8 \<Rightarrow> u8 \<Rightarrow> u8 \<Rightarrow> u8" where
  "header_byte type dup qos retain =
     push_bit 4 (type AND 15) OR push_bit 3 (dup AND 1) OR push_bit 1 (qos AND 3) OR (retain AND 1)"

definition header_type :: "u8 \<Rightarrow> u8" where "header_type b = drop_bit 4 b"
definition header_dup :: "u8 \<Rightarrow> u8" where "header_dup b = drop_bit 3 b AND 1"
definition header_qos :: "u8 \<Rightarrow> u8" where "header_qos b = drop_bit 1 b AND 3"
definition header_retain :: "u8 \<Rightarrow> u8" where "header_retain b = b AND 1"

lemma mask_bits:
  "bit ((x :: u8) AND 15) n \<longleftrightarrow> n < 4 \<and> bit x n"
  "bit (x AND 1) n \<longleftrightarrow> n < 1 \<and> bit x n" "bit (x AND 3) n \<longleftrightarrow> n < 2 \<and> bit x n"
proof -
  have "x AND 15 = take_bit 4 x" "x AND 1 = take_bit 1 x" "x AND 3 = take_bit 2 x"
    by (simp_all add: take_bit_eq_mask mask_eq_exp_minus_1)
  then show "bit (x AND 15) n \<longleftrightarrow> n < 4 \<and> bit x n" "bit (x AND 1) n \<longleftrightarrow> n < 1 \<and> bit x n"
      "bit (x AND 3) n \<longleftrightarrow> n < 2 \<and> bit x n"
    by (auto simp: bit_simps bit_0)
qed

lemma bit_header:
  "bit (header_byte t d q r) n \<longleftrightarrow>
     (if n = 0 then bit r 0 else if n < 3 then bit q (n - 1) else if n = 3 then bit d 0
      else n < 8 \<and> bit t (n - 4))"
  unfolding header_byte_def bit_or_iff bit_push_bit_iff mask_bits possible_bit_word
  by (cases "n = 0"; cases "n = 1"; cases "n = 2"; cases "n = 3"; auto dest: bit_imp_le_length)

lemma header_byte_fields [simp]:
  "header_type (header_byte t d q r) = t AND 15" "header_dup (header_byte t d q r) = d AND 1"
  "header_qos (header_byte t d q r) = q AND 3" "header_retain (header_byte t d q r) = r AND 1"
  by (rule bit_eqI; auto simp: header_type_def header_dup_def header_qos_def header_retain_def
      bit_drop_bit_eq mask_bits bit_header less_Suc_eq numeral_eq_Suc)+

section \<open>Integers and characters\<close>

fun readChar :: "u8 list \<Rightarrow> (u8 \<times> u8 list) option" where
  "readChar [] = None"
| "readChar (c # r) = Some (c, r)"

fun readInt :: "u8 list \<Rightarrow> (nat \<times> u8 list) option" where
  "readInt (a # b # r) = Some (256 * unat a + unat b, r)"
| "readInt _ = None"

definition writeChar :: "u8 \<Rightarrow> u8 list" where
  "writeChar c = [c]"

definition writeInt :: "nat \<Rightarrow> u8 list" where
  "writeInt n = [of_nat (n div 256), of_nat (n mod 256)]"

section \<open>Remaining length\<close>

fun MQTTPacket_encode :: "nat \<Rightarrow> u8 list" where
  "MQTTPacket_encode n =
     (let d = of_nat (n mod 128); n = n div 128
      in if n > 0 then (d OR 0x80) # MQTTPacket_encode n else [d])"

declare MQTTPacket_encode.simps [simp del]

text \<open>
  \<open>getcharfn\<close> yields return code, character and the new state of the source. The result is
  \<^verbatim>\<open>len\<close>, \<^verbatim>\<open>*value\<close> and the state; a failed read and a fifth byte just end the loop.
\<close>

definition MAX_NO_OF_REMAINING_LENGTH_BYTES :: nat where "MAX_NO_OF_REMAINING_LENGTH_BYTES = 4"

function MQTTPacket_decode_loop ::
    "('s \<Rightarrow> (int \<times> u8 \<times> 's) option) \<Rightarrow> nat \<Rightarrow> nat \<Rightarrow> nat \<Rightarrow> 's \<Rightarrow> (nat \<times> nat \<times> 's) option" where
  "MQTTPacket_decode_loop getcharfn len multiplier value s =
     (let len = len + 1 in
      if len > MAX_NO_OF_REMAINING_LENGTH_BYTES then Some (len, value, s)
      else do {
        (rc, c, s) \<leftarrow> getcharfn s;
        if rc \<noteq> 1 then Some (len, value, s)
        else let value = value + unat (c AND 127) * multiplier in
             if c AND 128 \<noteq> 0 then MQTTPacket_decode_loop getcharfn len (multiplier * 128) value s
             else Some (len, value, s)
      })"
  by pat_completeness auto
termination
  by (relation "measure (\<lambda>(g, len, m, v, s). 4 - len)") (auto simp: MAX_NO_OF_REMAINING_LENGTH_BYTES_def)

declare MQTTPacket_decode_loop.simps [simp del]

definition MQTTPacket_decode :: "('s \<Rightarrow> (int \<times> u8 \<times> 's) option) \<Rightarrow> 's \<Rightarrow> (nat \<times> nat \<times> 's) option" where
  "MQTTPacket_decode getcharfn s = MQTTPacket_decode_loop getcharfn 0 1 0 s"

text \<open>\<^verbatim>\<open>bufchar\<close> with a count of one, the only one it is called with.\<close>

fun bufchar :: "u8 list \<Rightarrow> (int \<times> u8 \<times> u8 list) option" where
  "bufchar [] = None"
| "bufchar (c # r) = Some (1, c, r)"

definition MQTTPacket_decodeBuf :: "u8 list \<Rightarrow> (nat \<times> nat \<times> u8 list) option" where
  "MQTTPacket_decodeBuf buf = MQTTPacket_decode bufchar buf"

definition MQTTPacket_len :: "nat \<Rightarrow> nat" where
  "MQTTPacket_len rem_len =
     (let rem_len = rem_len + 1 in
      if rem_len < 128 then rem_len + 1
      else if rem_len < 16384 then rem_len + 2
      else if rem_len < 2097151 then rem_len + 3
      else rem_len + 4)"

section \<open>Strings\<close>

text \<open>
  \<^verbatim>\<open>MQTTString\<close>: a C string (its characters up to the terminating NUL, \<^const>\<open>None\<close> for
  NULL) and a length string.
\<close>

record MQTTString =
  cstring :: "u8 list option"
  ls_len :: nat
  ls_data :: "u8 list option"

definition MQTTString_initializer :: MQTTString where
  "MQTTString_initializer = \<lparr>cstring = None, ls_len = 0, ls_data = None\<rparr>"

definition writeCString :: "u8 list \<Rightarrow> u8 list" where
  "writeCString string = writeInt (length string) @ string"

text \<open>A length string that is longer than its data is read outside its buffer.\<close>

definition writeMQTTString :: "MQTTString \<Rightarrow> u8 list option" where
  "writeMQTTString s =
     (if ls_len s > 0 then
        (case ls_data s of
           Some d \<Rightarrow> if ls_len s \<le> length d then Some (writeInt (ls_len s) @ take (ls_len s) d) else None
         | None \<Rightarrow> None)
      else case cstring s of Some c \<Rightarrow> Some (writeCString c) | None \<Rightarrow> Some (writeInt 0))"

definition MQTTstrlen :: "MQTTString \<Rightarrow> nat" where
  "MQTTstrlen s = (case cstring s of Some c \<Rightarrow> length c | None \<Rightarrow> ls_len s)"

text \<open>
  Return code, string, pointer and distance to the end. The string only refers to the
  buffer; its data are what the buffer holds there.
\<close>

definition readMQTTLenString :: "MQTTString \<Rightarrow> u8 list \<Rightarrow> int \<Rightarrow> (bool \<times> MQTTString \<times> u8 list \<times> int) option" where
  "readMQTTLenString s cur n =
     (if n > 1 then
        do {
          (len, cur) \<leftarrow> readInt cur;
          let n = n - 2;
          let s = s\<lparr>ls_len := len, cstring := None\<rparr>;
          Some (if int len \<le> n
                then (True, s\<lparr>ls_data := Some (take len cur)\<rparr>, drop len cur, n - int len)
                else (False, s, cur, n))
        }
      else Some (False, s\<lparr>cstring := None\<rparr>, cur, n))"

definition MQTTPacket_equals :: "MQTTString \<Rightarrow> u8 list \<Rightarrow> bool" where
  "MQTTPacket_equals a b =
     (case cstring a of
        Some c \<Rightarrow> c = b
      | None \<Rightarrow> ls_len a = length b \<and> take (ls_len a) (the (ls_data a)) = b)"

section \<open>Encodings that can be read back\<close>

text \<open>
  The interface of a self-delimiting encoding: reading what was written gives the value and
  leaves what follows. Then encodings are prefix-free and sequences of values can be read back.
\<close>

locale wire_format =
  fixes put :: "'a \<Rightarrow> u8 list" and get :: "u8 list \<Rightarrow> ('a \<times> u8 list) option" and ok :: "'a \<Rightarrow> bool"
  assumes get_put: "ok x \<Longrightarrow> get (put x @ rest) = Some (x, rest)"
begin

lemma put_prefix_free: "ok x \<Longrightarrow> ok y \<Longrightarrow> put x @ r = put y @ r' \<longleftrightarrow> x = y \<and> r = r'"
  by (metis get_put option.inject prod.inject)

fun get_list :: "nat \<Rightarrow> u8 list \<Rightarrow> ('a list \<times> u8 list) option" where
  "get_list 0 b = Some ([], b)"
| "get_list (Suc n) b = do { (x, b) \<leftarrow> get b; (xs, b) \<leftarrow> get_list n b; Some (x # xs, b) }"

lemma get_list_put: "list_all ok xs \<Longrightarrow> get_list (length xs) (concat (map put xs) @ rest) = Some (xs, rest)"
  by (induction xs) (simp_all add: get_put)

lemma concat_put_inject:
  "list_all ok xs \<Longrightarrow> list_all ok ys \<Longrightarrow> length xs = length ys \<Longrightarrow>
     concat (map put xs) = concat (map put ys) \<Longrightarrow> xs = ys"
  using get_list_put [of xs "[]"] get_list_put [of ys "[]"] by simp

end

lemma readInt_writeInt: "n < 65536 \<Longrightarrow> readInt (writeInt n @ r) = Some (n, r)"
  by (simp add: writeInt_def unat_of_nat_u8 less_mult_imp_div_less)

interpretation int16: wire_format writeInt readInt "\<lambda>n. n < 65536"
  by unfold_locales (rule readInt_writeInt)

text \<open>The remaining length.\<close>

lemma bit_128: "bit (128 :: u8) k \<longleftrightarrow> k = 7"
proof -
  have "(128 :: u8) = push_bit 7 1" by simp
  then have "bit (128 :: u8) k \<longleftrightarrow> bit (push_bit 7 1 :: u8) k" by (simp only:)
  then show ?thesis unfolding bit_push_bit_iff bit_1_iff possible_bit_word by auto
qed

lemma and_127: "(x :: u8) AND 127 = take_bit 7 x"
  by (simp add: take_bit_eq_mask mask_eq_exp_minus_1)

lemma small_take_bit: "n < 128 \<Longrightarrow> take_bit 7 (of_nat n :: u8) = of_nat n"
  by (simp add: take_bit_of_nat take_bit_nat_eq_self)

lemma small_bit: "n < 128 \<Longrightarrow> bit (of_nat n :: u8) k \<Longrightarrow> k < 7"
  by (metis bit_take_bit_iff small_take_bit)

lemma small_bit_nat: "(n :: nat) < 128 \<Longrightarrow> bit n k \<Longrightarrow> k < 7"
  using take_bit_nat_eq_self [of n 7] bit_take_bit_iff [of 7 n k] by simp

lemma encode_digit:
  assumes "n < 128"
  shows "unat ((of_nat n OR 0x80 :: u8) AND 127) = n" and "(of_nat n OR 0x80 :: u8) AND 128 \<noteq> 0"
    and "unat ((of_nat n :: u8) AND 127) = n" and "(of_nat n :: u8) AND 128 = 0"
proof -
  have "(of_nat n OR 0x80 :: u8) AND 127 = of_nat n"
    unfolding and_127 by (rule bit_eqI) (auto simp: bit_simps bit_128 dest: small_bit_nat [OF assms])
  then show "unat ((of_nat n OR 0x80 :: u8) AND 127) = n" using assms by (simp add: unat_of_nat_u8)
  have "bit ((of_nat n OR 0x80 :: u8) AND 128) 7" by (simp add: bit_and_iff bit_or_iff bit_128)
  then show "(of_nat n OR 0x80 :: u8) AND 128 \<noteq> 0" by auto
  show "unat ((of_nat n :: u8) AND 127) = n"
    unfolding and_127 small_take_bit [OF assms] using assms by (simp add: unat_of_nat_u8)
  show "(of_nat n :: u8) AND 128 = 0"
    by (rule bit_eqI) (use small_bit [OF assms] in \<open>auto simp only: bit_and_iff bit_128 bit_0_eq bot_apply bot_bool_def\<close>)
qed

text \<open>
  Decoding from position \<open>k\<close> reads what was encoded as long as four digits are enough.
\<close>

lemma decode_loop_encode:
  "n < 128 ^ (4 - k) \<Longrightarrow> k < 4 \<Longrightarrow>
     MQTTPacket_decode_loop bufchar k m v (MQTTPacket_encode n @ rest) =
       Some (k + length (MQTTPacket_encode n), v + n * m, rest)"
proof (induction n arbitrary: k m v rule: MQTTPacket_encode.induct)
  case (1 n)
  have d: "n mod 128 < 128" by simp
  show ?case
  proof (cases "n div 128 > 0")
    case False
    then have "n < 128" by (simp add: div_eq_0_iff)
    then show ?thesis
      using "1.prems"(2) encode_digit [of n]
      by (subst MQTTPacket_encode.simps, subst MQTTPacket_encode.simps, subst MQTTPacket_decode_loop.simps)
        (simp add: MAX_NO_OF_REMAINING_LENGTH_BYTES_def Let_def)
  next
    case True
    have k: "k + 1 < 4"
    proof (rule ccontr)
      assume "\<not> k + 1 < 4"
      then have "4 - k = 1" using "1.prems"(2) by simp
      then show False using "1.prems"(1) True by simp
    qed
    have "4 - k = Suc (4 - (k + 1))" using k by simp
    then have "n div 128 < 128 ^ (4 - (k + 1))"
      using "1.prems"(1) by (simp only: power_Suc less_mult_imp_div_less mult.commute)
    note IH = "1.IH" [OF refl refl True this k, of "m * 128" "v + n mod 128 * m"]
    have "n mod 128 * m + n div 128 * (m * 128) = (n div 128 * 128 + n mod 128) * m"
      using distrib_right [of "n div 128 * 128" "n mod 128" m] by (simp only: ac_simps)
    then have sum: "v + n mod 128 * m + n div 128 * (m * 128) = v + n * m" by simp
    show ?thesis
      using IH k True encode_digit [OF d] unfolding sum
      by (subst MQTTPacket_encode.simps, subst MQTTPacket_encode.simps, subst MQTTPacket_decode_loop.simps)
        (simp add: MAX_NO_OF_REMAINING_LENGTH_BYTES_def Let_def)
  qed
qed

lemma decodeBuf_encode:
  "n < 268435456 \<Longrightarrow> MQTTPacket_decodeBuf (MQTTPacket_encode n @ rest) = Some (length (MQTTPacket_encode n), n, rest)"
  using decode_loop_encode [of n 0 1 0 rest] by (simp add: MQTTPacket_decodeBuf_def MQTTPacket_decode_def)

interpretation remlen: wire_format MQTTPacket_encode
  "\<lambda>b. map_option (\<lambda>(k, n, r). (n, r)) (MQTTPacket_decodeBuf b)" "\<lambda>n. n < 268435456"
  by unfold_locales (simp add: decodeBuf_encode)

lemma length_encode:
  "length (MQTTPacket_encode n) =
     (if n < 128 then 1 else if n < 16384 then 2 else if n < 2097152 then 3 else if n < 268435456 then 4
      else 4 + length (MQTTPacket_encode (n div 128 div 128 div 128 div 128)))"
proof -
  have one: "length (MQTTPacket_encode n) = (if n < 128 then 1 else Suc (length (MQTTPacket_encode (n div 128))))" for n
    by (subst MQTTPacket_encode.simps) (simp add: Let_def div_greater_zero_iff not_less)
  show ?thesis
    by (simp add: one [of n] one [of "n div 128"] one [of "n div 128 div 128"] one [of "n div 128 div 128 div 128"]
      less_mult_imp_div_less div_less_iff_less_mult)
qed

end
