(* ===== verification/Mqtt_Messages.thy ===== *)
theory Mqtt_Messages
  imports Mqtt_Wire
begin

text \<open>
  The messages of the MQTT library: serializers and deserializers of
  \<^verbatim>\<open>components/mqtt/MQTT{Connect,Subscribe,Unsubscribe}{Client,Server}.c\<close>,
  \<^verbatim>\<open>MQTTSerializePublish.c\<close>, \<^verbatim>\<open>MQTTDeserializePublish.c\<close>, and the readers of
  \<^verbatim>\<open>MQTTPacket.c\<close>. A serializer yields the return code and the bytes it leaves at the front of
  the caller's buffer; \<^const>\<open>None\<close> is a write outside that buffer or a read outside an
  argument. A deserializer gets the caller's output variables in a record and yields the
  return code and the record; \<^const>\<open>None\<close> is a read outside the received buffer or a write
  outside a caller's array.
\<close>

definition emit :: "nat \<Rightarrow> u8 list \<Rightarrow> (int \<times> u8 list) option" where
  "emit buflen bytes = (if length bytes \<le> buflen then Some (int (length bytes), bytes) else None)"

text \<open>A string that was read takes at least its two length bytes.\<close>

lemma readMQTTLenString_left:
  "readMQTTLenString s cur n = Some (True, t, cur', n') \<Longrightarrow> 1 < n \<and> n' \<le> n - 2"
  by (auto simp: readMQTTLenString_def Let_def split: if_splits bind_splits)

section \<open>Publish\<close>

definition MQTTSerialize_publishLength :: "int \<Rightarrow> MQTTString \<Rightarrow> nat \<Rightarrow> nat" where
  "MQTTSerialize_publishLength qos topicName payloadlen =
     2 + MQTTstrlen topicName + payloadlen + (if qos > 0 then 2 else 0)"

definition MQTTSerialize_publish ::
    "nat \<Rightarrow> u8 \<Rightarrow> int \<Rightarrow> u8 \<Rightarrow> u16 \<Rightarrow> MQTTString \<Rightarrow> u8 list \<Rightarrow> nat \<Rightarrow> (int \<times> u8 list) option" where
  "MQTTSerialize_publish buflen dup qos retained packetid topicName payload payloadlen =
     (let rem_len = MQTTSerialize_publishLength qos topicName payloadlen in
      if MQTTPacket_len rem_len > buflen then Some (MQTTPACKET_BUFFER_TOO_SHORT, [])
      else do {
        t \<leftarrow> writeMQTTString topicName;
        if payloadlen \<le> length payload then
          emit buflen (writeChar (header_byte PUBLISH dup (of_int qos) retained) @ MQTTPacket_encode rem_len @
            t @ (if qos > 0 then writeInt (unat packetid) else []) @ take payloadlen payload)
        else None
      })"

record publish_out =
  po_dup :: u8
  po_qos :: int
  po_retained :: u8
  po_packetid :: u16
  po_topic :: MQTTString
  po_payload :: "u8 list" \<comment> \<open>the pointer: the buffer from the payload on\<close>
  po_payloadlen :: int

definition MQTTDeserialize_publish :: "publish_out \<Rightarrow> u8 list \<Rightarrow> (int \<times> publish_out) option" where
  "MQTTDeserialize_publish out buf =
     do {
       (h, cur) \<leftarrow> readChar buf;
       if header_type h \<noteq> PUBLISH then Some (0, out)
       else do {
         let out = out\<lparr>po_dup := header_dup h, po_qos := uint (header_qos h), po_retained := header_retain h\<rparr>;
         (rc, mylen, _) \<leftarrow> MQTTPacket_decodeBuf cur;
         let cur = drop rc cur;
         (ok, topic, cur, left) \<leftarrow> readMQTTLenString (po_topic out) cur (int mylen);
         let out = out\<lparr>po_topic := topic\<rparr>;
         if \<not> ok \<or> left < 0 then Some (int rc, out)
         else do {
           (out, cur, left) \<leftarrow>
             (if po_qos out > 0 then
                do { (i, cur) \<leftarrow> readInt cur; Some (out\<lparr>po_packetid := of_nat i\<rparr>, cur, left - 2) }
              else Some (out, cur, left));
           Some (1, out\<lparr>po_payloadlen := left, po_payload := cur\<rparr>)
         }
       }
     }"

section \<open>Acknowledgements\<close>

definition MQTTSerialize_ack :: "nat \<Rightarrow> u8 \<Rightarrow> u8 \<Rightarrow> u16 \<Rightarrow> (int \<times> u8 list) option" where
  "MQTTSerialize_ack buflen packettype dup packetid =
     (if buflen < 4 then Some (MQTTPACKET_BUFFER_TOO_SHORT, [])
      else emit buflen (writeChar (header_byte packettype dup (if packettype = PUBREL then 1 else 0) 0) @
        MQTTPacket_encode 2 @ writeInt (unat packetid)))"

definition MQTTSerialize_puback :: "nat \<Rightarrow> u16 \<Rightarrow> (int \<times> u8 list) option" where
  "MQTTSerialize_puback buflen packetid = MQTTSerialize_ack buflen PUBACK 0 packetid"

definition MQTTSerialize_pubrel :: "nat \<Rightarrow> u8 \<Rightarrow> u16 \<Rightarrow> (int \<times> u8 list) option" where
  "MQTTSerialize_pubrel buflen dup packetid = MQTTSerialize_ack buflen PUBREL dup packetid"

definition MQTTSerialize_pubcomp :: "nat \<Rightarrow> u16 \<Rightarrow> (int \<times> u8 list) option" where
  "MQTTSerialize_pubcomp buflen packetid = MQTTSerialize_ack buflen PUBCOMP 0 packetid"

record ack_out =
  ao_packettype :: u8
  ao_dup :: u8
  ao_packetid :: u16

definition MQTTDeserialize_ack :: "ack_out \<Rightarrow> u8 list \<Rightarrow> (int \<times> ack_out) option" where
  "MQTTDeserialize_ack out buf =
     do {
       (h, cur) \<leftarrow> readChar buf;
       let out = out\<lparr>ao_dup := header_dup h, ao_packettype := header_type h\<rparr>;
       (rc, mylen, _) \<leftarrow> MQTTPacket_decodeBuf cur;
       let cur = drop rc cur;
       if mylen < 2 then Some (int rc, out)
       else do { (i, cur) \<leftarrow> readInt cur; Some (1, out\<lparr>ao_packetid := of_nat i\<rparr>) }
     }"

section \<open>Connect\<close>

text \<open>The bit fields of \<^verbatim>\<open>MQTTConnectFlags\<close>.\<close>

definition connect_flags :: "u8 \<Rightarrow> u8 \<Rightarrow> u8 \<Rightarrow> u8 \<Rightarrow> u8 \<Rightarrow> u8 \<Rightarrow> u8" where
  "connect_flags cleansession will willQoS willRetain password username =
     push_bit 1 (cleansession AND 1) OR push_bit 2 (will AND 1) OR push_bit 3 (willQoS AND 3) OR
     push_bit 5 (willRetain AND 1) OR push_bit 6 (password AND 1) OR push_bit 7 (username AND 1)"

definition flag_cleansession :: "u8 \<Rightarrow> u8" where "flag_cleansession b = drop_bit 1 b AND 1"
definition flag_will :: "u8 \<Rightarrow> u8" where "flag_will b = drop_bit 2 b AND 1"
definition flag_willQoS :: "u8 \<Rightarrow> u8" where "flag_willQoS b = drop_bit 3 b AND 3"
definition flag_willRetain :: "u8 \<Rightarrow> u8" where "flag_willRetain b = drop_bit 5 b AND 1"
definition flag_password :: "u8 \<Rightarrow> u8" where "flag_password b = drop_bit 6 b AND 1"
definition flag_username :: "u8 \<Rightarrow> u8" where "flag_username b = drop_bit 7 b AND 1"

record MQTTPacket_connectData =
  MQTTVersion :: u8
  clientID :: MQTTString
  keepAliveInterval :: u16
  cleansession :: u8
  willFlag :: u8
  will_topicName :: MQTTString
  will_message :: MQTTString
  will_retained :: u8
  will_qos :: u8
  username :: MQTTString
  password :: MQTTString

definition MQTTString_present :: "MQTTString \<Rightarrow> bool" where
  "MQTTString_present s \<longleftrightarrow> cstring s \<noteq> None \<or> ls_data s \<noteq> None"

definition MQTTSerialize_connectLength :: "MQTTPacket_connectData \<Rightarrow> nat" where
  "MQTTSerialize_connectLength d =
     (if MQTTVersion d = 3 then 12 else if MQTTVersion d = 4 then 10 else 0) +
     MQTTstrlen (clientID d) + 2 +
     (if willFlag d \<noteq> 0 then MQTTstrlen (will_topicName d) + 2 + MQTTstrlen (will_message d) + 2 else 0) +
     (if MQTTString_present (username d) then MQTTstrlen (username d) + 2 else 0) +
     (if MQTTString_present (password d) then MQTTstrlen (password d) + 2 else 0)"

text \<open>\<^verbatim>\<open>"MQTT"\<close> and \<^verbatim>\<open>"MQIsdp"\<close>\<close>

definition MQTT_name :: "u8 list" where "MQTT_name = [0x4d, 0x51, 0x54, 0x54]"
definition MQIsdp_name :: "u8 list" where "MQIsdp_name = [0x4d, 0x51, 0x49, 0x73, 0x64, 0x70]"

definition MQTTSerialize_connect :: "nat \<Rightarrow> MQTTPacket_connectData \<Rightarrow> (int \<times> u8 list) option" where
  "MQTTSerialize_connect buflen d =
     (let len = MQTTSerialize_connectLength d in
      if MQTTPacket_len len > buflen then Some (MQTTPACKET_BUFFER_TOO_SHORT, [])
      else do {
        let proto = (if MQTTVersion d = 4 then writeCString MQTT_name @ writeChar 4
                     else writeCString MQIsdp_name @ writeChar 3);
        let will = (if willFlag d \<noteq> 0 then 1 else 0);
        let flags = connect_flags (cleansession d) will (if will = 1 then will_qos d else 0)
                      (if will = 1 then will_retained d else 0)
                      (if MQTTString_present (password d) then 1 else 0)
                      (if MQTTString_present (username d) then 1 else 0);
        cid \<leftarrow> writeMQTTString (clientID d);
        w \<leftarrow> (if willFlag d \<noteq> 0 then
                do { t \<leftarrow> writeMQTTString (will_topicName d); m \<leftarrow> writeMQTTString (will_message d); Some (t @ m) }
              else Some []);
        u \<leftarrow> (if MQTTString_present (username d) then writeMQTTString (username d) else Some []);
        p \<leftarrow> (if MQTTString_present (password d) then writeMQTTString (password d) else Some []);
        emit buflen (writeChar (header_byte CONNECT 0 0 0) @ MQTTPacket_encode len @ proto @
          writeChar flags @ writeInt (unat (keepAliveInterval d)) @ cid @ w @ u @ p)
      })"

record connack_out =
  co_sessionPresent :: u8
  co_connack_rc :: u8

definition MQTTDeserialize_connack :: "connack_out \<Rightarrow> u8 list \<Rightarrow> (int \<times> connack_out) option" where
  "MQTTDeserialize_connack out buf =
     do {
       (h, cur) \<leftarrow> readChar buf;
       if header_type h \<noteq> CONNACK then Some (0, out)
       else do {
         (rc, mylen, _) \<leftarrow> MQTTPacket_decodeBuf cur;
         let cur = drop rc cur;
         if mylen < 2 then Some (int rc, out)
         else do {
           (flags, cur) \<leftarrow> readChar cur;
           (code, cur) \<leftarrow> readChar cur;
           Some (1, out\<lparr>co_sessionPresent := flags AND 1, co_connack_rc := code\<rparr>)
         }
       }
     }"

definition MQTTSerialize_zero :: "nat \<Rightarrow> u8 \<Rightarrow> (int \<times> u8 list) option" where
  "MQTTSerialize_zero buflen packettype =
     (if buflen < 2 then Some (MQTTPACKET_BUFFER_TOO_SHORT, [])
      else emit buflen (writeChar (header_byte packettype 0 0 0) @ MQTTPacket_encode 0))"

definition MQTTSerialize_disconnect :: "nat \<Rightarrow> (int \<times> u8 list) option" where
  "MQTTSerialize_disconnect buflen = MQTTSerialize_zero buflen DISCONNECT"

definition MQTTSerialize_pingreq :: "nat \<Rightarrow> (int \<times> u8 list) option" where
  "MQTTSerialize_pingreq buflen = MQTTSerialize_zero buflen PINGREQ"

text \<open>Server side. \<^verbatim>\<open>memcmp\<close> over the shorter of name and string.\<close>

definition MQTTPacket_checkVersion :: "MQTTString \<Rightarrow> u8 \<Rightarrow> bool" where
  "MQTTPacket_checkVersion protocol version \<longleftrightarrow>
     (let n = ls_len protocol; d = the (ls_data protocol) in
      version = 3 \<and> take (min 6 n) d = take (min 6 n) MQIsdp_name \<or>
      version = 4 \<and> take (min 4 n) d = take (min 4 n) MQTT_name)"

text \<open>The part after the protocol version; the boolean is success.\<close>

definition connect_will :: "MQTTPacket_connectData \<Rightarrow> u8 \<Rightarrow> u8 list \<Rightarrow> int \<Rightarrow>
    (bool \<times> MQTTPacket_connectData \<times> u8 list \<times> int) option" where
  "connect_will data flags cur left =
     (let data = data\<lparr>willFlag := flag_will flags\<rparr> in
      if flag_will flags = 1 then
        do {
          let data = data\<lparr>will_qos := flag_willQoS flags, will_retained := flag_willRetain flags\<rparr>;
          (ok, t, cur, left) \<leftarrow> readMQTTLenString (will_topicName data) cur left;
          let data = data\<lparr>will_topicName := t\<rparr>;
          if \<not> ok then Some (False, data, cur, left)
          else do {
            (ok, m, cur, left) \<leftarrow> readMQTTLenString (will_message data) cur left;
            Some (ok, data\<lparr>will_message := m\<rparr>, cur, left)
          }
        }
      else Some (True, data, cur, left))"

definition connect_user :: "MQTTPacket_connectData \<Rightarrow> u8 \<Rightarrow> u8 list \<Rightarrow> int \<Rightarrow>
    (bool \<times> MQTTPacket_connectData) option" where
  "connect_user data flags cur left =
     (if flag_username flags = 1 then
        if left < 3 then Some (False, data)
        else do {
          (ok, u, cur, left) \<leftarrow> readMQTTLenString (username data) cur left;
          let data = data\<lparr>username := u\<rparr>;
          if \<not> ok then Some (False, data)
          else if flag_password flags = 1 then
            if left < 3 then Some (False, data)
            else do {
              (ok, p, cur, left) \<leftarrow> readMQTTLenString (password data) cur left;
              Some (ok, data\<lparr>password := p\<rparr>)
            }
          else Some (True, data)
        }
      else Some (flag_password flags \<noteq> 1, data))"

definition MQTTDeserialize_connect ::
    "MQTTPacket_connectData \<Rightarrow> u8 list \<Rightarrow> nat \<Rightarrow> (int \<times> MQTTPacket_connectData) option" where
  "MQTTDeserialize_connect data buf len =
     do {
       (h, cur) \<leftarrow> readChar buf;
       if header_type h \<noteq> CONNECT then Some (0, data)
       else do {
         (rc, mylen, _) \<leftarrow> MQTTPacket_decodeBuf cur;
         let cur = drop rc cur;
         (ok, Protocol, cur, left) \<leftarrow> readMQTTLenString MQTTString_initializer cur (int len - 1 - int rc);
         if \<not> ok \<or> left < 0 then Some (0, data)
         else do {
           (version, cur) \<leftarrow> readChar cur;
           if MQTTPacket_checkVersion Protocol version then
             do {
               (flags, cur) \<leftarrow> readChar cur;
               (ka, cur) \<leftarrow> readInt cur;
               let data = data\<lparr>cleansession := flag_cleansession flags, keepAliveInterval := of_nat ka\<rparr>;
               (ok, cid, cur, left) \<leftarrow> readMQTTLenString (clientID data) cur (left - 4);
               let data = data\<lparr>clientID := cid\<rparr>;
               if \<not> ok then Some (0, data)
               else do {
                 (ok, data, cur, left) \<leftarrow> connect_will data flags cur left;
                 if \<not> ok then Some (0, data)
                 else do {
                   (ok, data) \<leftarrow> connect_user data flags cur left;
                   Some (if ok then 1 else 0, data)
                 }
               }
             }
           else Some (0, data)
         }
       }
     }"

definition MQTTSerialize_connack :: "nat \<Rightarrow> u8 \<Rightarrow> u8 \<Rightarrow> (int \<times> u8 list) option" where
  "MQTTSerialize_connack buflen connack_rc sessionPresent =
     (if buflen < 2 then Some (MQTTPACKET_BUFFER_TOO_SHORT, [])
      else emit buflen (writeChar (header_byte CONNACK 0 0 0) @ MQTTPacket_encode 2 @
        writeChar (sessionPresent AND 1) @ writeChar connack_rc))"

section \<open>Subscribe\<close>

definition MQTTSerialize_subscribeLength :: "MQTTString list \<Rightarrow> nat" where
  "MQTTSerialize_subscribeLength topicFilters = 2 + (\<Sum>t \<leftarrow> topicFilters. 2 + MQTTstrlen t + 1)"

text \<open>Topics and requested QoS, of which the wire gets the low byte.\<close>

fun write_topics :: "(MQTTString \<times> int) list \<Rightarrow> u8 list option" where
  "write_topics [] = Some []"
| "write_topics ((t, q) # ts) =
     do { b \<leftarrow> writeMQTTString t; bs \<leftarrow> write_topics ts; Some (b @ writeChar (of_int q) @ bs) }"

definition MQTTSerialize_subscribe ::
    "nat \<Rightarrow> u8 \<Rightarrow> u16 \<Rightarrow> (MQTTString \<times> int) list \<Rightarrow> (int \<times> u8 list) option" where
  "MQTTSerialize_subscribe buflen dup packetid topics =
     (let rem_len = MQTTSerialize_subscribeLength (map fst topics) in
      if MQTTPacket_len rem_len > buflen then Some (MQTTPACKET_BUFFER_TOO_SHORT, [])
      else do {
        ts \<leftarrow> write_topics topics;
        emit buflen (writeChar (header_byte SUBSCRIBE dup 1 0) @ MQTTPacket_encode rem_len @
          writeInt (unat packetid) @ ts)
      })"

record suback_out =
  so_packetid :: u16
  so_count :: nat
  so_grantedQoSs :: "int list" \<comment> \<open>the caller's array\<close>

function suback_loop :: "nat \<Rightarrow> suback_out \<Rightarrow> u8 list \<Rightarrow> int \<Rightarrow> (int \<times> suback_out) option" where
  "suback_loop maxcount out cur left =
     (if left > 0 then
        if so_count out > maxcount then Some (-1, out)
        else do {
          (c, cur) \<leftarrow> readChar cur;
          g \<leftarrow> arr_put (so_grantedQoSs out) (so_count out) (uint c);
          suback_loop maxcount (out\<lparr>so_grantedQoSs := g, so_count := so_count out + 1\<rparr>) cur (left - 1)
        }
      else Some (1, out))"
  by pat_completeness auto
termination by (relation "measure (\<lambda>(m, out, cur, left). nat left)") auto

declare suback_loop.simps [simp del]

definition MQTTDeserialize_suback :: "suback_out \<Rightarrow> nat \<Rightarrow> u8 list \<Rightarrow> (int \<times> suback_out) option" where
  "MQTTDeserialize_suback out maxcount buf =
     do {
       (h, cur) \<leftarrow> readChar buf;
       if header_type h \<noteq> SUBACK then Some (0, out)
       else do {
         (rc, mylen, _) \<leftarrow> MQTTPacket_decodeBuf cur;
         let cur = drop rc cur;
         if mylen < 2 then Some (int rc, out)
         else do {
           (i, cur) \<leftarrow> readInt cur;
           suback_loop maxcount (out\<lparr>so_packetid := of_nat i, so_count := 0\<rparr>) cur (int mylen - 2)
         }
       }
     }"

record subscribe_out =
  uo_dup :: u8
  uo_packetid :: u16
  uo_count :: nat
  uo_topicFilters :: "MQTTString list"
  uo_requestedQoSs :: "int list"

function subscribe_loop :: "int \<Rightarrow> subscribe_out \<Rightarrow> u8 list \<Rightarrow> int \<Rightarrow> (int \<times> subscribe_out) option" where
  "subscribe_loop rc out cur left =
     (if left > 0 then
        if uo_count out < length (uo_topicFilters out) then
          do {
            (ok, t, cur, left') \<leftarrow> readMQTTLenString (uo_topicFilters out ! uo_count out) cur left;
            let out = out\<lparr>uo_topicFilters := (uo_topicFilters out)[uo_count out := t]\<rparr>;
            if \<not> ok then Some (rc, out)
            else if left' \<le> 0 then Some (rc, out)
            else do {
              (q, cur) \<leftarrow> readChar cur;
              g \<leftarrow> arr_put (uo_requestedQoSs out) (uo_count out) (uint q);
              subscribe_loop rc (out\<lparr>uo_requestedQoSs := g, uo_count := uo_count out + 1\<rparr>) cur (left' - 1)
            }
          }
        else None
      else Some (1, out))"
  by pat_completeness auto
termination
  by (relation "measure (\<lambda>(rc, out, cur, left). nat left)") (auto dest: readMQTTLenString_left)

declare subscribe_loop.simps [simp del]

definition MQTTDeserialize_subscribe :: "subscribe_out \<Rightarrow> u8 list \<Rightarrow> (int \<times> subscribe_out) option" where
  "MQTTDeserialize_subscribe out buf =
     do {
       (h, cur) \<leftarrow> readChar buf;
       if header_type h \<noteq> SUBSCRIBE then Some (-1, out)
       else do {
         let out = out\<lparr>uo_dup := header_dup h\<rparr>;
         (rc, mylen, _) \<leftarrow> MQTTPacket_decodeBuf cur;
         (i, cur) \<leftarrow> readInt (drop rc cur);
         subscribe_loop (int rc) (out\<lparr>uo_packetid := of_nat i, uo_count := 0\<rparr>) cur (int mylen - 2)
       }
     }"

definition MQTTSerialize_suback :: "nat \<Rightarrow> u16 \<Rightarrow> int list \<Rightarrow> (int \<times> u8 list) option" where
  "MQTTSerialize_suback buflen packetid grantedQoSs =
     (let count = length grantedQoSs in
      if buflen < 2 + count then Some (MQTTPACKET_BUFFER_TOO_SHORT, [])
      else emit buflen (writeChar (header_byte SUBACK 0 0 0) @ MQTTPacket_encode (2 + count) @
        writeInt (unat packetid) @ map of_int grantedQoSs))"

section \<open>Unsubscribe\<close>

definition MQTTSerialize_unsubscribeLength :: "MQTTString list \<Rightarrow> nat" where
  "MQTTSerialize_unsubscribeLength topicFilters = 2 + (\<Sum>t \<leftarrow> topicFilters. 2 + MQTTstrlen t)"

fun write_filters :: "MQTTString list \<Rightarrow> u8 list option" where
  "write_filters [] = Some []"
| "write_filters (t # ts) = do { b \<leftarrow> writeMQTTString t; bs \<leftarrow> write_filters ts; Some (b @ bs) }"

definition MQTTSerialize_unsubscribe ::
    "nat \<Rightarrow> u8 \<Rightarrow> u16 \<Rightarrow> MQTTString list \<Rightarrow> (int \<times> u8 list) option" where
  "MQTTSerialize_unsubscribe buflen dup packetid topicFilters =
     (let rem_len = MQTTSerialize_unsubscribeLength topicFilters in
      if MQTTPacket_len rem_len > buflen then Some (MQTTPACKET_BUFFER_TOO_SHORT, [])
      else do {
        ts \<leftarrow> write_filters topicFilters;
        emit buflen (writeChar (header_byte UNSUBSCRIBE dup 1 0) @ MQTTPacket_encode rem_len @
          writeInt (unat packetid) @ ts)
      })"

definition MQTTDeserialize_unsuback :: "u16 \<Rightarrow> u8 list \<Rightarrow> (int \<times> u16) option" where
  "MQTTDeserialize_unsuback packetid buf =
     do {
       (rc, out) \<leftarrow> MQTTDeserialize_ack \<lparr>ao_packettype = 0, ao_dup = 0, ao_packetid = packetid\<rparr> buf;
       Some (if ao_packettype out = UNSUBACK then 1 else rc, ao_packetid out)
     }"

function unsubscribe_loop :: "int \<Rightarrow> subscribe_out \<Rightarrow> u8 list \<Rightarrow> int \<Rightarrow> (int \<times> subscribe_out) option" where
  "unsubscribe_loop rc out cur left =
     (if left > 0 then
        if uo_count out < length (uo_topicFilters out) then
          do {
            (ok, t, cur, left') \<leftarrow> readMQTTLenString (uo_topicFilters out ! uo_count out) cur left;
            let out = out\<lparr>uo_topicFilters := (uo_topicFilters out)[uo_count out := t]\<rparr>;
            if \<not> ok then Some (rc, out)
            else unsubscribe_loop rc (out\<lparr>uo_count := uo_count out + 1\<rparr>) cur left'
          }
        else None
      else Some (1, out))"
  by pat_completeness auto
termination
  by (relation "measure (\<lambda>(rc, out, cur, left). nat left)") (auto dest: readMQTTLenString_left)

declare unsubscribe_loop.simps [simp del]

definition MQTTDeserialize_unsubscribe :: "subscribe_out \<Rightarrow> u8 list \<Rightarrow> (int \<times> subscribe_out) option" where
  "MQTTDeserialize_unsubscribe out buf =
     do {
       (h, cur) \<leftarrow> readChar buf;
       if header_type h \<noteq> UNSUBSCRIBE then Some (0, out)
       else do {
         let out = out\<lparr>uo_dup := header_dup h\<rparr>;
         (rc, mylen, _) \<leftarrow> MQTTPacket_decodeBuf cur;
         (i, cur) \<leftarrow> readInt (drop rc cur);
         unsubscribe_loop (int rc) (out\<lparr>uo_packetid := of_nat i, uo_count := 0\<rparr>) cur (int mylen - 2)
       }
     }"

definition MQTTSerialize_unsuback :: "nat \<Rightarrow> u16 \<Rightarrow> (int \<times> u8 list) option" where
  "MQTTSerialize_unsuback buflen packetid =
     (if buflen < 2 then Some (MQTTPACKET_BUFFER_TOO_SHORT, [])
      else emit buflen (writeChar (header_byte UNSUBACK 0 0 0) @ MQTTPacket_encode 2 @ writeInt (unat packetid)))"

end
