(* ===== verification/Eth_Network.thy ===== *)
theory Eth_Network
  imports Gateway_Prelude
begin

text \<open>
  The platform layer below the MQTT client (\<^verbatim>\<open>app/eth_to_freertos.c\<close>): timers on the tick
  counter of the kernel and the read and write functions of the network object. The kernel's
  tick counter is part of the state (\<^verbatim>\<open>xTickCount\<close> and \<^verbatim>\<open>xNumOfOverflows\<close>; 100 ticks per
  second). The socket is given by what it will do: one element of \<open>rx_script\<close> for each pass of
  the read loop and one of \<open>tx_script\<close> for each pass of the write loop, with the ticks that go
  by in that pass. After the end of its script the line brings nothing more, for ever; the send
  side takes everything at once or, when \<open>tx_stuck\<close>, nothing any more, for ever: a socket that
  stays busy or is not established. A pass that brings or takes nothing in no time at all changes
  nothing (lemma \<open>idle_pass\<close>), so such passes are counted once for each tick of the clock.
\<close>

section \<open>Timers\<close>

record tick_state =
  xNumOfOverflows :: u32
  xTickCount :: u32

record Timer =
  xTicksToWait :: u32
  xOverflowCount :: u32
  xTimeOnEntering :: u32

definition portMAX_DELAY :: u32 where "portMAX_DELAY = 0xffffffff"
definition portTICK_PERIOD_MS :: u32 where "portTICK_PERIOD_MS = 1000 div 100"

definition TimerInit :: Timer where
  "TimerInit = \<lparr>xTicksToWait = 0, xOverflowCount = 0, xTimeOnEntering = 0\<rparr>"

definition vTaskSetTimeOutState :: "tick_state \<Rightarrow> Timer \<Rightarrow> Timer" where
  "vTaskSetTimeOutState ts tm = tm\<lparr>xOverflowCount := xNumOfOverflows ts, xTimeOnEntering := xTickCount ts\<rparr>"

definition xTaskCheckForTimeOut :: "tick_state \<Rightarrow> Timer \<Rightarrow> bool \<times> Timer" where
  "xTaskCheckForTimeOut ts tm =
     (let xElapsedTime = xTickCount ts - xTimeOnEntering tm in
      if xTicksToWait tm = portMAX_DELAY then (False, tm)
      else if xNumOfOverflows ts \<noteq> xOverflowCount tm \<and> xTickCount ts \<ge> xTimeOnEntering tm
      then (True, tm\<lparr>xTicksToWait := 0\<rparr>)
      else if xElapsedTime < xTicksToWait tm
      then (False, vTaskSetTimeOutState ts (tm\<lparr>xTicksToWait := xTicksToWait tm - xElapsedTime\<rparr>))
      else (True, tm\<lparr>xTicksToWait := 0\<rparr>))"

definition TimerCountdownMS :: "tick_state \<Rightarrow> u32 \<Rightarrow> Timer \<Rightarrow> Timer" where
  "TimerCountdownMS ts timeout_ms tm = vTaskSetTimeOutState ts (tm\<lparr>xTicksToWait := timeout_ms div portTICK_PERIOD_MS\<rparr>)"

definition TimerCountdown :: "tick_state \<Rightarrow> u32 \<Rightarrow> Timer \<Rightarrow> Timer" where
  "TimerCountdown ts timeout tm = TimerCountdownMS ts (timeout * 1000) tm"

definition TimerLeftMS :: "tick_state \<Rightarrow> Timer \<Rightarrow> u32 \<times> Timer" where
  "TimerLeftMS ts tm = (let (_, tm) = xTaskCheckForTimeOut ts tm in (xTicksToWait tm * portTICK_PERIOD_MS, tm))"

definition TimerIsExpired :: "tick_state \<Rightarrow> Timer \<Rightarrow> bool \<times> Timer" where
  "TimerIsExpired ts tm = xTaskCheckForTimeOut ts tm"

text \<open>\<open>n\<close> tick interrupts: the counter wraps, and every wrap is counted.\<close>

definition advance :: "nat \<Rightarrow> tick_state \<Rightarrow> tick_state" where
  "advance n ts =
     (let t = unat (xTickCount ts) + n
      in \<lparr>xNumOfOverflows = xNumOfOverflows ts + of_nat (t div 2 ^ 32), xTickCount = of_nat t\<rparr>)"

section \<open>Sockets\<close>

datatype rx_event = RxNothing | RxChunk "u8 list" | RxFailed
datatype tx_event = TxBusy | TxTake nat | TxFailed

record sock_world =
  now :: tick_state
  rx_script :: "(nat \<times> rx_event) list"
  tx_script :: "(nat \<times> tx_event) list"
  tx_stuck :: bool \<comment> \<open>after \<open>tx_script\<close> the socket takes nothing any more\<close>
  sock_sent :: "u8 list" \<comment> \<open>what the chip has taken\<close>

definition SOCKERR_SOCKSTATUS :: int where "SOCKERR_SOCKSTATUS = -7"
definition SOCKERR_DATALEN :: int where "SOCKERR_DATALEN = -14"

text \<open>
  One pass of the read loop: whether the socket is established and has data, and \<^verbatim>\<open>recv\<close>, whose
  length is a \<^verbatim>\<open>uint16_t\<close>. What does not fit the caller's length stays in the chip.
\<close>

definition sock_recv :: "nat \<Rightarrow> sock_world \<Rightarrow> int \<times> u8 list \<times> sock_world" where
  "sock_recv len w =
     (let len = len mod 65536 in
      case rx_script w of
        [] \<Rightarrow> (0, [], w\<lparr>now := advance 1 (now w)\<rparr>)
      | (d, e) # es \<Rightarrow>
          (let w = w\<lparr>now := advance d (now w), rx_script := es\<rparr> in
           case e of
             RxNothing \<Rightarrow> (0, [], w)
           | RxFailed \<Rightarrow> (SOCKERR_SOCKSTATUS, [], w)
           | RxChunk bs \<Rightarrow>
               if bs = [] then (0, [], w)
               else if len = 0 then (SOCKERR_DATALEN, [], w\<lparr>rx_script := (0, RxChunk bs) # es\<rparr>)
               else (int (min len (length bs)), take len bs,
                     if length bs \<le> len then w else w\<lparr>rx_script := (0, RxChunk (drop len bs)) # es\<rparr>)))"

definition sock_send :: "u8 list \<Rightarrow> sock_world \<Rightarrow> int \<times> sock_world" where
  "sock_send bs w =
     (let bs = take (length bs mod 65536) bs in
      case tx_script w of
        [] \<Rightarrow> if tx_stuck w then (0, w\<lparr>now := advance 1 (now w)\<rparr>)
          else if bs = [] then (SOCKERR_DATALEN, w) else (int (length bs), w\<lparr>sock_sent := sock_sent w @ bs\<rparr>)
      | (d, e) # es \<Rightarrow>
          (let w = w\<lparr>now := advance d (now w), tx_script := es\<rparr> in
           case e of
             TxBusy \<Rightarrow> (0, w)
           | TxFailed \<Rightarrow> (SOCKERR_SOCKSTATUS, w)
           | TxTake k \<Rightarrow> if bs = [] then (SOCKERR_DATALEN, w)
               else (int (min k (length bs)), w\<lparr>sock_sent := sock_sent w @ take k bs\<rparr>)))"

text \<open>
  The loops end with the length, an error or the timeout; a loop that does not end is
  \<^const>\<open>None\<close>. \<open>acc\<close> is what \<^verbatim>\<open>buffer\<close> holds so far, its length is \<^verbatim>\<open>recvLen\<close>.
\<close>

partial_function (option) FreeRTOS_read_loop ::
    "nat \<Rightarrow> u8 list \<Rightarrow> Timer \<Rightarrow> sock_world \<Rightarrow> (int \<times> u8 list \<times> sock_world) option" where
  "FreeRTOS_read_loop len acc tm w =
     (let (rc, bs, w) = sock_recv (len - length acc) w; acc = acc @ bs in
      if rc < 0 then Some (rc, acc, w)
      else if length acc < len then
        (let (expired, tm) = xTaskCheckForTimeOut (now w) tm
         in if expired then Some (int (length acc), acc, w) else FreeRTOS_read_loop len acc tm w)
      else Some (int (length acc), acc, w))"

definition FreeRTOS_read :: "nat \<Rightarrow> u32 \<Rightarrow> sock_world \<Rightarrow> (int \<times> u8 list \<times> sock_world) option" where
  "FreeRTOS_read len timeout_ms w =
     FreeRTOS_read_loop len [] (TimerCountdownMS (now w) timeout_ms TimerInit) w"

partial_function (option) FreeRTOS_write_loop ::
    "u8 list \<Rightarrow> nat \<Rightarrow> Timer \<Rightarrow> sock_world \<Rightarrow> (int \<times> sock_world) option" where
  "FreeRTOS_write_loop buffer sentLen tm w =
     (let (rc, w) = sock_send (drop sentLen buffer) w in
      if rc < 0 then Some (rc, w)
      else let sentLen = sentLen + nat rc in
        if sentLen < length buffer then
          (let (expired, tm) = xTaskCheckForTimeOut (now w) tm
           in if expired then Some (int sentLen, w) else FreeRTOS_write_loop buffer sentLen tm w)
        else Some (int sentLen, w))"

definition FreeRTOS_write :: "u8 list \<Rightarrow> u32 \<Rightarrow> sock_world \<Rightarrow> (int \<times> sock_world) option" where
  "FreeRTOS_write buffer timeout_ms w =
     FreeRTOS_write_loop buffer 0 (TimerCountdownMS (now w) timeout_ms TimerInit) w"

section \<open>Timers measure elapsed time\<close>

definition abs_time :: "tick_state \<Rightarrow> nat" where
  "abs_time ts = unat (xNumOfOverflows ts) * 2 ^ 32 + unat (xTickCount ts)"

definition entered :: "Timer \<Rightarrow> nat" where
  "entered tm = unat (xOverflowCount tm) * 2 ^ 32 + unat (xTimeOnEntering tm)"

definition deadline :: "Timer \<Rightarrow> nat" where
  "deadline tm = entered tm + unat (xTicksToWait tm)"

lemma u32_less: "unat (x :: u32) < 4294967296"
  using unsigned_less [of x, where ?'a = nat] by simp

lemma span_cases:
  assumes "p * 4294967296 + e \<le> u * 4294967296 + c" and "u * 4294967296 + c < p * 4294967296 + e + (4294967296 :: nat)"
    and "c < 4294967296" and "e < 4294967296"
  shows "u = p \<and> e \<le> c \<or> u = Suc p \<and> c < e"
proof -
  consider "u < p" | "u = p" | "u = Suc p" | "Suc (Suc p) \<le> u" by linarith
  then show ?thesis by cases (use assms in linarith)+
qed

lemma check_exact:
  assumes "entered tm \<le> abs_time ts" and "abs_time ts - entered tm < 2 ^ 32" and "xTicksToWait tm \<noteq> portMAX_DELAY"
  shows "fst (xTaskCheckForTimeOut ts tm) \<longleftrightarrow> deadline tm \<le> abs_time ts"
    and "\<not> fst (xTaskCheckForTimeOut ts tm) \<Longrightarrow> deadline (snd (xTaskCheckForTimeOut ts tm)) = deadline tm \<and>
      entered (snd (xTaskCheckForTimeOut ts tm)) = abs_time ts \<and> xTicksToWait (snd (xTaskCheckForTimeOut ts tm)) \<noteq> portMAX_DELAY"
proof -
  let ?c = "unat (xTickCount ts)" and ?e = "unat (xTimeOnEntering tm)" and ?w = "unat (xTicksToWait tm)"
  let ?o = "unat (xNumOfOverflows ts)" and ?p = "unat (xOverflowCount tm)"
  note less = u32_less [of "xTickCount ts"] u32_less [of "xTimeOnEntering tm"] u32_less [of "xTicksToWait tm"]
  have el: "unat (xTickCount ts - xTimeOnEntering tm) = (if ?e \<le> ?c then ?c - ?e else ?c + 4294967296 - ?e)"
    by (simp add: unat_sub_if')
  have ov: "xNumOfOverflows ts \<noteq> xOverflowCount tm \<longleftrightarrow> ?o \<noteq> ?p" by (simp add: word_unat_eq_iff)
  have span: "?p * 4294967296 + ?e \<le> ?o * 4294967296 + ?c" "?o * 4294967296 + ?c < ?p * 4294967296 + ?e + 4294967296"
    using assms(1,2) by (simp_all add: abs_time_def entered_def)
  then have po: "?o = ?p \<and> ?e \<le> ?c \<or> ?o = Suc ?p \<and> ?c < ?e" using less(1,2) by (rule span_cases)
  have no: "\<not> (xNumOfOverflows ts \<noteq> xOverflowCount tm \<and> xTickCount ts \<ge> xTimeOnEntering tm)"
    using po ov by (auto simp: word_le_nat_alt)
  have iff: "xTickCount ts - xTimeOnEntering tm < xTicksToWait tm \<longleftrightarrow> abs_time ts < deadline tm"
    unfolding word_less_nat_alt el deadline_def entered_def abs_time_def
    using po less by (elim disjE conjE) (simp_all, linarith+)
  show "fst (xTaskCheckForTimeOut ts tm) \<longleftrightarrow> deadline tm \<le> abs_time ts"
    using no iff assms(3) by (auto simp: xTaskCheckForTimeOut_def Let_def)
  assume "\<not> fst (xTaskCheckForTimeOut ts tm)"
  then have lt: "xTickCount ts - xTimeOnEntering tm < xTicksToWait tm"
    and new: "snd (xTaskCheckForTimeOut ts tm) = vTaskSetTimeOutState ts (tm\<lparr>xTicksToWait := xTicksToWait tm - (xTickCount ts - xTimeOnEntering tm)\<rparr>)"
    using no assms(3) by (auto simp: xTaskCheckForTimeOut_def Let_def split: if_splits)
  let ?el = "xTickCount ts - xTimeOnEntering tm"
  have sub: "unat (xTicksToWait tm - ?el) = ?w - unat ?el" "unat ?el < ?w"
    using lt by (auto simp: word_less_nat_alt unat_sub_if')
  have "unat (xTicksToWait tm - ?el) < 4294967295"
    using sub assms(3) less(3) by (auto simp: portMAX_DELAY_def word_unat_eq_iff)
  then have "xTicksToWait tm - ?el \<noteq> portMAX_DELAY" by (auto simp: portMAX_DELAY_def word_unat_eq_iff)
  moreover have "deadline (snd (xTaskCheckForTimeOut ts tm)) = deadline tm"
    unfolding new using sub po less
    by (elim disjE conjE; simp add: deadline_def entered_def vTaskSetTimeOutState_def el; linarith)
  ultimately show "deadline (snd (xTaskCheckForTimeOut ts tm)) = deadline tm \<and>
      entered (snd (xTaskCheckForTimeOut ts tm)) = abs_time ts \<and> xTicksToWait (snd (xTaskCheckForTimeOut ts tm)) \<noteq> portMAX_DELAY"
    by (simp add: new entered_def abs_time_def vTaskSetTimeOutState_def)
qed

lemma abs_time_advance:
  assumes "abs_time ts + n < 2 ^ 64"
  shows "abs_time (advance n ts) = abs_time ts + n"
proof -
  let ?t = "unat (xTickCount ts) + n"
  have q: "unat (xNumOfOverflows ts) + ?t div 4294967296 < 4294967296"
    using assms by (simp add: abs_time_def)
  then have "?t div 4294967296 < 4294967296" by linarith
  then have "unat (xNumOfOverflows ts + of_nat (?t div 4294967296)) = unat (xNumOfOverflows ts) + ?t div 4294967296"
    using q by (simp add: unat_word_ariths unsigned_of_nat take_bit_eq_mod)
  moreover have "unat (of_nat ?t :: u32) = ?t mod 4294967296"
    by (simp only: unsigned_of_nat take_bit_eq_mod) simp
  ultimately show ?thesis
    using div_mult_mod_eq [of ?t 4294967296] by (simp add: abs_time_def advance_def Let_def algebra_simps)
qed

text \<open>Checking a timer again and again while time goes by; the result is that of the last check.\<close>

fun check_after :: "nat list \<Rightarrow> tick_state \<Rightarrow> Timer \<Rightarrow> bool \<times> Timer" where
  "check_after [] ts tm = TimerIsExpired ts tm"
| "check_after (d # ds) ts tm = check_after ds (advance d ts) (snd (TimerIsExpired ts tm))"

lemma expired_timer:
  "fst (xTaskCheckForTimeOut ts tm) \<Longrightarrow> snd (xTaskCheckForTimeOut ts tm) = tm\<lparr>xTicksToWait := 0\<rparr>"
  by (auto simp: xTaskCheckForTimeOut_def Let_def split: if_splits)

lemma check_after_exact:
  "entered tm \<le> abs_time ts \<Longrightarrow> abs_time ts + sum_list ds - entered tm < 2 ^ 32 \<Longrightarrow>
   abs_time ts + sum_list ds < 2 ^ 64 \<Longrightarrow> xTicksToWait tm \<noteq> portMAX_DELAY \<Longrightarrow>
   fst (check_after ds ts tm) \<longleftrightarrow> deadline tm \<le> abs_time ts + sum_list ds"
proof (induction ds arbitrary: ts tm)
  case Nil
  then show ?case using check_exact(1) [of tm ts] by (simp add: TimerIsExpired_def)
next
  case (Cons d ds)
  let ?tm = "snd (xTaskCheckForTimeOut ts tm)"
  have a: "abs_time (advance d ts) = abs_time ts + d" using Cons.prems by (intro abs_time_advance) simp
  have e: "fst (xTaskCheckForTimeOut ts tm) \<longleftrightarrow> deadline tm \<le> abs_time ts"
    using Cons.prems by (intro check_exact) simp_all
  show ?case
  proof (cases "fst (xTaskCheckForTimeOut ts tm)")
    case True
    then have tm: "?tm = tm\<lparr>xTicksToWait := 0\<rparr>" by (rule expired_timer)
    have "deadline ?tm = entered tm" "entered ?tm = entered tm" "xTicksToWait ?tm \<noteq> portMAX_DELAY"
      by (simp_all add: tm deadline_def entered_def portMAX_DELAY_def)
    then show ?thesis using Cons.IH [of ?tm "advance d ts"] Cons.prems a e True by (simp add: TimerIsExpired_def)
  next
    case False
    then have "deadline ?tm = deadline tm" "entered ?tm = abs_time ts" "xTicksToWait ?tm \<noteq> portMAX_DELAY"
      using check_exact(2) [of tm ts] Cons.prems by auto
    moreover have "d + sum_list ds < 4294967296" using Cons.prems(1,2) by simp
    ultimately show ?thesis using Cons.IH [of ?tm "advance d ts"] Cons.prems a by (simp add: TimerIsExpired_def add.assoc)
  qed
qed

lemma ms_ticks: "unat (ms div portTICK_PERIOD_MS) = unat ms div 10" "ms div portTICK_PERIOD_MS \<noteq> portMAX_DELAY"
proof -
  show u: "unat (ms div portTICK_PERIOD_MS) = unat ms div 10" by (simp add: portTICK_PERIOD_MS_def unat_div)
  have "unat ms div 10 < 4294967295" using u32_less [of ms] by linarith
  then show "ms div portTICK_PERIOD_MS \<noteq> portMAX_DELAY" using u by (auto simp: portMAX_DELAY_def)
qed

text \<open>C21: A timer started with \<open>ms\<close> milliseconds is found expired by a check exactly when \<open>ms div 10\<close>
  ticks have gone by since its start, whatever checks were made in between (each of them
  rewrites the timer) and also when the 32-bit tick counter wraps meanwhile.\<close>

theorem timer_exact:
  assumes "sum_list ds < 2 ^ 32" and "abs_time ts + sum_list ds < 2 ^ 64"
  shows "fst (check_after ds ts (TimerCountdownMS ts ms tm)) \<longleftrightarrow> unat ms div 10 \<le> sum_list ds"
proof -
  let ?tm = "TimerCountdownMS ts ms tm"
  have "entered ?tm = abs_time ts" "xTicksToWait ?tm \<noteq> portMAX_DELAY" "deadline ?tm = abs_time ts + unat ms div 10"
    using ms_ticks by (simp_all add: TimerCountdownMS_def vTaskSetTimeOutState_def entered_def abs_time_def deadline_def)
  then show ?thesis using check_after_exact [of ?tm ts ds] assms by simp
qed

theorem timer_exact_witness:
  "let ts = \<lparr>xNumOfOverflows = 3, xTickCount = 0xfffffff0\<rparr> in
     fst (check_after [10, 20, 20] ts (TimerCountdownMS ts 500 TimerInit)) \<and>
     \<not> fst (check_after [10, 20, 19] ts (TimerCountdownMS ts 500 TimerInit))"
  using timer_exact [of "[10, 20, 20]" "\<lparr>xNumOfOverflows = 3, xTickCount = 0xfffffff0\<rparr>" 500 TimerInit]
    timer_exact [of "[10, 20, 19]" "\<lparr>xNumOfOverflows = 3, xTickCount = 0xfffffff0\<rparr>" 500 TimerInit]
  by (simp add: abs_time_def)

section \<open>Reads and writes return\<close>

definition armed :: "Timer \<Rightarrow> tick_state \<Rightarrow> bool" where
  "armed tm ts \<longleftrightarrow> xOverflowCount tm = xNumOfOverflows ts \<and> xTimeOnEntering tm = xTickCount ts"

lemma check_rearms:
  assumes "xTaskCheckForTimeOut ts tm = (False, tm')" and "xTicksToWait tm \<noteq> portMAX_DELAY"
  shows "armed tm' ts \<and> xTickCount ts - xTimeOnEntering tm < xTicksToWait tm \<and>
    xTicksToWait tm' = xTicksToWait tm - (xTickCount ts - xTimeOnEntering tm) \<and> xTicksToWait tm' \<le> xTicksToWait tm \<and>
    xTicksToWait tm' \<noteq> portMAX_DELAY"
proof -
  let ?e = "xTickCount ts - xTimeOnEntering tm" and ?w = "xTicksToWait tm"
  have e: "?e < ?w" and tm': "tm' = vTaskSetTimeOutState ts (tm\<lparr>xTicksToWait := ?w - ?e\<rparr>)"
    using assms by (auto simp: xTaskCheckForTimeOut_def Let_def split: if_splits)
  have sub: "unat (?w - ?e) = unat ?w - unat ?e" using e by (simp add: word_less_nat_alt unat_sub_if')
  then have le: "?w - ?e \<le> ?w" by (simp add: word_le_nat_alt)
  have "?w - ?e \<noteq> portMAX_DELAY"
  proof
    assume max: "?w - ?e = portMAX_DELAY"
    then have "unat ?w < unat portMAX_DELAY"
      using assms(2) u32_less [of ?w] by (auto simp: portMAX_DELAY_def word_unat_eq_iff)
    then show False using sub max by simp
  qed
  then show ?thesis using e le by (simp add: tm' armed_def vTaskSetTimeOutState_def)
qed

definition rx_size :: "sock_world \<Rightarrow> nat" where
  "rx_size w = (\<Sum>(d, e) \<leftarrow> rx_script w. case e of RxChunk bs \<Rightarrow> Suc (length bs) | _ \<Rightarrow> 1)"

lemma sock_recv_cases:
  assumes "sock_recv len w = (rc, bs, w')"
  shows "length bs \<le> len \<and> (rc < 0 \<and> bs = [] \<or> rc = int (length bs)) \<and>
    (rc < 0 \<or> rx_size w' < rx_size w \<or>
     rx_script w = [] \<and> rx_script w' = [] \<and> now w' = advance 1 (now w))"
  using assms mod_less_eq_dividend [of len 65536]
  by (auto simp: sock_recv_def rx_size_def Let_def SOCKERR_SOCKSTATUS_def SOCKERR_DATALEN_def min_def
      split: list.splits prod.splits rx_event.splits if_splits)

lemma read_loop_returns:
  "length acc \<le> len \<Longrightarrow> xTicksToWait tm \<noteq> portMAX_DELAY \<Longrightarrow> (rx_script w = [] \<Longrightarrow> armed tm (now w)) \<Longrightarrow>
   \<exists>rc bs w'. FreeRTOS_read_loop len acc tm w = Some (rc, bs, w') \<and> length bs \<le> len \<and> (0 \<le> rc \<longrightarrow> rc = int (length bs))"
proof (induction "rx_size w * 4294967296 + unat (xTicksToWait tm)" arbitrary: acc tm w rule: less_induct)
  case less
  obtain rc bs w' where r: "sock_recv (len - length acc) w = (rc, bs, w')" by (metis prod_cases3)
  note c = sock_recv_cases [OF r]
  obtain ex tm' where t: "xTaskCheckForTimeOut (now w') tm = (ex, tm')" by force
  show ?case
  proof (cases "rc < 0 \<or> len \<le> length (acc @ bs) \<or> ex")
    case True
    then show ?thesis using r t c less.prems(1)
      by (subst FreeRTOS_read_loop.simps) (auto simp: Let_def)
  next
    case False
    then have t': "xTaskCheckForTimeOut (now w') tm = (False, tm')" using t by simp
    note rearm = check_rearms [OF t' less.prems(2)]
    have "rx_size w' * 4294967296 + unat (xTicksToWait tm') < rx_size w * 4294967296 + unat (xTicksToWait tm)"
    proof (cases "rx_size w' < rx_size w")
      case True
      then show ?thesis using u32_less [of "xTicksToWait tm'"] by linarith
    next
      case quiet: False
      then have q: "rx_script w = []" "rx_script w' = []" "now w' = advance 1 (now w)" using c False by auto
      then have "xTickCount (now w') - xTimeOnEntering tm = 1"
        using less.prems(3) by (simp add: advance_def armed_def Let_def)
      then have "xTicksToWait tm' = xTicksToWait tm - 1" "1 < xTicksToWait tm" using rearm by simp_all
      then have "unat (xTicksToWait tm') < unat (xTicksToWait tm)" by (simp add: word_less_nat_alt unat_sub_if')
      then show ?thesis using q by (simp add: rx_size_def)
    qed
    from less.hyps [OF this, of "acc @ bs"] show ?thesis
      using False r t' c rearm less.prems(1)
      by (subst FreeRTOS_read_loop.simps) (auto simp: Let_def)
  qed
qed

lemma sock_send_cases:
  assumes "sock_send bs w = (rc, w')"
  shows "rc < 0 \<or> rc \<le> int (length bs) \<and> (length (tx_script w') < length (tx_script w) \<or>
    tx_script w = [] \<and> tx_script w' = [] \<and> (0 < rc \<or> now w' = advance 1 (now w)))"
  using assms mod_less_eq_dividend [of "length bs" 65536]
  by (auto simp: sock_send_def Let_def SOCKERR_SOCKSTATUS_def SOCKERR_DATALEN_def min_def
      split: list.splits prod.splits tx_event.splits if_splits)

lemma one_tick_less:
  assumes "armed tm ts" and "xTaskCheckForTimeOut (advance 1 ts) tm = (False, tm')" and "xTicksToWait tm \<noteq> portMAX_DELAY"
  shows "unat (xTicksToWait tm') < unat (xTicksToWait tm)"
proof -
  have "xTickCount (advance 1 ts) - xTimeOnEntering tm = 1"
    using assms(1) by (simp add: advance_def armed_def Let_def)
  then have "xTicksToWait tm' = xTicksToWait tm - 1" "1 < xTicksToWait tm"
    using check_rearms [OF assms(2,3)] by simp_all
  then show ?thesis by (simp add: word_less_nat_alt unat_sub_if')
qed

lemma lex_less: "m' < m \<Longrightarrow> t' < N \<Longrightarrow> m' * N + t' < m * N + (t :: nat)"
  using mult_le_mono1 [of "Suc m'" m N] by simp

lemma write_loop_returns:
  "n \<le> length bs \<Longrightarrow> xTicksToWait tm \<noteq> portMAX_DELAY \<Longrightarrow> (tx_script w = [] \<Longrightarrow> armed tm (now w)) \<Longrightarrow>
   \<exists>rc w'. FreeRTOS_write_loop bs n tm w = Some (rc, w') \<and> rc \<le> int (length bs)"
proof (induction "(length (tx_script w) + (length bs - n)) * 4294967296 + unat (xTicksToWait tm)"
    arbitrary: n tm w rule: less_induct)
  case less
  obtain rc w' where r: "sock_send (drop n bs) w = (rc, w')" by force
  note c = sock_send_cases [OF r]
  obtain ex tm' where t: "xTaskCheckForTimeOut (now w') tm = (ex, tm')" by force
  show ?case
  proof (cases "rc < 0 \<or> length bs \<le> n + nat rc \<or> ex")
    case True
    then show ?thesis using r t c less.prems(1)
      by (subst FreeRTOS_write_loop.simps) (auto simp: Let_def)
  next
    case False
    then have t': "xTaskCheckForTimeOut (now w') tm = (False, tm')" using t by simp
    note rearm = check_rearms [OF t' less.prems(2)]
    let ?m = "length (tx_script w) + (length bs - n)" and ?m' = "length (tx_script w') + (length bs - (n + nat rc))"
    have "?m' * 4294967296 + unat (xTicksToWait tm') < ?m * 4294967296 + unat (xTicksToWait tm)"
    proof (cases "?m' < ?m")
      case True
      then show ?thesis using u32_less by (rule lex_less)
    next
      case stuck: False
      then have "tx_script w = []" "rc = 0" "now w' = advance 1 (now w)" "?m' \<le> ?m" using c False by auto
      then show ?thesis using one_tick_less [OF _ _ less.prems(2)] less.prems(3) t' by simp
    qed
    from less.hyps [OF this] show ?thesis
      using False r t' c rearm less.prems(1)
      by (subst FreeRTOS_write_loop.simps) (auto simp: Let_def)
  qed
qed

lemma advance_0 [simp]: "advance 0 ts = ts"
proof -
  have "unat (xTickCount ts) div 4294967296 = 0" using u32_less [of "xTickCount ts"] by simp
  then show ?thesis by (simp add: advance_def)
qed

lemma of_nat_low_word: "(of_nat (x mod 4294967296) :: u32) = of_nat x"
  by (simp add: word_of_nat_eq_iff take_bit_eq_mod)

lemma advance_advance: "advance m (advance n ts) = advance (n + m) ts"
proof -
  define t where "t = unat (xTickCount ts) + n"
  have t: "unat (of_nat t :: u32) = t mod 4294967296" by (simp only: unsigned_of_nat take_bit_eq_mod) simp
  have low: "(of_nat (t mod 4294967296 + m) :: u32) = of_nat (t + m)"
    by (simp only: of_nat_add of_nat_low_word)
  have "(t + m) div 4294967296 = t div 4294967296 + (t mod 4294967296 + m) div 4294967296"
    using div_mult_self1 [of 4294967296 "t mod 4294967296 + m" "t div 4294967296"] div_mult_mod_eq [of t 4294967296]
    by (simp add: algebra_simps)
  then have high: "(of_nat ((t + m) div 4294967296) :: u32) =
      of_nat (t div 4294967296) + of_nat ((t mod 4294967296 + m) div 4294967296)" by (simp only: of_nat_add)
  have a: "advance n ts = \<lparr>xNumOfOverflows = xNumOfOverflows ts + of_nat (t div 4294967296), xTickCount = of_nat t\<rparr>"
    by (simp add: advance_def t_def Let_def)
  have b: "advance (n + m) ts = \<lparr>xNumOfOverflows = xNumOfOverflows ts + of_nat ((t + m) div 4294967296), xTickCount = of_nat (t + m)\<rparr>"
    by (simp add: advance_def t_def Let_def add.assoc)
  have c: "advance m \<lparr>xNumOfOverflows = p, xTickCount = of_nat t\<rparr> =
      \<lparr>xNumOfOverflows = p + of_nat ((t mod 4294967296 + m) div 4294967296), xTickCount = of_nat (t mod 4294967296 + m)\<rparr>" for p
    by (simp only: advance_def Let_def tick_state.simps t) simp
  show ?thesis unfolding a b c low high by (simp only: add.assoc)
qed

section \<open>A socket that does nothing\<close>

lemma armed_check_0:
  assumes "armed tm ts" and "0 < xTicksToWait tm" and "xTicksToWait tm \<noteq> portMAX_DELAY"
  shows "xTaskCheckForTimeOut ts tm = (False, tm)"
  using assms by (simp add: xTaskCheckForTimeOut_def armed_def vTaskSetTimeOutState_def)

lemma armed_check_1:
  assumes "armed tm ts" and "xTicksToWait tm \<noteq> portMAX_DELAY"
  shows "xTaskCheckForTimeOut (advance 1 ts) tm =
    (if 1 < xTicksToWait tm then (False, vTaskSetTimeOutState (advance 1 ts) (tm\<lparr>xTicksToWait := xTicksToWait tm - 1\<rparr>))
     else (True, tm\<lparr>xTicksToWait := 0\<rparr>))"
proof -
  let ?t = "xTickCount ts"
  have e: "xTickCount (advance 1 ts) = ?t + 1" by (simp add: advance_def Let_def)
  have "\<not> (xNumOfOverflows (advance 1 ts) \<noteq> xNumOfOverflows ts \<and> ?t \<le> ?t + 1)"
  proof (cases "unat ?t + 1 < 4294967296")
    case True
    then show ?thesis by (simp add: advance_def Let_def)
  next
    case False
    then have "unat ?t = 4294967295" using u32_less [of ?t] by linarith
    then have "?t = 4294967295" by (simp add: word_unat_eq_iff)
    then show ?thesis by simp
  qed
  then show ?thesis using assms e by (auto simp: xTaskCheckForTimeOut_def armed_def Let_def)
qed

text \<open>A pass in which nothing comes in and no tick goes by leaves the loop where it was.\<close>

lemma idle_pass:
  assumes "armed tm (now w)" and "0 < xTicksToWait tm" and "xTicksToWait tm \<noteq> portMAX_DELAY" and "length acc < len"
  shows "rx_script w = (0, RxNothing) # es \<Longrightarrow>
      FreeRTOS_read_loop len acc tm w = FreeRTOS_read_loop len acc tm (w\<lparr>rx_script := es\<rparr>)"
    and "tx_script w = (0, TxBusy) # fs \<Longrightarrow> n < length bs \<Longrightarrow>
      FreeRTOS_write_loop bs n tm w = FreeRTOS_write_loop bs n tm (w\<lparr>tx_script := fs\<rparr>)"
  using assms armed_check_0 [OF assms(1-3)]
  by (subst FreeRTOS_read_loop.simps FreeRTOS_write_loop.simps; simp add: sock_recv_def sock_send_def)+

lemma silent_read:
  "armed tm (now w) \<Longrightarrow> xTicksToWait tm \<noteq> portMAX_DELAY \<Longrightarrow> rx_script w = [] \<Longrightarrow> length acc < len \<Longrightarrow>
   FreeRTOS_read_loop len acc tm w =
     Some (int (length acc), acc, w\<lparr>now := advance (max 1 (unat (xTicksToWait tm))) (now w)\<rparr>)"
proof (induction "unat (xTicksToWait tm)" arbitrary: tm w rule: less_induct)
  case less
  let ?k = "xTicksToWait tm" and ?w = "w\<lparr>now := advance 1 (now w)\<rparr>"
  let ?tm = "vTaskSetTimeOutState (now ?w) (tm\<lparr>xTicksToWait := ?k - 1\<rparr>)"
  have step: "FreeRTOS_read_loop len acc tm w = (if 1 < ?k then FreeRTOS_read_loop len acc ?tm ?w else Some (int (length acc), acc, ?w))"
    using less.prems armed_check_1 [OF less.prems(1,2)]
    by (subst FreeRTOS_read_loop.simps) (simp add: sock_recv_def)
  show ?case
  proof (cases "1 < ?k")
    case True
    then have "unat (?k - 1) = unat ?k - 1" "1 < unat ?k" by (simp_all add: word_less_nat_alt unat_sub_if')
    moreover have "?k - 1 \<noteq> portMAX_DELAY" using calculation u32_less [of ?k] by (auto simp: portMAX_DELAY_def word_unat_eq_iff)
    ultimately show ?thesis using step True less.prems less.hyps [of ?tm ?w]
      by (simp add: armed_def vTaskSetTimeOutState_def advance_advance max_def)
  next
    case False
    then have "unat ?k \<le> 1" by (simp add: word_less_nat_alt)
    then show ?thesis using step False by (simp add: max_def)
  qed
qed

lemma stuck_write:
  "armed tm (now w) \<Longrightarrow> xTicksToWait tm \<noteq> portMAX_DELAY \<Longrightarrow> tx_script w = [] \<Longrightarrow> tx_stuck w \<Longrightarrow> n < length bs \<Longrightarrow>
   FreeRTOS_write_loop bs n tm w = Some (int n, w\<lparr>now := advance (max 1 (unat (xTicksToWait tm))) (now w)\<rparr>)"
proof (induction "unat (xTicksToWait tm)" arbitrary: tm w rule: less_induct)
  case less
  let ?k = "xTicksToWait tm" and ?w = "w\<lparr>now := advance 1 (now w)\<rparr>"
  let ?tm = "vTaskSetTimeOutState (now ?w) (tm\<lparr>xTicksToWait := ?k - 1\<rparr>)"
  have step: "FreeRTOS_write_loop bs n tm w = (if 1 < ?k then FreeRTOS_write_loop bs n ?tm ?w else Some (int n, ?w))"
    using less.prems armed_check_1 [OF less.prems(1,2)]
    by (subst FreeRTOS_write_loop.simps) (simp add: sock_send_def)
  show ?case
  proof (cases "1 < ?k")
    case True
    then have "unat (?k - 1) = unat ?k - 1" "1 < unat ?k" by (simp_all add: word_less_nat_alt unat_sub_if')
    moreover have "?k - 1 \<noteq> portMAX_DELAY" using calculation u32_less [of ?k] by (auto simp: portMAX_DELAY_def word_unat_eq_iff)
    ultimately show ?thesis using step True less.prems less.hyps [of ?tm ?w]
      by (simp add: armed_def vTaskSetTimeOutState_def advance_advance max_def)
  next
    case False
    then have "unat ?k \<le> 1" by (simp add: word_less_nat_alt)
    then show ?thesis using step False by (simp add: max_def)
  qed
qed

text \<open>C22: The network functions never hang: whatever the socket does, a read and a write return, with an
  error or with the number of bytes read (at most the length asked for) or taken. When nothing
  more comes in, or the socket takes nothing for ever, they return exactly when their timeout
  has gone by (at least one tick).\<close>

theorem network_calls_return:
  "(\<exists>rc bs w'. FreeRTOS_read len ms w = Some (rc, bs, w') \<and> length bs \<le> len \<and> (rc < 0 \<or> rc = int (length bs))) \<and>
   (\<exists>rc w'. FreeRTOS_write buffer ms w = Some (rc, w') \<and> rc \<le> int (length buffer)) \<and>
   (rx_script w = [] \<and> 0 < len \<longrightarrow>
     FreeRTOS_read len ms w = Some (0, [], w\<lparr>now := advance (max 1 (unat ms div 10)) (now w)\<rparr>)) \<and>
   (tx_script w = [] \<and> tx_stuck w \<and> buffer \<noteq> [] \<longrightarrow>
     FreeRTOS_write buffer ms w = Some (0, w\<lparr>now := advance (max 1 (unat ms div 10)) (now w)\<rparr>))"
proof -
  let ?tm = "TimerCountdownMS (now w) ms TimerInit"
  have tm: "xTicksToWait ?tm \<noteq> portMAX_DELAY" "armed ?tm (now w)" "unat (xTicksToWait ?tm) = unat ms div 10"
    using ms_ticks by (simp_all add: TimerCountdownMS_def vTaskSetTimeOutState_def armed_def)
  then show ?thesis
    using read_loop_returns [of "[]" len ?tm w] write_loop_returns [of 0 buffer ?tm w]
      silent_read [of ?tm w "[]" len] stuck_write [of ?tm w 0 buffer]
    by (auto simp: FreeRTOS_read_def FreeRTOS_write_def)
qed

theorem network_calls_return_witness:
  "let w = \<lparr>now = \<lparr>xNumOfOverflows = 0, xTickCount = 0xfffffff0\<rparr>, rx_script = [], tx_script = [],
       tx_stuck = True, sock_sent = []\<rparr>;
     w' = w\<lparr>now := \<lparr>xNumOfOverflows = 1, xTickCount = 34\<rparr>\<rparr> in
   FreeRTOS_read 4 500 w = Some (0, [], w') \<and> FreeRTOS_write [1, 2, 3] 500 w = Some (0, w')"
  using network_calls_return [of 4 500 "\<lparr>now = \<lparr>xNumOfOverflows = 0, xTickCount = 0xfffffff0\<rparr>,
      rx_script = [], tx_script = [], tx_stuck = True, sock_sent = []\<rparr>" "[1, 2, 3]"]
  by (simp add: advance_def)

end
