(* ===== verification/Mqtt_Client.thy ===== *)
theory Mqtt_Client
  imports Mqtt_Messages Eth_Network
begin

text \<open>
  The MQTT client (\<^verbatim>\<open>app/eth_to_mqtt.c\<close>). The network object is the record of function
  pointers the client calls, over a type of network states; the clock is the kernel's tick
  state, which the timers look at. A function that takes \<^verbatim>\<open>MQTTClient *\<close> gets and yields the
  client record, one that takes \<^verbatim>\<open>Timer *\<close> also the timer. A message handler is a number, its
  call an entry of \<open>delivered\<close>; handlers do not change the client. The mutex is not modelled:
  every operation below runs with it held. \<^const>\<open>None\<close> is undefined behaviour or a loop that
  does not end.
\<close>

section \<open>State\<close>

record 'w net_ops =
  mqttread :: "nat \<Rightarrow> u32 \<Rightarrow> 'w \<Rightarrow> (int \<times> u8 list \<times> 'w) option"
  mqttwrite :: "u8 list \<Rightarrow> u32 \<Rightarrow> 'w \<Rightarrow> (int \<times> 'w) option"
  clock :: "'w \<Rightarrow> tick_state"

record MQTTMessage =
  msg_qos :: int
  msg_retained :: u8
  msg_dup :: u8
  msg_id :: u16
  msg_payload :: "u8 list"
  msg_payloadlen :: u32

record MessageHandlers =
  topicFilter :: "u8 list option"
  fp :: "nat option"

record MQTTClient =
  next_packetid :: u32
  command_timeout_ms :: u32
  c_buf :: "u8 list"
  c_readbuf :: "u8 list"
  c_keepAliveInterval :: u32
  ping_outstanding :: u8
  isconnected :: int
  c_cleansession :: int
  messageHandlers :: "MessageHandlers list"
  defaultMessageHandler :: "nat option"
  last_sent :: Timer
  last_received :: Timer
  delivered :: "(nat \<times> MQTTString \<times> MQTTMessage) list" \<comment> \<open>the calls of handlers\<close>
  uninit :: u16 \<comment> \<open>what an uninitialised packet identifier holds\<close>

definition MAX_PACKET_ID :: u32 where "MAX_PACKET_ID = 65535"
definition MAX_MESSAGE_HANDLERS :: nat where "MAX_MESSAGE_HANDLERS = 5"
definition QOS0 :: int where "QOS0 = 0"
definition QOS1 :: int where "QOS1 = 1"
definition QOS2 :: int where "QOS2 = 2"
definition SUBFAIL :: int where "SUBFAIL = 0x80"
definition SUCCESS :: int where "SUCCESS = 0"
definition FAILURE :: int where "FAILURE = -1"
definition BUFFER_OVERFLOW :: int where "BUFFER_OVERFLOW = -2"
definition PINGRESP :: u8 where "PINGRESP = 13"

lemmas return_codes = SUCCESS_def FAILURE_def BUFFER_OVERFLOW_def QOS0_def QOS1_def QOS2_def SUBFAIL_def

definition MQTTClientInit :: "u32 \<Rightarrow> u8 list \<Rightarrow> u8 list \<Rightarrow> MQTTClient \<Rightarrow> MQTTClient" where
  "MQTTClientInit timeout_ms sendbuf readbuf c =
     c\<lparr>messageHandlers := map (\<lambda>h. h\<lparr>topicFilter := None\<rparr>) (messageHandlers c),
       command_timeout_ms := timeout_ms, c_buf := sendbuf, c_readbuf := readbuf, isconnected := 0,
       c_cleansession := 0, ping_outstanding := 0, defaultMessageHandler := None, next_packetid := 1,
       last_sent := TimerInit, last_received := TimerInit\<rparr>"

definition getNextPacketId :: "MQTTClient \<Rightarrow> u32 \<times> MQTTClient" where
  "getNextPacketId c =
     (let i = (if next_packetid c = MAX_PACKET_ID then 1 else next_packetid c + 1)
      in (i, c\<lparr>next_packetid := i\<rparr>))"

section \<open>Packets out\<close>

text \<open>
  The write call always passes the full length, also after a partial write; what it would read
  behind the send buffer is undefined.
\<close>

partial_function (option) sendPacket_loop ::
    "'w net_ops \<Rightarrow> nat \<Rightarrow> u8 list \<Rightarrow> nat \<Rightarrow> Timer \<Rightarrow> 'w \<Rightarrow> (nat \<times> Timer \<times> 'w) option" where
  "sendPacket_loop N len buf sent tm w =
     (if sent < len then
        let (expired, tm) = TimerIsExpired (clock N w) tm in
        if expired then Some (sent, tm, w)
        else if sent + len \<le> length buf then
          let (left, tm) = TimerLeftMS (clock N w) tm in
          do {
            (rc, w) \<leftarrow> mqttwrite N (take len (drop sent buf)) left w;
            if rc < 0 then Some (sent, tm, w) else sendPacket_loop N len buf (sent + nat rc) tm w
          }
        else None
      else Some (sent, tm, w))"

definition sendPacket ::
    "'w net_ops \<Rightarrow> int \<Rightarrow> Timer \<Rightarrow> MQTTClient \<Rightarrow> 'w \<Rightarrow> (int \<times> Timer \<times> MQTTClient \<times> 'w) option" where
  "sendPacket N len tm c w =
     do {
       (sent, tm, w) \<leftarrow> sendPacket_loop N (nat len) (c_buf c) 0 tm w;
       Some (if int sent = len
             then (SUCCESS, tm, c\<lparr>last_sent := TimerCountdown (clock N w) (c_keepAliveInterval c) (last_sent c)\<rparr>, w)
             else (FAILURE, tm, c, w))
     }"

text \<open>Serializing into the send buffer.\<close>

definition into_buf :: "(int \<times> u8 list) option \<Rightarrow> MQTTClient \<Rightarrow> (int \<times> MQTTClient) option" where
  "into_buf r c = do { (len, bytes) \<leftarrow> r; Some (len, c\<lparr>c_buf := buf_write (c_buf c) 0 bytes\<rparr>) }"

section \<open>Packets in\<close>

definition decodePacket :: "'w net_ops \<Rightarrow> u32 \<Rightarrow> 'w \<Rightarrow> (nat \<times> nat \<times> 'w) option" where
  "decodePacket N timeout w =
     MQTTPacket_decode (\<lambda>w. do { (rc, bs, w) \<leftarrow> mqttread N 1 timeout w; Some (rc, if bs = [] then 0 else hd bs, w) }) w"

definition readPacket ::
    "'w net_ops \<Rightarrow> Timer \<Rightarrow> MQTTClient \<Rightarrow> 'w \<Rightarrow> (int \<times> Timer \<times> MQTTClient \<times> 'w) option" where
  "readPacket N tm c w =
     do {
       let (left, tm) = TimerLeftMS (clock N w) tm;
       (rc, bs, w) \<leftarrow> mqttread N 1 left w;
       let c = c\<lparr>c_readbuf := buf_write (c_readbuf c) 0 bs\<rparr>;
       if rc \<noteq> 1 then Some (rc, tm, c, w)
       else do {
         let (left, tm) = TimerLeftMS (clock N w) tm;
         (_, rem_len, w) \<leftarrow> decodePacket N left w;
         let enc = MQTTPacket_encode rem_len;
         let len = 1 + length enc;
         if len > length (c_readbuf c) then None
         else do {
           let c = c\<lparr>c_readbuf := buf_write (c_readbuf c) 1 enc\<rparr>;
           if rem_len > length (c_readbuf c) - len then Some (BUFFER_OVERFLOW, tm, c, w)
           else do {
             (ok, tm, c, w) \<leftarrow>
               (if rem_len > 0 then do {
                  let (left, tm) = TimerLeftMS (clock N w) tm;
                  (rc, bs, w) \<leftarrow> mqttread N rem_len left w;
                  Some (rc = int rem_len, tm, c\<lparr>c_readbuf := buf_write (c_readbuf c) len bs\<rparr>, w)
                }
                else Some (True, tm, c, w));
             Some (if ok then
                     (uint (header_type (c_readbuf c ! 0)), tm,
                      if c_keepAliveInterval c > 0
                      then c\<lparr>last_received := TimerCountdown (clock N w) (c_keepAliveInterval c) (last_received c)\<rparr>
                      else c, w)
                   else (0, tm, c, w))
           }
         }
       }
     }"

section \<open>Message handlers\<close>

text \<open>
  The two pointers of \<^verbatim>\<open>isTopicMatched\<close> as the rests of the filter (a C string) and of the name;
  \<^verbatim>\<open>+\<close> skips to the next separator, \<^verbatim>\<open>#\<close> to the end.
\<close>

definition SLASH :: u8 where "SLASH = 0x2f"
definition PLUS :: u8 where "PLUS = 0x2b"
definition HASH :: u8 where "HASH = 0x23"

fun topic_walk :: "u8 list \<Rightarrow> u8 list \<Rightarrow> bool" where
  "topic_walk (f # fs) (n # ns) =
     (if n = SLASH \<and> f \<noteq> SLASH then False
      else if f \<noteq> PLUS \<and> f \<noteq> HASH \<and> f \<noteq> n then False
      else if f = PLUS then topic_walk fs (dropWhile (\<lambda>x. x \<noteq> SLASH) ns)
      else if f = HASH then topic_walk fs []
      else topic_walk fs ns)"
| "topic_walk fs ns = (ns = [] \<and> fs = [])"

definition isTopicMatched :: "u8 list \<Rightarrow> MQTTString \<Rightarrow> bool" where
  "isTopicMatched tf topicName = topic_walk tf (take (ls_len topicName) (the (ls_data topicName)))"

definition handler_hit :: "MQTTString \<Rightarrow> MessageHandlers \<Rightarrow> bool" where
  "handler_hit topicName h =
     (case topicFilter h of None \<Rightarrow> False
      | Some f \<Rightarrow> MQTTPacket_equals topicName f \<or> isTopicMatched f topicName)"

text \<open>A name without data is an uninitialised pointer: comparing it with a filter is undefined.\<close>

definition deliverMessage :: "MQTTString \<Rightarrow> MQTTMessage \<Rightarrow> MQTTClient \<Rightarrow> (int \<times> MQTTClient) option" where
  "deliverMessage topicName message c =
     (if ls_data topicName = None \<and> (\<exists>h \<in> set (messageHandlers c). topicFilter h \<noteq> None) then None
      else let called = List.map_filter fp (filter (handler_hit topicName) (messageHandlers c)) in
        Some (if called \<noteq> [] then (SUCCESS, c\<lparr>delivered := delivered c @ map (\<lambda>h. (h, topicName, message)) called\<rparr>)
              else case defaultMessageHandler c of
                Some h \<Rightarrow> (SUCCESS, c\<lparr>delivered := delivered c @ [(h, topicName, message)]\<rparr>)
              | None \<Rightarrow> (FAILURE, c)))"

fun slot_index :: "(MessageHandlers \<Rightarrow> bool) \<Rightarrow> MessageHandlers list \<Rightarrow> nat" where
  "slot_index P [] = 0"
| "slot_index P (h # hs) = (if P h then 0 else Suc (slot_index P hs))"

text \<open>The two searches of \<^verbatim>\<open>MQTTSetMessageHandler\<close>; an index behind the array is no slot.\<close>

definition MQTTSetMessageHandler :: "u8 list \<Rightarrow> nat option \<Rightarrow> MQTTClient \<Rightarrow> int \<times> MQTTClient" where
  "MQTTSetMessageHandler tf handler c =
     (let hs = messageHandlers c;
          i = slot_index (\<lambda>h. topicFilter h = Some tf) hs;
          found = i < length hs;
          hs = (if found \<and> handler = None then hs[i := \<lparr>topicFilter = None, fp = None\<rparr>] else hs);
          j = (if found then i else slot_index (\<lambda>h. topicFilter h = None) hs)
      in if handler = None then (if found then SUCCESS else FAILURE, c\<lparr>messageHandlers := hs\<rparr>)
         else if j < length hs
         then (SUCCESS, c\<lparr>messageHandlers := hs[j := \<lparr>topicFilter = Some tf, fp = handler\<rparr>]\<rparr>)
         else (FAILURE, c))"

definition MQTTCleanSession :: "MQTTClient \<Rightarrow> MQTTClient" where
  "MQTTCleanSession c = c\<lparr>messageHandlers := map (\<lambda>h. h\<lparr>topicFilter := None\<rparr>) (messageHandlers c)\<rparr>"

definition MQTTCloseSession :: "MQTTClient \<Rightarrow> MQTTClient" where
  "MQTTCloseSession c =
     (let c = c\<lparr>ping_outstanding := 0, isconnected := 0\<rparr>
      in if c_cleansession c \<noteq> 0 then MQTTCleanSession c else c)"

section \<open>The receive cycle\<close>

definition keepalive :: "'w net_ops \<Rightarrow> MQTTClient \<Rightarrow> 'w \<Rightarrow> (int \<times> MQTTClient \<times> 'w) option" where
  "keepalive N c w =
     (if c_keepAliveInterval c = 0 then Some (SUCCESS, c, w)
      else
        let (e1, t1) = TimerIsExpired (clock N w) (last_sent c); c = c\<lparr>last_sent := t1\<rparr>;
            (e2, t2) = (if e1 then (True, last_received c) else TimerIsExpired (clock N w) (last_received c));
            c = c\<lparr>last_received := t2\<rparr>
        in if e1 \<or> e2 then
             if ping_outstanding c \<noteq> 0 then Some (FAILURE, c, w)
             else do {
               let tm = TimerCountdownMS (clock N w) 1000 TimerInit;
               (len, c) \<leftarrow> into_buf (MQTTSerialize_pingreq (length (c_buf c))) c;
               if len > 0 then do {
                 (rc, tm, c, w) \<leftarrow> sendPacket N len tm c w;
                 Some (rc, if rc = SUCCESS then c\<lparr>ping_outstanding := 1\<rparr> else c, w)
               }
               else Some (SUCCESS, c, w)
             }
           else Some (SUCCESS, c, w))"

text \<open>
  An incoming publish; \<open>out\<close> are the uninitialised locals. The result tells whether the code
  jumps to \<^verbatim>\<open>exit\<close>.
\<close>

definition publish_locals :: "MQTTClient \<Rightarrow> publish_out" where
  "publish_locals c = \<lparr>po_dup = 0, po_qos = 0, po_retained = 0, po_packetid = uninit c,
     po_topic = \<lparr>cstring = None, ls_len = 0, ls_data = None\<rparr>, po_payload = [], po_payloadlen = 0\<rparr>"

definition message_of :: "publish_out \<Rightarrow> MQTTMessage" where
  "message_of out = \<lparr>msg_qos = po_qos out, msg_retained = po_retained out, msg_dup = po_dup out,
     msg_id = po_packetid out, msg_payload = po_payload out, msg_payloadlen = of_int (po_payloadlen out)\<rparr>"

definition cycle_publish ::
    "'w net_ops \<Rightarrow> Timer \<Rightarrow> MQTTClient \<Rightarrow> 'w \<Rightarrow> (bool \<times> int \<times> Timer \<times> MQTTClient \<times> 'w) option" where
  "cycle_publish N tm c w =
     do {
       (r, out) \<leftarrow> MQTTDeserialize_publish (publish_locals c) (c_readbuf c);
       if r \<noteq> 1 then Some (True, SUCCESS, tm, c, w)
       else do {
         let msg = message_of out;
         (_, c) \<leftarrow> deliverMessage (po_topic out) msg c;
         if msg_qos msg \<noteq> QOS0 then do {
           (len, c) \<leftarrow>
             (if msg_qos msg = QOS1 then into_buf (MQTTSerialize_ack (length (c_buf c)) PUBACK 0 (msg_id msg)) c
              else if msg_qos msg = QOS2 then into_buf (MQTTSerialize_ack (length (c_buf c)) PUBREC 0 (msg_id msg)) c
              else Some (0, c));
           (rc, tm, c, w) \<leftarrow> (if len \<le> 0 then Some (FAILURE, tm, c, w) else sendPacket N len tm c w);
           Some (rc = FAILURE, rc, tm, c, w)
         }
         else Some (False, SUCCESS, tm, c, w)
       }
     }"

definition cycle_pubrec ::
    "'w net_ops \<Rightarrow> u8 \<Rightarrow> Timer \<Rightarrow> MQTTClient \<Rightarrow> 'w \<Rightarrow> (bool \<times> int \<times> Timer \<times> MQTTClient \<times> 'w) option" where
  "cycle_pubrec N reply tm c w =
     do {
       (r, out) \<leftarrow> MQTTDeserialize_ack \<lparr>ao_packettype = 0, ao_dup = 0, ao_packetid = uninit c\<rparr> (c_readbuf c);
       if r \<noteq> 1 then Some (True, FAILURE, tm, c, w)
       else do {
         (len, c) \<leftarrow> into_buf (MQTTSerialize_ack (length (c_buf c)) reply 0 (ao_packetid out)) c;
         (rc, tm, c, w) \<leftarrow> (if len \<le> 0 then Some (FAILURE, tm, c, w) else sendPacket N len tm c w);
         let rc = (if rc \<noteq> SUCCESS then FAILURE else rc);
         Some (rc = FAILURE, rc, tm, c, w)
       }
     }"

definition cycle ::
    "'w net_ops \<Rightarrow> Timer \<Rightarrow> MQTTClient \<Rightarrow> 'w \<Rightarrow> (int \<times> Timer \<times> MQTTClient \<times> 'w) option" where
  "cycle N tm c w =
     do {
       (packet_type, tm, c, w) \<leftarrow> readPacket N tm c w;
       (jump, rc, tm, c, w) \<leftarrow>
         (if packet_type = 0 \<or> packet_type \<in> uint ` {CONNACK, PUBACK, SUBACK, UNSUBACK, PUBCOMP}
          then Some (False, SUCCESS, tm, c, w)
          else if packet_type = uint PUBLISH then cycle_publish N tm c w
          else if packet_type = uint PUBREC then cycle_pubrec N PUBREL tm c w
          else if packet_type = uint PUBREL then cycle_pubrec N PUBCOMP tm c w
          else if packet_type = uint PINGRESP then Some (False, SUCCESS, tm, c\<lparr>ping_outstanding := 0\<rparr>, w)
          else Some (True, packet_type, tm, c, w));
       (rc, c, w) \<leftarrow>
         (if jump then Some (rc, c, w)
          else do {
            (k, c, w) \<leftarrow> keepalive N c w;
            Some (if k \<noteq> SUCCESS then FAILURE else rc, c, w)
          });
       Some (if rc = SUCCESS then (packet_type, tm, c, w)
             else (rc, tm, if isconnected c \<noteq> 0 then MQTTCloseSession c else c, w))
     }"

section \<open>Operations\<close>

partial_function (option) MQTTYield_loop ::
    "'w net_ops \<Rightarrow> Timer \<Rightarrow> MQTTClient \<Rightarrow> 'w \<Rightarrow> (int \<times> MQTTClient \<times> 'w) option" where
  "MQTTYield_loop N tm c w =
     do {
       (rc, tm, c, w) \<leftarrow> cycle N tm c w;
       if rc < 0 then Some (FAILURE, c, w)
       else let (expired, tm) = TimerIsExpired (clock N w) tm
         in if expired then Some (SUCCESS, c, w) else MQTTYield_loop N tm c w
     }"

definition MQTTYield :: "'w net_ops \<Rightarrow> u32 \<Rightarrow> MQTTClient \<Rightarrow> 'w \<Rightarrow> (int \<times> MQTTClient \<times> 'w) option" where
  "MQTTYield N timeout_ms c w = MQTTYield_loop N (TimerCountdownMS (clock N w) timeout_ms TimerInit) c w"

partial_function (option) waitfor_loop ::
    "'w net_ops \<Rightarrow> int \<Rightarrow> int \<Rightarrow> Timer \<Rightarrow> MQTTClient \<Rightarrow> 'w \<Rightarrow> (int \<times> Timer \<times> MQTTClient \<times> 'w) option" where
  "waitfor_loop N packet_type rc tm c w =
     (let (expired, tm) = TimerIsExpired (clock N w) tm in
      if expired then Some (rc, tm, c, w)
      else do {
        (rc, tm, c, w) \<leftarrow> cycle N tm c w;
        if rc \<noteq> packet_type \<and> rc \<ge> 0 then waitfor_loop N packet_type rc tm c w else Some (rc, tm, c, w)
      })"

definition waitfor ::
    "'w net_ops \<Rightarrow> u8 \<Rightarrow> Timer \<Rightarrow> MQTTClient \<Rightarrow> 'w \<Rightarrow> (int \<times> Timer \<times> MQTTClient \<times> 'w) option" where
  "waitfor N packet_type tm c w = waitfor_loop N (uint packet_type) FAILURE tm c w"

definition command_timer :: "'w net_ops \<Rightarrow> MQTTClient \<Rightarrow> 'w \<Rightarrow> Timer" where
  "command_timer N c w = TimerCountdownMS (clock N w) (command_timeout_ms c) TimerInit"

definition MQTTPacket_connectData_initializer :: MQTTPacket_connectData where
  "MQTTPacket_connectData_initializer = \<lparr>MQTTVersion = 4, clientID = MQTTString_initializer,
     keepAliveInterval = 60, cleansession = 1, willFlag = 0, will_topicName = MQTTString_initializer,
     will_message = MQTTString_initializer, will_retained = 0, will_qos = 0,
     username = MQTTString_initializer, password = MQTTString_initializer\<rparr>"

text \<open>The options may be NULL; the result data are written when a CONNACK came.\<close>

definition MQTTConnectWithResults ::
    "'w net_ops \<Rightarrow> MQTTPacket_connectData option \<Rightarrow> connack_out \<Rightarrow> MQTTClient \<Rightarrow> 'w \<Rightarrow>
     (int \<times> connack_out \<times> MQTTClient \<times> 'w) option" where
  "MQTTConnectWithResults N options data c w =
     (if isconnected c \<noteq> 0 then Some (FAILURE, data, c, w)
      else do {
        let tm = command_timer N c w;
        let d = (case options of Some d \<Rightarrow> d | None \<Rightarrow> MQTTPacket_connectData_initializer);
        let c = c\<lparr>c_keepAliveInterval := ucast (keepAliveInterval d), c_cleansession := uint (cleansession d)\<rparr>;
        let c = c\<lparr>last_received := TimerCountdown (clock N w) (c_keepAliveInterval c) (last_received c)\<rparr>;
        (len, c) \<leftarrow> into_buf (MQTTSerialize_connect (length (c_buf c)) d) c;
        if len \<le> 0 then Some (FAILURE, data, c, w)
        else do {
          (rc, tm, c, w) \<leftarrow> sendPacket N len tm c w;
          if rc \<noteq> SUCCESS then Some (rc, data, c, w)
          else do {
            (r, tm, c, w) \<leftarrow> waitfor N CONNACK tm c w;
            (rc, data) \<leftarrow>
              (if r = uint CONNACK then do {
                 (r, data) \<leftarrow> MQTTDeserialize_connack (data\<lparr>co_connack_rc := 0, co_sessionPresent := 0\<rparr>) (c_readbuf c);
                 Some (if r = 1 then uint (co_connack_rc data) else FAILURE, data)
               }
               else Some (FAILURE, data));
            Some (rc, data, if rc = SUCCESS then c\<lparr>isconnected := 1, ping_outstanding := 0\<rparr> else c, w)
          }
        }
      })"

definition MQTTConnect ::
    "'w net_ops \<Rightarrow> MQTTPacket_connectData option \<Rightarrow> MQTTClient \<Rightarrow> 'w \<Rightarrow> (int \<times> MQTTClient \<times> 'w) option" where
  "MQTTConnect N options c w =
     do {
       (rc, _, c, w) \<leftarrow> MQTTConnectWithResults N options \<lparr>co_sessionPresent = 0, co_connack_rc = 0\<rparr> c w;
       Some (rc, c, w)
     }"

text \<open>The common end of the operations below.\<close>

definition finish :: "int \<times> MQTTClient \<times> 'w \<Rightarrow> int \<times> MQTTClient \<times> 'w" where
  "finish r = (let (rc, c, w) = r in (rc, if rc = FAILURE then MQTTCloseSession c else c, w))"

definition cstr :: "u8 list \<Rightarrow> MQTTString" where
  "cstr s = MQTTString_initializer\<lparr>cstring := Some s\<rparr>"

definition MQTTSubscribeWithResults ::
    "'w net_ops \<Rightarrow> u8 list \<Rightarrow> int \<Rightarrow> nat option \<Rightarrow> int \<Rightarrow> MQTTClient \<Rightarrow> 'w \<Rightarrow>
     (int \<times> int \<times> MQTTClient \<times> 'w) option" where
  "MQTTSubscribeWithResults N tf qos handler grantedQoS c w =
     do {
       (g, r) \<leftarrow>
         (if isconnected c = 0 then Some (grantedQoS, FAILURE, c, w)
          else do {
            let tm = command_timer N c w;
            let (i, c) = getNextPacketId c;
            (len, c) \<leftarrow> into_buf (MQTTSerialize_subscribe (length (c_buf c)) 0 (ucast i) [(cstr tf, qos)]) c;
            if len \<le> 0 then Some (grantedQoS, FAILURE, c, w)
            else do {
              (rc, tm, c, w) \<leftarrow> sendPacket N len tm c w;
              if rc \<noteq> SUCCESS then Some (grantedQoS, rc, c, w)
              else do {
                (p, tm, c, w) \<leftarrow> waitfor N SUBACK tm c w;
                if p = uint SUBACK then do {
                  (r, out) \<leftarrow> MQTTDeserialize_suback \<lparr>so_packetid = uninit c, so_count = 0, so_grantedQoSs = [QOS0]\<rparr> 1 (c_readbuf c);
                  let g = so_grantedQoSs out ! 0;
                  let (rc, c) = (if r = 1 \<and> g \<noteq> SUBFAIL then MQTTSetMessageHandler tf handler c else (rc, c));
                  Some (g, rc, c, w)
                }
                else Some (grantedQoS, FAILURE, c, w)
              }
            }
          });
       let (rc, c, w) = finish r;
       Some (rc, g, c, w)
     }"

definition MQTTSubscribe ::
    "'w net_ops \<Rightarrow> u8 list \<Rightarrow> int \<Rightarrow> nat option \<Rightarrow> MQTTClient \<Rightarrow> 'w \<Rightarrow> (int \<times> MQTTClient \<times> 'w) option" where
  "MQTTSubscribe N tf qos handler c w =
     do { (rc, _, c, w) \<leftarrow> MQTTSubscribeWithResults N tf qos handler 0 c w; Some (rc, c, w) }"

definition MQTTUnsubscribe ::
    "'w net_ops \<Rightarrow> u8 list \<Rightarrow> MQTTClient \<Rightarrow> 'w \<Rightarrow> (int \<times> MQTTClient \<times> 'w) option" where
  "MQTTUnsubscribe N tf c w =
     map_option finish
       (if isconnected c = 0 then Some (FAILURE, c, w)
        else do {
          let tm = command_timer N c w;
          let (i, c) = getNextPacketId c;
          (len, c) \<leftarrow> into_buf (MQTTSerialize_unsubscribe (length (c_buf c)) 0 (ucast i) [cstr tf]) c;
          if len \<le> 0 then Some (FAILURE, c, w)
          else do {
            (rc, tm, c, w) \<leftarrow> sendPacket N len tm c w;
            if rc \<noteq> SUCCESS then Some (rc, c, w)
            else do {
              (p, tm, c, w) \<leftarrow> waitfor N UNSUBACK tm c w;
              if p = uint UNSUBACK then do {
                (r, _) \<leftarrow> MQTTDeserialize_unsuback (uninit c) (c_readbuf c);
                Some (rc, if r = 1 then snd (MQTTSetMessageHandler tf None c) else c, w)
              }
              else Some (FAILURE, c, w)
            }
          }
        })"

text \<open>Waiting for the acknowledgement of a publish.\<close>

definition publish_ack ::
    "'w net_ops \<Rightarrow> u8 \<Rightarrow> Timer \<Rightarrow> MQTTClient \<Rightarrow> 'w \<Rightarrow> (int \<times> MQTTClient \<times> 'w) option" where
  "publish_ack N ack tm c w =
     do {
       (p, tm, c, w) \<leftarrow> waitfor N ack tm c w;
       if p = uint ack then do {
         (r, _) \<leftarrow> MQTTDeserialize_ack \<lparr>ao_packettype = 0, ao_dup = 0, ao_packetid = uninit c\<rparr> (c_readbuf c);
         Some (if r \<noteq> 1 then FAILURE else SUCCESS, c, w)
       }
       else Some (FAILURE, c, w)
     }"

definition MQTTPublish ::
    "'w net_ops \<Rightarrow> u8 list \<Rightarrow> MQTTMessage \<Rightarrow> MQTTClient \<Rightarrow> 'w \<Rightarrow> (int \<times> MQTTMessage \<times> MQTTClient \<times> 'w) option" where
  "MQTTPublish N topicName message c w =
     do {
       (m, r) \<leftarrow>
         (if isconnected c = 0 then Some (message, FAILURE, c, w)
          else do {
            let tm = command_timer N c w;
            let (message, c) =
              (if msg_qos message = QOS1 \<or> msg_qos message = QOS2
               then let (i, c) = getNextPacketId c in (message\<lparr>msg_id := ucast i\<rparr>, c)
               else (message, c));
            (len, c) \<leftarrow> into_buf (MQTTSerialize_publish (length (c_buf c)) 0 (msg_qos message) (msg_retained message)
              (msg_id message) (cstr topicName) (msg_payload message) (unat (msg_payloadlen message))) c;
            if len \<le> 0 then Some (message, FAILURE, c, w)
            else do {
              (rc, tm, c, w) \<leftarrow> sendPacket N len tm c w;
              if rc \<noteq> SUCCESS then Some (message, rc, c, w)
              else if msg_qos message = QOS1 then do { r \<leftarrow> publish_ack N PUBACK tm c w; Some (message, r) }
              else if msg_qos message = QOS2 then do { r \<leftarrow> publish_ack N PUBCOMP tm c w; Some (message, r) }
              else Some (message, rc, c, w)
            }
          });
       let (rc, c, w) = finish r;
       Some (rc, m, c, w)
     }"

definition MQTTDisconnect :: "'w net_ops \<Rightarrow> MQTTClient \<Rightarrow> 'w \<Rightarrow> (int \<times> MQTTClient \<times> 'w) option" where
  "MQTTDisconnect N c w =
     do {
       let tm = command_timer N c w;
       (len, c) \<leftarrow> into_buf (MQTTSerialize_disconnect (length (c_buf c))) c;
       (rc, tm, c, w) \<leftarrow> (if len > 0 then sendPacket N len tm c w else Some (FAILURE, tm, c, w));
       Some (rc, MQTTCloseSession c, w)
     }"

text \<open>\<^verbatim>\<open>NetworkInit\<close>: the functions of the Ethernet socket.\<close>

definition freertos_net :: "sock_world net_ops" where
  "freertos_net = \<lparr>mqttread = FreeRTOS_read, mqttwrite = FreeRTOS_write, clock = now\<rparr>"

end
