(* ===== verification/Mqtt_Properties.thy ===== *)
theory Mqtt_Properties
  imports Mqtt_Messages
begin

text \<open>Round trips of the MQTT messages, packet sizes, and what malformed packets do.\<close>

section \<open>Strings\<close>

text \<open>What a string stands for, and when its two representations do not contradict each other.\<close>

definition str_bytes :: "MQTTString \<Rightarrow> u8 list" where
  "str_bytes s = (if ls_len s > 0 then take (ls_len s) (the (ls_data s))
     else case cstring s of Some c \<Rightarrow> c | None \<Rightarrow> [])"

definition str_ok :: "MQTTString \<Rightarrow> bool" where
  "str_ok s \<longleftrightarrow> MQTTstrlen s < 65536 \<and>
     (ls_len s > 0 \<longrightarrow> cstring s = None \<and> (\<exists>d. ls_data s = Some d \<and> ls_len s \<le> length d))"

definition lenstr :: "u8 list \<Rightarrow> MQTTString" where
  "lenstr c = \<lparr>cstring = None, ls_len = length c, ls_data = Some c\<rparr>"

lemma str_ok_length: "str_ok s \<Longrightarrow> MQTTstrlen s = length (str_bytes s) \<and> length (str_bytes s) < 65536"
  by (auto simp: str_ok_def str_bytes_def MQTTstrlen_def split: option.splits)

lemma write_str: "str_ok s \<Longrightarrow> writeMQTTString s = Some (writeInt (length (str_bytes s)) @ str_bytes s)"
  by (auto simp: str_ok_def str_bytes_def writeMQTTString_def writeCString_def split: option.splits)

lemma length_writeInt [simp]: "length (writeInt n) = 2"
  by (simp add: writeInt_def)

lemma length_writeChar [simp]: "length (writeChar c) = 1"
  by (simp add: writeChar_def)

lemma read_str:
  "length c < 65536 \<Longrightarrow> 2 + int (length c) \<le> n \<Longrightarrow>
     readMQTTLenString s (writeInt (length c) @ c @ r) n = Some (True, lenstr c, r, n - 2 - int (length c))"
  by (simp add: readMQTTLenString_def int16.get_put lenstr_def)

section \<open>Packets\<close>

lemma packet_len:
  "n < 268435456 \<Longrightarrow> 1 + length (MQTTPacket_encode n) + n \<le> MQTTPacket_len n"
  by (simp add: length_encode MQTTPacket_len_def Let_def)

lemma decode_packet:
  "n < 268435456 \<Longrightarrow> MQTTPacket_decodeBuf (MQTTPacket_encode n @ r) = Some (length (MQTTPacket_encode n), n, r) \<and>
     drop (length (MQTTPacket_encode n)) (MQTTPacket_encode n @ r) = r"
  by (simp add: decodeBuf_encode)

lemma readChar_writeChar [simp]: "readChar (writeChar c @ r) = Some (c, r)"
  by (simp add: writeChar_def)

lemma msg_type_nibble [simp]:
  "CONNECT AND 15 = CONNECT" "CONNACK AND 15 = CONNACK" "PUBLISH AND 15 = PUBLISH" "SUBSCRIBE AND 15 = SUBSCRIBE"
  "SUBACK AND 15 = SUBACK" "UNSUBSCRIBE AND 15 = UNSUBSCRIBE" "UNSUBACK AND 15 = UNSUBACK"
  by (simp_all add: msg_types)

lemma readInt_u16 [simp]: "readInt (writeInt (unat (p :: u16)) @ r) = Some (unat p, r)"
  using unsigned_less [of p, where ?'a = nat] by (intro int16.get_put) simp

lemma uint_qos: "0 \<le> q \<Longrightarrow> q \<le> 3 \<Longrightarrow> uint ((of_int q :: u8) AND 3) = q"
proof -
  assume "0 \<le> q" "q \<le> 3"
  then have "q \<in> {0, 1, 2, 3}" by auto
  then show ?thesis by auto
qed

definition publish_out_zero :: publish_out where
  "publish_out_zero = \<lparr>po_dup = 0, po_qos = 0, po_retained = 0, po_packetid = 0,
     po_topic = MQTTString_initializer, po_payload = [], po_payloadlen = 0\<rparr>"

text \<open>A publish packet on the wire and what the parser makes of it.\<close>

definition publish_packet :: "u8 \<Rightarrow> int \<Rightarrow> u8 \<Rightarrow> u16 \<Rightarrow> u8 list \<Rightarrow> u8 list \<Rightarrow> u8 list" where
  "publish_packet dup qos retained packetid topic payload =
     (let var = (writeInt (length topic) @ topic) @ (if qos > 0 then writeInt (unat packetid) else []) @ payload
      in writeChar (header_byte PUBLISH dup (of_int qos) retained) @ MQTTPacket_encode (length var) @ var)"

lemma publish_packet_read:
  assumes "length topic < 65536" and "0 \<le> qos" and "qos \<le> 2"
    and "2 + length topic + (if qos > 0 then 2 else 0) + length payload < 268435456"
  shows "MQTTDeserialize_publish out (publish_packet dup qos retained packetid topic payload @ rest) =
    Some (1, out\<lparr>po_dup := dup AND 1, po_qos := qos, po_retained := retained AND 1,
      po_packetid := (if qos > 0 then packetid else po_packetid out), po_topic := lenstr topic,
      po_payload := payload @ rest, po_payloadlen := int (length payload)\<rparr>)"
proof -
  let ?id = "if qos > 0 then writeInt (unat packetid) else []"
  let ?var = "(writeInt (length topic) @ topic) @ ?id @ payload"
  define n where "n = length ?var"
  have n: "n < 268435456" "2 + int (length topic) \<le> int n" using assms(4) by (simp_all add: n_def split: if_splits)
  show ?thesis
    using decode_packet [OF n(1), of "writeInt (length topic) @ topic @ ?id @ payload @ rest"]
      read_str [OF assms(1) n(2), of "po_topic out" "?id @ payload @ rest"] uint_qos [of qos] assms(2,3)
    unfolding publish_packet_def Let_def n_def [symmetric]
    by (simp add: MQTTDeserialize_publish_def Let_def) (simp add: n_def)
qed

lemma publish_serialized:
  assumes "str_ok topic" and n: "n = MQTTSerialize_publishLength qos topic (length payload)"
    and "n < 268435456" and "MQTTPacket_len n \<le> buflen"
  shows "let bytes = publish_packet dup qos retained packetid (str_bytes topic) payload
    in MQTTSerialize_publish buflen dup qos retained packetid topic payload (length payload) =
        Some (int (length bytes), bytes) \<and> length bytes \<le> buflen \<and> length (str_bytes topic) < 65536 \<and>
      2 + length (str_bytes topic) + (if qos > 0 then 2 else 0) + length payload < 268435456"
proof -
  let ?c = "str_bytes topic"
  let ?id = "if qos > 0 then writeInt (unat packetid) else []"
  let ?bytes = "publish_packet dup qos retained packetid ?c payload"
  have c: "MQTTstrlen topic = length ?c" "length ?c < 65536" using str_ok_length [OF assms(1)] by auto
  have n': "n = length ((writeInt (length ?c) @ ?c) @ ?id @ payload)"
    using c by (simp add: n MQTTSerialize_publishLength_def)
  have b: "?bytes = writeChar (header_byte PUBLISH dup (of_int qos) retained) @ MQTTPacket_encode n @
      (writeInt (length ?c) @ ?c) @ ?id @ payload"
    by (simp add: publish_packet_def n')
  have len: "length ?bytes \<le> buflen"
    using packet_len [OF assms(3)] assms(4) n' by (simp add: b)
  have "MQTTSerialize_publish buflen dup qos retained packetid topic payload (length payload) =
      Some (int (length ?bytes), ?bytes)"
    using len assms(4) write_str [OF assms(1)]
    by (simp add: MQTTSerialize_publish_def emit_def n [symmetric] b Let_def)
  moreover have "2 + length ?c + (if qos > 0 then 2 else 0) + length payload < 268435456"
    using assms(3) n' by (simp split: if_splits)
  ultimately show ?thesis using len c(2) by (simp add: Let_def)
qed

section \<open>Properties\<close>

text \<open>C26: The remaining length. Any length the protocol allows is read back exactly, whatever follows,
  takes one to four bytes, and \<^verbatim>\<open>MQTTPacket_len\<close> is the exact size of the packet except at
  four lengths, where it is one too large.\<close>

theorem remaining_length_roundtrip:
  assumes "n < 268435456"
  shows "MQTTPacket_decodeBuf (MQTTPacket_encode n @ rest) = Some (length (MQTTPacket_encode n), n, rest) \<and>
    length (MQTTPacket_encode n) \<in> {1, 2, 3, 4} \<and>
    MQTTPacket_len n = 1 + length (MQTTPacket_encode n) + n +
      (if n \<in> {127, 16383, 2097150, 2097151} then 1 else 0)"
  using decodeBuf_encode [OF assms, of rest] assms
  by (auto simp: length_encode MQTTPacket_len_def Let_def)

theorem remaining_length_roundtrip_witness:
  "MQTTPacket_decodeBuf (MQTTPacket_encode 268435455 @ [7]) = Some (4, 268435455, [7]) \<and>
   MQTTPacket_len 127 = 130"
  using remaining_length_roundtrip [of 268435455 "[7]"] remaining_length_roundtrip [of 127 "[]"]
  by (simp add: length_encode)

text \<open>C3: A publish message. If the buffer has the size \<^verbatim>\<open>MQTTPacket_len\<close> announces, serializing writes
  inside it, and deserializing what was written, wherever it is followed by other data, succeeds
  and gives topic, payload, QoS, flags and (for QoS above 0) the packet identifier back.\<close>

theorem publish_roundtrip:
  assumes "str_ok topic" and "0 \<le> qos" and "qos \<le> 2"
    and n: "n = MQTTSerialize_publishLength qos topic (length payload)"
    and "n < 268435456" and "MQTTPacket_len n \<le> buflen"
  shows "\<exists>bytes. MQTTSerialize_publish buflen dup qos retained packetid topic payload (length payload) =
      Some (int (length bytes), bytes) \<and> length bytes \<le> buflen \<and>
    MQTTDeserialize_publish out (bytes @ rest) = Some (1, out\<lparr>po_dup := dup AND 1, po_qos := qos,
      po_retained := retained AND 1, po_packetid := (if qos > 0 then packetid else po_packetid out),
      po_topic := lenstr (str_bytes topic), po_payload := payload @ rest, po_payloadlen := int (length payload)\<rparr>)"
  using publish_serialized [OF assms(1,4,5,6), of dup retained packetid] publish_packet_read [OF _ assms(2,3), of "str_bytes topic"]
  unfolding Let_def by blast

theorem publish_roundtrip_witness:
  "\<exists>bytes. MQTTSerialize_publish 64 0 1 0 7 (lenstr [0x61]) [1, 2, 3] (length [1, 2, 3 :: u8]) =
      Some (int (length bytes), bytes) \<and> length bytes \<le> 64"
proof -
  have "str_ok (lenstr [0x61])" by (simp add: str_ok_def lenstr_def MQTTstrlen_def)
  moreover have "MQTTSerialize_publishLength 1 (lenstr [0x61]) (length [1, 2, 3 :: u8]) = 8"
    by (simp add: MQTTSerialize_publishLength_def MQTTstrlen_def lenstr_def)
  moreover have "MQTTPacket_len 8 \<le> 64" by (simp add: MQTTPacket_len_def)
  ultimately show ?thesis
    using publish_roundtrip [of "lenstr [0x61]" 1 8 "[1, 2, 3]" 64 0 0 7 publish_out_zero "[]"] by auto
qed

text \<open>A truncated acknowledgement counts as one. A CONNACK or ACK packet whose length field is 0 or 1
  is reported with return code 1, success, although none of the result values was read.\<close>

theorem truncated_ack_accepted:
  assumes "l < 2"
  shows "(header_type h = CONNACK \<longrightarrow> MQTTDeserialize_connack out ([h, of_nat l] @ rest) = Some (1, out)) \<and>
    (\<exists>o'. MQTTDeserialize_ack ao ([h, of_nat l] @ rest) = Some (1, o') \<and> ao_packetid o' = ao_packetid ao)"
proof -
  have "MQTTPacket_encode l = [of_nat l]" using assms by (subst MQTTPacket_encode.simps) (simp add: Let_def)
  then have "MQTTPacket_decodeBuf (of_nat l # rest) = Some (1, l, rest)"
    using decodeBuf_encode [of l rest] assms by simp
  then show ?thesis
    using assms by (simp add: MQTTDeserialize_connack_def MQTTDeserialize_ack_def Let_def)
qed

theorem truncated_ack_accepted_witness:
  "MQTTDeserialize_connack \<lparr>co_sessionPresent = 9, co_connack_rc = 0\<rparr> ([0x20, of_nat 0] @ []) =
     Some (1, \<lparr>co_sessionPresent = 9, co_connack_rc = 0\<rparr>)"
proof -
  have "header_type 0x20 = CONNACK" by (simp add: header_type_def CONNACK_def)
  then show ?thesis
    using truncated_ack_accepted [of 0 "0x20" "\<lparr>co_sessionPresent = 9, co_connack_rc = 0\<rparr>" "[]"] by simp
qed

text \<open>A malformed publish is accepted: with QoS above 0 and a topic that fills the packet, the packet
  identifier is read behind the packet and success is returned with a payload length of -2.\<close>

theorem publish_without_identifier:
  assumes "length topic < 65536" and "q \<in> {1, 2, 3}"
  shows "\<exists>o'. MQTTDeserialize_publish out (writeChar (header_byte PUBLISH d q r) @
      MQTTPacket_encode (length topic + 2) @ writeInt (length topic) @ topic @ writeInt (unat (x :: u16)) @ rest) = Some (1, o') \<and>
    po_payloadlen o' = -2 \<and> po_packetid o' = x"
proof -
  have n: "length topic + 2 < 268435456" using assms(1) by simp
  have q: "q AND 3 = q" "0 < uint q" using assms(2) by auto
  show ?thesis
    using decode_packet [OF n, of "writeInt (length topic) @ topic @ writeInt (unat x) @ rest"]
      read_str [OF assms(1), of "int (length topic + 2)" "po_topic out" "writeInt (unat x) @ rest"] q
    by (simp add: MQTTDeserialize_publish_def Let_def)
qed

theorem publish_without_identifier_witness:
  "\<exists>o'. MQTTDeserialize_publish publish_out_zero (writeChar (header_byte PUBLISH 0 1 0) @
      MQTTPacket_encode (length [0x61 :: u8] + 2) @ writeInt (length [0x61 :: u8]) @ [0x61] @ writeInt (unat (5 :: u16)) @ []) = Some (1, o') \<and>
    po_payloadlen o' = -2"
  using publish_without_identifier [of "[0x61]" 1 publish_out_zero 0 0 5 "[]"] by auto

section \<open>Connect\<close>

definition connect_ok :: "MQTTPacket_connectData \<Rightarrow> bool" where
  "connect_ok d \<longleftrightarrow> MQTTVersion d = 4 \<and> str_ok (clientID d) \<and> willFlag d \<in> {0, 1} \<and>
     (willFlag d = 1 \<longrightarrow> str_ok (will_topicName d) \<and> str_ok (will_message d)) \<and>
     (MQTTString_present (username d) \<longrightarrow> str_ok (username d) \<and> str_bytes (username d) \<noteq> []) \<and>
     (MQTTString_present (password d) \<longrightarrow> str_ok (password d) \<and> str_bytes (password d) \<noteq> [] \<and>
        MQTTString_present (username d))"

lemma and_1_eq_iff: "(x :: u8) AND 1 = y AND 1 \<longleftrightarrow> bit x 0 = bit y 0"
  unfolding bit_eq_iff [of "x AND 1"] mask_bits possible_bit_word by (auto dest: spec [of _ 0])

lemma and_3_eq_iff: "(x :: u8) AND 3 = y AND 3 \<longleftrightarrow> bit x 0 = bit y 0 \<and> bit x 1 = bit y 1"
  unfolding bit_eq_iff [of "x AND 3"] mask_bits possible_bit_word
  by (auto simp: less_2_cases_iff dest: spec [of _ 0] spec [of _ "Suc 0"])

lemma connect_flags_fields [simp]:
  "flag_cleansession (connect_flags c w q r p u) = c AND 1" "flag_will (connect_flags c w q r p u) = w AND 1"
  "flag_willQoS (connect_flags c w q r p u) = q AND 3" "flag_willRetain (connect_flags c w q r p u) = r AND 1"
  "flag_password (connect_flags c w q r p u) = p AND 1" "flag_username (connect_flags c w q r p u) = u AND 1"
proof -
  have bit: "bit (connect_flags c w q r p u) n \<longleftrightarrow>
      (if n = 1 then bit c 0 else if n = 2 then bit w 0 else if n = 3 then bit q 0 else if n = 4 then bit q 1
       else if n = 5 then bit r 0 else if n = 6 then bit p 0 else n = 7 \<and> bit u 0)" for n
  proof (cases "n < 8")
    case True
    then have "n = 0 \<or> n = 1 \<or> n = 2 \<or> n = 3 \<or> n = 4 \<or> n = 5 \<or> n = 6 \<or> n = 7" by linarith
    then show ?thesis
      unfolding connect_flags_def bit_or_iff bit_push_bit_iff mask_bits possible_bit_word
      by (elim disjE) simp_all
  next
    case False
    then show ?thesis by (auto dest: bit_imp_le_length)
  qed
  show "flag_cleansession (connect_flags c w q r p u) = c AND 1" "flag_will (connect_flags c w q r p u) = w AND 1"
    "flag_willQoS (connect_flags c w q r p u) = q AND 3" "flag_willRetain (connect_flags c w q r p u) = r AND 1"
    "flag_password (connect_flags c w q r p u) = p AND 1" "flag_username (connect_flags c w q r p u) = u AND 1"
    unfolding flag_cleansession_def flag_will_def flag_willQoS_def flag_willRetain_def
        flag_password_def flag_username_def and_1_eq_iff and_3_eq_iff bit_drop_bit_eq comp_apply bit
    by simp_all
qed

lemma read_proto:
  "readMQTTLenString s (writeInt 4 @ MQTT_name @ r) n = Some (True, lenstr MQTT_name, r, n - 6)"
  if "6 \<le> n"
proof -
  have "length MQTT_name = 4" by (simp add: MQTT_name_def)
  then show ?thesis using that read_str [of MQTT_name n s r] by simp
qed

lemma connect_will_read:
  assumes "w = (if k = 1 then (writeInt (length t) @ t) @ writeInt (length m) @ m else [])" and "k \<in> {0, 1}"
    and "k = 1 \<longrightarrow> length t < 65536 \<and> length m < 65536" and "flag_will flags = k" and "int (length w) \<le> left"
  shows "connect_will data flags (w @ r) left = Some (True,
    (if k = 1 then data\<lparr>willFlag := 1, will_qos := flag_willQoS flags, will_retained := flag_willRetain flags,
        will_topicName := lenstr t, will_message := lenstr m\<rparr> else data\<lparr>willFlag := 0\<rparr>), r, left - int (length w))"
proof (cases "k = 1")
  case True
  then show ?thesis
    using assms read_str [of t left "will_topicName data" "writeInt (length m) @ m @ r"]
      read_str [of m "left - 2 - int (length t)" "will_message data" r]
    by (simp add: connect_will_def Let_def)
next
  case False
  then show ?thesis using assms by (simp add: connect_will_def Let_def)
qed

lemma connect_user_read:
  assumes "uf \<longrightarrow> length u < 65536 \<and> u \<noteq> []" and "pf \<longrightarrow> uf \<and> length p < 65536 \<and> p \<noteq> []"
    and "flag_username flags = (if uf then 1 else 0)" and "flag_password flags = (if pf then 1 else 0)"
    and "left = (if uf then 2 + int (length u) else 0) + (if pf then 2 + int (length p) else 0)"
  shows "connect_user data flags ((if uf then writeInt (length u) @ u else []) @
      (if pf then writeInt (length p) @ p else []) @ r) left =
    Some (True, (let data = (if uf then data\<lparr>username := lenstr u\<rparr> else data)
      in if pf then data\<lparr>password := lenstr p\<rparr> else data))"
proof -
  have pos: "uf \<Longrightarrow> 0 < length u" "pf \<Longrightarrow> 0 < length p" using assms(1,2) by auto
  show ?thesis
    using assms pos
    by (cases uf; cases pf) (simp_all add: connect_user_def read_str Let_def not_less)
qed

text \<open>C7: Connection requests. For protocol version 4 with consistent strings (and a user name whenever
  there is a password), the server's parser recovers every field the client serialized, and the
  packet fits the announced size.\<close>

theorem connect_roundtrip:
  assumes ok: "connect_ok d" and small: "MQTTSerialize_connectLength d < 268435456"
    and fits: "MQTTPacket_len (MQTTSerialize_connectLength d) \<le> buflen"
  shows "\<exists>bytes d'. MQTTSerialize_connect buflen d = Some (int (length bytes), bytes) \<and> length bytes \<le> buflen \<and>
    MQTTDeserialize_connect d0 (bytes @ rest) (length bytes) = Some (1, d') \<and>
    clientID d' = lenstr (str_bytes (clientID d)) \<and> keepAliveInterval d' = keepAliveInterval d \<and>
    cleansession d' = cleansession d AND 1 \<and> willFlag d' = willFlag d \<and>
    (willFlag d = 1 \<longrightarrow> will_topicName d' = lenstr (str_bytes (will_topicName d)) \<and>
       will_message d' = lenstr (str_bytes (will_message d)) \<and> will_qos d' = will_qos d AND 3 \<and>
       will_retained d' = will_retained d AND 1) \<and>
    (MQTTString_present (username d) \<longrightarrow> username d' = lenstr (str_bytes (username d))) \<and>
    (MQTTString_present (password d) \<longrightarrow> password d' = lenstr (str_bytes (password d)))"
proof -
  let ?n = "MQTTSerialize_connectLength d"
  let ?cid = "str_bytes (clientID d)" and ?t = "str_bytes (will_topicName d)" and ?m = "str_bytes (will_message d)"
  let ?u = "str_bytes (username d)" and ?p = "str_bytes (password d)"
  let ?uf = "MQTTString_present (username d)" and ?pf = "MQTTString_present (password d)"
  define w where "w = (if willFlag d = 1 then (writeInt (length ?t) @ ?t) @ writeInt (length ?m) @ ?m else [])"
  define us where "us = (if ?uf then writeInt (length ?u) @ ?u else [])"
  define ps where "ps = (if ?pf then writeInt (length ?p) @ ?p else [])"
  define flags where "flags = connect_flags (cleansession d) (if willFlag d \<noteq> 0 then 1 else 0)
    (if willFlag d \<noteq> 0 then will_qos d else 0) (if willFlag d \<noteq> 0 then will_retained d else 0)
    (if ?pf then 1 else 0) (if ?uf then 1 else 0)"
  let ?tail = "writeChar flags @ writeInt (unat (keepAliveInterval d)) @ (writeInt (length ?cid) @ ?cid) @ w @ us @ ps"
  define bytes where "bytes = writeChar (header_byte CONNECT 0 0 0) @ MQTTPacket_encode ?n @
    (writeInt 4 @ MQTT_name @ writeChar 4) @ ?tail"
  have wf: "willFlag d \<in> {0, 1}" "willFlag d \<noteq> 0 \<longleftrightarrow> willFlag d = 1" using ok by (auto simp: connect_ok_def)
  have cid: "MQTTstrlen (clientID d) = length ?cid" "length ?cid < 65536"
    using ok str_ok_length by (auto simp: connect_ok_def)
  have will: "willFlag d = 1 \<Longrightarrow> MQTTstrlen (will_topicName d) = length ?t \<and> length ?t < 65536 \<and>
      MQTTstrlen (will_message d) = length ?m \<and> length ?m < 65536"
    using ok str_ok_length by (auto simp: connect_ok_def)
  have user: "?uf \<Longrightarrow> MQTTstrlen (username d) = length ?u \<and> length ?u < 65536 \<and> ?u \<noteq> []"
    using ok str_ok_length by (auto simp: connect_ok_def)
  have pass: "?pf \<Longrightarrow> MQTTstrlen (password d) = length ?p \<and> length ?p < 65536 \<and> ?p \<noteq> [] \<and> ?uf"
    using ok str_ok_length by (auto simp: connect_ok_def)
  have n: "?n = 12 + length ?cid + length w + length us + length ps"
    using ok cid wf will user pass
    by (simp add: MQTTSerialize_connectLength_def connect_ok_def w_def us_def ps_def)
  have lb: "length bytes = 1 + length (MQTTPacket_encode ?n) + ?n"
    unfolding n by (simp add: bytes_def MQTT_name_def n)
  then have fit: "length bytes \<le> buflen" using packet_len [OF small] fits by simp
  have "MQTTSerialize_connect buflen d = Some (int (length bytes), bytes)"
  proof -
    have "writeCString MQTT_name = writeInt 4 @ MQTT_name" by (simp add: writeCString_def MQTT_name_def eval_nat_numeral)
    moreover have "(if willFlag d \<noteq> 0 then do { t \<leftarrow> writeMQTTString (will_topicName d);
        m \<leftarrow> writeMQTTString (will_message d); Some (t @ m) } else Some []) = Some w"
      using ok wf by (auto simp: w_def connect_ok_def write_str)
    moreover have "(if ?uf then writeMQTTString (username d) else Some []) = Some us"
        "(if ?pf then writeMQTTString (password d) else Some []) = Some ps"
        "writeMQTTString (clientID d) = Some (writeInt (length ?cid) @ ?cid)" "MQTTVersion d = 4"
      using ok by (auto simp: connect_ok_def write_str us_def ps_def)
    moreover have "emit buflen bytes = Some (int (length bytes), bytes)" using fit by (simp add: emit_def)
    moreover have "flags = connect_flags (cleansession d) (if willFlag d \<noteq> 0 then 1 else 0)
        (if (if willFlag d \<noteq> 0 then 1 else 0) = (1 :: u8) then will_qos d else 0)
        (if (if willFlag d \<noteq> 0 then 1 else 0) = (1 :: u8) then will_retained d else 0)
        (if ?pf then 1 else 0) (if ?uf then 1 else 0)"
      by (simp add: flags_def)
    ultimately show ?thesis
      using fits unfolding MQTTSerialize_connect_def Let_def
      by (simp only: not_less if_True if_False Option.bind_lunit) (simp add: bytes_def not_less [symmetric] fits)
  qed
  moreover have "\<exists>d'. MQTTDeserialize_connect d0 (bytes @ rest) (length bytes) = Some (1, d') \<and>
    clientID d' = lenstr (str_bytes (clientID d)) \<and> keepAliveInterval d' = keepAliveInterval d \<and>
    cleansession d' = cleansession d AND 1 \<and> willFlag d' = willFlag d \<and>
    (willFlag d = 1 \<longrightarrow> will_topicName d' = lenstr (str_bytes (will_topicName d)) \<and>
       will_message d' = lenstr (str_bytes (will_message d)) \<and> will_qos d' = will_qos d AND 3 \<and>
       will_retained d' = will_retained d AND 1) \<and>
    (MQTTString_present (username d) \<longrightarrow> username d' = lenstr (str_bytes (username d))) \<and>
    (MQTTString_present (password d) \<longrightarrow> password d' = lenstr (str_bytes (password d)))"
  proof -
    let ?rest4 = "w @ us @ ps @ rest"
    let ?rest1 = "writeInt 4 @ MQTT_name @ writeChar 4 @ writeChar flags @ writeInt (unat (keepAliveInterval d)) @
      writeInt (length ?cid) @ ?cid @ ?rest4"
    let ?d1 = "d0\<lparr>cleansession := flag_cleansession flags, keepAliveInterval := keepAliveInterval d, clientID := lenstr ?cid\<rparr>"
    let ?d2 = "if willFlag d = 1 then ?d1\<lparr>willFlag := 1, will_qos := flag_willQoS flags, will_retained := flag_willRetain flags,
        will_topicName := lenstr ?t, will_message := lenstr ?m\<rparr> else ?d1\<lparr>willFlag := 0\<rparr>"
    let ?d3 = "let data = (if ?uf then ?d2\<lparr>username := lenstr ?u\<rparr> else ?d2)
      in if ?pf then data\<lparr>password := lenstr ?p\<rparr> else data"
    have b: "bytes @ rest = writeChar (header_byte CONNECT 0 0 0) @ MQTTPacket_encode ?n @ ?rest1"
      by (simp add: bytes_def)
    have left: "int (length bytes) - 1 - int (length (MQTTPacket_encode ?n)) = int ?n" using lb by simp
    have n6: "\<not> ?n < 6" by (simp add: n)
    note dec = decode_packet [OF small, of ?rest1]
    have proto: "readMQTTLenString MQTTString_initializer ?rest1 (int ?n) = Some (True, lenstr MQTT_name,
        writeChar 4 @ writeChar flags @ writeInt (unat (keepAliveInterval d)) @ writeInt (length ?cid) @ ?cid @ ?rest4, int ?n - 6)"
      by (rule read_proto) (simp add: n)
    have ver: "MQTTPacket_checkVersion (lenstr MQTT_name) 4"
      by (simp add: MQTTPacket_checkVersion_def lenstr_def MQTT_name_def)
    have c: "readMQTTLenString (clientID x) (writeInt (length ?cid) @ ?cid @ ?rest4) (int ?n - 10) =
        Some (True, lenstr ?cid, ?rest4, int ?n - 12 - int (length ?cid))" for x
      by (subst read_str) (simp_all add: cid(2) n)
    have fw: "flag_will flags = willFlag d" using wf by (auto simp: flags_def)
    have wl: "connect_will x flags ?rest4 (int ?n - 12 - int (length ?cid)) = Some (True,
        (if willFlag d = 1 then x\<lparr>willFlag := 1, will_qos := flag_willQoS flags, will_retained := flag_willRetain flags,
          will_topicName := lenstr ?t, will_message := lenstr ?m\<rparr> else x\<lparr>willFlag := 0\<rparr>),
        us @ ps @ rest, int ?n - 12 - int (length ?cid) - int (length w))" for x
      by (rule connect_will_read [OF w_def wf(1) _ fw]) (use will n in auto)
    have usr: "connect_user x flags (us @ ps @ rest) (int ?n - 12 - int (length ?cid) - int (length w)) =
        Some (True, let data = (if ?uf then x\<lparr>username := lenstr ?u\<rparr> else x)
          in if ?pf then data\<lparr>password := lenstr ?p\<rparr> else data)" for x
      unfolding us_def ps_def
      by (rule connect_user_read) (use user pass n in \<open>auto simp: flags_def us_def ps_def\<close>)
    have "MQTTDeserialize_connect d0 (bytes @ rest) (length bytes) = Some (1, ?d3)"
      unfolding b MQTTDeserialize_connect_def
      using n6 by (simp add: dec left proto ver c wl usr Let_def)
    moreover have "will_qos ?d3 = will_qos d AND 3" "will_retained ?d3 = will_retained d AND 1" if "willFlag d = 1"
      using that by (simp_all add: flags_def Let_def)
    ultimately show ?thesis
      using wf(1) by (auto simp: flags_def Let_def)
  qed
  ultimately show ?thesis using fit by blast
qed

definition connect_example :: MQTTPacket_connectData where
  "connect_example = \<lparr>MQTTVersion = 4, clientID = lenstr [0x67], keepAliveInterval = 60, cleansession = 1,
     willFlag = 0, will_topicName = MQTTString_initializer, will_message = MQTTString_initializer,
     will_retained = 0, will_qos = 0, username = lenstr [0x75], password = lenstr [0x70]\<rparr>"

theorem connect_roundtrip_witness:
  "\<exists>bytes d'. MQTTSerialize_connect 64 connect_example = Some (int (length bytes), bytes) \<and>
     MQTTDeserialize_connect connect_example (bytes @ []) (length bytes) = Some (1, d') \<and>
     username d' = lenstr [0x75]"
proof -
  have s: "str_ok (lenstr [c])" "str_bytes (lenstr [c]) = [c]" "MQTTString_present (lenstr [c])" for c
    by (simp_all add: str_ok_def lenstr_def MQTTstrlen_def str_bytes_def MQTTString_present_def)
  have n: "MQTTSerialize_connectLength connect_example = 19"
    by (simp add: MQTTSerialize_connectLength_def connect_example_def s) (simp add: MQTTstrlen_def lenstr_def)
  have "connect_ok connect_example"
    by (simp add: connect_ok_def connect_example_def s)
  from connect_roundtrip [OF this, of 64 connect_example "[]"] show ?thesis
    unfolding n by (fastforce simp: MQTTPacket_len_def connect_example_def s)
qed

section \<open>Subscribe\<close>

lemma write_topics_ok:
  "list_all (\<lambda>(t, q). str_ok t) ts \<Longrightarrow> write_topics ts = Some (concat (map (\<lambda>(t, q).
     writeInt (length (str_bytes t)) @ str_bytes t @ writeChar (of_int q)) ts))"
  by (induction ts rule: write_topics.induct) (simp_all add: write_str)

text \<open>The bytes the topics take, and what reading them into the caller's arrays gives.\<close>

lemma take_Suc_update: "n < length xs \<Longrightarrow> take (Suc n) (xs[n := x]) = take n xs @ [x]"
  by (simp add: take_Suc_conv_app_nth)

lemma subscribe_loop_read:
  assumes "list_all (\<lambda>(t, q). str_ok t \<and> 0 \<le> q \<and> q \<le> 2) ts"
    and "uo_count out + length ts \<le> length (uo_topicFilters out)"
    and "uo_count out + length ts \<le> length (uo_requestedQoSs out)"
    and "left = int (\<Sum>t \<leftarrow> map fst ts. 2 + MQTTstrlen t + 1)"
  shows "\<exists>o'. subscribe_loop rc out (concat (map (\<lambda>(t, q).
      writeInt (length (str_bytes t)) @ str_bytes t @ writeChar (of_int q)) ts) @ rest) left = Some (1, o') \<and>
    uo_count o' = uo_count out + length ts \<and> uo_dup o' = uo_dup out \<and> uo_packetid o' = uo_packetid out \<and>
    take (uo_count o') (uo_topicFilters o') = take (uo_count out) (uo_topicFilters out) @ map (lenstr \<circ> str_bytes \<circ> fst) ts \<and>
    take (uo_count o') (uo_requestedQoSs o') = take (uo_count out) (uo_requestedQoSs out) @ map snd ts"
  using assms
proof (induction ts arbitrary: out left)
  case Nil
  then show ?case by (subst subscribe_loop.simps) simp
next
  case (Cons tq ts)
  obtain t q where tq: "tq = (t, q)" by (cases tq) auto
  have t: "MQTTstrlen t = length (str_bytes t)" "length (str_bytes t) < 65536" and q: "0 \<le> q" "q \<le> 2"
    using Cons.prems(1) str_ok_length [of t] by (auto simp: tq)
  let ?more = "concat (map (\<lambda>(t, q). writeInt (length (str_bytes t)) @ str_bytes t @ writeChar (of_int q)) ts) @ rest"
  let ?l = "int (\<Sum>t \<leftarrow> map fst ts. 2 + MQTTstrlen t + 1)"
  let ?n = "uo_count out"
  let ?out = "out\<lparr>uo_topicFilters := (uo_topicFilters out)[?n := lenstr (str_bytes t)],
    uo_requestedQoSs := (uo_requestedQoSs out)[?n := q], uo_count := ?n + 1\<rparr>"
  have left: "left = 3 + int (length (str_bytes t)) + ?l" using Cons.prems(4) t(1) by (simp add: tq)
  have l0: "0 \<le> ?l" by simp
  have rd: "readMQTTLenString s (writeInt (length (str_bytes t)) @ str_bytes t @ writeChar (of_int q) @ ?more) left =
      Some (True, lenstr (str_bytes t), writeChar (of_int q) @ ?more, 1 + ?l)" for s
    by (subst read_str) (use t(2) l0 left in simp_all)
  have "uint (of_int q :: u8) = q"
  proof -
    have "q \<in> {0, 1, 2}" using q by auto
    then show ?thesis by auto
  qed
  then have step: "subscribe_loop rc out (concat (map (\<lambda>(t, q).
      writeInt (length (str_bytes t)) @ str_bytes t @ writeChar (of_int q)) (tq # ts)) @ rest) left =
      subscribe_loop rc ?out ?more ?l"
    using Cons.prems(2,3) left l0 rd
    by (subst subscribe_loop.simps) (simp add: tq arr_put_Some Let_def)
  have "\<exists>o'. subscribe_loop rc ?out ?more ?l = Some (1, o') \<and>
    uo_count o' = uo_count ?out + length ts \<and> uo_dup o' = uo_dup ?out \<and> uo_packetid o' = uo_packetid ?out \<and>
    take (uo_count o') (uo_topicFilters o') = take (uo_count ?out) (uo_topicFilters ?out) @ map (lenstr \<circ> str_bytes \<circ> fst) ts \<and>
    take (uo_count o') (uo_requestedQoSs o') = take (uo_count ?out) (uo_requestedQoSs ?out) @ map snd ts"
    by (rule Cons.IH) (use Cons.prems in \<open>simp_all add: tq\<close>)
  then show ?case
    unfolding step using Cons.prems(2,3) by (auto simp: tq take_Suc_update)
qed

text \<open>C25: Subscriptions. A server whose arrays have room for all topics reads exactly the topic filters
  and requested QoS the client serialized, in order, with identifier and duplicate flag.\<close>

theorem subscribe_roundtrip:
  assumes ok: "list_all (\<lambda>(t, q). str_ok t \<and> 0 \<le> q \<and> q \<le> 2) ts"
    and n: "n = MQTTSerialize_subscribeLength (map fst ts)" and "n < 268435456" and "MQTTPacket_len n \<le> buflen"
    and "length ts \<le> length (uo_topicFilters out)" and "length ts \<le> length (uo_requestedQoSs out)"
  shows "\<exists>bytes o'. MQTTSerialize_subscribe buflen dup packetid ts = Some (int (length bytes), bytes) \<and>
    length bytes \<le> buflen \<and> MQTTDeserialize_subscribe out (bytes @ rest) = Some (1, o') \<and>
    uo_dup o' = dup AND 1 \<and> uo_packetid o' = packetid \<and> uo_count o' = length ts \<and>
    take (length ts) (uo_topicFilters o') = map (lenstr \<circ> str_bytes \<circ> fst) ts \<and>
    take (length ts) (uo_requestedQoSs o') = map snd ts"
proof -
  let ?b = "concat (map (\<lambda>(t, q). writeInt (length (str_bytes t)) @ str_bytes t @ writeChar (of_int q)) ts)"
  let ?bytes = "writeChar (header_byte SUBSCRIBE dup 1 0) @ MQTTPacket_encode n @ writeInt (unat packetid) @ ?b"
  have w: "write_topics ts = Some ?b"
    by (rule write_topics_ok) (use ok in \<open>auto simp: list_all_iff\<close>)
  have "length ?b = (\<Sum>t \<leftarrow> map fst ts. 2 + MQTTstrlen t + 1)"
    using ok by (induction ts) (auto simp: str_ok_length)
  then have lb: "n = 2 + length ?b" by (simp add: n MQTTSerialize_subscribeLength_def)
  then have len: "length ?bytes \<le> buflen" using packet_len [OF assms(3)] assms(4) by simp
  have ser: "MQTTSerialize_subscribe buflen dup packetid ts = Some (int (length ?bytes), ?bytes)"
    using len assms(4) w by (simp add: MQTTSerialize_subscribe_def emit_def n [symmetric] Let_def)
  let ?out = "out\<lparr>uo_dup := dup AND 1, uo_packetid := packetid, uo_count := 0\<rparr>"
  have "\<exists>o'. subscribe_loop (int (length (MQTTPacket_encode n))) ?out (?b @ rest) (int n - 2) = Some (1, o') \<and>
    uo_count o' = uo_count ?out + length ts \<and> uo_dup o' = uo_dup ?out \<and> uo_packetid o' = uo_packetid ?out \<and>
    take (uo_count o') (uo_topicFilters o') = take (uo_count ?out) (uo_topicFilters ?out) @ map (lenstr \<circ> str_bytes \<circ> fst) ts \<and>
    take (uo_count o') (uo_requestedQoSs o') = take (uo_count ?out) (uo_requestedQoSs ?out) @ map snd ts"
    by (rule subscribe_loop_read [OF ok])
      (use assms(5,6) in \<open>simp_all add: n MQTTSerialize_subscribeLength_def\<close>)
  moreover have "MQTTDeserialize_subscribe out (?bytes @ rest) =
      subscribe_loop (int (length (MQTTPacket_encode n))) ?out (?b @ rest) (int n - 2)"
    using decode_packet [OF assms(3), of "writeInt (unat packetid) @ ?b @ rest"]
    by (simp add: MQTTDeserialize_subscribe_def Let_def)
  ultimately show ?thesis using ser len by auto
qed

definition subscribe_out_zero :: "nat \<Rightarrow> subscribe_out" where
  "subscribe_out_zero n = \<lparr>uo_dup = 0, uo_packetid = 0, uo_count = 0,
     uo_topicFilters = replicate n MQTTString_initializer, uo_requestedQoSs = replicate n 0\<rparr>"

theorem subscribe_roundtrip_witness:
  "\<exists>bytes o'. MQTTSerialize_subscribe 32 0 9 [(lenstr [0x61], 1)] = Some (int (length bytes), bytes) \<and>
     MQTTDeserialize_subscribe (subscribe_out_zero 4) (bytes @ []) = Some (1, o') \<and> uo_count o' = 1"
proof -
  have n: "MQTTSerialize_subscribeLength (map fst [(lenstr [0x61], 1 :: int)]) = 6"
    by (simp add: MQTTSerialize_subscribeLength_def MQTTstrlen_def lenstr_def)
  have s: "list_all (\<lambda>(t, q). str_ok t \<and> 0 \<le> q \<and> q \<le> 2) [(lenstr [0x61], 1 :: int)]"
    by (simp add: str_ok_def lenstr_def MQTTstrlen_def)
  from subscribe_roundtrip [OF s n [symmetric], of 32 "subscribe_out_zero 4" 0 9 "[]"] show ?thesis
    by (auto simp: MQTTPacket_len_def subscribe_out_zero_def)
qed

text \<open>The size checks of three acknowledgement serializers are too weak: with a buffer that passes
  them they write outside it.\<close>

theorem ack_serializers_overflow:
  assumes "2 + length qs \<le> b" and "b < 4 + length qs" and "length qs < 100"
  shows "MQTTSerialize_suback b packetid qs = None \<and>
    (b < 4 \<longrightarrow> MQTTSerialize_connack b code sp = None \<and> MQTTSerialize_unsuback b packetid = None)"
proof -
  have enc: "1 \<le> length (MQTTPacket_encode k)" for k by (subst MQTTPacket_encode.simps) (simp add: Let_def)
  have "MQTTSerialize_suback b packetid qs = None"
    using assms enc [of "2 + length qs"]
    by (simp add: MQTTSerialize_suback_def emit_def Let_def del: MQTTPacket_encode.simps)
  moreover have "MQTTSerialize_connack b code sp = None" if "b < 4"
    using assms that enc [of 2]
    by (simp add: MQTTSerialize_connack_def emit_def Let_def del: MQTTPacket_encode.simps)
  moreover have "MQTTSerialize_unsuback b packetid = None" if "b < 4"
    using assms that enc [of 2]
    by (simp add: MQTTSerialize_unsuback_def emit_def Let_def del: MQTTPacket_encode.simps)
  ultimately show ?thesis by blast
qed

theorem ack_serializers_overflow_witness:
  "MQTTSerialize_suback 3 1 [0] = None \<and> MQTTSerialize_connack 3 0 0 = None"
  using ack_serializers_overflow [of "[0]" 3 1 0 0] by simp

text \<open>A subscribe acknowledgement with one more code than the caller's array is stored outside the
  array: the count is compared with the maximum one code too late.\<close>

theorem suback_overflow:
  assumes "length (so_grantedQoSs out) = m" and "length codes = Suc m" and "m < 100"
  shows "MQTTDeserialize_suback out m (writeChar (header_byte SUBACK 0 0 0) @ MQTTPacket_encode (2 + Suc m) @
    writeInt (unat (packetid :: u16)) @ codes @ rest) = None"
proof -
  have loop: "so_count o1 + length cs = Suc m \<Longrightarrow> length (so_grantedQoSs o1) = m \<Longrightarrow> cs \<noteq> [] \<Longrightarrow>
      suback_loop m o1 (cs @ rest) (int (length cs)) = None" for o1 cs
  proof (induction cs arbitrary: o1)
    case (Cons c cs)
    show ?case
    proof (cases "cs = []")
      case True
      then show ?thesis using Cons.prems by (subst suback_loop.simps) (simp add: arr_put_def)
    next
      case False
      then have "so_count o1 < m" using Cons.prems by (cases cs) auto
      then show ?thesis
        using Cons.prems False Cons.IH [of "o1\<lparr>so_grantedQoSs := (so_grantedQoSs o1)[so_count o1 := uint c], so_count := so_count o1 + 1\<rparr>"]
        by (subst suback_loop.simps) (simp add: arr_put_def)
    qed
  qed simp
  have n: "2 + Suc m < 268435456" using assms(3) by simp
  have "codes \<noteq> []" using assms(2) by auto
  from loop [of "out\<lparr>so_packetid := packetid, so_count := 0\<rparr>" codes] this assms(1,2)
  have "suback_loop m (out\<lparr>so_packetid := packetid, so_count := 0\<rparr>) (codes @ rest) (int m + 1) = None"
    by (simp add: add.commute)
  then show ?thesis
    using decode_packet [OF n, of "writeInt (unat packetid) @ codes @ rest"]
    by (simp add: MQTTDeserialize_suback_def Let_def add.commute)
qed

theorem suback_overflow_witness:
  "MQTTDeserialize_suback \<lparr>so_packetid = 0, so_count = 0, so_grantedQoSs = [0]\<rparr> 1
     (writeChar (header_byte SUBACK 0 0 0) @ MQTTPacket_encode (2 + Suc 1) @ writeInt (unat (5 :: u16)) @ [0, 1] @ []) = None"
  using suback_overflow [of "\<lparr>so_packetid = 0, so_count = 0, so_grantedQoSs = [0]\<rparr>" 1 "[0, 1]" 5 "[]"] by simp

end
