(* ===== verification/Client_Properties.thy ===== *)
theory Client_Properties
  imports Mqtt_Client Mqtt_Properties
begin

text \<open>
  Properties of the MQTT client: topic matching against the levels of the protocol, the message
  handler table, and what the operations do on a working link. The locale \<open>mqtt_link\<close> is the
  interface of such a link; it is interpreted on the read and write functions of the Ethernet
  socket.
\<close>

section \<open>Topic levels\<close>

fun levels :: "u8 list \<Rightarrow> u8 list list" where
  "levels [] = [[]]"
| "levels (x # xs) = (if x = SLASH then [] # levels xs else (x # hd (levels xs)) # tl (levels xs))"

fun level_match :: "u8 list list \<Rightarrow> u8 list list \<Rightarrow> bool" where
  "level_match [] ns = (ns = [])"
| "level_match (f # fs) [] = False"
| "level_match (f # fs) (n # ns) = (if f = [HASH] then True else (f = [PLUS] \<or> f = n) \<and> level_match fs ns)"

definition plain :: "u8 list \<Rightarrow> bool" where
  "plain l \<longleftrightarrow> PLUS \<notin> set l \<and> HASH \<notin> set l"

fun wf_levels :: "u8 list list \<Rightarrow> bool" where
  "wf_levels [] = True"
| "wf_levels (l # ls) = (if l = [HASH] then ls = [] else (l = [PLUS] \<or> plain l) \<and> wf_levels ls)"

lemma levels_not_Nil [simp]: "levels xs \<noteq> []"
  by (cases xs) auto

lemma wildcards [simp]:
  "PLUS \<noteq> SLASH" "HASH \<noteq> SLASH" "SLASH \<noteq> PLUS" "SLASH \<noteq> HASH" "PLUS \<noteq> HASH" "HASH \<noteq> PLUS"
  by (simp_all add: PLUS_def HASH_def SLASH_def)

lemma levels_split:
  "levels xs = takeWhile (\<lambda>x. x \<noteq> SLASH) xs #
     (case dropWhile (\<lambda>x. x \<noteq> SLASH) xs of [] \<Rightarrow> [] | y # ys \<Rightarrow> levels ys)"
  by (induction xs) auto

lemma dropWhile_slash: "dropWhile (\<lambda>x. x \<noteq> SLASH) xs = y # ys \<Longrightarrow> y = SLASH"
  using hd_dropWhile [of "\<lambda>x. x \<noteq> SLASH" xs] by simp

lemma level_match_tl_Nil [simp]: "level_match (levels f) [] = False"
  by (cases "levels f") auto

text \<open>
  Inside a plain level of the filter the rests of both levels must agree; at the beginning of a
  level, with a name whose levels are not empty, the walk is the match of the levels.
\<close>

lemma walk_levels:
  "(\<forall>n. plain (hd (levels f)) \<longrightarrow> wf_levels (tl (levels f)) \<longrightarrow> [] \<notin> set (tl (levels n)) \<longrightarrow>
      topic_walk f n = (hd (levels f) = hd (levels n) \<and> level_match (tl (levels f)) (tl (levels n)))) \<and>
   (\<forall>n. wf_levels (levels f) \<longrightarrow> [] \<notin> set (levels n) \<longrightarrow> topic_walk f n = level_match (levels f) (levels n))"
proof (induction "length f" arbitrary: f rule: less_induct)
  case less
  have inside: "topic_walk f n = (hd (levels f) = hd (levels n) \<and> level_match (tl (levels f)) (tl (levels n)))"
    if p: "plain (hd (levels f))" "wf_levels (tl (levels f))" "[] \<notin> set (tl (levels n))" for n
  proof (cases f)
    case Nil
    then show ?thesis by (cases n) auto
  next
    case (Cons c f')
    note IH = less [of f']
    show ?thesis
    proof (cases "c = SLASH")
      case True
      then show ?thesis using Cons IH p by (cases n) auto
    next
      case False
      then have "c \<noteq> PLUS" "c \<noteq> HASH" "plain (hd (levels f'))" "wf_levels (tl (levels f'))"
        using p Cons by (auto simp: plain_def)
      then show ?thesis using Cons IH p False by (cases n) auto
    qed
  qed
  have start: "topic_walk f n = level_match (levels f) (levels n)"
    if w: "wf_levels (levels f)" and n: "[] \<notin> set (levels n)" for n
  proof -
    obtain l ls where l: "levels f = l # ls" by (cases "levels f") auto
    obtain m ms where m: "levels n = m # ms" by (cases "levels n") auto
    show ?thesis
    proof (cases "plain l")
      case True
      then have "l \<noteq> [HASH]" "l \<noteq> [PLUS]" by (auto simp: plain_def)
      then show ?thesis using inside [of n] True w n by (simp add: l m)
    next
      case False
      obtain x n' where x: "n = x # n'" "x \<noteq> SLASH" using n by (cases n) (auto split: if_splits)
      have m': "m = x # takeWhile (\<lambda>x. x \<noteq> SLASH) n'"
        and ms: "ms = (case dropWhile (\<lambda>x. x \<noteq> SLASH) n' of [] \<Rightarrow> [] | y # ys \<Rightarrow> levels ys)"
        using m levels_split [of n'] by (auto simp: x)
      from False w l have wild: "l = [HASH] \<and> ls = [] \<or> l = [PLUS] \<and> wf_levels ls" by (auto split: if_splits)
      have lt: "l = takeWhile (\<lambda>x. x \<noteq> SLASH) f"
        and ls: "ls = (case dropWhile (\<lambda>x. x \<noteq> SLASH) f of [] \<Rightarrow> [] | y # ys \<Rightarrow> levels ys)"
        using trans [OF l [symmetric] levels_split] by simp_all
      have f: "f = l @ dropWhile (\<lambda>x. x \<noteq> SLASH) f" unfolding lt by simp
      show ?thesis
      proof (cases "dropWhile (\<lambda>x. x \<noteq> SLASH) f")
        case Nil
        have "f = l" "ls = []" using f ls unfolding Nil by simp_all
        then show ?thesis using wild x m ms
          by (auto simp: split: list.splits dest: dropWhile_slash)
      next
        case (Cons y f')
        moreover have "y = SLASH" using Cons by (rule dropWhile_slash)
        ultimately have f': "f = l @ SLASH # f'" "ls = levels f'" using f ls unfolding Cons by simp_all
        then have lp: "l = [PLUS]" "wf_levels (levels f')" using wild by auto
        show ?thesis
        proof (cases "dropWhile (\<lambda>x. x \<noteq> SLASH) n'")
          case Nil
          then show ?thesis using f' lp x m ms by (simp add: l del: dropWhile_eq_Nil_conv)
        next
          case (Cons z n'')
          then have z: "z = SLASH" by (rule dropWhile_slash)
          have "[] \<notin> set (levels n'')" using n m ms Cons by simp
          then show ?thesis using less [of f'] f' lp x m ms Cons z by (simp add: l)
        qed
      qed
    qed
  qed
  show ?case using inside start by blast
qed

text \<open>C19: Topic matching. For a well-formed filter (wildcards are whole levels, \<^verbatim>\<open>#\<close> only as the last)
  and a topic name without empty levels, \<^verbatim>\<open>isTopicMatched\<close> decides exactly whether the levels
  match as the protocol says, \<^verbatim>\<open>#\<close> standing for one or more levels.\<close>

theorem topic_matching:
  assumes "wf_levels (levels tf)" and "[] \<notin> set (levels topic)"
  shows "isTopicMatched tf (lenstr topic) \<longleftrightarrow> level_match (levels tf) (levels topic)"
  using walk_levels [of tf] assms by (simp add: isTopicMatched_def lenstr_def)

theorem topic_matching_witness:
  "isTopicMatched [0x61, SLASH, PLUS, SLASH, HASH] (lenstr [0x61, SLASH, 0x62, SLASH, 0x63, SLASH, 0x64])"
proof -
  have "wf_levels (levels [0x61, SLASH, PLUS, SLASH, HASH])"
    by (simp add: plain_def) (simp add: SLASH_def PLUS_def HASH_def)
  moreover have "[] \<notin> set (levels [0x61, SLASH, 0x62, SLASH, 0x63, SLASH, 0x64])" by (simp add: SLASH_def)
  moreover have "level_match (levels [0x61, SLASH, PLUS, SLASH, HASH]) (levels [0x61, SLASH, 0x62, SLASH, 0x63, SLASH, 0x64])"
    by (simp add: SLASH_def PLUS_def HASH_def)
  ultimately show ?thesis by (rule topic_matching [THEN iffD2])
qed

section \<open>A working link\<close>

text \<open>A timer with time left, which is then found unexpired and unchanged as long as no tick passes.\<close>

definition live :: "Timer \<Rightarrow> tick_state \<Rightarrow> bool" where
  "live tm ts \<longleftrightarrow> armed tm ts \<and> 0 < xTicksToWait tm \<and> xTicksToWait tm \<le> 429496729"

lemma live_check:
  assumes "live tm ts"
  shows "xTaskCheckForTimeOut ts tm = (False, tm)" "TimerIsExpired ts tm = (False, tm)"
    "\<exists>left. TimerLeftMS ts tm = (left, tm) \<and> 10 \<le> left"
proof -
  have "xTicksToWait tm \<noteq> portMAX_DELAY"
    using assms by (auto simp: live_def portMAX_DELAY_def)
  then show c: "xTaskCheckForTimeOut ts tm = (False, tm)"
    using assms by (simp add: xTaskCheckForTimeOut_def live_def armed_def vTaskSetTimeOutState_def Let_def)
  then show "TimerIsExpired ts tm = (False, tm)" by (simp add: TimerIsExpired_def)
  let ?w = "xTicksToWait tm"
  have w: "1 \<le> unat ?w" "unat ?w \<le> 429496729"
    using assms by (auto simp: live_def word_less_nat_alt word_le_nat_alt)
  then have "unat (?w * 10) = unat ?w * 10" by (simp add: unat_word_ariths)
  then have "10 \<le> ?w * 10" using w by (simp add: word_le_nat_alt)
  then show "\<exists>left. TimerLeftMS ts tm = (left, tm) \<and> 10 \<le> left"
    using c by (simp add: TimerLeftMS_def portTICK_PERIOD_MS_def)
qed

text \<open>A timer that a read may be given: it has at least \<open>p\<close> milliseconds left and stays as it is when asked.\<close>

definition poised :: "u32 \<Rightarrow> Timer \<Rightarrow> tick_state \<Rightarrow> bool" where
  "poised p tm ts \<longleftrightarrow> (\<exists>left. TimerLeftMS ts tm = (left, tm) \<and> p \<le> left)"

lemma live_poised: "live tm ts \<Longrightarrow> p \<le> 10 \<Longrightarrow> poised p tm ts"
  using live_check(3) by (fastforce simp: poised_def intro: order_trans)

lemma live_countdown: "10 \<le> ms \<Longrightarrow> live (TimerCountdownMS ts ms tm) ts"
proof -
  assume "10 \<le> ms"
  then have "1 \<le> unat ms div 10" "unat ms div 10 \<le> 429496729"
    using u32_less [of ms] by (auto simp: word_le_nat_alt)
  then show ?thesis
    using ms_ticks(1) [of ms]
    by (simp add: live_def armed_def TimerCountdownMS_def vTaskSetTimeOutState_def word_less_nat_alt word_le_nat_alt)
qed

text \<open>
  The interfaces of the client to the network. A network object stores at most the bytes for; on a working link there is in addition what has arrived and what has been sent: a read
  with at least \<open>patience\<close> milliseconds yields the next bytes, a write sends, no tick passes.
\<close>

locale mqtt_net =
  fixes N :: "'w net_ops"
  assumes read_le: "mqttread N n t w = Some (rc, bs, w') \<Longrightarrow> length bs \<le> n"

locale mqtt_link = mqtt_net N for N :: "'w net_ops" +
  fixes up :: "'w \<Rightarrow> bool" and inbox :: "'w \<Rightarrow> u8 list" and outbox :: "'w \<Rightarrow> u8 list" and patience :: u32
  assumes tick: "patience \<le> 10"
    and reads: "up w \<Longrightarrow> 0 < n \<Longrightarrow> n \<le> length (inbox w) \<Longrightarrow> n < 65536 \<Longrightarrow> patience \<le> t \<Longrightarrow>
      \<exists>w'. mqttread N n t w = Some (int n, take n (inbox w), w') \<and> up w' \<and> inbox w' = drop n (inbox w) \<and>
        outbox w' = outbox w \<and> clock N w' = clock N w"
    and writes: "up w \<Longrightarrow> bs \<noteq> [] \<Longrightarrow> length bs < 65536 \<Longrightarrow>
      \<exists>w'. mqttwrite N bs t w = Some (int (length bs), w') \<and> up w' \<and> inbox w' = inbox w \<and>
        outbox w' = outbox w @ bs \<and> clock N w' = clock N w"
begin

lemma decode_sim:
  assumes "patience \<le> t"
  shows "MQTTPacket_decode_loop bufchar k m v bs = Some (l, x, r) \<Longrightarrow> up w \<Longrightarrow> inbox w = bs @ ys \<Longrightarrow>
    \<exists>w'. MQTTPacket_decode_loop (\<lambda>w. do { (rc, bs, w) \<leftarrow> mqttread N 1 t w; Some (rc, if bs = [] then 0 else hd bs, w) }) k m v w =
      Some (l, x, w') \<and> up w' \<and> inbox w' = r @ ys \<and> outbox w' = outbox w \<and> clock N w' = clock N w"
proof (induction bs arbitrary: k m v w)
  case Nil
  then show ?case
    by (subst (asm) MQTTPacket_decode_loop.simps, subst MQTTPacket_decode_loop.simps)
      (auto simp: Let_def split: if_splits)
next
  case (Cons b bs)
  obtain w1 where w1: "mqttread N 1 t w = Some (1, [b], w1)" "up w1" "inbox w1 = bs @ ys"
      "outbox w1 = outbox w" "clock N w1 = clock N w"
    using reads [of w 1 t] Cons.prems assms by auto
  show ?case
  proof (cases "Suc k \<le> MAX_NO_OF_REMAINING_LENGTH_BYTES \<and> b AND 128 \<noteq> 0")
    case True
    then have "MQTTPacket_decode_loop bufchar (Suc k) (m * 128) (v + unat (b AND 127) * m) bs = Some (l, x, r)"
      using Cons.prems(1) by (subst (asm) MQTTPacket_decode_loop.simps) (simp add: Let_def)
    from Cons.IH [OF this w1(2,3)] show ?thesis
      using True w1 by (subst MQTTPacket_decode_loop.simps) (simp add: Let_def)
  next
    case False
    then show ?thesis
      using Cons.prems w1
      by (subst (asm) MQTTPacket_decode_loop.simps, subst MQTTPacket_decode_loop.simps)
        (auto simp: Let_def split: if_splits)
  qed
qed

lemma read_front:
  assumes "up w" and "inbox w = h # MQTTPacket_encode n @ ys" and "n < 65536" and "patience \<le> left"
  shows "\<exists>w1 w2. mqttread N 1 left w = Some (1, [h], w1) \<and> clock N w1 = clock N w \<and>
    decodePacket N left w1 = Some (length (MQTTPacket_encode n), n, w2) \<and> up w2 \<and> inbox w2 = ys \<and>
    outbox w2 = outbox w \<and> clock N w2 = clock N w"
proof -
  obtain w1 where w1: "mqttread N 1 left w = Some (1, [h], w1)" "up w1"
      "inbox w1 = MQTTPacket_encode n @ ys" "outbox w1 = outbox w" "clock N w1 = clock N w"
    using reads [of w 1 left] assms by auto
  have "MQTTPacket_decode_loop bufchar 0 1 0 (MQTTPacket_encode n) = Some (length (MQTTPacket_encode n), n, [])"
    using decodeBuf_encode [of n "[]"] assms(3) by (simp add: MQTTPacket_decodeBuf_def MQTTPacket_decode_def)
  from decode_sim [OF assms(4) this w1(2,3)] show ?thesis
    using w1 by (auto simp: decodePacket_def MQTTPacket_decode_def)
qed

lemma read_packet:
  assumes "up w" and "inbox w = h # MQTTPacket_encode n @ body @ rest" and "length body = n" and "n < 65536"
    and "1 + length (MQTTPacket_encode n) + n \<le> length (c_readbuf c)" and "poised patience tm (clock N w)"
    and "c_keepAliveInterval c = 0"
  shows "\<exists>w'. readPacket N tm c w = Some (uint (header_type h), tm,
      c\<lparr>c_readbuf := buf_write (c_readbuf c) 0 (h # MQTTPacket_encode n @ body)\<rparr>, w') \<and>
    up w' \<and> inbox w' = rest \<and> outbox w' = outbox w \<and> clock N w' = clock N w"
proof -
  obtain left where left: "TimerLeftMS (clock N w) tm = (left, tm)" "patience \<le> left"
    using assms(6) by (auto simp: poised_def)
  obtain w1 w2 where w1: "mqttread N 1 left w = Some (1, [h], w1)" "clock N w1 = clock N w"
    and w2: "decodePacket N left w1 = Some (length (MQTTPacket_encode n), n, w2)" "up w2" "inbox w2 = body @ rest"
      "outbox w2 = outbox w" "clock N w2 = clock N w"
    using read_front [OF assms(1,2,4) left(2)] by auto
  show ?thesis
  proof (cases "n = 0")
    case True
    then show ?thesis using assms left w1 w2 by (simp add: readPacket_def Let_def)
  next
    case False
    then obtain w3 where w3: "mqttread N n left w2 = Some (int n, body, w3)" "up w3" "inbox w3 = rest"
        "outbox w3 = outbox w" "clock N w3 = clock N w"
      using reads [of w2 n left] w2 assms(3,4) left(2) by auto
    have "\<not> length (c_readbuf c) - Suc (length (MQTTPacket_encode n)) < n" using assms(5) by simp
    then show ?thesis using assms left w1 w2 w3 False by (simp add: readPacket_def Let_def)
  qed
qed

text \<open>A packet of which the last part does not come in time: what has come is gone.\<close>

lemma cycle_cut_short:
  assumes "up w" and "inbox w = h # MQTTPacket_encode n @ ys" and "0 < n" and "n < 65536"
    and "1 + length (MQTTPacket_encode n) + n \<le> length (c_readbuf c)" and "poised patience tm (clock N w)"
    and "c_keepAliveInterval c = 0"
    and short: "\<And>t w2. up w2 \<Longrightarrow> inbox w2 = ys \<Longrightarrow> outbox w2 = outbox w \<Longrightarrow> clock N w2 = clock N w \<Longrightarrow>
      TimerLeftMS (clock N w) tm = (t, tm) \<Longrightarrow>
      \<exists>w3. mqttread N n t w2 = Some (int (length ys), ys, w3) \<and> Q w3"
    and "length ys < n"
  shows "\<exists>buf w'. cycle N tm c w = Some (0, tm, c\<lparr>c_readbuf := buf\<rparr>, w') \<and> Q w'"
proof -
  obtain left where left: "TimerLeftMS (clock N w) tm = (left, tm)" "patience \<le> left"
    using assms(6) by (auto simp: poised_def)
  obtain w1 w2 where w1: "mqttread N 1 left w = Some (1, [h], w1)" "clock N w1 = clock N w"
    and w2: "decodePacket N left w1 = Some (length (MQTTPacket_encode n), n, w2)" "up w2" "inbox w2 = ys"
      "outbox w2 = outbox w" "clock N w2 = clock N w"
    using read_front [OF assms(1,2,4) left(2)] by auto
  obtain w3 where w3: "mqttread N n left w2 = Some (int (length ys), ys, w3)" "Q w3"
    using short [OF w2(2-5) left(1)] by blast
  have "\<not> length (c_readbuf c) - Suc (length (MQTTPacket_encode n)) < n" using assms(5) by simp
  then have "\<exists>buf. readPacket N tm c w = Some (0, tm, c\<lparr>c_readbuf := buf\<rparr>, w3)"
    using assms left w1 w2 w3 by (simp add: readPacket_def Let_def) blast
  then show ?thesis using w3(2) assms(7) by (auto simp: cycle_def keepalive_def return_codes)
qed

lemma send_packet:
  assumes "up w" and "bs \<noteq> []" and "length bs \<le> length b" and "length bs < 65536" and "live tm (clock N w)"
    and "c_buf c = buf_write b 0 bs"
  shows "\<exists>w'. sendPacket N (int (length bs)) tm c w = Some (SUCCESS, tm,
      c\<lparr>last_sent := TimerCountdown (clock N w) (c_keepAliveInterval c) (last_sent c)\<rparr>, w') \<and>
    up w' \<and> inbox w' = inbox w \<and> outbox w' = outbox w @ bs \<and> clock N w' = clock N w"
proof -
  obtain left where left: "TimerLeftMS (clock N w) tm = (left, tm)" using live_check(3) [OF assms(5)] by blast
  obtain w1 where w1: "mqttwrite N bs left w = Some (int (length bs), w1)" "up w1" "inbox w1 = inbox w"
      "outbox w1 = outbox w @ bs" "clock N w1 = clock N w"
    using writes [OF assms(1,2,4)] by blast
  have "sendPacket_loop N (length bs) (c_buf c) 0 tm w = Some (length bs, tm, w1)"
    using assms(2,3) w1 left live_check(2) [OF assms(5)]
    by (subst sendPacket_loop.simps, subst sendPacket_loop.simps) (simp add: assms(6) Let_def)
  then show ?thesis using w1 by (simp add: sendPacket_def)
qed

end

section \<open>An incoming publish\<close>

definition receivers :: "u8 list \<Rightarrow> MQTTClient \<Rightarrow> nat list" where
  "receivers topic c =
     (let hs = List.map_filter fp (filter (handler_hit (lenstr topic)) (messageHandlers c))
      in if hs \<noteq> [] then hs else case defaultMessageHandler c of Some h \<Rightarrow> [h] | None \<Rightarrow> [])"

lemma deliver_receivers:
  "deliverMessage (lenstr topic) m c =
     Some (if receivers topic c = [] then FAILURE else SUCCESS,
       c\<lparr>delivered := delivered c @ map (\<lambda>h. (h, lenstr topic, m)) (receivers topic c)\<rparr>)"
  by (auto simp: deliverMessage_def receivers_def Let_def lenstr_def split: option.splits)

definition ack_packet :: "u8 \<Rightarrow> u16 \<Rightarrow> u8 list" where
  "ack_packet t packetid = writeChar (header_byte t 0 (if t = PUBREL then 1 else 0) 0) @ MQTTPacket_encode 2 @ writeInt (unat packetid)"

lemma encode_2: "MQTTPacket_encode 2 = [2]"
  by (subst MQTTPacket_encode.simps) (simp add: Let_def)

lemma ack_packet_length [simp]: "length (ack_packet t i) = 4"
  by (simp add: ack_packet_def encode_2)

lemma serialize_ack: "4 \<le> n \<Longrightarrow> MQTTSerialize_ack n t 0 i = Some (4, ack_packet t i)"
  by (simp add: MQTTSerialize_ack_def emit_def encode_2 ack_packet_def)

text \<open>What the client owes the sender of a publish.\<close>

definition publish_reply :: "int \<Rightarrow> u16 \<Rightarrow> u8 list" where
  "publish_reply qos packetid =
     (if qos = 1 then ack_packet PUBACK packetid else if qos = 2 then ack_packet PUBREC packetid else [])"

definition publish_message :: "u8 \<Rightarrow> int \<Rightarrow> u8 \<Rightarrow> u16 \<Rightarrow> u8 list \<Rightarrow> u8 list \<Rightarrow> MQTTMessage" where
  "publish_message dup qos retained packetid payload behind = \<lparr>msg_qos = qos, msg_retained = retained AND 1,
     msg_dup = dup AND 1, msg_id = packetid, msg_payload = payload @ behind, msg_payloadlen = of_nat (length payload)\<rparr>"

context mqtt_link
begin

lemma keepalive_off: "c_keepAliveInterval c = 0 \<Longrightarrow> keepalive N c w = Some (SUCCESS, c, w)"
  by (simp add: keepalive_def)

lemma cycle_publish_ok:
  assumes "up w" and "0 \<le> qos" and "qos \<le> 2" and "4 \<le> length (c_buf c)" and "qos = 0 \<or> live tm (clock N w) \<or> TimerIsExpired (clock N w) tm = (True, tm)"
    and "c_readbuf c = publish_packet dup qos retained packetid topic payload @ behind"
    and "length topic < 65536" and "2 + length topic + (if qos > 0 then 2 else 0) + length payload < 268435456"
    and late: "late = (0 < qos \<and> fst (TimerIsExpired (clock N w) tm))"
  shows "\<exists>c' w'. cycle_publish N tm c w = Some (late, if late then FAILURE else SUCCESS, tm, c', w') \<and> up w' \<and> inbox w' = inbox w \<and>
    outbox w' = outbox w @ (if late then [] else publish_reply qos packetid) \<and> clock N w' = clock N w \<and>
    isconnected c' = isconnected c \<and> c_keepAliveInterval c' = c_keepAliveInterval c \<and>
    delivered c' = delivered c @ map (\<lambda>h. (h, lenstr topic,
      publish_message dup qos retained (if qos > 0 then packetid else uninit c) payload behind)) (receivers topic c)"
proof -
  define m where "m = publish_message dup qos retained (if qos > 0 then packetid else uninit c) payload behind"
  have mq: "msg_qos m = qos" "qos > 0 \<Longrightarrow> msg_id m = packetid" by (simp_all add: m_def publish_message_def)
  obtain out where out: "MQTTDeserialize_publish (publish_locals c) (c_readbuf c) = Some (1, out)"
      "message_of out = m" "po_topic out = lenstr topic"
    using publish_packet_read [OF assms(7,2,3,8), of "publish_locals c" dup retained packetid behind]
    by (simp add: assms(6) m_def message_of_def publish_locals_def publish_message_def)
  define d where "d = c\<lparr>delivered := delivered c @ map (\<lambda>h. (h, lenstr topic, m)) (receivers topic c)\<rparr>"
  have del: "\<exists>r. deliverMessage (lenstr topic) m c = Some (r, d)" by (simp add: deliver_receivers d_def)
  then obtain r where del: "deliverMessage (lenstr topic) m c = Some (r, d)" ..
  have reply: "live tm (clock N w) \<Longrightarrow> \<exists>w1. sendPacket N 4 tm (d\<lparr>c_buf := buf_write (c_buf c) 0 (ack_packet t packetid)\<rparr>) w = Some (SUCCESS, tm,
      d\<lparr>c_buf := buf_write (c_buf c) 0 (ack_packet t packetid),
        last_sent := TimerCountdown (clock N w) (c_keepAliveInterval d) (last_sent d)\<rparr>, w1) \<and>
    up w1 \<and> inbox w1 = inbox w \<and> outbox w1 = outbox w @ ack_packet t packetid \<and> clock N w1 = clock N w" for t
    using send_packet [OF assms(1), of "ack_packet t packetid" "c_buf c" tm "d\<lparr>c_buf := buf_write (c_buf c) 0 (ack_packet t packetid)\<rparr>"]
      assms(4,5) ack_packet_length [of t packetid] by fastforce
  have refused: "TimerIsExpired (clock N w) tm = (True, tm) \<Longrightarrow> sendPacket N 4 tm x w = Some (FAILURE, tm, x, w)" for x
    by (simp add: sendPacket_def sendPacket_loop.simps)
  have db: "c_buf d = c_buf c" "isconnected d = isconnected c" "c_keepAliveInterval d = c_keepAliveInterval c"
    "delivered d = delivered c @ map (\<lambda>h. (h, lenstr topic, m)) (receivers topic c)" by (simp_all add: d_def)
  consider "qos = 0" | "live tm (clock N w)" "qos = 1 \<or> qos = 2"
    | "TimerIsExpired (clock N w) tm = (True, tm)" "qos = 1 \<or> qos = 2"
    using assms(2,3,5) by linarith
  then show ?thesis
  proof cases
    case 1
    then show ?thesis unfolding m_def [symmetric] using out del mq db assms(1) late
      by (auto simp: cycle_publish_def publish_reply_def return_codes)
  next
    case 2
    then show ?thesis unfolding m_def [symmetric]
      using out del mq db assms(1,4) late live_check(2) reply [of PUBACK] reply [of PUBREC]
      by (auto simp: cycle_publish_def publish_reply_def serialize_ack into_buf_def return_codes)
  next
    case 3
    then show ?thesis unfolding m_def [symmetric] using out del mq db assms(1,4) late refused
      by (auto simp: cycle_publish_def serialize_ack into_buf_def return_codes)
  qed
qed

end

context mqtt_link
begin

text \<open>A packet that only has to be read: the acknowledgements.\<close>

lemma cycle_ack:
  assumes "up w" and "inbox w = h # MQTTPacket_encode n @ body @ rest" and "length body = n" and "n < 65536"
    and "1 + length (MQTTPacket_encode n) + n \<le> length (c_readbuf c)" and "live tm (clock N w)"
    and "c_keepAliveInterval c = 0" and "header_type h \<in> {CONNACK, PUBACK, SUBACK, UNSUBACK, PUBCOMP}"
  shows "\<exists>w'. cycle N tm c w = Some (uint (header_type h), tm,
      c\<lparr>c_readbuf := buf_write (c_readbuf c) 0 (h # MQTTPacket_encode n @ body)\<rparr>, w') \<and>
    up w' \<and> inbox w' = rest \<and> outbox w' = outbox w \<and> clock N w' = clock N w"
proof -
  obtain w1 where w1: "readPacket N tm c w = Some (uint (header_type h), tm,
      c\<lparr>c_readbuf := buf_write (c_readbuf c) 0 (h # MQTTPacket_encode n @ body)\<rparr>, w1)" "up w1" "inbox w1 = rest"
      "outbox w1 = outbox w" "clock N w1 = clock N w"
    using read_packet [OF assms(1-5) live_poised [OF assms(6) tick] assms(7)] by blast
  have "uint (header_type h) = 0 \<or> uint (header_type h) \<in> uint ` {CONNACK, PUBACK, SUBACK, UNSUBACK, PUBCOMP}"
    using assms(8) by blast
  then show ?thesis using w1 assms(7) by (simp add: cycle_def keepalive_off return_codes)
qed

text \<open>Waiting for a packet that is the next to come.\<close>

lemma waitfor_ack:
  assumes "up w" and "inbox w = h # MQTTPacket_encode n @ body @ rest" and "length body = n" and "n < 65536"
    and "1 + length (MQTTPacket_encode n) + n \<le> length (c_readbuf c)" and "live tm (clock N w)"
    and "c_keepAliveInterval c = 0" and "header_type h \<in> {CONNACK, PUBACK, SUBACK, UNSUBACK, PUBCOMP}"
  shows "\<exists>w'. waitfor N (header_type h) tm c w = Some (uint (header_type h), tm,
      c\<lparr>c_readbuf := buf_write (c_readbuf c) 0 (h # MQTTPacket_encode n @ body)\<rparr>, w') \<and>
    up w' \<and> inbox w' = rest \<and> outbox w' = outbox w \<and> clock N w' = clock N w"
  using cycle_ack [OF assms] live_check(2) [OF assms(6)]
  by (auto simp: waitfor_def waitfor_loop.simps [of N _ FAILURE])

lemma cycle_publish_delivered:
  assumes "up w" and "inbox w = publish_packet dup qos retained packetid topic payload @ rest"
    and "0 \<le> qos" and "qos \<le> 2" and "length topic < 65536"
    and "length (publish_packet dup qos retained packetid topic payload) \<le> length (c_readbuf c)"
    and "length (c_readbuf c) \<le> 65536" and "4 \<le> length (c_buf c)" and "poised patience tm (clock N w)" and "c_keepAliveInterval c = 0"
    and "qos = 0 \<or> live tm (clock N w) \<or> TimerIsExpired (clock N w) tm = (True, tm)"
    and late: "late = (0 < qos \<and> fst (TimerIsExpired (clock N w) tm))"
  shows "\<exists>c' w' behind. cycle N tm c w = Some (if late then FAILURE else uint PUBLISH, tm, c', w') \<and>
    up w' \<and> inbox w' = rest \<and> clock N w' = clock N w \<and>
    outbox w' = outbox w @ (if late then [] else publish_reply qos packetid) \<and>
    isconnected c' = (if late then 0 else isconnected c) \<and>
    delivered c' = delivered c @ map (\<lambda>h. (h, lenstr topic,
      publish_message dup qos retained (if qos > 0 then packetid else uninit c) payload behind)) (receivers topic c)"
proof -
  let ?p = "publish_packet dup qos retained packetid topic payload"
  define var where "var = (writeInt (length topic) @ topic) @ (if qos > 0 then writeInt (unat packetid) else []) @ payload"
  let ?h = "header_byte PUBLISH dup (of_int qos) retained" and ?e = "MQTTPacket_encode (length var)"
  have p: "?p = ?h # ?e @ var" by (simp add: publish_packet_def var_def writeChar_def)
  have size: "1 + length ?e + length var \<le> length (c_readbuf c)" "length var < 65536" using assms(6,7) by (simp_all add: p)
  obtain w1 where w1: "readPacket N tm c w = Some (uint PUBLISH, tm, c\<lparr>c_readbuf := buf_write (c_readbuf c) 0 ?p\<rparr>, w1)"
      "up w1" "inbox w1 = rest" "outbox w1 = outbox w" "clock N w1 = clock N w"
    using read_packet [of w ?h "length var" var rest c tm] assms size by (auto simp: p)
  define c1 where "c1 = c\<lparr>c_readbuf := buf_write (c_readbuf c) 0 ?p\<rparr>"
  have c1: "c_buf c1 = c_buf c" "c_keepAliveInterval c1 = 0" "uninit c1 = uninit c" "isconnected c1 = isconnected c"
      "delivered c1 = delivered c" "c_readbuf c1 = ?p @ drop (length ?p) (c_readbuf c)" "receivers topic c1 = receivers topic c"
    using assms(10) by (simp_all add: c1_def buf_write_def receivers_def cong: if_cong option.case_cong)
  have "2 + length topic + (if qos > 0 then 2 else 0) + length payload < 268435456"
    using size(2) by (simp add: var_def split: if_splits)
  from cycle_publish_ok [OF w1(2) assms(3,4) _ _ c1(6) assms(5) this, of tm late] obtain c' w' where
      "cycle_publish N tm c1 w1 = Some (late, if late then FAILURE else SUCCESS, tm, c', w')"
      "up w'" "inbox w' = rest" "clock N w' = clock N w"
      "outbox w' = outbox w @ (if late then [] else publish_reply qos packetid)" "isconnected c' = isconnected c"
      "c_keepAliveInterval c' = 0"
      "delivered c' = delivered c @ map (\<lambda>h. (h, lenstr topic, publish_message dup qos retained
        (if qos > 0 then packetid else uninit c) payload (drop (length ?p) (c_readbuf c)))) (receivers topic c)"
    using assms(8,11) late by (auto simp: w1 c1)
  with w1(1) show ?thesis
    by (fold c1_def) (auto simp: cycle_def keepalive_off return_codes msg_types MQTTCloseSession_def MQTTCleanSession_def Let_def)
qed

end

section \<open>Commands and their acknowledgements\<close>

lemma connack_read:
  "MQTTDeserialize_connack out (header_byte CONNACK 0 0 0 # MQTTPacket_encode 2 @ [f, code] @ rest) =
     Some (1, out\<lparr>co_sessionPresent := f AND 1, co_connack_rc := code\<rparr>)"
  using decode_packet [of 2 "[f, code] @ rest"]
  by (simp add: MQTTDeserialize_connack_def Let_def)

lemma ack_read:
  "\<exists>o'. MQTTDeserialize_ack out (h # MQTTPacket_encode 2 @ writeInt (unat (x :: u16)) @ rest) = Some (1, o')"
  using decode_packet [of 2 "writeInt (unat x) @ rest"]
  by (simp add: MQTTDeserialize_ack_def Let_def)

lemma buf_write_drop: "buf_write b 0 xs = xs @ drop (length xs) b"
  by (simp add: buf_write_def)

lemma cstr_ok: "length t < 65536 \<Longrightarrow> str_ok (cstr t) \<and> str_bytes (cstr t) = t \<and> MQTTstrlen (cstr t) = length t"
  by (simp add: str_ok_def cstr_def MQTTString_initializer_def MQTTstrlen_def str_bytes_def)

context mqtt_link
begin

text \<open>A command that has been serialized is sent while the timer started for it is live.\<close>

lemma send_command:
  assumes "up w" and "bytes \<noteq> []" and "length bytes \<le> length (c_buf c)" and "length bytes < 65536"
    and "10 \<le> command_timeout_ms c"
  shows "\<exists>w'. sendPacket N (int (length bytes)) (command_timer N c w) (d\<lparr>c_buf := buf_write (c_buf c) 0 bytes\<rparr>) w =
      Some (SUCCESS, command_timer N c w, d\<lparr>c_buf := buf_write (c_buf c) 0 bytes,
        last_sent := TimerCountdown (clock N w) (c_keepAliveInterval d) (last_sent d)\<rparr>, w') \<and>
    up w' \<and> inbox w' = inbox w \<and> outbox w' = outbox w @ bytes \<and> clock N w' = clock N w \<and>
    live (command_timer N c w) (clock N w')"
  using send_packet [OF assms(1-4) live_countdown [OF assms(5)], of "d\<lparr>c_buf := buf_write (c_buf c) 0 bytes\<rparr>" TimerInit]
    live_countdown [OF assms(5)]
  by (auto simp: command_timer_def)

lemma connect_outcome:
  assumes "up w" and "inbox w = header_byte CONNACK 0 0 0 # MQTTPacket_encode 2 @ [f, code] @ rest"
    and "isconnected c = 0" and "keepAliveInterval d = 0"
    and ser: "MQTTSerialize_connect (length (c_buf c)) d = Some (int (length bytes), bytes)"
    and "bytes \<noteq> []" and "length bytes \<le> length (c_buf c)" and "length bytes < 65536"
    and "10 \<le> command_timeout_ms c" and "4 \<le> length (c_readbuf c)"
  shows "\<exists>data' c' w'. MQTTConnectWithResults N (Some d) data c w = Some (uint code, data', c', w') \<and> up w' \<and>
    inbox w' = rest \<and> outbox w' = outbox w @ bytes \<and> isconnected c' = (if code = 0 then 1 else 0) \<and>
    co_connack_rc data' = code"
proof -
  define c1 where "c1 = c\<lparr>c_keepAliveInterval := 0, c_cleansession := uint (cleansession d),
    last_received := TimerCountdown (clock N w) 0 (last_received c)\<rparr>"
  define tm where "tm = command_timer N c w"
  obtain w1 where w1: "sendPacket N (int (length bytes)) tm (c1\<lparr>c_buf := buf_write (c_buf c) 0 bytes\<rparr>) w =
      Some (SUCCESS, tm, c1\<lparr>c_buf := buf_write (c_buf c) 0 bytes,
        last_sent := TimerCountdown (clock N w) (c_keepAliveInterval c1) (last_sent c1)\<rparr>, w1)"
    "up w1" "inbox w1 = inbox w" "outbox w1 = outbox w @ bytes" "live tm (clock N w1)"
    using send_command [OF assms(1,6,7,8,9), of c1] unfolding tm_def by blast
  define c2 where "c2 = c1\<lparr>c_buf := buf_write (c_buf c) 0 bytes,
    last_sent := TimerCountdown (clock N w) (c_keepAliveInterval c1) (last_sent c1)\<rparr>"
  have c2: "c_keepAliveInterval c2 = 0" "c_readbuf c2 = c_readbuf c" "isconnected c2 = 0"
    using assms(3) by (simp_all add: c1_def c2_def)
  obtain w2 where w2: "waitfor N CONNACK tm c2 w1 = Some (uint CONNACK, tm,
      c2\<lparr>c_readbuf := buf_write (c_readbuf c) 0 (header_byte CONNACK 0 0 0 # MQTTPacket_encode 2 @ [f, code])\<rparr>, w2)"
      "up w2" "inbox w2 = rest" "outbox w2 = outbox w1"
    using waitfor_ack [of w1 "header_byte CONNACK 0 0 0" 2 "[f, code]" rest c2 tm] w1 assms(2,10) c2
    by (auto simp: encode_2)
  have s: "sendPacket N (int (length bytes)) tm (c1\<lparr>c_buf := buf_write (c_buf c) 0 bytes\<rparr>) w = Some (SUCCESS, tm, c2, w1)"
    using w1(1) by (simp add: c2_def)
  have "0 < length bytes" using assms(6) by simp
  moreover have "uint code = 0 \<longleftrightarrow> code = 0" by (simp add: unsigned_eq_0_iff)
  ultimately show ?thesis
    using s w2 w1(4) c2 assms(3,4) ser connack_read
    by (simp add: MQTTConnectWithResults_def tm_def [symmetric] c1_def into_buf_def buf_write_drop return_codes Let_def)
qed

end

section \<open>The Ethernet socket as a link\<close>

text \<open>An open socket whose data have all arrived, in any segmentation.\<close>

definition socket_up :: "sock_world \<Rightarrow> bool" where
  "socket_up w \<longleftrightarrow> tx_script w = [] \<and> \<not> tx_stuck w \<and> (\<forall>(d, e) \<in> set (rx_script w). d = 0 \<and> (\<exists>bs. e = RxChunk bs))"

fun event_bytes :: "rx_event \<Rightarrow> u8 list" where
  "event_bytes (RxChunk bs) = bs"
| "event_bytes _ = []"

definition socket_inbox :: "sock_world \<Rightarrow> u8 list" where
  "socket_inbox w = concat (map (event_bytes \<circ> snd) (rx_script w))"

lemma read_loop_up:
  "socket_up w \<Longrightarrow> live tm (now w) \<Longrightarrow> 0 < k \<Longrightarrow> k < 65536 \<Longrightarrow> k \<le> length (socket_inbox w) \<Longrightarrow>
   \<exists>w'. FreeRTOS_read_loop (length acc + k) acc tm w = Some (int (length acc + k), acc @ take k (socket_inbox w), w') \<and>
     socket_up w' \<and> socket_inbox w' = drop k (socket_inbox w) \<and> sock_sent w' = sock_sent w \<and> now w' = now w"
proof (induction "rx_script w" arbitrary: w acc k)
  case Nil
  then show ?case by (simp add: socket_inbox_def)
next
  case (Cons e es)
  have "e \<in> set (rx_script w)" by (simp add: Cons.hyps(2) [symmetric])
  then obtain bs where e: "e = (0, RxChunk bs)" using Cons.prems(1) by (auto simp: socket_up_def)
  have script: "rx_script w = (0, RxChunk bs) # es" using Cons.hyps(2) e by simp
  let ?w = "w\<lparr>rx_script := es\<rparr>"
  have up: "socket_up ?w" using Cons.prems(1) script by (simp add: socket_up_def)
  have inbox: "socket_inbox w = bs @ socket_inbox ?w" by (simp add: socket_inbox_def script)
  have r: "sock_recv k w = (int (min k (length bs)), take k bs,
      if length bs \<le> k then ?w else ?w\<lparr>rx_script := (0, RxChunk (drop k bs)) # es\<rparr>)"
    using Cons.prems(3,4) by (simp add: sock_recv_def script Let_def)
  show ?case
  proof (cases "length bs < k")
    case True
    have "\<exists>w'. FreeRTOS_read_loop (length (acc @ bs) + (k - length bs)) (acc @ bs) tm ?w =
        Some (int (length (acc @ bs) + (k - length bs)), (acc @ bs) @ take (k - length bs) (socket_inbox ?w), w') \<and>
      socket_up w' \<and> socket_inbox w' = drop (k - length bs) (socket_inbox ?w) \<and> sock_sent w' = sock_sent ?w \<and> now w' = now ?w"
      using True Cons.prems by (intro Cons.hyps(1)) (simp_all add: up inbox)
    then show ?thesis
      using True r live_check(1) [OF Cons.prems(2)]
      by (subst FreeRTOS_read_loop.simps) (simp add: inbox)
  next
    case False
    then show ?thesis
      using r up Cons.prems(1)
      by (subst FreeRTOS_read_loop.simps) (simp add: inbox, auto simp: socket_inbox_def socket_up_def script)
  qed
qed

lemma FreeRTOS_read_le: "FreeRTOS_read n t w = Some (rc, bs, w') \<Longrightarrow> length bs \<le> n"
proof -
  let ?tm = "TimerCountdownMS (now w) t TimerInit"
  have "xTicksToWait ?tm \<noteq> portMAX_DELAY" "armed ?tm (now w)"
    using ms_ticks(2) by (simp_all add: TimerCountdownMS_def vTaskSetTimeOutState_def armed_def)
  then show "FreeRTOS_read n t w = Some (rc, bs, w') \<Longrightarrow> length bs \<le> n"
    using read_loop_returns [of "[]" n ?tm w] by (auto simp: FreeRTOS_read_def)
qed

interpretation eth: mqtt_link freertos_net socket_up socket_inbox sock_sent 10
proof
  show "mqttread freertos_net n t w = Some (rc, bs, w') \<Longrightarrow> length bs \<le> n" for n t w rc bs w'
    by (auto simp: freertos_net_def dest: FreeRTOS_read_le)
  show "(10 :: u32) \<le> 10" by simp
  fix w :: sock_world and n :: nat and t :: u32 and bs :: "u8 list"
  assume up: "socket_up w"
  {
    assume "0 < n" "n \<le> length (socket_inbox w)" "n < 65536" "10 \<le> t"
    then show "\<exists>w'. mqttread freertos_net n t w = Some (int n, take n (socket_inbox w), w') \<and> socket_up w' \<and>
        socket_inbox w' = drop n (socket_inbox w) \<and> sock_sent w' = sock_sent w \<and>
        clock freertos_net w' = clock freertos_net w"
      using read_loop_up [OF up, of "TimerCountdownMS (now w) t TimerInit" n "[]"] live_countdown [of t "now w" TimerInit]
      by (simp add: freertos_net_def FreeRTOS_read_def)
  }
  {
    assume "bs \<noteq> []" "length bs < 65536"
    then show "\<exists>w'. mqttwrite freertos_net bs t w = Some (int (length bs), w') \<and> socket_up w' \<and>
        socket_inbox w' = socket_inbox w \<and> sock_sent w' = sock_sent w @ bs \<and>
        clock freertos_net w' = clock freertos_net w"
      using up by (simp add: freertos_net_def FreeRTOS_write_def FreeRTOS_write_loop.simps [of bs 0] sock_send_def
        socket_up_def socket_inbox_def)
  }
qed

text \<open>
  An open socket that holds one burst of data, with a quiet pass or nothing at all behind it:
  what is there is read even by a poll with no patience.
\<close>

definition quiet :: "(nat \<times> rx_event) list \<Rightarrow> bool" where
  "quiet es \<longleftrightarrow> es = [] \<or> (\<exists>d fs. es = (d, RxNothing) # fs)"

definition burst_up :: "(nat \<times> rx_event) list \<Rightarrow> sock_world \<Rightarrow> bool" where
  "burst_up es w \<longleftrightarrow> quiet es \<and> tx_script w = [] \<and> \<not> tx_stuck w \<and>
     (rx_script w = es \<or> (\<exists>bs. rx_script w = (0, RxChunk bs) # es \<and> bs \<noteq> []))"

definition burst_inbox :: "sock_world \<Rightarrow> u8 list" where
  "burst_inbox w = (case rx_script w of [] \<Rightarrow> [] | e # es \<Rightarrow> event_bytes (snd e))"

lemma burst_inbox_Cons: "burst_up es w \<Longrightarrow> burst_inbox w \<noteq> [] \<Longrightarrow> rx_script w = (0, RxChunk (burst_inbox w)) # es"
  by (auto simp: burst_up_def burst_inbox_def quiet_def)

lemma burst_pass:
  assumes "burst_up es w" and "0 < n" and "n \<le> length (burst_inbox w)" and "n < 65536"
  shows "\<exists>w'. sock_recv n w = (int n, take n (burst_inbox w), w') \<and> burst_up es w' \<and>
    burst_inbox w' = drop n (burst_inbox w) \<and> sock_sent w' = sock_sent w \<and> now w' = now w"
proof -
  let ?b = "burst_inbox w"
  have "?b \<noteq> []" using assms(2,3) by auto
  then have es: "rx_script w = (0, RxChunk ?b) # es" using burst_inbox_Cons [OF assms(1)] by blast
  let ?w = "if length ?b \<le> n then w\<lparr>rx_script := es\<rparr> else w\<lparr>rx_script := (0, RxChunk (drop n ?b)) # es\<rparr>"
  have "sock_recv n w = (int n, take n ?b, ?w)"
    using es assms \<open>?b \<noteq> []\<close> by (simp add: sock_recv_def)
  moreover have "burst_up es ?w" using assms(1) by (auto simp: burst_up_def)
  moreover have "burst_inbox ?w = drop n ?b" using assms(1) by (auto simp: burst_inbox_def burst_up_def quiet_def)
  ultimately show ?thesis by auto
qed

interpretation burst: mqtt_link freertos_net "burst_up es" burst_inbox sock_sent 0 for es
proof
  show "(0 :: u32) \<le> 10" by simp
  fix w :: sock_world and n :: nat and t :: u32 and bs :: "u8 list"
  assume up: "burst_up es w"
  {
    assume "0 < n" "n \<le> length (burst_inbox w)" "n < 65536"
    then show "\<exists>w'. mqttread freertos_net n t w = Some (int n, take n (burst_inbox w), w') \<and> burst_up es w' \<and>
        burst_inbox w' = drop n (burst_inbox w) \<and> sock_sent w' = sock_sent w \<and>
        clock freertos_net w' = clock freertos_net w"
      using burst_pass [OF up, of n]
      by (auto simp: freertos_net_def FreeRTOS_read_def FreeRTOS_read_loop.simps [of n "[]"] min_absorb2)
  }
  {
    assume "bs \<noteq> []" "length bs < 65536"
    then show "\<exists>w'. mqttwrite freertos_net bs t w = Some (int (length bs), w') \<and> burst_up es w' \<and>
        burst_inbox w' = burst_inbox w \<and> sock_sent w' = sock_sent w @ bs \<and>
        clock freertos_net w' = clock freertos_net w"
      using up by (simp add: freertos_net_def FreeRTOS_write_def FreeRTOS_write_loop.simps [of bs 0] sock_send_def
        burst_up_def burst_inbox_def)
  }
qed

text \<open>The timer of a poll with 0 ms has run out from the start.\<close>

lemma poll_timer:
  "TimerIsExpired ts (TimerCountdownMS ts 0 TimerInit) = (True, TimerCountdownMS ts 0 TimerInit)"
  "xTaskCheckForTimeOut ts (TimerCountdownMS ts 0 TimerInit) = (True, TimerCountdownMS ts 0 TimerInit)"
  "TimerLeftMS ts (TimerCountdownMS ts 0 TimerInit) = (0, TimerCountdownMS ts 0 TimerInit)"
  "poised 0 (TimerCountdownMS ts 0 TimerInit) ts"
  by (simp_all add: TimerIsExpired_def TimerLeftMS_def poised_def xTaskCheckForTimeOut_def TimerCountdownMS_def
      vTaskSetTimeOutState_def TimerInit_def portMAX_DELAY_def)

lemma poll_read_short:
  assumes "burst_up es w" and "burst_inbox w = ys" and "ys \<noteq> []" and "length ys < n" and "n < 65536"
  shows "FreeRTOS_read n 0 w = Some (int (length ys), ys, w\<lparr>rx_script := es\<rparr>)"
proof -
  have "rx_script w = (0, RxChunk ys) # es" using burst_inbox_Cons [OF assms(1)] assms(2,3) by simp
  then have "sock_recv n w = (int (length ys), ys, w\<lparr>rx_script := es\<rparr>)"
    using assms by (simp add: sock_recv_def)
  then show ?thesis using assms(4) by (simp add: FreeRTOS_read_def FreeRTOS_read_loop.simps [of n "[]"] poll_timer)
qed

end
