(* ===== verification/Client_Invariant.thy ===== *)
theory Client_Invariant
  imports Client_Properties
begin

text \<open>
  The invariant of the MQTT client: what every operation keeps, on whatever network and after
  whatever failures, and with it every reachable client. The sequences of operations an
  application performs are the paths of a step relation.
\<close>

section \<open>The invariant\<close>

text \<open>
  The next packet identifier is a legal one, the flags are flags, the buffers keep the sizes
  they were given, no topic filter is registered twice.
\<close>

definition filters :: "MessageHandlers list \<Rightarrow> u8 list list" where
  "filters hs = List.map_filter topicFilter hs"

definition client_inv :: "nat \<Rightarrow> nat \<Rightarrow> MQTTClient \<Rightarrow> bool" where
  "client_inv nb nr c \<longleftrightarrow>
     1 \<le> unat (next_packetid c) \<and> unat (next_packetid c) \<le> unat MAX_PACKET_ID \<and>
     isconnected c \<in> {0, 1} \<and> ping_outstanding c \<in> {0, 1} \<and>
     length (c_buf c) = nb \<and> length (c_readbuf c) = nr \<and> 0 < nr \<and>
     length (messageHandlers c) = MAX_MESSAGE_HANDLERS \<and> distinct (filters (messageHandlers c))"

lemma client_inv_frame:
  "next_packetid d = next_packetid c \<Longrightarrow> isconnected d = isconnected c \<Longrightarrow> ping_outstanding d = ping_outstanding c \<Longrightarrow>
   c_buf d = c_buf c \<Longrightarrow> c_readbuf d = c_readbuf c \<Longrightarrow> messageHandlers d = messageHandlers c \<Longrightarrow>
   client_inv nb nr d = client_inv nb nr c"
  by (simp add: client_inv_def)

lemma inv_next: "client_inv nb nr c \<Longrightarrow> client_inv nb nr (snd (getNextPacketId c))"
proof -
  assume inv: "client_inv nb nr c"
  show ?thesis
  proof (cases "next_packetid c = MAX_PACKET_ID")
    case False
    then have "unat (next_packetid c) < 65535"
      using inv by (auto simp: client_inv_def MAX_PACKET_ID_def word_unat_eq_iff)
    then have "unat (next_packetid c + 1) = unat (next_packetid c) + 1" by (simp add: unat_word_ariths)
    then show ?thesis
      using inv False \<open>unat (next_packetid c) < 65535\<close> by (simp add: client_inv_def getNextPacketId_def MAX_PACKET_ID_def Let_def)
  qed (use inv in \<open>simp add: client_inv_def getNextPacketId_def MAX_PACKET_ID_def Let_def\<close>)
qed

lemma next_connected [simp]: "isconnected (snd (getNextPacketId c)) = isconnected c"
  by (simp add: getNextPacketId_def Let_def)

section \<open>Handlers\<close>

lemma filters_None: "filters (map (\<lambda>h. h\<lparr>topicFilter := None\<rparr>) hs) = []"
  by (induction hs) (simp_all add: filters_def map_filter_simps)

lemma slot_index_hit: "slot_index P hs < length hs \<Longrightarrow> P (hs ! slot_index P hs)"
  by (induction hs) auto

lemma slot_index_miss: "\<not> slot_index P hs < length hs \<Longrightarrow> \<forall>h \<in> set hs. \<not> P h"
  by (induction hs) (auto split: if_splits)

lemma filters_split:
  "i < length hs \<Longrightarrow> filters hs = filters (take i hs) @ filters [hs ! i] @ filters (drop (Suc i) hs)"
proof -
  assume "i < length hs"
  then have "filters hs = filters (take i hs @ [hs ! i] @ drop (Suc i) hs)" by (simp add: Cons_nth_drop_Suc)
  then show ?thesis by (simp add: filters_def map_filter_def)
qed

lemma filters_update:
  "i < length hs \<Longrightarrow> filters (hs[i := h]) = filters (take i hs) @ filters [h] @ filters (drop (Suc i) hs)"
  using filters_split [of i "hs[i := h]"] by simp

lemma filters_simps: "filters [\<lparr>topicFilter = None, fp = g\<rparr>] = []" "filters [\<lparr>topicFilter = Some t, fp = g\<rparr>] = [t]"
  "topicFilter h = Some t \<Longrightarrow> filters [h] = [t]" "topicFilter h = None \<Longrightarrow> filters [h] = []"
  by (simp_all add: filters_def map_filter_def)

lemma filters_member: "t \<in> set (filters hs) \<longleftrightarrow> (\<exists>h \<in> set hs. topicFilter h = Some t)"
  by (induction hs) (auto simp: filters_def map_filter_simps split: option.split)

lemma set_handler_table:
  assumes "distinct (filters (messageHandlers c))"
  shows "distinct (filters (messageHandlers (snd (MQTTSetMessageHandler tf h c)))) \<and>
    length (messageHandlers (snd (MQTTSetMessageHandler tf h c))) = length (messageHandlers c)"
proof -
  let ?hs = "messageHandlers c"
  define i where "i = slot_index (\<lambda>h. topicFilter h = Some tf) ?hs"
  define j where "j = slot_index (\<lambda>h. topicFilter h = None) ?hs"
  show ?thesis
  proof (cases "i < length ?hs")
    case True
    then have "filters [?hs ! i] = [tf]" using slot_index_hit [of "\<lambda>h. topicFilter h = Some tf" ?hs]
      by (simp add: i_def filters_simps)
    then show ?thesis
      using assms True filters_split [OF True] i_def [symmetric]
      by (cases h) (simp_all add: MQTTSetMessageHandler_def Let_def filters_update filters_simps)
  next
    case new: False
    then have tf: "tf \<notin> set (filters ?hs)"
      using slot_index_miss [of "\<lambda>h. topicFilter h = Some tf" ?hs] by (auto simp: i_def filters_member)
    show ?thesis
    proof (cases "h \<noteq> None \<and> j < length ?hs")
      case True
      then have "filters [?hs ! j] = []" using slot_index_hit [of "\<lambda>h. topicFilter h = None" ?hs]
        by (simp add: j_def filters_simps)
      then show ?thesis
        using assms tf True new filters_split [of j ?hs] i_def [symmetric] j_def [symmetric]
        by (auto simp add: MQTTSetMessageHandler_def Let_def filters_update filters_simps)
    next
      case False
      then show ?thesis using assms new i_def [symmetric] j_def [symmetric]
        by (auto simp: MQTTSetMessageHandler_def Let_def)
    qed
  qed
qed

lemma set_handler_rest:
  "\<exists>hs. snd (MQTTSetMessageHandler tf h c) = c\<lparr>messageHandlers := hs\<rparr>"
  by (rule exI [of _ "messageHandlers (snd (MQTTSetMessageHandler tf h c))"])
    (simp add: MQTTSetMessageHandler_def Let_def)

lemma inv_set_handler: "client_inv nb nr c \<Longrightarrow> client_inv nb nr (snd (MQTTSetMessageHandler tf h c))"
  using set_handler_rest [of tf h c] set_handler_table [of c tf h] by (auto simp: client_inv_def)

lemma set_handler_connected [simp]: "isconnected (snd (MQTTSetMessageHandler tf h c)) = isconnected c"
  using set_handler_rest [of tf h c] by auto

lemma inv_close: "client_inv nb nr c \<Longrightarrow> client_inv nb nr (MQTTCloseSession c)"
  by (simp add: client_inv_def MQTTCloseSession_def MQTTCleanSession_def filters_None Let_def)

lemma close_disconnects [simp]: "isconnected (MQTTCloseSession c) = 0"
  by (simp add: MQTTCloseSession_def MQTTCleanSession_def Let_def)

lemma inv_deliver: "deliverMessage t m c = Some (r, c') \<Longrightarrow>
    client_inv nb nr c' = client_inv nb nr c \<and> isconnected c' = isconnected c \<and> c_buf c' = c_buf c"
  by (auto simp: deliverMessage_def Let_def client_inv_def split: if_splits option.splits)

section \<open>Serializing and sending\<close>

lemma emit_fits: "emit n bs = Some (l, bytes) \<Longrightarrow> length bytes \<le> n"
  by (auto simp: emit_def split: if_splits)

lemma if_short: "(if b then Some (MQTTPACKET_BUFFER_TOO_SHORT, []) else r) = Some (l, bytes) \<Longrightarrow>
    (r = Some (l, bytes) \<Longrightarrow> length bytes \<le> n) \<Longrightarrow> length bytes \<le> n"
  by (auto split: if_splits)

lemma ack_fits: "MQTTSerialize_ack n t dup i = Some (l, bytes) \<Longrightarrow> length bytes \<le> n"
  unfolding MQTTSerialize_ack_def by (erule if_short) (rule emit_fits)

lemma zero_fits: "MQTTSerialize_zero n t = Some (l, bytes) \<Longrightarrow> length bytes \<le> n"
  unfolding MQTTSerialize_zero_def by (erule if_short) (rule emit_fits)

lemma publish_fits: "MQTTSerialize_publish n dup qos retained i topic payload k = Some (l, bytes) \<Longrightarrow> length bytes \<le> n"
  unfolding MQTTSerialize_publish_def Let_def
  by (erule if_short) (auto simp: bind_eq_Some_conv split: if_split_asm dest: emit_fits)

lemma connect_fits: "MQTTSerialize_connect n d = Some (l, bytes) \<Longrightarrow> length bytes \<le> n"
  unfolding MQTTSerialize_connect_def Let_def
  by (erule if_short) (simp only: bind_eq_Some_conv, elim exE conjE, erule emit_fits)

lemma subscribe_fits: "MQTTSerialize_subscribe n dup i ts = Some (l, bytes) \<Longrightarrow> length bytes \<le> n"
  unfolding MQTTSerialize_subscribe_def Let_def
  by (erule if_short) (auto simp: bind_eq_Some_conv dest: emit_fits)

lemma unsubscribe_fits: "MQTTSerialize_unsubscribe n dup i fs = Some (l, bytes) \<Longrightarrow> length bytes \<le> n"
  unfolding MQTTSerialize_unsubscribe_def Let_def
  by (erule if_short) (auto simp: bind_eq_Some_conv dest: emit_fits)

lemmas serializer_fits = ack_fits zero_fits publish_fits connect_fits subscribe_fits unsubscribe_fits

lemma inv_into_buf:
  assumes "into_buf r c = Some (len, c')" and "\<And>l bytes. r = Some (l, bytes) \<Longrightarrow> length bytes \<le> length (c_buf c)"
  shows "client_inv nb nr c' = client_inv nb nr c \<and> isconnected c' = isconnected c"
proof -
  obtain l bytes where "r = Some (l, bytes)" "c' = c\<lparr>c_buf := buf_write (c_buf c) 0 bytes\<rparr>"
    using assms(1) by (auto simp: into_buf_def split: bind_splits)
  with assms(2) show ?thesis by (simp add: client_inv_def)
qed

lemma inv_send:
  "sendPacket N len tm c w = Some (rc, tm', c', w') \<Longrightarrow>
   client_inv nb nr c' = client_inv nb nr c \<and> isconnected c' = isconnected c \<and> rc \<in> {SUCCESS, FAILURE}"
  by (auto simp: sendPacket_def client_inv_def split: bind_splits if_splits)

lemma set_handler_codes: "fst (MQTTSetMessageHandler tf h c) \<in> {SUCCESS, FAILURE}"
  by (auto simp: MQTTSetMessageHandler_def Let_def)


section \<open>Results of fallible code\<close>

text \<open>Every result satisfies the predicate; the rules follow the code.\<close>

definition yields :: "('a \<Rightarrow> bool) \<Rightarrow> 'a option \<Rightarrow> bool" where
  "yields P r \<longleftrightarrow> (\<forall>x. r = Some x \<longrightarrow> P x)"

lemma yieldsD: "yields P r \<Longrightarrow> r = Some x \<Longrightarrow> P x"
  by (simp add: yields_def)

lemma yields_Some [simp]: "yields P (Some x) = P x"
  by (simp add: yields_def)

lemma yields_None [simp]: "yields P None"
  by (simp add: yields_def)

lemma yields_bind: "yields Q m \<Longrightarrow> (\<And>x. Q x \<Longrightarrow> yields P (f x)) \<Longrightarrow> yields P (m \<bind> f)"
  by (cases m) auto

lemma yields_any: "(\<And>x. yields P (f x)) \<Longrightarrow> yields P (m \<bind> f)"
  by (cases m) auto

lemma yields_if: "(b \<Longrightarrow> yields P r) \<Longrightarrow> (\<not> b \<Longrightarrow> yields P s) \<Longrightarrow> yields P (if b then r else s)"
  by simp

lemma yields_map: "yields Q m \<Longrightarrow> (\<And>x. Q x \<Longrightarrow> P (f x)) \<Longrightarrow> yields P (map_option f m)"
  by (cases m) auto

lemma yields_let: "(\<And>x. x = v \<Longrightarrow> yields P (f x)) \<Longrightarrow> yields P (Let v f)"
  by simp

lemma yields_case: "(\<And>x y. v = (x, y) \<Longrightarrow> yields P (f x y)) \<Longrightarrow> yields P (case v of (x, y) \<Rightarrow> f x y)"
  by (cases v) simp

lemma yields_weaken: "yields Q r \<Longrightarrow> (\<And>x. Q x \<Longrightarrow> P x) \<Longrightarrow> yields P r"
  by (cases r) auto

section \<open>What operations keep\<close>

text \<open>An operation keeps the invariant and does not connect a client.\<close>

definition keeps :: "MQTTClient \<Rightarrow> MQTTClient \<Rightarrow> bool" where
  "keeps c c' \<longleftrightarrow> (\<forall>nb nr. client_inv nb nr c \<longrightarrow> client_inv nb nr c') \<and> (isconnected c = 0 \<longrightarrow> isconnected c' = 0)"

lemma keeps_refl [simp, intro]: "keeps c c"
  by (simp add: keeps_def)

lemma keeps_trans: "keeps a b \<Longrightarrow> keeps b c \<Longrightarrow> keeps a c"
  by (simp add: keeps_def)

lemma keeps_close [intro]: "keeps a c \<Longrightarrow> keeps a (MQTTCloseSession c)"
  by (simp add: keeps_def inv_close)

lemma keeps_next [intro]: "keeps a c \<Longrightarrow> keeps a (snd (getNextPacketId c))"
  by (simp add: keeps_def inv_next)

lemma keeps_set_handler [intro]: "keeps a c \<Longrightarrow> keeps a (snd (MQTTSetMessageHandler tf h c))"
  by (simp add: keeps_def inv_set_handler)

lemma keeps_frame:
  "keeps a c \<Longrightarrow> next_packetid d = next_packetid c \<Longrightarrow> isconnected d = isconnected c \<Longrightarrow>
   ping_outstanding d \<in> {ping_outstanding c, 0, 1} \<Longrightarrow>
   c_buf d = c_buf c \<Longrightarrow> length (c_readbuf d) = length (c_readbuf c) \<Longrightarrow> messageHandlers d = messageHandlers c \<Longrightarrow> keeps a d"
  by (auto simp: keeps_def client_inv_def)

lemma keeps_updates [intro]:
  "keeps a c \<Longrightarrow> keeps a (c\<lparr>ping_outstanding := 0\<rparr>)" "keeps a c \<Longrightarrow> keeps a (c\<lparr>ping_outstanding := 1\<rparr>)"
  "keeps a c \<Longrightarrow> keeps a (c\<lparr>last_sent := t\<rparr>)" "keeps a c \<Longrightarrow> keeps a (c\<lparr>last_received := t\<rparr>)"
  "keeps a c \<Longrightarrow> keeps a (c\<lparr>c_keepAliveInterval := i\<rparr>)" "keeps a c \<Longrightarrow> keeps a (c\<lparr>c_cleansession := s\<rparr>)"
  by (simp_all add: keeps_def client_inv_def)

lemma deliver_keeps: "keeps a c \<Longrightarrow> yields (\<lambda>(r, c'). keeps a c') (deliverMessage t m c)"
  using inv_deliver by (fastforce simp: keeps_def yields_def)

lemma into_buf_keeps:
  "keeps a c \<Longrightarrow> yields (\<lambda>(l, bytes). length bytes \<le> length (c_buf c)) r \<Longrightarrow> yields (\<lambda>(len, c'). keeps a c') (into_buf r c)"
  by (cases r) (auto simp: into_buf_def keeps_def client_inv_def)

lemma serializers_fit:
  "yields (\<lambda>(l, bytes). length bytes \<le> n) (MQTTSerialize_ack n t dup i)"
  "yields (\<lambda>(l, bytes). length bytes \<le> n) (MQTTSerialize_pingreq n)"
  "yields (\<lambda>(l, bytes). length bytes \<le> n) (MQTTSerialize_disconnect n)"
  "yields (\<lambda>(l, bytes). length bytes \<le> n) (MQTTSerialize_publish n dup qos retained i topic payload k)"
  "yields (\<lambda>(l, bytes). length bytes \<le> n) (MQTTSerialize_connect n d)"
  "yields (\<lambda>(l, bytes). length bytes \<le> n) (MQTTSerialize_subscribe n dup i ts)"
  "yields (\<lambda>(l, bytes). length bytes \<le> n) (MQTTSerialize_unsubscribe n dup i fs)"
  by (auto simp: yields_def MQTTSerialize_pingreq_def MQTTSerialize_disconnect_def dest: serializer_fits)

lemma send_keeps: "keeps a c \<Longrightarrow> yields (\<lambda>(rc, tm, c', w). keeps a c' \<and> rc \<in> {SUCCESS, FAILURE}) (sendPacket N len tm c w)"
  using inv_send [of N len tm c w] by (fastforce simp: keeps_def yields_def)

lemma send_if_keeps:
  "keeps a c \<Longrightarrow> yields (\<lambda>(rc, tm, c', w). keeps a c') (if len \<le> 0 then Some (FAILURE, tm, c, w) else sendPacket N len tm c w)"
  "keeps a c \<Longrightarrow> yields (\<lambda>(rc, tm, c', w). keeps a c') (if 0 < len then sendPacket N len tm c w else Some (FAILURE, tm, c, w))"
  using send_keeps [of a c N len tm w] by (auto simp: yields_def)

text \<open>A packet is serialized into the send buffer of the client.\<close>

lemma serialize_keeps:
  assumes "keeps a c" and "n = length (c_buf c)"
  shows "yields (\<lambda>(len, c'). keeps a c') (into_buf (MQTTSerialize_ack n t dup i) c)"
    "yields (\<lambda>(len, c'). keeps a c') (into_buf (MQTTSerialize_pingreq n) c)"
    "yields (\<lambda>(len, c'). keeps a c') (into_buf (MQTTSerialize_disconnect n) c)"
    "yields (\<lambda>(len, c'). keeps a c') (into_buf (MQTTSerialize_publish n dup qos retained i topic payload k) c)"
    "yields (\<lambda>(len, c'). keeps a c') (into_buf (MQTTSerialize_connect n d) c)"
    "yields (\<lambda>(len, c'). keeps a c') (into_buf (MQTTSerialize_subscribe n dup i ts) c)"
    "yields (\<lambda>(len, c'). keeps a c') (into_buf (MQTTSerialize_unsubscribe n dup i fs) c)"
  using assms by (auto intro: into_buf_keeps serializers_fit)

lemma ping_keeps:
  "keeps a c \<Longrightarrow> n = length (c_buf c) \<Longrightarrow> yields (\<lambda>(rc, c', w). keeps a c' \<and> rc \<in> {SUCCESS, FAILURE})
     (do {
        (len, c) \<leftarrow> into_buf (MQTTSerialize_pingreq n) c;
        if len > 0 then do {
          (rc, tm, c, w) \<leftarrow> sendPacket N len tm c w;
          Some (rc, if rc = SUCCESS then c\<lparr>ping_outstanding := 1\<rparr> else c, w)
        }
        else Some (SUCCESS, c, w)
      })"
  by (rule yields_bind [OF serialize_keeps(2)], assumption+)
    (auto intro!: yields_if yields_bind [OF send_keeps] intro: keeps_frame)

lemma keepalive_keeps: "keeps a c \<Longrightarrow> yields (\<lambda>(rc, c', w). keeps a c' \<and> rc \<in> {SUCCESS, FAILURE}) (keepalive N c w)"
  unfolding keepalive_def Let_def
  by (intro yields_if) (auto split: prod.split simp del: insert_iff intro!: yields_if ping_keeps intro: keeps_frame)

lemma cycle_pubrec_keeps: "keeps a c \<Longrightarrow> yields (\<lambda>(j, rc, tm, c', w). keeps a c') (cycle_pubrec N t tm c w)"
  unfolding cycle_pubrec_def Let_def
  by (intro yields_any)
    (auto intro!: yields_if yields_bind [OF serialize_keeps(1)] yields_bind [OF send_if_keeps(1)])

lemma ack_if_keeps:
  "keeps a c \<Longrightarrow> n = length (c_buf c) \<Longrightarrow> m = length (c_buf c) \<Longrightarrow> yields (\<lambda>(len, c'). keeps a c')
     (if p then into_buf (MQTTSerialize_ack n t 0 i) c
      else if q then into_buf (MQTTSerialize_ack m u 0 i) c else Some (0, c))"
  by (auto intro: serialize_keeps)

lemma cycle_publish_keeps: "keeps a c \<Longrightarrow> yields (\<lambda>(j, rc, tm, c', w). keeps a c') (cycle_publish N tm c w)"
  unfolding cycle_publish_def Let_def
  by (intro yields_any)
    (auto intro!: yields_if yields_bind [OF deliver_keeps] yields_bind [OF ack_if_keeps] yields_bind [OF send_if_keeps(1)])

lemma cycle_end_keeps:
  "keeps a c \<Longrightarrow> yields (\<lambda>(rc', c', w). keeps a c' \<and> (jump \<longrightarrow> rc' = rc))
     (if jump then Some (rc, c, w)
      else do { (k, c, w) \<leftarrow> keepalive N c w; Some (if k \<noteq> SUCCESS then FAILURE else rc, c, w) })"
  by (auto intro!: yields_bind [OF keepalive_keeps])

lemma keeps_readbuf:
  "keeps a c \<Longrightarrow> 0 < length (c_readbuf c) \<longrightarrow> length b = length (c_readbuf c) \<Longrightarrow> keeps a (c\<lparr>c_readbuf := b\<rparr>)"
  by (auto simp: keeps_def client_inv_def)

lemma keeps_buf_write:
  "keeps a c \<Longrightarrow> 0 < length (c_readbuf c) \<longrightarrow> off + length d \<le> length (c_readbuf c) \<Longrightarrow>
   keeps a (c\<lparr>c_readbuf := buf_write (c_readbuf c) off d\<rparr>)"
  by (rule keeps_readbuf) simp_all

lemma cycle_dispatch_keeps:
  "keeps a c \<Longrightarrow> yields (\<lambda>(jump, rc, tm, c', w). keeps a c' \<and> (packet_type < 0 \<longrightarrow> jump \<and> rc = packet_type))
     (if packet_type = 0 \<or> packet_type \<in> uint ` {CONNACK, PUBACK, SUBACK, UNSUBACK, PUBCOMP}
      then Some (False, SUCCESS, tm, c, w)
      else if packet_type = uint PUBLISH then cycle_publish N tm c w
      else if packet_type = uint PUBREC then cycle_pubrec N PUBREL tm c w
      else if packet_type = uint PUBREL then cycle_pubrec N PUBCOMP tm c w
      else if packet_type = uint PINGRESP then Some (False, SUCCESS, tm, c\<lparr>ping_outstanding := 0\<rparr>, w)
      else Some (True, packet_type, tm, c, w))"
  by (intro yields_if)
    (auto simp: not_less [symmetric] intro!: yields_weaken [OF cycle_publish_keeps] yields_weaken [OF cycle_pubrec_keeps])

lemma yields_let_client: "keeps a v \<Longrightarrow> (\<And>x. keeps a x \<Longrightarrow> length (c_readbuf x) = length (c_readbuf v) \<Longrightarrow> yields P (f x)) \<Longrightarrow>
   yields P (Let v f)"
  by simp

context mqtt_net
begin

lemma read_bytes: "yields (\<lambda>(rc, bs, w). length bs \<le> n) (mqttread N n t w)"
  using read_le by (auto simp: yields_def)

lemma read_body_keeps:
  assumes "keeps a c" and "len + n \<le> length (c_readbuf c)"
  shows "yields (\<lambda>(ok, tm, c', w). keeps a c')
    (if n > 0 then do {
       let (left, tm) = TimerLeftMS (clock N w) tm;
       (rc, bs, w) \<leftarrow> mqttread N n left w;
       Some (rc = int n, tm, c\<lparr>c_readbuf := buf_write (c_readbuf c) len bs\<rparr>, w)
     }
     else Some (True, tm, c, w))"
  unfolding Let_def
  by (intro yields_if yields_case yields_bind [OF read_bytes]) (use assms in \<open>auto intro!: keeps_buf_write\<close>)

lemma read_keeps: "keeps a c \<Longrightarrow> yields (\<lambda>(rc, tm, c', w). keeps a c') (readPacket N tm c w)"
  unfolding readPacket_def
  apply (rule yields_let, rule yields_case, rule yields_bind [OF read_bytes], clarify)
  apply (rule yields_let_client [of a], rule keeps_buf_write, assumption, arith)
  apply (rule yields_if, simp)
  apply (rule yields_let, rule yields_case, rule yields_any, simp only: split_paired_all prod.case)
  apply (rule yields_let, rule yields_let, rule yields_if, simp)
  apply (rule yields_let_client [of a], simp add: keeps_buf_write)
  apply (rule yields_if, simp)
  apply (rule yields_bind [OF read_body_keeps], auto)
  done

lemma cycle_keeps: "keeps a c \<Longrightarrow> yields (\<lambda>(rc, tm, c', w). keeps a c' \<and> (rc < 0 \<longrightarrow> isconnected c' = 0)) (cycle N tm c w)"
  unfolding cycle_def
  apply (rule yields_bind [OF read_keeps], assumption, clarify)
  apply (rule yields_bind [OF cycle_dispatch_keeps], assumption, clarify)
  apply (erule yields_bind [OF cycle_end_keeps])
  apply (auto simp: return_codes)
  done

end

text \<open>The two loops, by induction over their computations.\<close>

lemma yield_loop_keeps:
  assumes "mqtt_net N" and "keeps a c"
  shows "yields (\<lambda>(rc, c', w). keeps a c' \<and> (rc = SUCCESS \<or> rc = FAILURE \<and> isconnected c' = 0)) (MQTTYield_loop N tm c w)"
    (is "yields ?Q _")
proof -
  let ?P = "\<lambda>N tm c w r. mqtt_net N \<longrightarrow> keeps a c \<longrightarrow> ?Q r"
  have "?P N tm c w r" if r: "MQTTYield_loop N tm c w = Some r" for r
  proof (rule MQTTYield_loop.raw_induct [of ?P, OF _ r], intro impI)
    fix loop N tm c w r
    assume IH: "\<And>(N :: 'a net_ops) tm c w r. loop N tm c w = Some r \<Longrightarrow> ?P N tm c w r" and net: "mqtt_net N" and c: "keeps a c"
      and body: "cycle N tm c w \<bind> (\<lambda>(rc, tm, c, w). if rc < 0 then Some (FAILURE, c, w)
        else let (expired, tm) = TimerIsExpired (clock N w) tm
          in if expired then Some (SUCCESS, c, w) else loop N tm c w) = Some r"
    have "keeps a c \<Longrightarrow> yields ?Q (loop N tm c w)" for tm c w using IH net by (auto simp: yields_def)
    then have "yields ?Q (cycle N tm c w \<bind> (\<lambda>(rc, tm, c, w). if rc < 0 then Some (FAILURE, c, w)
        else let (expired, tm) = TimerIsExpired (clock N w) tm
          in if expired then Some (SUCCESS, c, w) else loop N tm c w))"
      by (intro yields_bind [OF mqtt_net.cycle_keeps [OF net c]]) (auto split: prod.split)
    then show "?Q r" using body by (rule yieldsD)
  qed
  then show ?thesis using assms by (auto simp: yields_def)
qed

lemma waitfor_loop_keeps:
  assumes "mqtt_net N" and "keeps a c"
  shows "yields (\<lambda>(rc, tm, c', w). keeps a c') (waitfor_loop N p rc tm c w)" (is "yields ?Q _")
proof -
  let ?P = "\<lambda>N p rc tm c w r. mqtt_net N \<longrightarrow> keeps a c \<longrightarrow> ?Q r"
  have "?P N p rc tm c w r" if r: "waitfor_loop N p rc tm c w = Some r" for r
  proof (rule waitfor_loop.raw_induct [of ?P, OF _ r], intro impI)
    fix loop N p rc tm c w r
    assume IH: "\<And>(N :: 'a net_ops) p rc tm c w r. loop N p rc tm c w = Some r \<Longrightarrow> ?P N p rc tm c w r"
      and net: "mqtt_net N" and c: "keeps a c"
      and body: "(let (expired, tm) = TimerIsExpired (clock N w) tm in
        if expired then Some (rc, tm, c, w)
        else cycle N tm c w \<bind> (\<lambda>(rc, tm, c, w).
          if rc \<noteq> p \<and> rc \<ge> 0 then loop N p rc tm c w else Some (rc, tm, c, w))) = Some r"
    have "keeps a c \<Longrightarrow> yields ?Q (loop N p rc tm c w)" for rc tm c w using IH net by (auto simp: yields_def)
    then have "yields ?Q (let (expired, tm) = TimerIsExpired (clock N w) tm in
        if expired then Some (rc, tm, c, w)
        else cycle N tm c w \<bind> (\<lambda>(rc, tm, c, w).
          if rc \<noteq> p \<and> rc \<ge> 0 then loop N p rc tm c w else Some (rc, tm, c, w)))"
      unfolding Let_def
      by (intro yields_case yields_if yields_bind [OF mqtt_net.cycle_keeps [OF net c]]) (auto simp: c)
    then show "?Q r" using body by (rule yieldsD)
  qed
  then show ?thesis using assms by (auto simp: yields_def)
qed

context mqtt_net
begin

lemma waitfor_keeps: "keeps a c \<Longrightarrow> yields (\<lambda>(rc, tm, c', w). keeps a c') (waitfor N p tm c w)"
  unfolding waitfor_def by (rule waitfor_loop_keeps [OF mqtt_net_axioms])

lemma publish_ack_keeps: "keeps a c \<Longrightarrow> yields (\<lambda>(rc, c', w). keeps a c') (publish_ack N t tm c w)"
  unfolding publish_ack_def Let_def
  by (rule yields_bind [OF waitfor_keeps], assumption) (auto intro!: yields_if yields_any)

lemma yield_keeps:
  "keeps a c \<Longrightarrow> yields (\<lambda>(rc, c', w). keeps a c' \<and> (rc = SUCCESS \<or> rc = FAILURE \<and> isconnected c' = 0)) (MQTTYield N t c w)"
  unfolding MQTTYield_def by (rule yield_loop_keeps [OF mqtt_net_axioms])

lemma finish_keeps: "keeps a c \<Longrightarrow> finish (rc, c, w) = (rc', c', w') \<Longrightarrow> keeps a c' \<and> (rc' = FAILURE \<longrightarrow> isconnected c' = 0)"
  by (auto simp: finish_def split: if_splits)

lemma next_keeps: "keeps a c \<Longrightarrow> getNextPacketId c = (i, d) \<Longrightarrow> keeps a d"
  "keeps a c \<Longrightarrow> (i, d) = getNextPacketId c \<Longrightarrow> keeps a d"
  using keeps_next [of a c] by (auto dest: sym)

lemma set_handler_keeps: "MQTTSetMessageHandler tf h c = (r, d) \<Longrightarrow> keeps a c \<Longrightarrow> keeps a d"
  using keeps_set_handler [of a c tf h] by simp

lemma publish_keeps:
  assumes c: "keeps a c"
  shows "yields (\<lambda>(rc, m, c', w). keeps a c' \<and> (rc = FAILURE \<longrightarrow> isconnected c' = 0)) (MQTTPublish N t m c w)"
  unfolding MQTTPublish_def
  apply (rule yields_bind [of "\<lambda>(m, rc, c', w). keeps a c'"])
   apply (rule yields_if, simp add: c)
   apply (rule yields_let, rule yields_let, rule yields_case)
  subgoal for _ _ m' d
    apply (subgoal_tac "keeps a d")
     apply (rule yields_bind [OF serialize_keeps(4)], assumption, rule refl)
     apply (auto intro!: yields_if yields_bind [OF send_keeps] yields_bind [OF publish_ack_keeps]) []
    apply (auto simp: c Let_def intro: next_keeps [OF c] split: if_splits prod.splits)
    done
  apply (auto dest: finish_keeps split: prod.split)
  done

lemma subscribe_keeps:
  assumes c: "keeps a c"
  shows "yields (\<lambda>(rc, g, c', w). keeps a c' \<and> (rc = FAILURE \<longrightarrow> isconnected c' = 0)) (MQTTSubscribeWithResults N t q h g c w)"
  unfolding MQTTSubscribeWithResults_def
  apply (rule yields_bind [of "\<lambda>(m, rc, c', w). keeps a c'"])
   apply (rule yields_if, simp add: c)
   apply (rule yields_let, rule yields_let, rule yields_case)
  subgoal for _ _ i d
    apply (subgoal_tac "keeps a d")
     apply (rule yields_bind [OF serialize_keeps(6)], assumption, rule refl)
     apply (simp only: split_paired_all prod.case, rule yields_if, simp, rule yields_bind [OF send_keeps], assumption)
     apply (simp only: split_paired_all prod.case, rule yields_if, simp, rule yields_bind [OF waitfor_keeps], blast)
     apply (auto simp: Let_def intro!: yields_if yields_any dest: set_handler_keeps split: prod.split) []
    apply (auto intro: next_keeps [OF c])
    done
  apply (auto dest: finish_keeps split: prod.split)
  done

lemma unsubscribe_keeps:
  assumes c: "keeps a c"
  shows "yields (\<lambda>(rc, c', w). keeps a c' \<and> (rc = FAILURE \<longrightarrow> isconnected c' = 0)) (MQTTUnsubscribe N t c w)"
  unfolding MQTTUnsubscribe_def
  apply (rule yields_map [of "\<lambda>(rc, c', w). keeps a c'"])
   apply (rule yields_if, simp add: c)
   apply (rule yields_let, rule yields_let, rule yields_case)
  subgoal for _ _ i d
    apply (subgoal_tac "keeps a d")
     apply (rule yields_bind [OF serialize_keeps(7)], assumption, rule refl)
     apply (simp only: split_paired_all prod.case, rule yields_if, simp, rule yields_bind [OF send_keeps], assumption)
     apply (simp only: split_paired_all prod.case, rule yields_if, simp, rule yields_bind [OF waitfor_keeps], blast)
     apply (auto simp: Let_def intro!: yields_if yields_any dest: set_handler_keeps split: prod.split) []
    apply (auto intro: next_keeps [OF c])
    done
  apply (auto dest: finish_keeps split: prod.split)
  done

lemma disconnect_keeps:
  "keeps a c \<Longrightarrow> yields (\<lambda>(rc, c', w). keeps a c' \<and> isconnected c' = 0) (MQTTDisconnect N c w)"
  unfolding MQTTDisconnect_def Let_def
  by (rule yields_bind [OF serialize_keeps(3)], assumption, rule refl)
    (auto intro!: yields_bind [OF send_if_keeps(2)])

text \<open>Connecting keeps everything but the flag, which tells success.\<close>

lemma connect_keeps:
  assumes c: "keeps a c"
  shows "yields (\<lambda>(rc, d, c', w). \<exists>c1. keeps a c1 \<and>
      (if rc = SUCCESS then c' = c1\<lparr>isconnected := 1, ping_outstanding := 0\<rparr> else c' = c1))
    (MQTTConnectWithResults N opts data c w)"
  unfolding MQTTConnectWithResults_def
  apply (rule yields_if)
   apply (use c in \<open>force simp: return_codes\<close>)
  apply (rule yields_let, rule yields_let, rule yields_let_client [of a], use c in blast)
  apply (rule yields_let_client [of a], blast)
  apply (rule yields_bind [OF serialize_keeps(5)], assumption, rule refl)
  apply (simp only: split_paired_all prod.case, rule yields_if, force simp: return_codes)
  apply (rule yields_bind [OF send_keeps], assumption)
  apply (simp only: split_paired_all prod.case, rule yields_if, force simp: return_codes)
  apply (rule yields_bind [OF waitfor_keeps], blast)
  apply (simp only: split_paired_all prod.case, rule yields_any)
  apply (auto intro: exI)
  done

end

section \<open>Reachable clients\<close>

text \<open>
  One call of an operation by the application; a call that ends in undefined behaviour or does
  not return has no successor.
\<close>

inductive client_step :: "'w net_ops \<Rightarrow> MQTTClient \<times> 'w \<Rightarrow> MQTTClient \<times> 'w \<Rightarrow> bool" for N where
  connect: "MQTTConnectWithResults N opts data c w = Some (rc, d, c', w') \<Longrightarrow> client_step N (c, w) (c', w')"
| subscribe: "MQTTSubscribeWithResults N tf qos h g c w = Some (rc, g', c', w') \<Longrightarrow> client_step N (c, w) (c', w')"
| unsubscribe: "MQTTUnsubscribe N tf c w = Some (rc, c', w') \<Longrightarrow> client_step N (c, w) (c', w')"
| publish: "MQTTPublish N topic m c w = Some (rc, m', c', w') \<Longrightarrow> client_step N (c, w) (c', w')"
| yield: "MQTTYield N ms c w = Some (rc, c', w') \<Longrightarrow> client_step N (c, w) (c', w')"
| disconnect: "MQTTDisconnect N c w = Some (rc, c', w') \<Longrightarrow> client_step N (c, w) (c', w')"
| set_handler: "MQTTSetMessageHandler tf h c = (rc, c') \<Longrightarrow> client_step N (c, w) (c', w)"

context mqtt_net
begin

lemma step_inv: "client_step N (c, w) (c', w') \<Longrightarrow> client_inv nb nr c \<Longrightarrow> client_inv nb nr c'"
proof (induction "(c, w)" "(c', w')" rule: client_step.induct)
  case (connect opts data rc d)
  then obtain c1 where "keeps c c1" "c' = c1 \<or> c' = c1\<lparr>isconnected := 1, ping_outstanding := 0\<rparr>"
    using yieldsD [OF connect_keeps [OF keeps_refl] connect.hyps(1)] by (auto split: if_splits)
  then show ?case using connect.prems by (auto simp: keeps_def client_inv_def)
next
  case (subscribe tf qos h g rc g')
  show ?case using yieldsD [OF subscribe_keeps [OF keeps_refl] subscribe.hyps(1)] subscribe.prems by (simp add: keeps_def)
next
  case (unsubscribe tf rc)
  show ?case using yieldsD [OF unsubscribe_keeps [OF keeps_refl] unsubscribe.hyps(1)] unsubscribe.prems by (simp add: keeps_def)
next
  case (publish topic m rc m')
  show ?case using yieldsD [OF publish_keeps [OF keeps_refl] publish.hyps(1)] publish.prems by (simp add: keeps_def)
next
  case (yield ms rc)
  show ?case using yieldsD [OF yield_keeps [OF keeps_refl] yield.hyps(1)] yield.prems by (simp add: keeps_def)
next
  case (disconnect rc)
  show ?case using yieldsD [OF disconnect_keeps [OF keeps_refl] disconnect.hyps(1)] disconnect.prems by (simp add: keeps_def)
next
  case (set_handler tf h rc)
  then show ?case using set_handler_keeps [of tf h c rc c' c] by (simp add: keeps_def)
qed

lemma reachable_inv:
  "(client_step N)\<^sup>*\<^sup>* s s' \<Longrightarrow> client_inv nb nr (fst s) \<Longrightarrow> client_inv nb nr (fst s')"
  by (induction rule: rtranclp_induct) (simp, metis prod.collapse step_inv)

end

lemma init_inv:
  "length (messageHandlers c) = MAX_MESSAGE_HANDLERS \<Longrightarrow> readbuf \<noteq> [] \<Longrightarrow>
   client_inv (length sendbuf) (length readbuf) (MQTTClientInit ms sendbuf readbuf c)"
  by (simp add: client_inv_def MQTTClientInit_def filters_None MAX_PACKET_ID_def)

text \<open>C17: Every client that an application can reach from initialisation, by any sequence of
  operations over a network that may lose, delay and split data, fail and send anything, has a
  legal next packet identifier, its buffers at their sizes, its five handler slots, and no topic
  filter registered twice.\<close>

theorem client_invariant:
  assumes "(client_step freertos_net)\<^sup>*\<^sup>* (MQTTClientInit ms sendbuf readbuf c0, w0) (c, w)"
    and "length (messageHandlers c0) = MAX_MESSAGE_HANDLERS" and "readbuf \<noteq> []"
  shows "client_inv (length sendbuf) (length readbuf) c"
  using eth.reachable_inv [OF assms(1), of "length sendbuf" "length readbuf"] init_inv [OF assms(2,3)] by simp

text \<open>A client with buffers of 64 bytes and a socket with the given input, for the examples.\<close>

definition blank_client :: MQTTClient where
  "blank_client = \<lparr>next_packetid = 0, command_timeout_ms = 0, c_buf = [], c_readbuf = [], c_keepAliveInterval = 0,
     ping_outstanding = 0, isconnected = 0, c_cleansession = 0,
     messageHandlers = replicate MAX_MESSAGE_HANDLERS \<lparr>topicFilter = None, fp = None\<rparr>, defaultMessageHandler = None,
     last_sent = TimerInit, last_received = TimerInit, delivered = [], uninit = 0\<rparr>"

definition client64 :: MQTTClient where
  "client64 = MQTTClientInit 1000 (zeros 64) (zeros 64) blank_client"

definition socket_with :: "u8 list list \<Rightarrow> sock_world" where
  "socket_with chunks = \<lparr>now = \<lparr>xNumOfOverflows = 0, xTickCount = 7\<rparr>,
     rx_script = map (\<lambda>bs. (0, RxChunk bs)) chunks, tx_script = [], tx_stuck = False, sock_sent = []\<rparr>"

lemma socket_with_up [simp]: "socket_up (socket_with chunks)" "socket_inbox (socket_with chunks) = concat chunks"
  "sock_sent (socket_with chunks) = []"
  by (auto simp: socket_up_def socket_with_def socket_inbox_def comp_def)

lemma socket_with_tx: "tx_script (socket_with chunks) = []" "\<not> tx_stuck (socket_with chunks)"
  "rx_script (socket_with chunks) = map (\<lambda>bs. (0, RxChunk bs)) chunks"
  by (simp_all add: socket_with_def)

theorem client_invariant_witness:
  "client_inv 64 64 (snd (MQTTSetMessageHandler [0x61] (Some 1) (snd (MQTTSetMessageHandler [0x61] (Some 2) client64))))"
proof -
  let ?w = "socket_with []"
  let ?c1 = "snd (MQTTSetMessageHandler [0x61] (Some 2) client64)"
  have "client_step freertos_net (client64, ?w) (?c1, ?w)"
    and "client_step freertos_net (?c1, ?w) (snd (MQTTSetMessageHandler [0x61] (Some 1) ?c1), ?w)"
    by (rule client_step.set_handler, rule prod.collapse [symmetric])+
  then have "(client_step freertos_net)\<^sup>*\<^sup>* (MQTTClientInit 1000 (zeros 64) (zeros 64) blank_client, ?w)
      (snd (MQTTSetMessageHandler [0x61] (Some 1) ?c1), ?w)"
    by (simp add: client64_def [symmetric] converse_rtranclp_into_rtranclp)
  from client_invariant [OF this] show ?thesis by (simp add: blank_client_def zeros_def)
qed

end
