(* ===== verification/Client_Outcomes.thy ===== *)
theory Client_Outcomes
  imports Client_Invariant
begin

text \<open>
  What the operations of the MQTT client achieve over the Ethernet socket: the lemmas of the
  link interface, at its interpretation by the socket.
\<close>

section \<open>Publishing with an acknowledgement\<close>

context mqtt_link
begin

lemma publish_qos1_outcome:
  assumes "up w" and "inbox w = ack_packet PUBACK x @ rest" and "isconnected c \<noteq> 0" and "c_keepAliveInterval c = 0"
    and "msg_qos m = 1" and "unat (msg_payloadlen m) = length (msg_payload m)" and "length topic < 65536"
    and n: "n = 2 + length topic + length (msg_payload m) + 2" and "n < 268435456"
    and "MQTTPacket_len n \<le> length (c_buf c)" and "length (c_buf c) < 65536"
    and "10 \<le> command_timeout_ms c" and "4 \<le> length (c_readbuf c)"
  shows "\<exists>c' w'. MQTTPublish N topic m c w =
      Some (SUCCESS, m\<lparr>msg_id := ucast (next_packetid c')\<rparr>, c', w') \<and> up w' \<and> inbox w' = rest \<and>
    outbox w' = outbox w @ publish_packet 0 1 (msg_retained m) (ucast (next_packetid c')) topic (msg_payload m) \<and>
    next_packetid c' = fst (getNextPacketId c) \<and> isconnected c' = isconnected c"
proof -
  obtain i c1 where nx: "getNextPacketId c = (i, c1)" by force
  have c1: "c1 = c\<lparr>next_packetid := i\<rparr>" using nx by (auto simp: getNextPacketId_def Let_def)
  let ?bytes = "publish_packet 0 1 (msg_retained m) (ucast i) topic (msg_payload m)"
  have t: "str_ok (cstr topic)" "str_bytes (cstr topic) = topic" "MQTTstrlen (cstr topic) = length topic"
    using cstr_ok [OF assms(7)] by auto
  have "n = MQTTSerialize_publishLength 1 (cstr topic) (length (msg_payload m))"
    by (simp add: n t MQTTSerialize_publishLength_def)
  then have ser: "MQTTSerialize_publish (length (c_buf c)) 0 1 (msg_retained m) (ucast i) (cstr topic) (msg_payload m)
      (length (msg_payload m)) = Some (int (length ?bytes), ?bytes)" and len: "length ?bytes \<le> length (c_buf c)"
    using publish_serialized [OF t(1) _ assms(9,10), of 1 "msg_payload m" 0 "msg_retained m" "ucast i"]
    by (simp_all add: t Let_def)
  have bytes: "?bytes \<noteq> []" "length ?bytes < 65536"
    using len assms(11) by (simp_all add: publish_packet_def writeChar_def Let_def)
  define tm where "tm = command_timer N c w"
  define c2 where "c2 = c1\<lparr>c_buf := buf_write (c_buf c) 0 ?bytes,
    last_sent := TimerCountdown (clock N w) (c_keepAliveInterval c1) (last_sent c1)\<rparr>"
  obtain w1 where w1: "sendPacket N (int (length ?bytes)) tm (c1\<lparr>c_buf := buf_write (c_buf c) 0 ?bytes\<rparr>) w =
      Some (SUCCESS, tm, c2, w1)"
    "up w1" "inbox w1 = inbox w" "outbox w1 = outbox w @ ?bytes" "live tm (clock N w1)"
    using send_command [OF assms(1) bytes(1) len bytes(2) assms(12), of c1] unfolding tm_def c2_def by blast
  have c2: "c_keepAliveInterval c2 = 0" "c_readbuf c2 = c_readbuf c" "isconnected c2 = isconnected c" "next_packetid c2 = i"
    using assms(4) by (simp_all add: c1 c2_def)
  let ?ack = "header_byte PUBACK 0 0 0 # MQTTPacket_encode 2 @ writeInt (unat x)"
  have ack: "ack_packet PUBACK x = ?ack" by (simp add: ack_packet_def writeChar_def msg_types)
  have pa: "PUBACK AND 15 = PUBACK" by (simp add: msg_types)
  define c3 where "c3 = c2\<lparr>c_readbuf := buf_write (c_readbuf c) 0 ?ack\<rparr>"
  obtain w2 where w2: "waitfor N PUBACK tm c2 w1 = Some (uint PUBACK, tm, c3, w2)"
      "up w2" "inbox w2 = rest" "outbox w2 = outbox w1"
    using waitfor_ack [of w1 "header_byte PUBACK 0 0 0" 2 "writeInt (unat x)" rest c2 tm] w1 assms(2,13) c2
    by (auto simp: encode_2 ack c3_def pa)
  have "\<exists>o'. MQTTDeserialize_ack out (c_readbuf c3) = Some (1, o')" for out
    using ack_read [of out "header_byte PUBACK 0 0 0" x] by (simp add: c3_def buf_write_drop)
  then have "\<exists>o'. MQTTDeserialize_ack \<lparr>ao_packettype = 0, ao_dup = 0, ao_packetid = uninit c3\<rparr> (c_readbuf c3) = Some (1, o')" .
  then have "MQTTPublish N topic m c w = Some (SUCCESS, m\<lparr>msg_id := ucast i\<rparr>, c3, w2)"
    using w1 w2 ser bytes assms(3,5,6) nx c1
    by (auto simp: MQTTPublish_def tm_def [symmetric] into_buf_def publish_ack_def finish_def return_codes)
  then show ?thesis
    using w1 w2 c2 nx assms(3) by (auto simp: c3_def)
qed

end

section \<open>Over the Ethernet socket\<close>

lemma poll_cycle:
  assumes "cycle freertos_net (TimerCountdownMS (now w) 0 TimerInit) c w =
      Some (rc, TimerCountdownMS (now w) 0 TimerInit, c', w')" and "rc < 0 \<or> now w' = now w"
  shows "MQTTYield freertos_net 0 c w = Some (if rc < 0 then FAILURE else SUCCESS, c', w')"
proof -
  have "clock freertos_net = now" by (simp add: freertos_net_def)
  then show ?thesis using assms poll_timer(1) [of "now w"]
    by (subst MQTTYield_def, subst MQTTYield_loop.simps) auto
qed

lemma poll_cut_short:
  assumes "rx_script w = (0, RxChunk (h # MQTTPacket_encode n @ ys)) # es" and "quiet es" and "ys \<noteq> []" and "length ys < n"
    and "tx_script w = []" and "\<not> tx_stuck w" and "n < 65536"
    and "1 + length (MQTTPacket_encode n) + n \<le> length (c_readbuf c)" and "c_keepAliveInterval c = 0"
  shows "\<exists>buf w'. MQTTYield freertos_net 0 c w = Some (SUCCESS, c\<lparr>c_readbuf := buf\<rparr>, w') \<and>
    rx_script w' = es \<and> sock_sent w' = sock_sent w"
proof -
  let ?tm = "TimerCountdownMS (now w) 0 TimerInit"
  have up: "burst_up es w" "burst_inbox w = h # MQTTPacket_encode n @ ys"
    using assms by (simp_all add: burst_up_def burst_inbox_def)
  have "\<exists>buf w'. cycle freertos_net ?tm c w = Some (0, ?tm, c\<lparr>c_readbuf := buf\<rparr>, w') \<and>
      (rx_script w' = es \<and> sock_sent w' = sock_sent w \<and> now w' = now w)"
    using assms(3,4) poll_read_short [OF _ _ assms(3,4,7)]
    by (intro burst.cycle_cut_short [OF up _ assms(7,8) _ assms(9), where tm = ?tm])
      (auto simp: freertos_net_def poll_timer)
  then show ?thesis using poll_cycle [of w c 0] by fastforce
qed

definition publish_news ::
    "u8 \<Rightarrow> int \<Rightarrow> u8 \<Rightarrow> u16 \<Rightarrow> u8 list \<Rightarrow> u8 list \<Rightarrow> MQTTClient \<Rightarrow> u8 list \<Rightarrow> (nat \<times> MQTTString \<times> MQTTMessage) list" where
  "publish_news dup qos retained packetid topic payload c behind =
     map (\<lambda>h. (h, lenstr topic, publish_message dup qos retained (if qos > 0 then packetid else uninit c) payload behind))
       (receivers topic c)"

lemma publish_polled:
  assumes "0 \<le> qos" and "qos \<le> 2" and "length topic < 65536"
    and "length (publish_packet dup qos retained packetid topic payload) \<le> length (c_readbuf c)"
    and "length (c_readbuf c) \<le> 65536" and "4 \<le> length (c_buf c)" and "c_keepAliveInterval c = 0"
    and "tx_script w = []" and "\<not> tx_stuck w"
    and "rx_script w = [(0, RxChunk (publish_packet dup qos retained packetid topic payload @ rest))]"
  shows "\<exists>c' w' behind. MQTTYield freertos_net 0 c w = Some (if qos = 0 then SUCCESS else FAILURE, c', w') \<and>
    burst_inbox w' = rest \<and> sock_sent w' = sock_sent w \<and> isconnected c' = (if qos = 0 then isconnected c else 0) \<and>
    delivered c' = delivered c @ publish_news dup qos retained packetid topic payload c behind"
proof -
  let ?tm = "TimerCountdownMS (now w) 0 TimerInit"
  have up: "burst_up [] w" "burst_inbox w = publish_packet dup qos retained packetid topic payload @ rest"
    using assms(8-10) by (simp_all add: burst_up_def burst_inbox_def quiet_def publish_packet_def writeChar_def)
  obtain c' w' behind where r: "cycle freertos_net ?tm c w = Some (if 0 < qos then FAILURE else uint PUBLISH, ?tm, c', w')"
    "burst_inbox w' = rest" "now w' = now w" "sock_sent w' = sock_sent w @ (if 0 < qos then [] else publish_reply qos packetid)"
    "isconnected c' = (if 0 < qos then 0 else isconnected c)"
    "delivered c' = delivered c @ publish_news dup qos retained packetid topic payload c behind"
    using burst.cycle_publish_delivered [OF up assms(1-6) _ assms(7), of ?tm "0 < qos"]
    unfolding publish_news_def by (auto simp: freertos_net_def poll_timer)
  have "publish_reply 0 packetid = []" by (simp add: publish_reply_def)
  then show ?thesis using r poll_cycle [OF r(1)] assms(1)
    by (cases "qos = 0") (auto simp: return_codes intro!: exI [of _ behind])
qed

lemma publish_cut:
  assumes "0 \<le> qos" and "qos \<le> 2" and "p = publish_packet dup qos retained packetid topic payload"
    and "length p \<le> length (c_readbuf c)" and "length (c_readbuf c) \<le> 65536" and "c_keepAliveInterval c = 0"
    and "tx_script w = []" and "\<not> tx_stuck w"
    and script: "rx_script w = [(0, RxChunk (take k p)), (d, RxNothing), (0, RxChunk (drop k p @ rest))]"
    and k: "1 + length (MQTTPacket_encode (2 + length topic + (if qos > 0 then 2 else 0) + length payload)) < k" "k < length p"
  shows "\<exists>c' w'. MQTTYield freertos_net 0 c w = Some (SUCCESS, c', w') \<and>
    rx_script w' = [(d, RxNothing), (0, RxChunk (drop k p @ rest))] \<and> sock_sent w' = sock_sent w \<and>
    isconnected c' = isconnected c \<and> delivered c' = delivered c"
proof -
  define var where "var = (writeInt (length topic) @ topic) @ (if qos > 0 then writeInt (unat packetid) else []) @ payload"
  let ?h = "header_byte PUBLISH dup (of_int qos) retained" and ?e = "MQTTPacket_encode (length var)"
  let ?ys = "take (k - 1 - length ?e) var"
  have p: "p = ?h # ?e @ var" by (simp add: assms(3) publish_packet_def var_def writeChar_def)
  have "2 + length topic + (if qos > 0 then 2 else 0) + length payload = length var" by (simp add: var_def)
  then have k': "1 + length ?e < k" "k < 1 + length ?e + length var" using k by (simp_all only: p) simp_all
  have t: "take k p = ?h # ?e @ ?ys" using k'(1) by (simp add: p take_Cons')
  have ys: "?ys \<noteq> []" "length ?ys < length var" using k' by auto
  have s: "rx_script w = (0, RxChunk (?h # ?e @ ?ys)) # [(d, RxNothing), (0, RxChunk (drop k p @ rest))]"
    using script by (simp only: t)
  have n: "length var < 65536" "1 + length ?e + length var \<le> length (c_readbuf c)" using assms(4,5) by (simp_all add: p)
  have "quiet [(d, RxNothing), (0, RxChunk (drop k p @ rest))]" by (simp add: quiet_def)
  from poll_cut_short [OF s this ys assms(7,8) n assms(6)] show ?thesis by auto
qed

text \<open>C18: A publish message that has arrived is handed, with topic, payload, QoS and flags, to exactly the
  handlers whose filter matches (or the default one), once each and in order, and the next packet
  is left unread. While the timer has time left the message may have come in any number of pieces,
  and the acknowledgement its QoS asks for is sent. The program polls with a timeout of 0 ms: then
  a message that has come in one piece is delivered, too, but with QoS 1 or 2 it is not
  acknowledged and the session is closed; and of a message that is cut by a quiet pass behind its
  fixed header, nothing is delivered and the first part is lost.\<close>

theorem publish_delivered:
  assumes "0 \<le> qos" and "qos \<le> 2" and "length topic < 65536"
    and "length (publish_packet dup qos retained packetid topic payload) \<le> length (c_readbuf c)"
    and "length (c_readbuf c) \<le> 65536" and "4 \<le> length (c_buf c)" and "c_keepAliveInterval c = 0"
    and "tx_script w = []" and "\<not> tx_stuck w"
  shows "let p = publish_packet dup qos retained packetid topic payload;
      news = publish_news dup qos retained packetid topic payload c in
    (socket_up w \<and> socket_inbox w = p @ rest \<and> live tm (now w) \<longrightarrow>
      (\<exists>c' w' behind. cycle freertos_net tm c w = Some (uint PUBLISH, tm, c', w') \<and>
        socket_inbox w' = rest \<and> sock_sent w' = sock_sent w @ publish_reply qos packetid \<and>
        isconnected c' = isconnected c \<and> delivered c' = delivered c @ news behind)) \<and>
    (rx_script w = [(0, RxChunk (p @ rest))] \<longrightarrow>
      (\<exists>c' w' behind. MQTTYield freertos_net 0 c w = Some (if qos = 0 then SUCCESS else FAILURE, c', w') \<and>
        burst_inbox w' = rest \<and> sock_sent w' = sock_sent w \<and>
        isconnected c' = (if qos = 0 then isconnected c else 0) \<and> delivered c' = delivered c @ news behind)) \<and>
    (rx_script w = [(0, RxChunk (take k p)), (d, RxNothing), (0, RxChunk (drop k p @ rest))] \<and>
     1 + length (MQTTPacket_encode (2 + length topic + (if qos > 0 then 2 else 0) + length payload)) < k \<and> k < length p \<longrightarrow>
      (\<exists>c' w'. MQTTYield freertos_net 0 c w = Some (SUCCESS, c', w') \<and>
        rx_script w' = [(d, RxNothing), (0, RxChunk (drop k p @ rest))] \<and> sock_sent w' = sock_sent w \<and>
        isconnected c' = isconnected c \<and> delivered c' = delivered c))"
proof -
  let ?p = "publish_packet dup qos retained packetid topic payload"
  have "\<exists>c' w' behind. cycle freertos_net tm c w = Some (uint PUBLISH, tm, c', w') \<and>
      socket_inbox w' = rest \<and> sock_sent w' = sock_sent w @ publish_reply qos packetid \<and>
      isconnected c' = isconnected c \<and>
      delivered c' = delivered c @ publish_news dup qos retained packetid topic payload c behind"
    if up: "socket_up w" "socket_inbox w = ?p @ rest" "live tm (now w)"
    using eth.cycle_publish_delivered [OF up(1,2) assms(1-6) _ assms(7), of tm False]
      live_poised [OF up(3)] live_check(2) [OF up(3)] up(3)
    unfolding publish_news_def by (auto simp: freertos_net_def)
  then show ?thesis
    using publish_polled [OF assms] publish_cut [OF assms(1,2) refl assms(4,5,7-9)]
    by (simp add: Let_def)
qed

theorem publish_delivered_witness:
  "(\<exists>tm' c' w'. cycle freertos_net (TimerCountdownMS \<lparr>xNumOfOverflows = 0, xTickCount = 7\<rparr> 50 TimerInit)
      (snd (MQTTSetMessageHandler [0x61, SLASH, PLUS] (Some 5) client64))
      (socket_with [[0x32, 8, 0], [3, 0x61, 0x2f, 0x62, 0, 9, 0x68]]) = Some (uint PUBLISH, tm', c', w') \<and>
    map fst (delivered c') = [5] \<and> sock_sent w' = [0x40, 2, 0, 9]) \<and>
   (\<exists>c' w'. MQTTYield freertos_net 0 (snd (MQTTSetMessageHandler [0x61, SLASH, PLUS] (Some 5) client64))
      (socket_with [[0x32, 8, 0, 3, 0x61, 0x2f, 0x62, 0, 9, 0x68]]) = Some (FAILURE, c', w') \<and>
    map fst (delivered c') = [5] \<and> sock_sent w' = [] \<and> isconnected c' = 0) \<and>
   (\<exists>c' w'. MQTTYield freertos_net 0 (snd (MQTTSetMessageHandler [0x61, SLASH, PLUS] (Some 5) client64))
      ((socket_with [])\<lparr>rx_script := [(0, RxChunk [0x32, 8, 0]), (1, RxNothing), (0, RxChunk [3, 0x61, 0x2f, 0x62, 0, 9, 0x68])]\<rparr>) =
      Some (SUCCESS, c', w') \<and> delivered c' = [] \<and>
    rx_script w' = [(1, RxNothing), (0, RxChunk [3, 0x61, 0x2f, 0x62, 0, 9, 0x68])])"
proof -
  let ?c = "snd (MQTTSetMessageHandler [0x61, SLASH, PLUS] (Some 5) client64)"
  let ?w = "socket_with [[0x32, 8, 0], [3, 0x61, 0x2f, 0x62, 0, 9, 0x68]]"
  let ?tm = "TimerCountdownMS \<lparr>xNumOfOverflows = 0, xTickCount = 7\<rparr> 50 TimerInit"
  have p: "publish_packet 0 1 0 9 [0x61, 0x2f, 0x62] [0x68] = [0x32, 8, 0, 3, 0x61, 0x2f, 0x62, 0, 9, 0x68]"
    by (simp add: publish_packet_def writeInt_def writeChar_def header_byte_def msg_types MQTTPacket_encode.simps Let_def)
  have tm: "live ?tm (now ?w)" by (simp add: socket_with_def live_countdown)
  have r5: "replicate 5 x = [x, x, x, x, x]" for x :: MessageHandlers by (simp add: numeral_eq_Suc)
  have c: "c_readbuf ?c = zeros 64" "c_buf ?c = zeros 64" "c_keepAliveInterval ?c = 0"
      "receivers [0x61, 0x2f, 0x62] ?c = [5]" "delivered ?c = []"
    by (simp_all add: client64_def MQTTClientInit_def blank_client_def MAX_MESSAGE_HANDLERS_def MQTTSetMessageHandler_def
        receivers_def map_filter_def handler_hit_def isTopicMatched_def MQTTPacket_equals_def lenstr_def
        SLASH_def PLUS_def HASH_def Let_def r5)
  have ack: "publish_reply 1 9 = [0x40, 2, 0, 9]"
    by (simp add: publish_reply_def ack_packet_def encode_2 writeInt_def writeChar_def header_byte_def msg_types)
  have e8: "length (MQTTPacket_encode 8) = 1" by (simp add: MQTTPacket_encode.simps Let_def)
  note run = publish_delivered [of 1 "[0x61, 0x2f, 0x62]" 0 0 9 "[0x68]" ?c]
  have "\<exists>tm' c' w'. cycle freertos_net ?tm ?c ?w = Some (uint PUBLISH, tm', c', w') \<and>
      map fst (delivered c') = [5] \<and> sock_sent w' = [0x40, 2, 0, 9]"
    using run [of ?w "[]" ?tm] by (auto simp: p tm c ack publish_news_def comp_def socket_with_tx Let_def)
  moreover have "\<exists>c' w'. MQTTYield freertos_net 0 ?c (socket_with [[0x32, 8, 0, 3, 0x61, 0x2f, 0x62, 0, 9, 0x68]]) = Some (FAILURE, c', w') \<and>
      map fst (delivered c') = [5] \<and> sock_sent w' = [] \<and> isconnected c' = 0"
    using run [of "socket_with [[0x32, 8, 0, 3, 0x61, 0x2f, 0x62, 0, 9, 0x68]]" "[]" ?tm]
    by (auto simp: p tm c publish_news_def comp_def socket_with_tx Let_def)
  moreover have "\<exists>c' w'. MQTTYield freertos_net 0 ?c
      ((socket_with [])\<lparr>rx_script := [(0, RxChunk [0x32, 8, 0]), (1, RxNothing), (0, RxChunk [3, 0x61, 0x2f, 0x62, 0, 9, 0x68])]\<rparr>) =
      Some (SUCCESS, c', w') \<and> delivered c' = [] \<and>
    rx_script w' = [(1, RxNothing), (0, RxChunk [3, 0x61, 0x2f, 0x62, 0, 9, 0x68])]"
    using run [of "(socket_with [])\<lparr>rx_script := [(0, RxChunk [0x32, 8, 0]), (1, RxNothing), (0, RxChunk [3, 0x61, 0x2f, 0x62, 0, 9, 0x68])]\<rparr>" "[]" ?tm 3 1]
    by (auto simp: p c e8 socket_with_tx Let_def)
  ultimately show ?thesis by blast
qed

text \<open>C23: Connecting sends the serialized request and returns the code of the broker's answer; the client
  counts as connected exactly when the code is 0. A refusal is a positive number, not an error.\<close>

theorem connect_result:
  assumes "socket_up w" and "socket_inbox w = header_byte CONNACK 0 0 0 # MQTTPacket_encode 2 @ [f, code] @ rest"
    and "isconnected c = 0" and "keepAliveInterval d = 0"
    and "MQTTSerialize_connect (length (c_buf c)) d = Some (int (length bytes), bytes)"
    and "bytes \<noteq> []" and "length bytes \<le> length (c_buf c)" and "length bytes < 65536"
    and "10 \<le> command_timeout_ms c" and "4 \<le> length (c_readbuf c)"
  shows "\<exists>c' w'. MQTTConnect freertos_net (Some d) c w = Some (uint code, c', w') \<and> \<not> uint code < 0 \<and>
    socket_inbox w' = rest \<and> sock_sent w' = sock_sent w @ bytes \<and> isconnected c' = (if code = 0 then 1 else 0)"
  using eth.connect_outcome [OF assms, of "\<lparr>co_sessionPresent = 0, co_connack_rc = 0\<rparr>"] by (auto simp: MQTTConnect_def)

theorem connect_result_witness:
  "\<exists>c' w'. MQTTConnect freertos_net (Some (MQTTPacket_connectData_initializer\<lparr>clientID := cstr [0x61], keepAliveInterval := 0\<rparr>))
      client64 (socket_with [[0x20, 2], [0, 5]]) = Some (5, c', w') \<and> isconnected c' = 0 \<and> length (sock_sent w') = 15"
proof -
  let ?d = "MQTTPacket_connectData_initializer\<lparr>clientID := cstr [0x61], keepAliveInterval := 0\<rparr>"
  let ?b = "[0x10, 13, 0, 4, 0x4d, 0x51, 0x54, 0x54, 4, 2, 0, 0, 0, 1, 0x61] :: u8 list"
  have "MQTTSerialize_connect 64 ?d = Some (int (length ?b), ?b)"
    by (simp add: MQTTSerialize_connect_def MQTTSerialize_connectLength_def MQTTPacket_connectData_initializer_def cstr_def
        MQTTString_initializer_def MQTTstrlen_def MQTTString_present_def writeMQTTString_def writeCString_def emit_def
        writeInt_def writeChar_def header_byte_def connect_flags_def MQTT_name_def msg_types MQTTPacket_len_def
        MQTTPacket_encode.simps [of 13])
  moreover have "c_buf client64 = zeros 64" "c_readbuf client64 = zeros 64" "isconnected client64 = 0" "command_timeout_ms client64 = 1000"
    by (simp_all add: client64_def MQTTClientInit_def)
  ultimately show ?thesis
    using connect_result [of "socket_with [[0x20, 2], [0, 5]]" 0 5 "[]" client64 ?d ?b]
    by (auto simp: encode_2 header_byte_def msg_types)
qed

text \<open>C24: A publish with QoS 1 goes out with a fresh packet identifier and succeeds as soon as a PUBACK
  comes in. The identifier \<open>x\<close> of that PUBACK is arbitrary: the client does not compare it.\<close>

theorem publish_acknowledged:
  assumes "socket_up w" and "socket_inbox w = ack_packet PUBACK x @ rest" and "isconnected c \<noteq> 0" and "c_keepAliveInterval c = 0"
    and "msg_qos m = 1" and "unat (msg_payloadlen m) = length (msg_payload m)" and "length topic < 65536"
    and "n = 2 + length topic + length (msg_payload m) + 2" and "n < 268435456"
    and "MQTTPacket_len n \<le> length (c_buf c)" and "length (c_buf c) < 65536"
    and "10 \<le> command_timeout_ms c" and "4 \<le> length (c_readbuf c)"
  shows "\<exists>c' w'. MQTTPublish freertos_net topic m c w =
      Some (SUCCESS, m\<lparr>msg_id := ucast (next_packetid c')\<rparr>, c', w') \<and> socket_inbox w' = rest \<and>
    sock_sent w' = sock_sent w @ publish_packet 0 1 (msg_retained m) (ucast (next_packetid c')) topic (msg_payload m) \<and>
    next_packetid c' = fst (getNextPacketId c) \<and> isconnected c' = isconnected c"
  using eth.publish_qos1_outcome [OF assms] by auto

theorem publish_acknowledged_witness:
  "\<exists>m' c' w'. MQTTPublish freertos_net [0x61] \<lparr>msg_qos = 1, msg_retained = 0, msg_dup = 0, msg_id = 0,
      msg_payload = [0x68], msg_payloadlen = 1\<rparr> (client64\<lparr>isconnected := 1\<rparr>)
      (socket_with [[0x40], [2, 0, 99]]) = Some (SUCCESS, m', c', w') \<and> next_packetid c' = 2"
proof -
  have "ack_packet PUBACK 99 = [0x40, 2, 0, 99]"
    by (simp add: ack_packet_def encode_2 writeInt_def writeChar_def header_byte_def msg_types)
  moreover have "c_buf client64 = zeros 64" "c_readbuf client64 = zeros 64" "command_timeout_ms client64 = 1000"
      "c_keepAliveInterval client64 = 0" "next_packetid client64 = 1"
    by (simp_all add: client64_def MQTTClientInit_def blank_client_def)
  ultimately show ?thesis
    using publish_acknowledged [of "socket_with [[0x40], [2, 0, 99]]" 99 "[]" "client64\<lparr>isconnected := 1\<rparr>"
        "\<lparr>msg_qos = 1, msg_retained = 0, msg_dup = 0, msg_id = 0, msg_payload = [0x68], msg_payloadlen = 1\<rparr>" "[0x61]" 6]
    by (auto simp: MQTTPacket_len_def getNextPacketId_def MAX_PACKET_ID_def Let_def)
qed

end
