(* ===== verification/Ring_Buffer.thy ===== *)
theory Ring_Buffer
  imports Gateway_Prelude
begin

text \<open>
  The byte ring buffer between the receive interrupt of the NB-IoT modem and the AT client
  (\<^verbatim>\<open>components/at_nb_device/core_ring_buffer.c\<close>), and the bounded queue it refines.
  \<^const>\<open>None\<close> is an access outside the buffer or outside the caller's data.
\<close>

section \<open>The code\<close>

record core_ringbuf =
  rb_buf :: "u8 list"
  buff_size :: u32
  rb_head :: u32
  rb_tail :: u32

definition CORE_IS_POWER_OF_2 :: "u32 \<Rightarrow> bool" where
  "CORE_IS_POWER_OF_2 x \<longleftrightarrow> x \<noteq> 0 \<and> x AND (x - 1) = 0"

definition core_ringbuf_is_empty :: "core_ringbuf \<Rightarrow> bool" where
  "core_ringbuf_is_empty rb \<longleftrightarrow> rb_head rb = rb_tail rb"

definition core_ringbuf_is_full :: "core_ringbuf \<Rightarrow> bool" where
  "core_ringbuf_is_full rb \<longleftrightarrow> (rb_tail rb + 1) mod buff_size rb = rb_head rb"

definition core_ringbuf_len :: "core_ringbuf \<Rightarrow> u32" where
  "core_ringbuf_len rb =
     (if core_ringbuf_is_empty rb then 0 else (rb_tail rb - rb_head rb) AND (buff_size rb - 1))"

definition core_ringbuf_free :: "core_ringbuf \<Rightarrow> u32" where
  "core_ringbuf_free rb =
     (let tail = rb_tail rb; head = rb_head rb;
          n = (if tail = head then buff_size rb
                  else if head > tail then head - tail
                  else buff_size rb - (tail - head))
      in n - 1)"

definition core_ringbuf_init :: "core_ringbuf \<Rightarrow> u8 list option \<Rightarrow> u32 \<Rightarrow> (int \<times> core_ringbuf) option" where
  "core_ringbuf_init rb data n =
     (case data of
        None \<Rightarrow> Some (-1, rb)
      | Some d \<Rightarrow>
          if \<not> CORE_IS_POWER_OF_2 n then Some (-1, rb)
          else if length d < unat n then None
          else Some (0, \<lparr>rb_buf = zeros (unat n), buff_size = n, rb_head = 0, rb_tail = 0\<rparr>))"

definition core_ringbuf_push_char :: "core_ringbuf \<Rightarrow> u8 \<Rightarrow> core_ringbuf option" where
  "core_ringbuf_push_char rb data =
     do {
       let rb = (if core_ringbuf_is_full rb then rb\<lparr>rb_head := (rb_head rb + 1) mod buff_size rb\<rparr> else rb);
       b \<leftarrow> arr_put (rb_buf rb) (unat (rb_tail rb)) data;
       Some (rb\<lparr>rb_buf := b, rb_tail := (rb_tail rb + 1) mod buff_size rb\<rparr>)
     }"

text \<open>\<^verbatim>\<open>memcpy\<close> into and out of an array.\<close>

definition mem_put :: "u8 list \<Rightarrow> nat \<Rightarrow> u8 list \<Rightarrow> u8 list option" where
  "mem_put b off d = (if off + length d \<le> length b then Some (buf_write b off d) else None)"

definition mem_get :: "u8 list \<Rightarrow> nat \<Rightarrow> nat \<Rightarrow> u8 list option" where
  "mem_get b off n = (if off + n \<le> length b then Some (take n (drop off b)) else None)"

definition core_ringbuf_write :: "core_ringbuf \<Rightarrow> u8 list \<Rightarrow> u32 \<Rightarrow> (u32 \<times> core_ringbuf) option" where
  "core_ringbuf_write rb data n =
     do {
       let n = min (core_ringbuf_free rb) n;
       if n = 0 then Some (0, rb)
       else do {
         let tocopy = min (buff_size rb - rb_tail rb) n;
         d \<leftarrow> mem_get data 0 (unat tocopy);
         b \<leftarrow> mem_put (rb_buf rb) (unat (rb_tail rb)) d;
         let rb = rb\<lparr>rb_buf := b, rb_tail := rb_tail rb + tocopy\<rparr>;
         let n = n - tocopy;
         rb \<leftarrow> (if n > 0 then do {
                  d \<leftarrow> mem_get data (unat tocopy) (unat n);
                  b \<leftarrow> mem_put (rb_buf rb) 0 d;
                  Some (rb\<lparr>rb_buf := b, rb_tail := n\<rparr>)
                }
                else Some rb);
         Some (tocopy + n, rb\<lparr>rb_tail := rb_tail rb mod buff_size rb\<rparr>)
       }
     }"

definition core_ringbuf_pop_char :: "core_ringbuf \<Rightarrow> (u8 list \<times> core_ringbuf) option" where
  "core_ringbuf_pop_char rb =
     (if core_ringbuf_is_empty rb then Some ([], rb)
      else do {
        d \<leftarrow> mem_get (rb_buf rb) (unat (rb_head rb)) 1;
        Some (d, rb\<lparr>rb_head := (rb_head rb + 1) mod buff_size rb\<rparr>)
      })"

text \<open>The bytes stored at the caller's pointer; their number is the return value.\<close>

definition core_ringbuf_read :: "core_ringbuf \<Rightarrow> u32 \<Rightarrow> (u8 list \<times> core_ringbuf) option" where
  "core_ringbuf_read rb n =
     (if core_ringbuf_is_empty rb then Some ([], rb)
      else let n = min (core_ringbuf_len rb) n in
        if n = 0 then Some ([], rb)
        else do {
          let tocopy = min (buff_size rb - rb_head rb) n;
          d \<leftarrow> mem_get (rb_buf rb) (unat (rb_head rb)) (unat tocopy);
          let rb = rb\<lparr>rb_head := rb_head rb + tocopy\<rparr>;
          let n = n - tocopy;
          (e, rb) \<leftarrow> (if n > 0 then do {
                     e \<leftarrow> mem_get (rb_buf rb) 0 (unat n);
                     Some (e, rb\<lparr>rb_head := n\<rparr>)
                   }
                   else Some ([], rb));
          Some (d @ e, rb\<lparr>rb_head := rb_head rb mod buff_size rb\<rparr>)
        })"

section \<open>Circular lists\<close>

definition circ :: "'a list \<Rightarrow> nat \<Rightarrow> nat \<Rightarrow> 'a list" where
  "circ b h n = map (\<lambda>i. b ! ((h + i) mod length b)) [0..<n]"

lemma length_circ [simp]: "length (circ b h n) = n"
  by (simp add: circ_def)

lemma circ_0 [simp]: "circ b h 0 = []"
  by (simp add: circ_def)

lemma circ_eq_Nil [simp]: "circ b h n = [] \<longleftrightarrow> n = 0"
  by (simp add: circ_def)

lemma circ_append: "circ b h (m + n) = circ b h m @ circ b (h + m) n"
proof -
  have "[m..<m + n] = map ((+) m) [0..<n]"
    by (rule nth_equalityI) simp_all
  then show ?thesis by (simp add: circ_def upt_add_eq_append [of 0 m n, simplified] comp_def add.assoc)
qed

lemma circ_start: "circ b (h mod length b) n = circ b h n"
  by (simp add: circ_def mod_add_left_eq)

lemma circ_split: "m \<le> n \<Longrightarrow> circ b h n = circ b h m @ circ b (h + m) (n - m)"
  using circ_append [of b h m "n - m"] by simp

lemma circ_drop: "m \<le> n \<Longrightarrow> drop m (circ b h n) = circ b (h + m) (n - m)"
  by (simp add: circ_split [of m n])

lemma circ_take: "m \<le> n \<Longrightarrow> take m (circ b h n) = circ b h m"
  by (simp add: circ_split [of m n])

lemma circ_straight: "h + n \<le> length b \<Longrightarrow> circ b h n = take n (drop h b)"
  by (rule nth_equalityI) (auto simp: circ_def)

text \<open>Positions less than one round apart are different.\<close>

lemma circ_distinct:
  fixes h i j s :: nat
  assumes "i < j" and "j < i + s"
  shows "(h + i) mod s \<noteq> (h + j) mod s"
proof
  assume "(h + i) mod s = (h + j) mod s"
  then have "s dvd (h + j) - (h + i)" using assms(1) by (intro mod_eq_dvd_iff_nat [THEN iffD1]) simp_all
  then have "s \<le> j - i" using assms(1) by (auto dest: dvd_imp_le)
  then show False using assms by simp
qed

lemma circ_extend:
  assumes "length b' = length b" and "n + length ds \<le> length b"
    and old: "\<And>j. j < length b \<Longrightarrow> (\<forall>i < length ds. (h + n + i) mod length b \<noteq> j) \<Longrightarrow> b' ! j = b ! j"
    and new: "\<And>i. i < length ds \<Longrightarrow> b' ! ((h + n + i) mod length b) = ds ! i"
  shows "circ b' h (n + length ds) = circ b h n @ ds"
proof (rule nth_equalityI)
  fix i assume "i < length (circ b' h (n + length ds))"
  then have i: "i < n + length ds" by simp
  show "circ b' h (n + length ds) ! i = (circ b h n @ ds) ! i"
  proof (cases "i < n")
    case True
    have "(h + n + k) mod length b \<noteq> (h + i) mod length b" if "k < length ds" for k
      using circ_distinct [of i "n + k" "length b" h] that assms(2) True by (simp add: add.assoc)
    then have "b' ! ((h + i) mod length b) = b ! ((h + i) mod length b)"
      using assms(2) True by (intro old) (auto intro!: mod_less_divisor)
    then show ?thesis using True by (simp add: circ_def nth_append assms(1))
  next
    case False
    then have "b' ! ((h + i) mod length b) = ds ! (i - n)" using new [of "i - n"] i by simp
    then show ?thesis using False i by (simp add: circ_def nth_append assms(1))
  qed
qed simp

section \<open>Indices\<close>

definition count :: "nat \<Rightarrow> nat \<Rightarrow> nat \<Rightarrow> nat" where
  "count s h t = (t + s - h) mod s"

lemma count_less: "0 < s \<Longrightarrow> count s h t < s"
  by (simp add: count_def)

lemma mod_once: "x < 2 * s \<Longrightarrow> x mod s = (if x < s then x else x - (s :: nat))"
  by (simp add: mod_if)

lemma count_eq: "h < s \<Longrightarrow> t < s \<Longrightarrow> count s h t = (if h \<le> t then t - h else t + s - h)"
  by (auto simp: count_def mod_once)

lemma tail_of_count: "h < s \<Longrightarrow> t < s \<Longrightarrow> (h + count s h t) mod s = t"
  by (auto simp: count_eq mod_once)

lemma count_add:
  assumes "h < s" and "t < s" and "count s h t + k < s"
  shows "count s h ((t + k) mod s) = count s h t + k"
proof -
  have k: "k < s" using assms(3) by simp
  then have "(t + k) mod s = (if t + k < s then t + k else t + k - s)" using assms(2) by (intro mod_once) simp
  moreover have "(t + k) mod s < s" using k by simp
  ultimately show ?thesis using assms k by (auto simp: count_eq split: if_splits)
qed

lemma count_sub:
  assumes "h < s" and "t < s" and "m \<le> count s h t"
  shows "count s ((h + m) mod s) t = count s h t - m"
proof -
  have m: "m < s" using assms count_less [of s h t] by simp
  then have "(h + m) mod s = (if h + m < s then h + m else h + m - s)" using assms(1) by (intro mod_once) simp
  moreover have "(h + m) mod s < s" using m by simp
  ultimately show ?thesis using assms m by (auto simp: count_eq split: if_splits)
qed

lemma power_of_2:
  assumes "CORE_IS_POWER_OF_2 x"
  obtains k where "k < 32" "unat x = 2 ^ k"
proof -
  define n where "n = unat x"
  have x: "x = of_nat n" "0 < n" "n < 2 ^ 32"
    using assms unsigned_less [of x, where ?'a = nat]
    by (auto simp: n_def CORE_IS_POWER_OF_2_def unat_gt_0)
  obtain k where k: "2 ^ k \<le> n" "n < 2 ^ Suc k"
    using ex_power_ivl1 [of 2 n] x(2) by auto
  have "k < 32" using k(1) x(3) by (metis le_less_trans power_strict_increasing_iff one_less_numeral_iff semiring_norm(76))
  moreover have "n = 2 ^ k"
  proof (rule ccontr)
    assume "n \<noteq> 2 ^ k"
    then have "2 ^ k \<le> n - 1" using k(1) by simp
    then have "(n - 1) div 2 ^ k = 1" "n div 2 ^ k = 1" using k by (auto intro!: div_nat_eqI)
    then have "bit n k" "bit (n - 1) k" by (simp_all add: bit_iff_odd)
    moreover have "unat (x - 1) = n - 1" using x(2) by (auto simp: n_def unat_sub_if' word_le_nat_alt)
    ultimately have "bit (unat x) k" "bit (unat (x - 1)) k" by (simp_all add: n_def)
    then have "bit x k" "bit (x - 1) k" by (simp_all only: bit_unsigned_iff)
    then have "bit (x AND (x - 1)) k" by (simp add: bit_and_iff)
    then show False using assms by (simp add: CORE_IS_POWER_OF_2_def)
  qed
  ultimately show ?thesis using that by (simp add: n_def)
qed

lemma and_power_of_2:
  assumes "CORE_IS_POWER_OF_2 s"
  shows "unat (x AND (s - 1)) = unat x mod unat s"
proof -
  obtain k where k: "k < 32" "unat s = 2 ^ k" using assms by (rule power_of_2)
  then have "s = 2 ^ k" by (metis of_nat_numeral of_nat_power word_unat_eq_iff unsigned_of_nat ucast_id of_nat_unat)
  then have "x AND (s - 1) = take_bit k x" by (simp add: take_bit_eq_mask mask_eq_exp_minus_1)
  then have "unat (x AND (s - 1)) = take_bit k (unat x)" by (simp only: unsigned_take_bit_eq)
  then show ?thesis using k by (simp add: take_bit_eq_mod)
qed

section \<open>The invariant\<close>

definition rb_ok :: "core_ringbuf \<Rightarrow> bool" where
  "rb_ok rb \<longleftrightarrow> CORE_IS_POWER_OF_2 (buff_size rb) \<and> length (rb_buf rb) = unat (buff_size rb) \<and>
     rb_head rb < buff_size rb \<and> rb_tail rb < buff_size rb"

definition rb_abs :: "core_ringbuf \<Rightarrow> u8 list" where
  "rb_abs rb = circ (rb_buf rb) (unat (rb_head rb)) (count (unat (buff_size rb)) (unat (rb_head rb)) (unat (rb_tail rb)))"

definition rb_cap :: "core_ringbuf \<Rightarrow> nat" where
  "rb_cap rb = unat (buff_size rb) - 1"

lemma size_bound: "CORE_IS_POWER_OF_2 s \<Longrightarrow> 0 < unat s \<and> unat s \<le> 2147483648"
proof -
  assume "CORE_IS_POWER_OF_2 s"
  then obtain k where "k < 32" "unat s = 2 ^ k" by (rule power_of_2)
  then show ?thesis using power_increasing [of k 31 "2 :: nat"] by simp
qed

lemma next_index: "CORE_IS_POWER_OF_2 s \<Longrightarrow> x < s \<Longrightarrow> unat ((x + 1) mod s) = (unat x + 1) mod unat s"
  using size_bound [of s] by (simp add: unat_mod unat_word_ariths word_less_nat_alt)

lemma rb_len: "rb_ok rb \<Longrightarrow> unat (core_ringbuf_len rb) = length (rb_abs rb)"
proof -
  assume ok: "rb_ok rb"
  let ?s = "buff_size rb" and ?h = "rb_head rb" and ?t = "rb_tail rb"
  have less: "unat ?h < unat ?s" "unat ?t < unat ?s" using ok by (simp_all add: rb_ok_def word_less_nat_alt)
  obtain k where k: "k < 32" "unat ?s = 2 ^ k" using ok by (auto simp: rb_ok_def elim: power_of_2)
  then have "unat ?s dvd 4294967296" using le_imp_power_dvd [of k 32 "2 :: nat"] by simp
  then obtain q where q: "4294967296 = unat ?s * q" by (rule dvdE)
  have "1 \<le> q" using q by (cases q) simp_all
  then have "unat ?t + 4294967296 - unat ?h = unat ?t + unat ?s - unat ?h + unat ?s * (q - 1)"
    using q less by (cases q) (simp_all add: algebra_simps)
  then have "(unat ?t + 4294967296 - unat ?h) mod unat ?s = (unat ?t + unat ?s - unat ?h) mod unat ?s" by simp
  then have "unat ((?t - ?h) AND (?s - 1)) = count (unat ?s) (unat ?h) (unat ?t)"
    using ok less by (auto simp: and_power_of_2 rb_ok_def count_eq unat_sub_if' mod_once count_def)
  moreover have "?h = ?t \<Longrightarrow> count (unat ?s) (unat ?h) (unat ?t) = 0" by (simp add: count_def)
  ultimately show ?thesis by (auto simp: core_ringbuf_len_def core_ringbuf_is_empty_def rb_abs_def)
qed

lemma rb_indices:
  assumes "rb_ok rb"
  shows "unat (rb_head rb) < unat (buff_size rb)" "unat (rb_tail rb) < unat (buff_size rb)"
    "unat (buff_size rb) \<le> 2147483648" "length (rb_buf rb) = unat (buff_size rb)" "length (rb_abs rb) \<le> rb_cap rb"
    "length (rb_abs rb) = count (unat (buff_size rb)) (unat (rb_head rb)) (unat (rb_tail rb))"
proof -
  show less: "unat (rb_head rb) < unat (buff_size rb)" "unat (rb_tail rb) < unat (buff_size rb)"
      "unat (buff_size rb) \<le> 2147483648" "length (rb_buf rb) = unat (buff_size rb)"
    using assms size_bound [of "buff_size rb"] by (simp_all add: rb_ok_def word_less_nat_alt)
  then have "count (unat (buff_size rb)) (unat (rb_head rb)) (unat (rb_tail rb)) < unat (buff_size rb)"
    by (intro count_less) simp
  then show "length (rb_abs rb) \<le> rb_cap rb" by (simp add: rb_abs_def rb_cap_def)
  show "length (rb_abs rb) = count (unat (buff_size rb)) (unat (rb_head rb)) (unat (rb_tail rb))" by (simp add: rb_abs_def)
qed

lemma rb_free: "rb_ok rb \<Longrightarrow> unat (core_ringbuf_free rb) = rb_cap rb - length (rb_abs rb)"
proof -
  assume ok: "rb_ok rb"
  let ?s = "buff_size rb" and ?h = "rb_head rb" and ?t = "rb_tail rb"
  note i = rb_indices [OF ok]
  consider "?t = ?h" | "?t < ?h" | "?h < ?t" by (rule linorder_cases)
  then show ?thesis
  proof cases
    case 1
    then show ?thesis using i by (simp add: core_ringbuf_free_def Let_def rb_cap_def count_eq unat_sub_if')
  next
    case 2
    then have lt: "unat ?t < unat ?h" "?t \<noteq> ?h" "?t < ?h" by (auto simp: word_less_nat_alt)
    then have "unat (?h - ?t) = unat ?h - unat ?t" by (simp add: unat_sub_if')
    then have "unat (?h - ?t - 1) = unat ?h - unat ?t - 1" using lt by (simp add: unat_sub_if')
    then show ?thesis using lt i by (simp add: core_ringbuf_free_def Let_def rb_cap_def count_eq)
  next
    case 3
    then have lt: "unat ?h < unat ?t" "?t \<noteq> ?h" "\<not> ?t < ?h" by (auto simp: word_less_nat_alt)
    then have "unat (?t - ?h) = unat ?t - unat ?h" by (simp add: unat_sub_if')
    then have "unat (?s - (?t - ?h)) = unat ?s - (unat ?t - unat ?h)" using i by (simp add: unat_sub_if')
    then have "unat (?s - (?t - ?h) - 1) = unat ?s - (unat ?t - unat ?h) - 1" using i by (simp add: unat_sub_if')
    then show ?thesis using lt i by (simp add: core_ringbuf_free_def Let_def rb_cap_def count_eq)
  qed
qed

lemma rb_empty: "rb_ok rb \<Longrightarrow> core_ringbuf_is_empty rb \<longleftrightarrow> rb_abs rb = []"
proof -
  assume ok: "rb_ok rb"
  note i = rb_indices [OF ok]
  have "rb_abs rb = [] \<longleftrightarrow> length (rb_abs rb) = 0" by simp
  also have "\<dots> \<longleftrightarrow> unat (rb_head rb) = unat (rb_tail rb)" using i(1,2) unfolding i(6) by (auto simp: count_eq split: if_splits)
  finally show ?thesis by (simp add: core_ringbuf_is_empty_def word_unat_eq_iff)
qed

lemma rb_full: "rb_ok rb \<Longrightarrow> core_ringbuf_is_full rb \<longleftrightarrow> length (rb_abs rb) = rb_cap rb"
proof -
  assume ok: "rb_ok rb"
  note i = rb_indices [OF ok]
  have "unat ((rb_tail rb + 1) mod buff_size rb) = (unat (rb_tail rb) + 1) mod unat (buff_size rb)"
    using ok by (intro next_index) (simp_all add: rb_ok_def)
  moreover have "(unat (rb_tail rb) + 1) mod unat (buff_size rb) = unat (rb_head rb) \<longleftrightarrow> length (rb_abs rb) = rb_cap rb"
    using i(1,2) unfolding i(6) by (auto simp: count_eq rb_cap_def mod_once split: if_splits)
  ultimately show ?thesis by (simp add: core_ringbuf_is_full_def word_unat_eq_iff)
qed

section \<open>The bounded queue\<close>

text \<open>What the operations are for: a queue of at most \<open>cap\<close> bytes that drops the oldest when a
  character is pushed into a full one, and the newest when a block does not fit.\<close>

definition q_push :: "nat \<Rightarrow> u8 list \<Rightarrow> u8 \<Rightarrow> u8 list" where
  "q_push cap q x = (let q' = q @ [x] in drop (length q' - cap) q')"

definition q_write :: "nat \<Rightarrow> u8 list \<Rightarrow> u8 list \<Rightarrow> u8 list" where
  "q_write cap q ds = q @ take (cap - length q) ds"

lemma rb_dequeue:
  assumes ok: "rb_ok rb" and m: "m \<le> length (rb_abs rb)" and h: "unat h = (unat (rb_head rb) + m) mod unat (buff_size rb)"
  shows "rb_ok (rb\<lparr>rb_head := h\<rparr>) \<and> rb_abs (rb\<lparr>rb_head := h\<rparr>) = drop m (rb_abs rb)"
proof -
  note i = rb_indices [OF ok]
  have "h < buff_size rb" using i(1) by (simp add: word_less_nat_alt h)
  moreover have "rb_abs (rb\<lparr>rb_head := h\<rparr>) = circ (rb_buf rb) (unat (rb_head rb) + m) (length (rb_abs rb) - m)"
    using count_sub [OF i(1,2), of m] m i(6) circ_start [of "rb_buf rb" "unat (rb_head rb) + m"]
    by (simp add: rb_abs_def h i(4))
  ultimately show ?thesis using ok m i(6) by (simp add: rb_ok_def rb_abs_def circ_drop)
qed

lemma rb_enqueue:
  assumes ok: "rb_ok rb" and fit: "length (rb_abs rb) + length ds \<le> rb_cap rb"
    and t: "unat t = (unat (rb_tail rb) + length ds) mod unat (buff_size rb)" and len: "length b = length (rb_buf rb)"
    and old: "\<And>j. j < length b \<Longrightarrow> (\<forall>i < length ds. (unat (rb_tail rb) + i) mod length b \<noteq> j) \<Longrightarrow> b ! j = rb_buf rb ! j"
    and new: "\<And>i. i < length ds \<Longrightarrow> b ! ((unat (rb_tail rb) + i) mod length b) = ds ! i"
  shows "rb_ok (rb\<lparr>rb_buf := b, rb_tail := t\<rparr>) \<and> rb_abs (rb\<lparr>rb_buf := b, rb_tail := t\<rparr>) = rb_abs rb @ ds"
proof -
  note i = rb_indices [OF ok]
  let ?s = "unat (buff_size rb)" and ?h = "unat (rb_head rb)"
  have fit': "count ?s ?h (unat (rb_tail rb)) + length ds < ?s" using fit i(1,6) by (simp add: rb_cap_def)
  have tail: "(?h + count ?s ?h (unat (rb_tail rb)) + k) mod ?s = (unat (rb_tail rb) + k) mod ?s" for k
    using tail_of_count [OF i(1,2)] by (metis mod_add_left_eq)
  have "circ b ?h (length (rb_abs rb) + length ds) = circ (rb_buf rb) ?h (length (rb_abs rb)) @ ds"
    by (rule circ_extend) (use fit' i(4,6) old new len in \<open>simp_all add: tail\<close>)
  moreover have "rb_abs (rb\<lparr>rb_buf := b, rb_tail := t\<rparr>) = circ b ?h (length (rb_abs rb) + length ds)"
    using count_add [OF i(1,2) fit'] by (simp add: rb_abs_def t)
  moreover have "t < buff_size rb" using i(2) by (simp add: word_less_nat_alt t)
  ultimately show ?thesis using ok len by (simp add: rb_ok_def rb_abs_def)
qed

lemma push_refines:
  assumes ok: "rb_ok rb"
  shows "\<exists>rb'. core_ringbuf_push_char rb x = Some rb' \<and> rb_ok rb' \<and> buff_size rb' = buff_size rb \<and>
    rb_abs rb' = q_push (rb_cap rb) (rb_abs rb) x"
proof -
  note i = rb_indices [OF ok]
  let ?next = "\<lambda>i. (i + 1) mod buff_size rb"
  have nx: "unat (?next i) = (unat i + 1) mod unat (buff_size rb)" if "i < buff_size rb" for i
    using ok that by (intro next_index) (simp_all add: rb_ok_def)
  define rb1 where "rb1 = (if core_ringbuf_is_full rb then rb\<lparr>rb_head := ?next (rb_head rb)\<rparr> else rb)"
  define d where "d = (if core_ringbuf_is_full rb then 1 else 0 :: nat)"
  have same: "rb_buf rb1 = rb_buf rb" "rb_tail rb1 = rb_tail rb" "buff_size rb1 = buff_size rb" "rb_cap rb1 = rb_cap rb"
    by (simp_all add: rb1_def rb_cap_def)
  let ?b = "(rb_buf rb)[unat (rb_tail rb) := x]" and ?t = "?next (rb_tail rb)"
  have push: "core_ringbuf_push_char rb x = Some (rb1\<lparr>rb_buf := ?b, rb_tail := ?t\<rparr>)"
    using i(2,4) by (simp add: core_ringbuf_push_char_def arr_put_def Let_def rb1_def)
  show ?thesis
  proof (cases "rb_cap rb = 0")
    case True
    then have one: "unat (buff_size rb) = 1" using i(1) by (simp add: rb_cap_def)
    then have "rb_head rb = 0" "rb_tail rb = 0" "buff_size rb = 1"
      using i(1,2) by (simp_all add: word_unat_eq_iff)
    then have "rb_ok (rb1\<lparr>rb_buf := ?b, rb_tail := ?t\<rparr>) \<and> rb_abs (rb1\<lparr>rb_buf := ?b, rb_tail := ?t\<rparr>) = []"
      using ok by (simp add: rb_ok_def rb_abs_def count_def rb1_def core_ringbuf_is_full_def)
    then show ?thesis using push True by (auto simp: q_push_def rb1_def)
  next
    case False
    have full: "core_ringbuf_is_full rb \<longleftrightarrow> length (rb_abs rb) = rb_cap rb" using ok by (rule rb_full)
    have 1: "rb_ok rb1 \<and> rb_abs rb1 = drop d (rb_abs rb)"
    proof (cases "core_ringbuf_is_full rb")
      case True
      then show ?thesis
        using rb_dequeue [OF ok, of 1 "?next (rb_head rb)"] False full nx [of "rb_head rb"] ok by (simp add: rb1_def d_def rb_ok_def)
    qed (simp add: rb1_def d_def ok)
    have b: "?b ! ((unat (rb_tail rb1) + i) mod length ?b) = [x] ! i" if "i < length [x]" for i
      using that i(2,4) by (simp add: same)
    have "rb_ok (rb1\<lparr>rb_buf := ?b, rb_tail := ?t\<rparr>) \<and> rb_abs (rb1\<lparr>rb_buf := ?b, rb_tail := ?t\<rparr>) = rb_abs rb1 @ [x]"
    proof (rule rb_enqueue)
      show "length (rb_abs rb1) + length [x] \<le> rb_cap rb1"
        using 1 False full i(5) by (auto simp: d_def same)
      show "unat ?t = (unat (rb_tail rb1) + length [x]) mod unat (buff_size rb1)"
        using nx [of "rb_tail rb"] ok by (simp add: same rb_ok_def)
      show "?b ! j = rb_buf rb1 ! j" if "j < length ?b" "\<forall>i < length [x]. (unat (rb_tail rb1) + i) mod length ?b \<noteq> j" for j
        using that i(2,4) by (simp add: same)
    qed (use 1 b in \<open>simp_all add: same\<close>)
    moreover have "length (rb_abs rb @ [x]) - rb_cap rb = d" using full i(5) by (auto simp: d_def)
    then have "q_push (rb_cap rb) (rb_abs rb) x = drop d (rb_abs rb) @ [x]"
      using False full by (auto simp: q_push_def d_def Let_def simp del: append_assoc)
    ultimately show ?thesis using push 1 same by auto
  qed
qed

lemma nth_buf_write:
  "off + length d \<le> length b \<Longrightarrow> j < length b \<Longrightarrow>
   buf_write b off d ! j = (if off \<le> j \<and> j < off + length d then d ! (j - off) else b ! j)"
  by (auto simp: buf_write_def nth_append)

text \<open>A block that is written in two parts around the end of the buffer.\<close>

lemma wrap_write:
  assumes "t < length b" and "length ds \<le> length b" and c: "c = min (length b - t) (length ds)"
  defines "b' \<equiv> buf_write (buf_write b t (take c ds)) 0 (drop c ds)"
  shows "length b' = length b"
    and "j < length b \<Longrightarrow> (\<forall>i < length ds. (t + i) mod length b \<noteq> j) \<Longrightarrow> b' ! j = b ! j"
    and "i < length ds \<Longrightarrow> b' ! ((t + i) mod length b) = ds ! i"
proof -
  show len: "length b' = length b" using assms by simp
  have at: "b' ! j = (if j < length ds - c then ds ! (c + j) else if t \<le> j \<and> j < t + c then ds ! (j - t) else b ! j)"
    if "j < length b" for j
  proof -
    have "c \<le> length ds" "t + c \<le> length b" "length ds - c \<le> length b" using assms(1,2) c by simp_all
    then show ?thesis using that unfolding b'_def by (auto simp: nth_buf_write)
  qed
  show "b' ! ((t + i) mod length b) = ds ! i" if i: "i < length ds"
  proof (cases "t + i < length b")
    case True
    then have "i < c" "\<not> t + i < length ds - c" using i assms(2) c by auto
    then show ?thesis using True by (simp add: at)
  next
    case False
    then have "(t + i) mod length b = t + i - length b" using i assms(1,2) by (simp add: mod_once)
    moreover have "t + i - length b < length ds - c" "c + (t + i - length b) = i" using False i assms(1,2) c by auto
    ultimately show ?thesis using i assms(2) by (simp add: at)
  qed
  show "b' ! j = b ! j" if j: "j < length b" "\<forall>i < length ds. (t + i) mod length b \<noteq> j"
  proof -
    have "\<not> j < length ds - c"
    proof
      assume "j < length ds - c"
      then have "j + (length b - t) < length ds" "(t + (j + (length b - t))) mod length b = j"
        using assms(1) c j(1) by (auto simp: mod_once)
      then show False using j(2) by blast
    qed
    moreover have "\<not> (t \<le> j \<and> j < t + c)"
    proof
      assume "t \<le> j \<and> j < t + c"
      then have "j - t < length ds" "(t + (j - t)) mod length b = j" using c j(1) by auto
      then show False using j(2) by blast
    qed
    ultimately show ?thesis using j(1) by (auto simp: at)
  qed
qed

lemma unat_min: "unat (min a b) = min (unat a) (unat b)"
  by (simp add: min_def word_le_nat_alt)

lemma write_refines:
  assumes ok: "rb_ok rb" and len: "unat n \<le> length data"
  defines "ds \<equiv> take (unat n) data"
  shows "\<exists>r rb'. core_ringbuf_write rb data n = Some (r, rb') \<and> rb_ok rb' \<and> buff_size rb' = buff_size rb \<and>
    rb_abs rb' = q_write (rb_cap rb) (rb_abs rb) ds \<and> unat r = min (rb_cap rb - length (rb_abs rb)) (unat n)"
proof -
  note i = rb_indices [OF ok]
  let ?s = "unat (buff_size rb)" and ?t = "unat (rb_tail rb)"
  define m where "m = min (core_ringbuf_free rb) n"
  define k where "k = unat m"
  have k: "k = min (rb_cap rb - length (rb_abs rb)) (unat n)" by (simp add: k_def m_def unat_min rb_free [OF ok])
  have ks: "k < ?s" using i(1) by (auto simp: k rb_cap_def)
  have q: "q_write (rb_cap rb) (rb_abs rb) ds = rb_abs rb @ take k data"
    using len by (simp add: q_write_def ds_def k)
  have unfold: "core_ringbuf_write rb data n = (if m = 0 then Some (0, rb) else do {
      let tocopy = min (buff_size rb - rb_tail rb) m;
      d \<leftarrow> mem_get data 0 (unat tocopy);
      b \<leftarrow> mem_put (rb_buf rb) (unat (rb_tail rb)) d;
      let rb = rb\<lparr>rb_buf := b, rb_tail := rb_tail rb + tocopy\<rparr>;
      let size = m - tocopy;
      rb \<leftarrow> (if size > 0 then do {
               d \<leftarrow> mem_get data (unat tocopy) (unat size);
               b \<leftarrow> mem_put (rb_buf rb) 0 d;
               Some (rb\<lparr>rb_buf := b, rb_tail := size\<rparr>)
             }
             else Some rb);
      Some (tocopy + size, rb\<lparr>rb_tail := rb_tail rb mod buff_size rb\<rparr>)
    })"
    by (simp only: core_ringbuf_write_def m_def Let_def)
  show ?thesis
  proof (cases "m = 0")
    case True
    then show ?thesis using unfold k ok q by (simp add: k_def)
  next
    case False
    define c where "c = min (?s - ?t) k"
    define tc where "tc = min (buff_size rb - rb_tail rb) m"
    have tc: "unat tc = c" using i(2) by (simp add: tc_def c_def unat_min k_def unat_sub_if')
    have rest: "unat (m - tc) = k - c" using tc by (simp add: k_def c_def unat_sub_if')
    let ?ds = "take k data"
    let ?b1 = "buf_write (rb_buf rb) ?t (take c ?ds)" let ?b = "buf_write ?b1 0 (drop c ?ds)"
    have kd: "k \<le> length data" using len k by simp
    then have lds: "length ?ds = k" by simp
    have cc: "c = min (length (rb_buf rb) - ?t) (length ?ds)" using i(4) lds by (simp add: c_def)
    note wrap = wrap_write [OF _ _ cc, folded i(4)]
    have mem: "mem_get data 0 c = Some (take c ?ds)" "mem_get data c (k - c) = Some (drop c ?ds)"
        "mem_put (rb_buf rb) ?t (take c ?ds) = Some ?b1" "mem_put ?b1 0 (drop c ?ds) = Some ?b"
      using kd i ks by (auto simp: mem_get_def mem_put_def take_drop c_def min_def)
    define t' where "t' = (if m - tc > 0 then m - tc else rb_tail rb + tc) mod buff_size rb"
    have t': "unat t' = (?t + k) mod ?s"
    proof (cases "m - tc > 0")
      case True
      then have "0 < k - c" using rest by (simp add: word_less_nat_alt)
      then have "c = ?s - ?t" by (simp add: c_def min_def split: if_splits)
      then show ?thesis using True rest ks i(2) \<open>0 < k - c\<close> by (simp add: t'_def unat_mod mod_once)
    next
      case False
      then have "k - c = 0" using rest by (simp add: word_less_nat_alt)
      then have "k = c" by (simp add: c_def min_def split: if_splits)
      then show ?thesis using False tc i(2,3) ks by (simp add: t'_def unat_mod unat_word_ariths)
    qed
    have "drop c ?ds = []" if "\<not> m - tc > 0" using that rest lds by (simp add: word_less_nat_alt)
    then have "core_ringbuf_write rb data n = Some (m, rb\<lparr>rb_buf := ?b, rb_tail := t'\<rparr>)"
      using False mem tc rest unfold by (simp add: tc_def [symmetric] Let_def t'_def)
    moreover have "rb_ok (rb\<lparr>rb_buf := ?b, rb_tail := t'\<rparr>) \<and> rb_abs (rb\<lparr>rb_buf := ?b, rb_tail := t'\<rparr>) = rb_abs rb @ ?ds"
    proof (rule rb_enqueue [OF ok])
      show "length (rb_abs rb) + length ?ds \<le> rb_cap rb" using k lds i(5) by simp
    qed (use wrap_write [OF _ _ cc] t' i ks lds in simp_all)
    ultimately show ?thesis using q k by (auto simp: k_def)
  qed
qed

lemma pop_refines:
  assumes ok: "rb_ok rb"
  shows "\<exists>rb'. core_ringbuf_pop_char rb = Some (take 1 (rb_abs rb), rb') \<and> rb_ok rb' \<and> buff_size rb' = buff_size rb \<and>
    rb_abs rb' = drop 1 (rb_abs rb)"
proof (cases "rb_abs rb = []")
  case True
  then show ?thesis using ok by (simp add: core_ringbuf_pop_char_def rb_empty)
next
  case False
  note i = rb_indices [OF ok]
  let ?h = "(rb_head rb + 1) mod buff_size rb"
  have "unat ?h = (unat (rb_head rb) + 1) mod unat (buff_size rb)"
    using ok by (intro next_index) (simp_all add: rb_ok_def)
  then have "rb_ok (rb\<lparr>rb_head := ?h\<rparr>) \<and> rb_abs (rb\<lparr>rb_head := ?h\<rparr>) = drop 1 (rb_abs rb)"
    using False by (intro rb_dequeue [OF ok]) (simp_all add: Suc_le_eq)
  moreover have "take 1 (rb_abs rb) = take 1 (drop (unat (rb_head rb)) (rb_buf rb))"
    using False i(1,4) unfolding rb_abs_def
    by (subst circ_take) (auto simp: Suc_le_eq circ_straight rb_abs_def)
  ultimately show ?thesis using False ok i(1,4) by (simp add: core_ringbuf_pop_char_def rb_empty mem_get_def)
qed

lemma read_refines:
  assumes ok: "rb_ok rb"
  shows "\<exists>rb'. core_ringbuf_read rb n = Some (take (unat n) (rb_abs rb), rb') \<and> rb_ok rb' \<and> buff_size rb' = buff_size rb \<and>
    rb_abs rb' = drop (unat n) (rb_abs rb)"
proof -
  note i = rb_indices [OF ok]
  let ?s = "unat (buff_size rb)" and ?h = "unat (rb_head rb)"
  define m where "m = min (core_ringbuf_len rb) n"
  define k where "k = unat m"
  have k: "k = min (length (rb_abs rb)) (unat n)" by (simp add: k_def m_def unat_min rb_len [OF ok])
  have ks: "k < ?s" using i(1,5) by (auto simp: k rb_cap_def)
  have unfold: "core_ringbuf_read rb n = (if rb_abs rb = [] \<or> m = 0 then Some ([], rb) else do {
      let tocopy = min (buff_size rb - rb_head rb) m;
      d \<leftarrow> mem_get (rb_buf rb) (unat (rb_head rb)) (unat tocopy);
      let rb = rb\<lparr>rb_head := rb_head rb + tocopy\<rparr>;
      let size = m - tocopy;
      (e, rb) \<leftarrow> (if size > 0 then do {
                 e \<leftarrow> mem_get (rb_buf rb) 0 (unat size);
                 Some (e, rb\<lparr>rb_head := size\<rparr>)
               }
               else Some ([], rb));
      Some (d @ e, rb\<lparr>rb_head := rb_head rb mod buff_size rb\<rparr>)
    })"
    using rb_empty [OF ok] by (simp add: core_ringbuf_read_def m_def Let_def)
  have tk: "take (unat n) (rb_abs rb) = take k (rb_abs rb)" "drop (unat n) (rb_abs rb) = drop k (rb_abs rb)"
    by (simp_all add: k min_def)
  show ?thesis
  proof (cases "rb_abs rb = [] \<or> m = 0")
    case True
    then have "k = 0 \<or> rb_abs rb = []" by (auto simp: k_def)
    then show ?thesis using unfold True ok tk by auto
  next
    case False
    define c where "c = min (?s - ?h) k"
    define tc where "tc = min (buff_size rb - rb_head rb) m"
    have tc: "unat tc = c" using i(1) by (simp add: tc_def c_def unat_min k_def unat_sub_if')
    have rest: "unat (m - tc) = k - c" using tc by (simp add: k_def c_def unat_sub_if')
    have mem: "mem_get (rb_buf rb) ?h c = Some (circ (rb_buf rb) ?h c)" using i(1,4) by (simp add: mem_get_def c_def circ_straight)
    have mem': "mem_get (rb_buf rb) 0 (k - c) = Some (circ (rb_buf rb) (?h + c) (k - c))"
    proof (cases "k = c")
      case False
      then have "?h + c = ?s" using i(1) by (auto simp: c_def min_def split: if_splits)
      then show ?thesis using circ_start [of "rb_buf rb" "?h + c" "k - c"] i(4) ks by (simp add: mem_get_def circ_straight)
    qed (simp add: mem_get_def)
    define h' where "h' = (if m - tc > 0 then m - tc else rb_head rb + tc) mod buff_size rb"
    have h': "unat h' = (?h + k) mod ?s"
    proof (cases "m - tc > 0")
      case True
      then have "0 < k - c" using rest by (simp add: word_less_nat_alt)
      then have "c = ?s - ?h" by (simp add: c_def min_def split: if_splits)
      then show ?thesis using True rest ks i(1) \<open>0 < k - c\<close> by (simp add: h'_def unat_mod mod_once)
    next
      case False
      then have "k - c = 0" using rest by (simp add: word_less_nat_alt)
      then have "k = c" by (simp add: c_def min_def split: if_splits)
      then show ?thesis using False tc i(1,3) ks by (simp add: h'_def unat_mod unat_word_ariths)
    qed
    have ck: "c \<le> k" by (simp add: c_def)
    have "circ (rb_buf rb) (?h + c) (k - c) = []" if "\<not> m - tc > 0" using that rest by (simp add: word_less_nat_alt)
    then have "core_ringbuf_read rb n = Some (circ (rb_buf rb) ?h c @ circ (rb_buf rb) (?h + c) (k - c), rb\<lparr>rb_head := h'\<rparr>)"
      using False mem mem' tc rest unfold by (simp add: tc_def [symmetric] Let_def h'_def)
    moreover have "circ (rb_buf rb) ?h c @ circ (rb_buf rb) (?h + c) (k - c) = take k (rb_abs rb)"
      using circ_split [OF ck, of "rb_buf rb" ?h] k i(6) by (simp add: rb_abs_def circ_take)
    moreover have "rb_ok (rb\<lparr>rb_head := h'\<rparr>) \<and> rb_abs (rb\<lparr>rb_head := h'\<rparr>) = drop k (rb_abs rb)"
      by (rule rb_dequeue [OF ok _ h']) (simp add: k)
    ultimately show ?thesis by (simp add: tk)
  qed
qed

section \<open>Refinement\<close>

datatype rb_op = PushChar u8 | WriteBlock "u8 list" | PopChar | ReadBlock u32

text \<open>The code and the queue, run over the same operations; the outputs are the bytes handed out
  and the numbers of bytes taken.\<close>

fun rb_step :: "rb_op \<Rightarrow> core_ringbuf \<Rightarrow> ((u8 list \<times> nat) \<times> core_ringbuf) option" where
  "rb_step (PushChar x) rb = do { rb \<leftarrow> core_ringbuf_push_char rb x; Some (([], 1), rb) }"
| "rb_step (WriteBlock ds) rb = do { (r, rb) \<leftarrow> core_ringbuf_write rb ds (of_nat (length ds)); Some (([], unat r), rb) }"
| "rb_step PopChar rb = do { (d, rb) \<leftarrow> core_ringbuf_pop_char rb; Some ((d, 0), rb) }"
| "rb_step (ReadBlock n) rb = do { (d, rb) \<leftarrow> core_ringbuf_read rb n; Some ((d, 0), rb) }"

fun q_step :: "nat \<Rightarrow> rb_op \<Rightarrow> u8 list \<Rightarrow> (u8 list \<times> nat) \<times> u8 list" where
  "q_step cap (PushChar x) q = (([], 1), q_push cap q x)"
| "q_step cap (WriteBlock ds) q = (([], min (cap - length q) (length ds)), q_write cap q ds)"
| "q_step cap PopChar q = ((take 1 q, 0), drop 1 q)"
| "q_step cap (ReadBlock n) q = ((take (unat n) q, 0), drop (unat n) q)"

fun rb_run :: "rb_op list \<Rightarrow> core_ringbuf \<Rightarrow> ((u8 list \<times> nat) list \<times> core_ringbuf) option" where
  "rb_run [] rb = Some ([], rb)"
| "rb_run (x # xs) rb = do { (y, rb) \<leftarrow> rb_step x rb; (ys, rb) \<leftarrow> rb_run xs rb; Some (y # ys, rb) }"

fun q_run :: "nat \<Rightarrow> rb_op list \<Rightarrow> u8 list \<Rightarrow> (u8 list \<times> nat) list \<times> u8 list" where
  "q_run cap [] q = ([], q)"
| "q_run cap (x # xs) q = (let (y, q) = q_step cap x q; (ys, q) = q_run cap xs q in (y # ys, q))"

fun op_ok :: "rb_op \<Rightarrow> bool" where
  "op_ok (WriteBlock ds) = (length ds < 2 ^ 32)"
| "op_ok _ = True"

lemma step_refines:
  assumes "rb_ok rb" and "op_ok x"
  shows "\<exists>y rb'. rb_step x rb = Some (y, rb') \<and> rb_ok rb' \<and> buff_size rb' = buff_size rb \<and>
    (y, rb_abs rb') = q_step (rb_cap rb) x (rb_abs rb)"
proof (cases x)
  case (PushChar b)
  then show ?thesis using push_refines [OF assms(1), of b] by auto
next
  case (WriteBlock ds)
  then have "unat (of_nat (length ds) :: u32) = length ds"
    using assms(2) by (simp add: unsigned_of_nat take_bit_nat_eq_self)
  then show ?thesis using WriteBlock write_refines [OF assms(1), of "of_nat (length ds)" ds] by auto
next
  case PopChar
  then show ?thesis using pop_refines [OF assms(1)] by auto
next
  case (ReadBlock n)
  then show ?thesis using read_refines [OF assms(1), of n] by auto
qed

lemma run_refines:
  "rb_ok rb \<Longrightarrow> list_all op_ok xs \<Longrightarrow> \<exists>ys rb'. rb_run xs rb = Some (ys, rb') \<and> rb_ok rb' \<and>
     (ys, rb_abs rb') = q_run (rb_cap rb) xs (rb_abs rb)"
proof (induction xs arbitrary: rb)
  case (Cons x xs)
  obtain y rb1 where s: "rb_step x rb = Some (y, rb1)" "rb_ok rb1" "buff_size rb1 = buff_size rb"
      "(y, rb_abs rb1) = q_step (rb_cap rb) x (rb_abs rb)"
    using step_refines [of rb x] Cons.prems by auto
  obtain ys rb2 where r: "rb_run xs rb1 = Some (ys, rb2)" "rb_ok rb2" "(ys, rb_abs rb2) = q_run (rb_cap rb1) xs (rb_abs rb1)"
    using Cons.IH [OF s(2)] Cons.prems(2) by auto
  have "rb_cap rb1 = rb_cap rb" using s(3) by (simp add: rb_cap_def)
  then have "q_run (rb_cap rb) xs (rb_abs rb1) = (ys, rb_abs rb2)" using r(3) by simp
  then show ?case using s(1,4) r(1,2) by (simp add: s(4) [symmetric])
qed auto

text \<open>C20: After a successful initialisation the ring buffer is a queue of \<open>size - 1\<close> bytes: over any
  sequence of pushes, block writes, pops and block reads it never leaves its array, hands out
  the bytes the queue hands out, and takes as many of a block as the queue has room for; a
  character pushed into a full buffer displaces the oldest one.\<close>

theorem ring_buffer_refines_queue:
  assumes "core_ringbuf_init rb0 (Some d) sz = Some (0, rb)" and "list_all op_ok xs"
  shows "\<exists>ys rb'. rb_run xs rb = Some (ys, rb') \<and> rb_ok rb' \<and> (ys, rb_abs rb') = q_run (unat sz - 1) xs []"
proof -
  have "CORE_IS_POWER_OF_2 sz" "rb = \<lparr>rb_buf = zeros (unat sz), buff_size = sz, rb_head = 0, rb_tail = 0\<rparr>"
    using assms(1) by (auto simp: core_ringbuf_init_def split: if_splits)
  then have "rb_ok rb" "rb_abs rb = []" "rb_cap rb = unat sz - 1"
    using size_bound [of sz] by (simp_all add: rb_ok_def rb_abs_def rb_cap_def count_def word_less_nat_alt)
  then show ?thesis using run_refines [of rb xs] assms(2) by simp
qed

theorem ring_buffer_refines_queue_witness:
  "\<exists>rb'. rb_run [WriteBlock [1, 2, 3, 4], ReadBlock 2, PushChar 5, PushChar 6, PushChar 7, PopChar]
      \<lparr>rb_buf = zeros 4, buff_size = 4, rb_head = 0, rb_tail = 0\<rparr> =
    Some ([([], 3), ([1, 2], 0), ([], 1), ([], 1), ([], 1), ([5], 0)], rb')"
  using ring_buffer_refines_queue [of rb0 "zeros 4" 4 "\<lparr>rb_buf = zeros 4, buff_size = 4, rb_head = 0, rb_tail = 0\<rparr>"
      "[WriteBlock [1, 2, 3, 4], ReadBlock 2, PushChar 5, PushChar 6, PushChar 7, PopChar]"]
  by (auto simp: core_ringbuf_init_def CORE_IS_POWER_OF_2_def q_write_def q_push_def)

end
