(* ===== verification/C_Text.thy ===== *)
theory C_Text
  imports Gateway_Prelude
begin

text \<open>
  What the code uses of the string functions of the C library: decimal numbers written and read,
  copies into fixed arrays, strings in byte arrays.
\<close>

section \<open>Numbers\<close>

text \<open>\<^verbatim>\<open>%d\<close>.\<close>

definition digit_char :: "nat \<Rightarrow> char" where
  "digit_char n = char_of (0x30 + n)"

fun decimal :: "nat \<Rightarrow> string" where
  "decimal n = (if n < 10 then [digit_char n] else decimal (n div 10) @ [digit_char (n mod 10)])"

declare decimal.simps [simp del]

definition format_d :: "int \<Rightarrow> string" where
  "format_d i = (if i < 0 then CHR ''-'' # decimal (nat (- i)) else decimal (nat i))"

definition is_digit :: "char \<Rightarrow> bool" where
  "is_digit c \<longleftrightarrow> 48 \<le> (of_char c :: nat) \<and> (of_char c :: nat) \<le> 57"

definition is_space :: "char \<Rightarrow> bool" where
  "is_space c \<longleftrightarrow> c = CHR '' '' \<or> 9 \<le> (of_char c :: nat) \<and> (of_char c :: nat) \<le> 13"

definition decimal_value :: "string \<Rightarrow> nat" where
  "decimal_value ds = foldl (\<lambda>n c. 10 * n + (of_char c - 48)) 0 ds"

text \<open>
  \<^verbatim>\<open>atoi\<close> is \<^verbatim>\<open>strtol\<close> in base 10, where \<^verbatim>\<open>long\<close> has 32 bits: white space, a sign, digits; a value
  that does not fit becomes the nearest one that does.
\<close>

definition atoi :: "string \<Rightarrow> int" where
  "atoi s =
     (let s = dropWhile is_space s;
          minus = (s \<noteq> [] \<and> hd s = CHR ''-'');
          s = (if minus \<or> s \<noteq> [] \<and> hd s = CHR ''+'' then tl s else s);
          n = int (decimal_value (takeWhile is_digit s))
      in if minus then max (- (2 ^ 31)) (- n) else min (2 ^ 31 - 1) n)"

lemma of_digit_char: "n < 10 \<Longrightarrow> (of_char (digit_char n) :: nat) = 48 + n"
  by (simp add: digit_char_def)

lemma is_digit_char [simp]: "n < 10 \<Longrightarrow> is_digit (digit_char n)"
  by (simp add: is_digit_def of_digit_char)

lemma decimal_digits [simp]: "list_all is_digit (decimal n)" "decimal n \<noteq> []"
  by (induction n rule: decimal.induct; subst decimal.simps; simp)+

lemma decimal_value_decimal [simp]: "decimal_value (decimal n) = n"
proof (induction n rule: decimal.induct)
  case (1 n)
  have "decimal_value (xs @ [digit_char d]) = 10 * decimal_value xs + d" if "d < 10" for xs d
    using that by (simp add: decimal_value_def of_digit_char)
  then show ?case using 1 by (subst decimal.simps) (simp add: decimal_value_def of_digit_char)
qed

lemma decimal_inject [simp]: "decimal m = decimal n \<longleftrightarrow> m = n"
  by (metis decimal_value_decimal)

lemma digit_plain: "is_digit c \<Longrightarrow> \<not> is_space c \<and> c \<noteq> CHR ''-'' \<and> c \<noteq> CHR ''+''"
  by (auto simp: is_digit_def is_space_def)

lemma atoi_format_d: "- (2 ^ 31) \<le> i \<Longrightarrow> i < 2 ^ 31 \<Longrightarrow> atoi (format_d i) = i"
proof -
  have digits: "takeWhile is_digit (decimal n) = decimal n" for n
    using decimal_digits(1) [of n] by (simp add: list_all_iff)
  obtain c cs where c: "decimal (nat i) = c # cs" "is_digit c" using decimal_digits [of "nat i"] by (cases "decimal (nat i)") auto
  have m: "\<not> is_space CHR ''-''" by (simp add: is_space_def)
  assume i: "- (2 ^ 31) \<le> i" "i < 2 ^ 31"
  show ?thesis
  proof (cases "i < 0")
    case True
    then show ?thesis using i m by (simp add: atoi_def format_d_def digits Let_def)
  next
    case False
    moreover have "dropWhile is_space (decimal (nat i)) = decimal (nat i)" "hd (decimal (nat i)) \<noteq> CHR ''-''" "hd (decimal (nat i)) \<noteq> CHR ''+''"
      using c digit_plain [of c] by simp_all
    ultimately show ?thesis using i by (simp add: atoi_def format_d_def digits Let_def)
  qed
qed

section \<open>Arrays of characters\<close>

text \<open>\<^verbatim>\<open>strcpy\<close> into an array of \<open>n\<close> characters.\<close>

definition strcpy :: "nat \<Rightarrow> string \<Rightarrow> string option" where
  "strcpy n s = (if length s < n then Some s else None)"

text \<open>The string in an array of bytes, if a \<^verbatim>\<open>NUL\<close> ends it.\<close>

definition c_string :: "u8 list \<Rightarrow> string option" where
  "c_string bs = (if 0 \<in> set bs then Some (map (\<lambda>b. char_of (unat b)) (takeWhile (\<lambda>b. b \<noteq> 0) bs)) else None)"

end
