(* ===== verification/Sys_Time.thy ===== *)
theory Sys_Time
  imports C_Text
begin

text \<open>
  System time (\<^verbatim>\<open>components/sys_time/sys_time.c\<close>, \<^verbatim>\<open>hwrtc.c\<close>): the conversions
  between POSIX time and calendar dates, the clock, and the two text formats. \<^verbatim>\<open>time_t\<close> is
  an unsigned 32-bit integer, as in the C library of the target. \<^const>\<open>None\<close> is an access
  outside a table or a string.
\<close>

section \<open>Calendar\<close>

record tm =
  tm_sec :: int
  tm_min :: int
  tm_hour :: int
  tm_mday :: int
  tm_mon :: int
  tm_year :: int
  tm_wday :: int
  tm_yday :: int
  tm_isdst :: int

definition YEAR0 :: int where "YEAR0 = 1900"
definition EPOCH_YR :: int where "EPOCH_YR = 1970"

definition SEC_PER_YR :: "u32 list" where "SEC_PER_YR = [31536000, 31622400]"
definition SEC_PER_MT :: "u32 list list" where
  "SEC_PER_MT =
    [[2678400, 2419200, 2678400, 2592000, 2678400, 2592000,
      2678400, 2678400, 2592000, 2678400, 2592000, 2678400],
     [2678400, 2505600, 2678400, 2592000, 2678400, 2592000,
      2678400, 2678400, 2592000, 2678400, 2592000, 2678400]]"
definition SEC_PER_DY :: u32 where "SEC_PER_DY = 86400"
definition SEC_PER_HR :: u32 where "SEC_PER_HR = 3600"

definition is_leap :: "int \<Rightarrow> nat" where
  "is_leap yr = (if yr mod 100 = 0 then (if yr mod 400 = 0 then 1 else 0) else (if yr mod 4 = 0 then 1 else 0))"

definition day_of_week_get :: "u8 \<Rightarrow> u8 \<Rightarrow> u16 \<Rightarrow> u8 option" where
  "day_of_week_get month day year =
     (let t = [0, 3, 2, 5, 0, 3, 5, 1, 4, 6, 2, 4] :: int list;
          y = uint (year - (if month < 3 then 1 else 0)); m = uint month - 1
      in if 0 \<le> m \<and> m < 12
         then Some (of_int ((y + y div 4 - y div 100 + y div 400 + t ! nat m + uint day) mod 7))
         else None)"

definition mktime :: "tm \<Rightarrow> u32 option" where
  "mktime tm =
     (let year = tm_year tm + YEAR0;
          ret = foldl (\<lambda>ret i. ret + SEC_PER_YR ! is_leap i) 0 [EPOCH_YR..year - 1];
          leapyr = is_leap year
      in if tm_mon tm > 12 then None
         else
           let ret = foldl (\<lambda>ret i. ret + SEC_PER_MT ! leapyr ! nat i) ret [0..tm_mon tm - 1]
           in Some (ret + of_int (tm_mday tm - 1) * SEC_PER_DY + of_int (tm_hour tm) * SEC_PER_HR
                + of_int (tm_min tm * 60) + of_int (tm_sec tm)))"

lemma sec_per_yr: "unat (SEC_PER_YR ! is_leap y) = (365 + is_leap y) * 86400"
  by (simp add: SEC_PER_YR_def is_leap_def)

text \<open>The two loops of \<^verbatim>\<open>gmtime_r\<close>.\<close>

function gm_year :: "u32 \<Rightarrow> int \<Rightarrow> u32 \<times> int" where
  "gm_year ltime yr =
     (if ltime < SEC_PER_YR ! is_leap yr then (ltime, yr)
      else gm_year (ltime - SEC_PER_YR ! is_leap yr) (yr + 1))"
  by pat_completeness auto
termination
proof (relation "measure (\<lambda>(t, y). unat t)")
  fix t :: u32 and y :: int
  assume "\<not> t < SEC_PER_YR ! is_leap y"
  moreover have "0 < unat (SEC_PER_YR ! is_leap y)" by (simp add: sec_per_yr)
  ultimately show "((t - SEC_PER_YR ! is_leap y, y + 1), (t, y)) \<in> measure (\<lambda>(t, y). unat t)"
    by (simp add: unat_sub_if' word_less_nat_alt not_less)
qed simp

declare gm_year.simps [simp del]

function gm_month :: "nat \<Rightarrow> u32 \<Rightarrow> nat \<Rightarrow> (u32 \<times> nat) option" where
  "gm_month leapyr ltime mon =
     (if mon < 12 then
        if ltime < SEC_PER_MT ! leapyr ! mon then Some (ltime, mon)
        else gm_month leapyr (ltime - SEC_PER_MT ! leapyr ! mon) (mon + 1)
      else None)"
  by pat_completeness auto
termination by (relation "measure (\<lambda>(l, t, m). 12 - m)") auto

declare gm_month.simps [simp del]

definition gmtime_r :: "u32 \<Rightarrow> tm option" where
  "gmtime_r time =
     (let (ltime, year) = gm_year time EPOCH_YR; yday = ltime div SEC_PER_DY; leapyr = is_leap year in
      do {
        (ltime, mon) \<leftarrow> gm_month leapyr ltime 0;
        let mday = uint (ltime div SEC_PER_DY) + 1;
        let ltime = ltime mod SEC_PER_DY;
        let hour = ltime div SEC_PER_HR;
        let ltime = ltime mod SEC_PER_HR;
        wday \<leftarrow> day_of_week_get (of_nat mon + 1) (of_int mday) (of_int year);
        Some \<lparr>tm_sec = uint (ltime mod 60), tm_min = uint (ltime div 60), tm_hour = uint hour, tm_mday = mday,
          tm_mon = int mon, tm_year = year - YEAR0, tm_wday = uint wday, tm_yday = uint yday, tm_isdst = 0\<rparr>
      })"

definition validate_date_time :: "tm \<Rightarrow> int" where
  "validate_date_time tm =
     (if tm_sec tm > 59 \<or> tm_min tm > 59 \<or> tm_hour tm > 23 then -1
      else if tm_year tm + YEAR0 < EPOCH_YR \<or> tm_year tm + YEAR0 > 2111 then -1
      else if tm_mon tm \<ge> 12 then -1
      else if tm_mon tm = 1 \<and> is_leap (tm_year tm + YEAR0) = 0 \<and> tm_mday tm > 28 then -1
      else if tm_mon tm = 1 \<and> is_leap (tm_year tm + YEAR0) \<noteq> 0 \<and> tm_mday tm > 29 then -1
      else if tm_mon tm \<in> {3, 5, 8, 10} \<and> tm_mday tm > 30 then -1
      else if tm_mday tm < 1 \<or> tm_mday tm > 31 then -1
      else 0)"

section \<open>The clock\<close>

text \<open>The hardware clock counts seconds; its interrupt comes once per second.\<close>

record rtc =
  rtc_ticks :: u64

definition hwrtc_time_set :: "u32 \<Rightarrow> rtc \<Rightarrow> int \<times> rtc" where
  "hwrtc_time_set time s = (0, s\<lparr>rtc_ticks := ucast time\<rparr>)"

definition hwrtc_time_get :: "rtc \<Rightarrow> u32" where
  "hwrtc_time_get s = ucast (rtc_ticks s)"

definition hwrtc_cb :: "rtc \<Rightarrow> rtc" where
  "hwrtc_cb s = s\<lparr>rtc_ticks := rtc_ticks s + 1\<rparr>"

definition sys_time_time_set_posix :: "u32 \<Rightarrow> rtc \<Rightarrow> int \<times> rtc" where
  "sys_time_time_set_posix time s = hwrtc_time_set time s"

definition sys_time_time_get_posix :: "rtc \<Rightarrow> u32" where
  "sys_time_time_get_posix s = hwrtc_time_get s"

definition sys_time_time_set :: "tm \<Rightarrow> rtc \<Rightarrow> (int \<times> rtc) option" where
  "sys_time_time_set tm s =
     (if validate_date_time tm = 0 then do { time \<leftarrow> mktime tm; Some (sys_time_time_set_posix time s) }
      else Some (-1, s))"

definition sys_time_time_get :: "rtc \<Rightarrow> tm option" where
  "sys_time_time_get s = gmtime_r (sys_time_time_get_posix s)"

section \<open>Text\<close>

definition wday_name :: "string list" where
  "wday_name = [''Sun'', ''Mon'', ''Tue'', ''Wed'', ''Thu'', ''Fri'', ''Sat'']"
definition mon_name :: "string list" where
  "mon_name = [''Jan'', ''Feb'', ''Mar'', ''Apr'', ''May'', ''Jun'', ''Jul'', ''Aug'', ''Sep'', ''Oct'', ''Nov'', ''Dec'']"

fun search_index :: "string \<Rightarrow> string list \<Rightarrow> nat" where
  "search_index x [] = 0"
| "search_index x (y # ys) = (if x = y then 0 else Suc (search_index x ys))"

text \<open>\<^verbatim>\<open>strncmp\<close> over three characters against each name; 12 is no month.\<close>

definition month_from_string_short :: "string \<Rightarrow> int" where
  "month_from_string_short month = int (search_index (take 3 month) mon_name)"

definition isdigit :: "char \<Rightarrow> bool" where
  "isdigit c \<longleftrightarrow> 0x30 \<le> (of_char c :: nat) \<and> (of_char c :: nat) \<le> 0x39"

definition digit_value :: "char \<Rightarrow> int" where
  "digit_value c = of_char c - 0x30"

definition time_of :: "string \<Rightarrow> nat \<Rightarrow> tm \<Rightarrow> tm" where
  "time_of date i tm = tm\<lparr>
     tm_hour := digit_value (date ! i) * 10 + digit_value (date ! (i + 1)),
     tm_min := digit_value (date ! (i + 3)) * 10 + digit_value (date ! (i + 4)),
     tm_sec := digit_value (date ! (i + 6)) * 10 + digit_value (date ! (i + 7))\<rparr>"

definition time_valid :: "string \<Rightarrow> nat \<Rightarrow> bool" where
  "time_valid date i \<longleftrightarrow> isdigit (date ! i) \<and> isdigit (date ! (i + 1)) \<and> date ! (i + 2) = CHR '':'' \<and>
     isdigit (date ! (i + 3)) \<and> isdigit (date ! (i + 4)) \<and> date ! (i + 5) = CHR '':'' \<and>
     isdigit (date ! (i + 6)) \<and> isdigit (date ! (i + 7))"

definition tm_zero :: tm where
  "tm_zero = \<lparr>tm_sec = 0, tm_min = 0, tm_hour = 0, tm_mday = 0, tm_mon = 0, tm_year = 0, tm_wday = 0, tm_yday = 0, tm_isdst = 0\<rparr>"

definition date_rfc1123 :: "string \<Rightarrow> u32 option" where
  "date_rfc1123 date =
     (let mon = month_from_string_short (drop 8 date) in
      if length date \<noteq> 29 then Some 0
      else if date ! 4 \<noteq> CHR '' '' \<or> \<not> isdigit (date ! 5) \<or> \<not> isdigit (date ! 6) \<or> mon \<ge> 12 then Some 0
      else if \<not> isdigit (date ! 12) \<or> \<not> isdigit (date ! 13) \<or> \<not> isdigit (date ! 14) \<or> \<not> isdigit (date ! 15) \<or>
        date ! 16 \<noteq> CHR '' '' then Some 0
      else if \<not> time_valid date 17 \<or> date ! 25 \<noteq> CHR '' '' \<or> take 3 (drop 26 date) \<noteq> ''GMT'' then Some 0
      else mktime (time_of date 17 (tm_zero\<lparr>tm_mon := mon,
        tm_mday := digit_value (date ! 5) * 10 + digit_value (date ! 6),
        tm_year := digit_value (date ! 12) * 1000 + digit_value (date ! 13) * 100 + digit_value (date ! 14) * 10 +
          digit_value (date ! 15) - YEAR0\<rparr>)))"

definition date_ansi :: "string \<Rightarrow> u32 option" where
  "date_ansi date =
     (let mon = month_from_string_short (drop 4 date) in
      if length date \<noteq> 24 then Some 0
      else if mon \<ge> 12 \<or> date ! 7 \<noteq> CHR '' '' then Some 0
      else if date ! 8 \<noteq> CHR '' '' \<and> \<not> isdigit (date ! 8) \<or> \<not> isdigit (date ! 9) \<or> date ! 10 \<noteq> CHR '' '' then Some 0
      else if \<not> time_valid date 11 \<or> date ! 19 \<noteq> CHR '' '' then Some 0
      else if \<not> isdigit (date ! 20) \<or> \<not> isdigit (date ! 21) \<or> \<not> isdigit (date ! 22) \<or> \<not> isdigit (date ! 23) then Some 0
      else mktime (time_of date 11 (tm_zero\<lparr>tm_mon := mon,
        tm_mday := (if date ! 8 \<noteq> CHR '' '' then digit_value (date ! 8) * 10 else 0) + digit_value (date ! 9),
        tm_year := digit_value (date ! 20) * 1000 + digit_value (date ! 21) * 100 + digit_value (date ! 22) * 10 +
          digit_value (date ! 23) - YEAR0\<rparr>)))"

definition date_rfc1036 :: "string \<Rightarrow> u32 option" where
  "date_rfc1036 date =
     (let rest = dropWhile (\<lambda>c. c \<noteq> CHR '' '') date; start = tl rest; mon = month_from_string_short (drop 3 start);
          yy = digit_value (start ! 7) * 10 + digit_value (start ! 8) in
      if length date < 11 \<or> rest = [] \<or> length start \<noteq> 22 then Some 0
      else if \<not> isdigit (start ! 0) \<or> \<not> isdigit (start ! 1) \<or> start ! 2 \<noteq> CHR ''-'' \<or> mon \<ge> 12 then Some 0
      else if start ! 6 \<noteq> CHR ''-'' \<or> \<not> isdigit (start ! 7) \<or> \<not> isdigit (start ! 8) \<or> start ! 9 \<noteq> CHR '' '' then Some 0
      else if \<not> time_valid start 10 \<or> start ! 18 \<noteq> CHR '' '' \<or> take 3 (drop 19 start) \<noteq> ''GMT'' then Some 0
      else mktime (time_of start 10 (tm_zero\<lparr>tm_mon := mon,
        tm_mday := digit_value (start ! 0) * 10 + digit_value (start ! 1),
        tm_year := (if yy < 20 then yy + 100 else yy)\<rparr>)))"

text \<open>The string without its terminator; \<^verbatim>\<open>date[3]\<close> may lie behind it.\<close>

definition http_date_to_time :: "string \<Rightarrow> u32 option" where
  "http_date_to_time date =
     (if length date < 3 then None
      else if length date = 3 then date_rfc1036 date
      else if date ! 3 = CHR '','' then date_rfc1123 date
      else if date ! 3 = CHR '' '' then date_ansi date
      else date_rfc1036 date)"

text \<open>The 30 bytes of the result.\<close>

definition STD_ASCTIME_BUF_SIZE :: nat where "STD_ASCTIME_BUF_SIZE = 30"

definition asctime :: "tm \<Rightarrow> string option" where
  "asctime tm =
     (if 0 \<le> tm_wday tm \<and> tm_wday tm < 7 \<and> 0 \<le> tm_mon tm \<and> tm_mon tm < 12
      then Some (take (STD_ASCTIME_BUF_SIZE - 1)
        (wday_name ! nat (tm_wday tm) @ '' '' @ mon_name ! nat (tm_mon tm) @ '' '' @ format_d (tm_mday tm) @ '' '' @
         format_d (tm_hour tm) @ ''.'' @ format_d (tm_min tm) @ ''.'' @ format_d (tm_sec tm) @ '' '' @
         format_d (tm_year tm + YEAR0)))
      else None)"

end
