(* ===== verification/Time_Properties.thy ===== *)
theory Time_Properties
  imports Sys_Time
begin

text \<open>
  The time conversions are inverse to each other and to the text formats, and the day of the
  week is that of the calendar.
\<close>

section \<open>Days of years and months\<close>

definition year_days :: "int \<Rightarrow> nat" where
  "year_days y = 365 + is_leap y"

definition month_days :: "nat \<Rightarrow> nat list" where
  "month_days l = [31, 28 + l, 31, 30, 31, 30, 31, 31, 30, 31, 30, 31]"

definition days_before :: "int \<Rightarrow> nat" where
  "days_before y = sum_list (map year_days [EPOCH_YR..y - 1])"

lemma is_leap_le [simp]: "is_leap y \<le> 1" "is_leap y \<le> Suc 0" "is_leap y = 0 \<or> is_leap y = Suc 0"
  by (simp_all add: is_leap_def)

lemma sec_per_yr_days: "unat (SEC_PER_YR ! is_leap y) = year_days y * 86400"
  by (simp add: sec_per_yr year_days_def)

lemma length_month_days [simp]: "length (month_days l) = 12"
  by (simp add: month_days_def)

lemma sec_per_mt_days: "l \<le> 1 \<Longrightarrow> m < 12 \<Longrightarrow> unat (SEC_PER_MT ! l ! m) = month_days l ! m * 86400"
proof -
  assume "l \<le> 1" "m < 12"
  then have "l = 0 \<or> l = 1" "m = 0 \<or> m = 1 \<or> m = 2 \<or> m = 3 \<or> m = 4 \<or> m = 5 \<or> m = 6 \<or> m = 7 \<or> m = 8 \<or>
      m = 9 \<or> m = 10 \<or> m = 11" by presburger+
  then show ?thesis by (auto simp: SEC_PER_MT_def month_days_def)
qed

lemma sec_nat: "SEC_PER_YR ! is_leap y = of_nat (year_days y * 86400)"
  "l \<le> 1 \<Longrightarrow> m < 12 \<Longrightarrow> SEC_PER_MT ! l ! m = of_nat (month_days l ! m * 86400)"
  by (simp_all only: sec_per_yr_days [symmetric] sec_per_mt_days [symmetric] of_nat_unat ucast_id)

lemma sum_month_days: "sum_list (month_days l) = 365 + l"
  by (simp add: month_days_def)

lemma days_before_Suc: "EPOCH_YR \<le> y \<Longrightarrow> days_before (y + 1) = days_before y + year_days y"
  by (simp add: days_before_def upto_rec2)

lemma days_before_epoch [simp]: "days_before EPOCH_YR = 0"
  by (simp add: days_before_def)

lemma foldl_years: "foldl (\<lambda>ret i. ret + SEC_PER_YR ! is_leap i) a ys = a + of_nat (sum_list (map year_days ys) * 86400)"
  by (induction ys arbitrary: a) (simp_all add: sec_nat algebra_simps)

lemma foldl_months:
  "l \<le> 1 \<Longrightarrow> n \<le> 12 \<Longrightarrow> foldl (\<lambda>ret i. ret + SEC_PER_MT ! l ! nat i) a [0..int n - 1] =
     a + of_nat (sum_list (take n (month_days l)) * 86400)"
proof (induction n)
  case (Suc n)
  have "[0..int (Suc n) - 1] = [0..int n - 1] @ [int n]" by (simp add: upto_rec2)
  then show ?case using Suc by (simp add: take_Suc_conv_app_nth sec_nat algebra_simps)
qed simp

text \<open>Seconds since the epoch, as a natural number.\<close>

definition seconds :: "int \<Rightarrow> nat \<Rightarrow> nat \<Rightarrow> nat" where
  "seconds y m s = (days_before y + sum_list (take m (month_days (is_leap y)))) * 86400 + s"

lemma mktime_seconds:
  assumes "0 \<le> tm_mon tm" and "tm_mon tm \<le> 12" and "1 \<le> tm_mday tm" and "0 \<le> tm_hour tm" and "0 \<le> tm_min tm" and "0 \<le> tm_sec tm"
  shows "mktime tm = Some (of_nat (seconds (tm_year tm + YEAR0) (nat (tm_mon tm))
    (nat (((tm_mday tm - 1) * 24 + tm_hour tm) * 3600 + tm_min tm * 60 + tm_sec tm))))"
proof -
  let ?y = "tm_year tm + YEAR0" and ?m = "nat (tm_mon tm)"
  have m: "int ?m = tm_mon tm" "?m \<le> 12" using assms by auto
  have "of_nat (nat (((tm_mday tm - 1) * 24 + tm_hour tm) * 3600 + tm_min tm * 60 + tm_sec tm)) =
      (of_int (((tm_mday tm - 1) * 24 + tm_hour tm) * 3600 + tm_min tm * 60 + tm_sec tm) :: u32)"
    using assms by (metis (no_types, lifting) add_increasing diff_ge_0_iff_ge mult_nonneg_nonneg nat_0_le of_int_of_nat_eq zero_le_numeral)
  moreover have "of_int (tm_mday tm - 1) * SEC_PER_DY + of_int (tm_hour tm) * SEC_PER_HR + of_int (tm_min tm * 60) + of_int (tm_sec tm) =
      (of_int (((tm_mday tm - 1) * 24 + tm_hour tm) * 3600 + tm_min tm * 60 + tm_sec tm) :: u32)"
    by (simp add: SEC_PER_DY_def SEC_PER_HR_def algebra_simps)
  moreover have "foldl (\<lambda>ret i. ret + SEC_PER_MT ! is_leap ?y ! nat i) a [0..tm_mon tm - 1] =
      a + of_nat (sum_list (take ?m (month_days (is_leap ?y))) * 86400)" for a
    using foldl_months [of "is_leap ?y" ?m a] m by simp
  ultimately show ?thesis
    using assms(2) by (simp only: mktime_def Let_def foldl_years seconds_def days_before_def if_False not_True_eq_False not_less of_nat_add of_nat_mult
        distrib_right add.assoc add_0_left not_le [symmetric])
qed

section \<open>From seconds to the calendar\<close>

lemma small: "n < 4294967296 \<Longrightarrow> unat (of_nat n :: u32) = n"
  by (simp add: unsigned_of_nat take_bit_nat_eq_self)

lemma gm_year_exact:
  "sum_list (map year_days [y..y' - 1]) * 86400 + r < 4294967296 \<Longrightarrow> y \<le> y' \<Longrightarrow> r < year_days y' * 86400 \<Longrightarrow>
   gm_year (of_nat (sum_list (map year_days [y..y' - 1]) * 86400 + r)) y = (of_nat r, y')"
proof (induction "nat (y' - y)" arbitrary: y)
  case 0
  then have y: "y' = y" by simp
  then have "(of_nat r :: u32) < SEC_PER_YR ! is_leap y"
    using 0 by (simp add: word_less_nat_alt sec_per_yr_days small)
  then show ?case by (subst gm_year.simps) (simp add: y)
next
  case (Suc n)
  then have less: "y < y'" by simp
  let ?rest = "sum_list (map year_days [y + 1..y' - 1]) * 86400 + r"
  have sum: "sum_list (map year_days [y..y' - 1]) * 86400 + r = year_days y * 86400 + ?rest"
    using less by (simp add: upto_rec1 algebra_simps)
  let ?t = "of_nat (year_days y * 86400 + ?rest) :: u32"
  have less32: "year_days y * 86400 + ?rest < 4294967296" using Suc.prems(1) unfolding sum .
  have "\<not> ?t < SEC_PER_YR ! is_leap y" unfolding word_less_nat_alt small [OF less32] sec_per_yr_days by simp
  moreover have "?t - SEC_PER_YR ! is_leap y = of_nat ?rest" unfolding sec_nat(1) of_nat_add by (rule add_diff_cancel_left')
  moreover have "gm_year (of_nat ?rest) (y + 1) = (of_nat r, y')"
    using Suc.hyps(2) less less32 Suc.prems(3) by (intro Suc.hyps(1)) auto
  ultimately show ?case unfolding sum by (subst gm_year.simps) (simp only: if_False)
qed

lemma gm_month_exact:
  "l \<le> 1 \<Longrightarrow> m < 12 \<Longrightarrow> k \<le> m \<Longrightarrow> r < month_days l ! m * 86400 \<Longrightarrow>
   sum_list (take (m - k) (drop k (month_days l))) * 86400 + r < 4294967296 \<Longrightarrow>
   gm_month l (of_nat (sum_list (take (m - k) (drop k (month_days l))) * 86400 + r)) k = Some (of_nat r, m)"
proof (induction "m - k" arbitrary: k)
  case 0
  then have k: "k = m" by simp
  then have "(of_nat r :: u32) < SEC_PER_MT ! l ! m"
    using 0 by (simp add: word_less_nat_alt sec_per_mt_days small)
  then show ?case using 0 by (subst gm_month.simps) (simp add: k)
next
  case (Suc n)
  then have less: "k < m" by simp
  let ?rest = "sum_list (take (m - Suc k) (drop (Suc k) (month_days l))) * 86400 + r"
  have "take (m - k) (drop k (month_days l)) = month_days l ! k # take (m - Suc k) (drop (Suc k) (month_days l))"
    using less Suc.prems(2) by (subst Cons_nth_drop_Suc [symmetric]) (simp_all add: take_Cons')
  then have sum: "sum_list (take (m - k) (drop k (month_days l))) * 86400 + r = month_days l ! k * 86400 + ?rest" by simp
  let ?t = "of_nat (month_days l ! k * 86400 + ?rest) :: u32"
  have less32: "month_days l ! k * 86400 + ?rest < 4294967296" using Suc.prems(5) unfolding sum .
  have k12: "k < 12" using less Suc.prems(2) by simp
  have "\<not> ?t < SEC_PER_MT ! l ! k"
    unfolding word_less_nat_alt small [OF less32] sec_per_mt_days [OF Suc.prems(1) k12] by simp
  moreover have "?t - SEC_PER_MT ! l ! k = of_nat ?rest"
    unfolding sec_nat(2) [OF Suc.prems(1) k12] of_nat_add by (rule add_diff_cancel_left')
  moreover have "gm_month l (of_nat ?rest) (Suc k) = Some (of_nat r, m)"
    using Suc.hyps(2) less less32 Suc.prems by (intro Suc.hyps(1)) auto
  ultimately show ?case unfolding sum using k12 by (subst gm_month.simps) (simp only: if_False if_True Suc_eq_plus1)
qed

section \<open>The day of the week\<close>

lemma div_pred: "0 < k \<Longrightarrow> y div k = (y - 1) div k + (if y mod k = 0 then 1 else 0)" for y k :: int
proof -
  assume k: "0 < k"
  define q r where "q = y div k" and "r = y mod k"
  have y: "y = k * q + r" "0 \<le> r" "r < k" using k by (simp_all add: q_def r_def)
  have "(y - 1) div k = (if r = 0 then q - 1 else q)"
  proof (cases "r = 0")
    case True
    then have "(y - 1) div k = q - 1" using y k by (intro int_div_pos_eq [of _ _ _ "k - 1"]) (simp_all add: algebra_simps)
    then show ?thesis using True by simp
  next
    case False
    then have "(y - 1) div k = q" using y by (intro int_div_pos_eq [of _ _ _ "r - 1"]) simp_all
    then show ?thesis using False by simp
  qed
  then show ?thesis by (simp add: q_def r_def)
qed

lemma leap_div:
  "int (is_leap y) = y div 4 - (y - 1) div 4 - (y div 100 - (y - 1) div 100) + (y div 400 - (y - 1) div 400)"
proof -
  have "y mod 400 mod 100 = y mod 100" "y mod 100 mod 4 = y mod 4" by (simp_all add: mod_mod_cancel)
  then have "y mod 400 = 0 \<longrightarrow> y mod 100 = 0" "y mod 100 = 0 \<longrightarrow> y mod 4 = 0" by auto
  moreover define i where "i k = (if y mod k = 0 then 1 else 0 :: int)" for k
  ultimately have "int (is_leap y) = i 4 - i 100 + i 400" by (simp add: is_leap_def)
  moreover have "y div k - (y - 1) div k = i k" if "0 < k" for k
    using div_pred [OF that, of y] unfolding i_def by simp
  then have "y div 4 - (y - 1) div 4 = i 4" "y div 100 - (y - 1) div 100 = i 100" "y div 400 - (y - 1) div 400 = i 400"
    by simp_all
  ultimately show ?thesis by simp
qed

lemma days_before_closed:
  "EPOCH_YR \<le> y \<Longrightarrow> int (days_before y) = 365 * (y - 1970) + (y - 1) div 4 - (y - 1) div 100 + (y - 1) div 400 - 477"
proof (induction rule: int_ge_induct)
  case base
  then show ?case using days_before_epoch by (simp add: EPOCH_YR_def)
next
  case (step y)
  have "int (days_before (y + 1)) = int (days_before y) + 365 + int (is_leap y)"
    using step.hyps by (simp add: days_before_Suc year_days_def)
  then show ?case unfolding step.IH leap_div by simp
qed

text \<open>1 January 1970 was a Thursday, day 4 of the week.\<close>

definition weekday :: "int \<Rightarrow> nat \<Rightarrow> int \<Rightarrow> int" where
  "weekday y m d = (int (days_before y + sum_list (take m (month_days (is_leap y)))) + d + 4) mod 7"

lemma month_cases:
  "m < 12 \<Longrightarrow> m = 0 \<or> m = 1 \<or> m = 2 \<or> m = 3 \<or> m = 4 \<or> m = 5 \<or> m = 6 \<or> m = 7 \<or> m = 8 \<or> m = 9 \<or> m = 10 \<or> m = (11 :: nat)"
  by presburger

lemma mod_7_shift: "x = z + 364 * y + 7 * k \<Longrightarrow> z mod 7 = x mod (7 :: int)"
proof -
  assume "x = z + 364 * y + 7 * k"
  then have "x = z + 7 * (52 * y + k)" by simp
  then show ?thesis by (simp only: mod_mult_self2)
qed

lemma month_sum:
  "m < 12 \<Longrightarrow> sum_list (take m (month_days l)) = [0, 31, 59, 90, 120, 151, 181, 212, 243, 273, 304, 334] ! m + (if m < 2 then 0 else l)"
  by (drule month_cases, elim disjE) (simp_all add: month_days_def)

lemma month_table:
  "m < 12 \<Longrightarrow> int ([0, 31, 59, 90, 120, 151, 181, 212, 243, 273, 304, 334] ! m) = [0, 3, 2, 5, 0, 3, 5, 1, 4, 6, 2, 4] ! m +
     (if m < 2 then 0 else 1) + 7 * [0, 4, 8, 12, 17, 21, 25, 30, 34, 38, 43, 47] ! m"
  by (drule month_cases, elim disjE) simp_all

lemma weekday_formula:
  assumes "EPOCH_YR \<le> y" and "m < 12"
  shows "(let Y = y - (if m < 2 then 1 else 0) in
    Y + Y div 4 - Y div 100 + Y div 400 + [0, 3, 2, 5, 0, 3, 5, 1, 4, 6, 2, 4] ! m + (d + 1)) mod 7 = weekday y m d"
proof -
  let ?C = "[0, 31, 59, 90, 120, 151, 181, 212, 243, 273, 304, 334] :: nat list"
  let ?K = "[0, 4, 8, 12, 17, 21, 25, 30, 34, 38, 43, 47] ! m :: int"
  let ?t = "[0, 3, 2, 5, 0, 3, 5, 1, 4, 6, 2, 4] ! m :: int"
  have s: "int (sum_list (take m (month_days (is_leap y)))) = int (?C ! m) + (if m < 2 then 0 else int (is_leap y))"
    by (simp only: month_sum [OF assms(2)]) simp
  define P where "P x = x div 4 - x div 100 + x div 400" for x :: int
  have c: "int (days_before y) = 365 * (y - 1970) + P (y - 1) - 477"
    using days_before_closed [OF assms(1)] by (simp add: P_def)
  have l: "int (is_leap y) = P y - P (y - 1)" using leap_div [of y] by (simp add: P_def)
  define Y where "Y = y - (if m < 2 then 1 else 0)"
  have "int (days_before y + sum_list (take m (month_days (is_leap y)))) + d + 4 =
      Y + P Y + ?t + (d + 1) + 364 * y + 7 * (?K - 102789)"
    unfolding of_nat_add c s month_table [OF assms(2)] l Y_def by (simp split: if_split)
  then have "(Y + P Y + ?t + (d + 1)) mod 7 = weekday y m d" unfolding weekday_def by (rule mod_7_shift)
  moreover have "Y + P Y + ?t + (d + 1) = Y + Y div 4 - Y div 100 + Y div 400 + ?t + (d + 1)" by (simp add: P_def)
  ultimately show ?thesis unfolding Let_def Y_def [symmetric] by (simp only:)
qed

section \<open>Inverse conversions\<close>

lemma digits: "x < b \<Longrightarrow> (x + q * b) div b = (q :: nat)" "x < b \<Longrightarrow> (x + q * b) mod b = x"
  by simp_all

lemma u32_div: "n < 4294967296 \<Longrightarrow> k < 4294967296 \<Longrightarrow> (of_nat n :: u32) div of_nat k = of_nat (n div k)"
  "n < 4294967296 \<Longrightarrow> k < 4294967296 \<Longrightarrow> (of_nat n :: u32) mod of_nat k = of_nat (n mod k)"
proof -
  assume n: "n < 4294967296" and k: "k < 4294967296"
  have "n div k < 4294967296" "n mod k < 4294967296"
    using n div_le_dividend [of n k] mod_less_eq_dividend [of n k] by linarith+
  then show "(of_nat n :: u32) div of_nat k = of_nat (n div k)" "(of_nat n :: u32) mod of_nat k = of_nat (n mod k)"
    using n k by (simp_all add: word_unat_eq_iff unat_div unat_mod small)
qed

lemma uint_small: "n < 4294967296 \<Longrightarrow> uint (of_nat n :: u32) = int n"
  using small [of n] by (metis uint_nat)

lemma days_before_mono: "EPOCH_YR \<le> y \<Longrightarrow> 365 * (y - 1970) \<le> int (days_before y)"
proof (induction rule: int_ge_induct)
  case (step y)
  then show ?case by (simp add: days_before_Suc year_days_def)
qed (simp add: EPOCH_YR_def)

lemma take_month_days: "m < 12 \<Longrightarrow> sum_list (take m (month_days l)) + month_days l ! m \<le> 365 + l"
proof -
  assume m: "m < 12"
  have "sum_list (month_days l) = sum_list (take (Suc m) (month_days l)) + sum_list (drop (Suc m) (month_days l))"
    by (metis append_take_drop_id sum_list_append)
  then show ?thesis using m by (simp add: sum_month_days take_Suc_conv_app_nth)
qed

lemma weekday_bounds: "0 \<le> weekday y m d" "weekday y m d < 7"
  by (simp_all add: weekday_def)

lemma day_of_week:
  assumes "EPOCH_YR \<le> y" and "y < 2200" and "m < 12" and "d < 31"
  shows "day_of_week_get (of_nat m + 1) (of_int (int d + 1)) (of_int y) = Some (of_int (weekday y m (int d)))"
proof -
  have m: "uint (of_nat m + 1 :: u8) = int m + 1" "(of_nat m + 1 :: u8) < 3 \<longleftrightarrow> m < 2"
  proof -
    have u: "unat (of_nat m + 1 :: u8) = m + 1" using unat_of_nat_u8 [of "m + 1"] assms(3) by (simp add: add.commute)
    then show "uint (of_nat m + 1 :: u8) = int m + 1" by (metis of_nat_1 of_nat_add uint_nat)
    show "(of_nat m + 1 :: u8) < 3 \<longleftrightarrow> m < 2" unfolding word_less_nat_alt u by simp
  qed
  have "(of_int (int d + 1) :: u8) = of_nat (d + 1)" by simp
  moreover have "unat (of_nat (d + 1) :: u8) = d + 1" by (rule unat_of_nat_u8) (use assms(4) in simp)
  then have "uint (of_nat (d + 1) :: u8) = int d + 1" unfolding uint_nat by simp
  ultimately have d: "uint (of_int (int d + 1) :: u8) = int d + 1" by (simp only:)
  have y: "uint ((of_int y :: u16) - (if m < 2 then 1 else 0)) = y - (if m < 2 then 1 else 0)"
  proof -
    have "(of_int y :: u16) - (if m < 2 then 1 else 0) = of_int (y - (if m < 2 then 1 else 0))" by simp
    also have "uint \<dots> = y - (if m < 2 then 1 else 0)"
      by (subst uint_word_of_int, rule mod_pos_pos_trivial) (use assms(1,2) in \<open>auto simp: EPOCH_YR_def\<close>)
    finally show ?thesis .
  qed
  let ?t = "[0, 3, 2, 5, 0, 3, 5, 1, 4, 6, 2, 4] :: int list"
  define Y where "Y = y - (if m < 2 then 1 else 0)"
  have i: "(0 \<le> int m + 1 - 1 \<and> int m + 1 - 1 < 12) = True" "nat (int m + 1 - 1) = m" using assms(3) by simp_all
  have "day_of_week_get (of_nat m + 1) (of_int (int d + 1)) (of_int y) =
      Some (of_int ((Y + Y div 4 - Y div 100 + Y div 400 + ?t ! m + (int d + 1)) mod 7))"
    by (simp only: day_of_week_get_def Let_def m d y Y_def [symmetric] i if_True)
  also have "(Y + Y div 4 - Y div 100 + Y div 400 + ?t ! m + (int d + 1)) mod 7 = weekday y m (int d)"
    using weekday_formula [OF assms(1,3), of "int d"] by (simp only: Let_def Y_def)
  finally show ?thesis .
qed

lemma gmtime_calendar:
  assumes "EPOCH_YR \<le> y" and "m < 12" and "d < month_days (is_leap y) ! m" and "hour < 24" and "mins < 60" and "sec < 60"
    and total: "seconds y m (((d * 24 + hour) * 60 + mins) * 60 + sec) < 4294967296"
  shows "gmtime_r (of_nat (seconds y m (((d * 24 + hour) * 60 + mins) * 60 + sec))) =
    Some \<lparr>tm_sec = int sec, tm_min = int mins, tm_hour = int hour, tm_mday = int d + 1, tm_mon = int m, tm_year = y - YEAR0,
      tm_wday = weekday y m (int d), tm_yday = int (sum_list (take m (month_days (is_leap y))) + d), tm_isdst = 0\<rparr>"
proof -
  let ?l = "is_leap y" and ?s = "((d * 24 + hour) * 60 + mins) * 60 + sec"
  let ?M = "sum_list (take m (month_days ?l))"
  define r where "r = ?M * 86400 + ?s"
  have s: "?s < month_days ?l ! m * 86400"
  proof -
    have "?s < (d + 1) * 86400" using assms(4-6) by simp
    also have "\<dots> \<le> month_days ?l ! m * 86400" using assms(3) by (intro mult_right_mono) simp_all
    finally show ?thesis .
  qed
  have "r < (?M + month_days ?l ! m) * 86400" using s by (simp add: r_def distrib_right)
  also have "\<dots> \<le> year_days y * 86400"
    using take_month_days [OF assms(2), of ?l] unfolding year_days_def by (intro mult_right_mono) simp_all
  finally have r: "r < year_days y * 86400" .
  have sum: "seconds y m ?s = sum_list (map year_days [EPOCH_YR..y - 1]) * 86400 + r"
    by (simp add: seconds_def r_def days_before_def distrib_right)
  have year: "gm_year (of_nat (seconds y m ?s)) EPOCH_YR = (of_nat r, y)"
    unfolding sum by (rule gm_year_exact [OF total [unfolded sum] assms(1) r])
  have r32: "r < 4294967296" using total unfolding sum by linarith
  have month: "gm_month ?l (of_nat r) 0 = Some (of_nat ?s, m)"
    using gm_month_exact [of ?l m 0 ?s] s r32 assms(2) by (simp add: r_def)
  have s32: "?s < 4294967296" using r32 unfolding r_def by linarith
  have "days_before y * 86400 < 4294967296" using total unfolding seconds_def by (simp add: distrib_right)
  then have "days_before y < 49711" by simp
  then have "int (days_before y) < 49711" by simp
  then have y: "y < 2200" using days_before_mono [OF assms(1)] by simp
  have d31: "d < 31" using assms(3) month_cases [OF assms(2)] by (auto simp: month_days_def is_leap_def split: if_splits)
  let ?h = "(hour * 60 + mins) * 60 + sec" and ?m = "mins * 60 + sec"
  have bounds: "?h < 86400" "?m < 3600" using assms(4-6) by simp_all
  have split: "?s = ?h + d * 86400" "?h = ?m + hour * 3600" "r = ?h + (?M + d) * 86400" "?m = sec + mins * 60"
    by (simp_all add: r_def)
  have parts: "?s div 86400 = d" "?s mod 86400 = ?h" "r div 86400 = ?M + d"
    unfolding split(1,3) by (simp_all only: digits bounds)
  have parts': "?h div 3600 = hour" "?h mod 3600 = ?m" unfolding split(2) by (simp_all only: digits bounds)
  have parts'': "?m div 60 = mins" "?m mod 60 = sec" unfolding split(4) by (simp_all only: digits assms(6))
  note parts = parts parts' parts''
  have d86400: "SEC_PER_DY = of_nat 86400" "SEC_PER_HR = of_nat 3600" "(60 :: u32) = of_nat 60"
    by (simp_all add: SEC_PER_DY_def SEC_PER_HR_def)
  have mday: "uint ((of_nat ?s :: u32) div SEC_PER_DY) + 1 = int d + 1"
    using d31 s32 unfolding d86400 by (simp only: u32_div parts) (simp add: uint_small)
  have hour: "uint ((of_nat ?s :: u32) mod SEC_PER_DY div SEC_PER_HR) = int hour"
    using bounds s32 assms(4) unfolding d86400 by (simp only: u32_div parts) (simp add: u32_div uint_small parts)
  have mins: "uint ((of_nat ?s :: u32) mod SEC_PER_DY mod SEC_PER_HR div 60) = int mins"
      "uint ((of_nat ?s :: u32) mod SEC_PER_DY mod SEC_PER_HR mod 60) = int sec"
    using bounds s32 assms(5,6) unfolding d86400 by (simp only: u32_div parts, simp add: u32_div uint_small parts)+
  have "r div 86400 < 4294967296" using r32 div_le_dividend [of r 86400] by linarith
  then have "uint (of_nat (r div 86400) :: u32) = int (?M + d)" unfolding parts(3) by (rule uint_small)
  moreover have "(of_nat r :: u32) div SEC_PER_DY = of_nat (r div 86400)" unfolding d86400 by (rule u32_div(1)) (simp_all add: r32)
  ultimately have yday: "uint ((of_nat r :: u32) div SEC_PER_DY) = int (?M + d)" by (simp only:)
  have wday: "uint (of_int (weekday y m (int d)) :: u8) = weekday y m (int d)"
    by (subst uint_word_of_int, rule mod_pos_pos_trivial) (use weekday_bounds [of y m "int d"] in auto)
  show ?thesis
    unfolding gmtime_r_def year Let_def prod.case month
    by (simp only: bind.bind_lunit prod.case mday hour mins yday day_of_week [OF assms(1) y assms(2) d31] wday
        option.simps bind_simps Let_def)
qed

lemma year_of_day: "\<exists>y \<ge> EPOCH_YR. days_before y \<le> n \<and> n < days_before y + year_days y"
proof (induction n)
  case 0
  then show ?case by (intro exI [of _ EPOCH_YR]) (simp add: year_days_def)
next
  case (Suc n)
  then obtain y where y: "EPOCH_YR \<le> y" "days_before y \<le> n" "n < days_before y + year_days y" by blast
  show ?case
  proof (cases "Suc n < days_before y + year_days y")
    case True
    then show ?thesis using y by (intro exI [of _ y]) simp
  next
    case False
    then show ?thesis using y by (intro exI [of _ "y + 1"]) (simp add: days_before_Suc year_days_def)
  qed
qed

lemma slot_of: "n < sum_list xs \<Longrightarrow> \<exists>m < length xs. sum_list (take m xs) \<le> n \<and> n < sum_list (take m xs) + xs ! m" for n :: nat
proof (induction xs arbitrary: n)
  case (Cons x xs)
  show ?case
  proof (cases "n < x")
    case True
    then show ?thesis by (intro exI [of _ 0]) simp
  next
    case False
    then have "n - x < sum_list xs" using Cons.prems by simp
    then obtain m where "m < length xs" "sum_list (take m xs) \<le> n - x" "n - x < sum_list (take m xs) + xs ! m"
      using Cons.IH by blast
    then show ?thesis using False by (intro exI [of _ "Suc m"]) (simp, linarith)
  qed
qed simp

lemma month_of_day:
  assumes "n < 365 + l"
  shows "\<exists>m < 12. sum_list (take m (month_days l)) \<le> n \<and> n < sum_list (take m (month_days l)) + month_days l ! m"
proof -
  have "n < sum_list (month_days l)" using assms by (simp add: sum_month_days)
  from slot_of [OF this] show ?thesis by simp
qed

text \<open>Every number of seconds is a moment of the calendar.\<close>

lemma calendar_surjective:
  obtains y m d hour mins sec where "EPOCH_YR \<le> y" "m < 12" "d < month_days (is_leap y) ! m" "hour < 24" "mins < 60" "sec < 60"
    "n = seconds y m (((d * 24 + hour) * 60 + mins) * 60 + sec)"
proof -
  obtain y where y: "EPOCH_YR \<le> y" "days_before y \<le> n div 86400" "n div 86400 < days_before y + year_days y"
    using year_of_day by blast
  define r where "r = n div 86400 - days_before y"
  have "r < 365 + is_leap y" using y by (simp add: r_def year_days_def)
  then obtain m where m: "m < 12" "sum_list (take m (month_days (is_leap y))) \<le> r"
      "r < sum_list (take m (month_days (is_leap y))) + month_days (is_leap y) ! m"
    using month_of_day by blast
  define d where "d = r - sum_list (take m (month_days (is_leap y)))"
  define s where "s = n mod 86400"
  have n: "n = (n div 86400) * 86400 + s" "s < 86400" by (simp_all add: s_def)
  have day: "n div 86400 = days_before y + sum_list (take m (month_days (is_leap y))) + d" using y m by (simp add: r_def d_def)
  define h i j where "h = s div 3600" and "i = s mod 3600 div 60" and "j = s mod 3600 mod 60"
  have "s = h * 3600 + (i * 60 + j)" by (simp add: h_def i_def j_def)
  then have s': "((d * 24 + h) * 60 + i) * 60 + j = d * 86400 + s" by simp
  have "n = seconds y m (((d * 24 + h) * 60 + i) * 60 + j)"
    unfolding s' seconds_def by (subst n(1), subst day) (simp add: distrib_right)
  moreover have "h < 24" using n(2) unfolding h_def by (intro less_mult_imp_div_less) simp
  moreover have "i < 60" unfolding i_def by (intro less_mult_imp_div_less) simp
  moreover have "j < 60" by (simp add: j_def)
  ultimately show ?thesis using y(1) m d_def by (intro that [of y m d]) simp_all
qed

lemma validate_calendar:
  assumes "0 \<le> tm_sec tm" and "0 \<le> tm_min tm" and "0 \<le> tm_hour tm" and "0 \<le> tm_mon tm"
  shows "validate_date_time tm = 0 \<longleftrightarrow> tm_sec tm < 60 \<and> tm_min tm < 60 \<and> tm_hour tm < 24 \<and>
    EPOCH_YR \<le> tm_year tm + YEAR0 \<and> tm_year tm + YEAR0 \<le> 2111 \<and> tm_mon tm < 12 \<and>
    1 \<le> tm_mday tm \<and> tm_mday tm \<le> int (month_days (is_leap (tm_year tm + YEAR0)) ! nat (tm_mon tm))"
proof (cases "tm_mon tm < 12")
  case True
  define m where "m = nat (tm_mon tm)"
  have m: "m < 12" "tm_mon tm = int m" using True assms(4) by (simp_all add: m_def)
  have l: "is_leap (tm_year tm + YEAR0) = 0 \<or> is_leap (tm_year tm + YEAR0) = 1" by (simp add: is_leap_def)
  show ?thesis
    using month_cases [OF m(1)] l unfolding m(2)
    by (elim disjE) (auto simp: validate_date_time_def month_days_def m(2))
qed (simp add: validate_date_time_def)

section \<open>Properties\<close>

text \<open>C9: Every POSIX time is converted to a date that passes validation and converts back to it, and whose
  day of the week is that of the days since Thursday, 1 January 1970.\<close>

theorem time_to_date_and_back:
  "\<exists>tm. gmtime_r t = Some tm \<and> mktime tm = Some t \<and> validate_date_time tm = 0 \<and> tm_wday tm = (uint t div 86400 + 4) mod 7"
proof -
  obtain y m d hour mins sec where c: "EPOCH_YR \<le> y" "m < 12" "d < month_days (is_leap y) ! m" "hour < 24" "mins < 60" "sec < 60"
      "unat t = seconds y m (((d * 24 + hour) * 60 + mins) * 60 + sec)"
    by (rule calendar_surjective [of "unat t"])
  let ?s = "((d * 24 + hour) * 60 + mins) * 60 + sec" let ?M = "sum_list (take m (month_days (is_leap y)))"
  have t: "t = of_nat (seconds y m ?s)" using c(7) by (metis word_unat_eq_iff of_nat_unat ucast_id)
  have "seconds y m ?s < 4294967296" using c(7) unsigned_less [of t, where ?'a = nat] by simp
  note g = gmtime_calendar [OF c(1-6) this, folded t]
  let ?tm = "\<lparr>tm_sec = int sec, tm_min = int mins, tm_hour = int hour, tm_mday = int d + 1, tm_mon = int m, tm_year = y - YEAR0,
      tm_wday = weekday y m (int d), tm_yday = int (?M + d), tm_isdst = 0\<rparr>"
  have "nat (((tm_mday ?tm - 1) * 24 + tm_hour ?tm) * 3600 + tm_min ?tm * 60 + tm_sec ?tm) = ?s" by simp
  then have "mktime ?tm = Some t" using mktime_seconds [of ?tm] c(2) t by simp
  moreover have "days_before y * 86400 < 4294967296"
    using \<open>seconds y m ?s < 4294967296\<close> unfolding seconds_def by (simp add: distrib_right)
  then have "int (days_before y) < 49711" by simp
  then have "y \<le> 2111" using days_before_mono [OF c(1)] by simp
  then have "validate_date_time ?tm = 0" using c by (subst validate_calendar) simp_all
  moreover have "uint t div 86400 = int (days_before y + ?M + d)"
  proof -
    have h: "(hour * 60 + mins) * 60 + sec < 86400" using c by simp
    have "unat t = ((hour * 60 + mins) * 60 + sec) + (days_before y + ?M + d) * 86400"
      by (simp add: c(7) seconds_def distrib_right)
    then have "unat t div 86400 = days_before y + ?M + d" by (simp only: digits h)
    then show ?thesis unfolding uint_nat by (metis of_nat_numeral zdiv_int)
  qed
  ultimately show ?thesis using g by (simp add: weekday_def add.commute)
qed

lemma days_before_le: "x \<le> y \<Longrightarrow> EPOCH_YR \<le> x \<Longrightarrow> days_before x \<le> days_before y"
  by (induction rule: int_ge_induct) (simp_all add: days_before_Suc)

lemma seconds_bound:
  assumes "EPOCH_YR \<le> y" and "y \<le> 2105" and "m < 12" and "s < month_days (is_leap y) ! m * 86400"
  shows "seconds y m s < 4294967296"
proof -
  have "seconds y m s < (days_before y + (sum_list (take m (month_days (is_leap y))) + month_days (is_leap y) ! m)) * 86400"
    using assms(4) by (simp add: seconds_def distrib_right)
  also have "\<dots> \<le> (days_before y + year_days y) * 86400"
    using take_month_days [OF assms(3), of "is_leap y"] unfolding year_days_def by (intro mult_right_mono add_left_mono) simp_all
  also have "\<dots> \<le> days_before 2106 * 86400"
    using days_before_le [of "y + 1" 2106] assms(1,2) by (intro mult_right_mono) (simp_all add: days_before_Suc)
  also have "days_before 2106 = 49673"
    using days_before_closed [of 2106] by (simp add: EPOCH_YR_def)
  finally show ?thesis by simp
qed

lemma date_to_time:
  assumes "validate_date_time tm = 0" and "0 \<le> tm_sec tm" and "0 \<le> tm_min tm" and "0 \<le> tm_hour tm" and "0 \<le> tm_mon tm"
    and "tm_year tm \<le> 205"
  shows "\<exists>t yd. mktime tm = Some t \<and>
    gmtime_r t = Some (tm\<lparr>tm_wday := weekday (tm_year tm + YEAR0) (nat (tm_mon tm)) (tm_mday tm - 1), tm_yday := yd, tm_isdst := 0\<rparr>)"
proof -
  define y m d where "y = tm_year tm + YEAR0" and "m = nat (tm_mon tm)" and "d = nat (tm_mday tm - 1)"
  define hour mins sec where "hour = nat (tm_hour tm)" and "mins = nat (tm_min tm)" and "sec = nat (tm_sec tm)"
  let ?s = "((d * 24 + hour) * 60 + mins) * 60 + sec"
  note v = validate_calendar [OF assms(2-5), THEN iffD1, OF assms(1), folded y_def m_def]
  have c: "EPOCH_YR \<le> y" "m < 12" "d < month_days (is_leap y) ! m" "hour < 24" "mins < 60" "sec < 60"
    using v by (auto simp: m_def d_def hour_def mins_def sec_def)
  have f: "int m = tm_mon tm" "int d = tm_mday tm - 1" "int hour = tm_hour tm" "int mins = tm_min tm" "int sec = tm_sec tm"
    using v assms(2-5) by (simp_all add: m_def d_def hour_def mins_def sec_def)
  have "?s < (d + 1) * 86400" using c(4-6) by simp
  also have "\<dots> \<le> month_days (is_leap y) ! m * 86400" using c(3) by (intro mult_right_mono) simp_all
  finally have "seconds y m ?s < 4294967296"
    using c(1,2) assms(6) by (intro seconds_bound) (simp_all add: y_def YEAR0_def)
  note g = gmtime_calendar [OF c this]
  have "((tm_mday tm - 1) * 24 + tm_hour tm) * 3600 + tm_min tm * 60 + tm_sec tm = int ?s"
    by (simp add: f [symmetric] algebra_simps)
  then have "nat (((tm_mday tm - 1) * 24 + tm_hour tm) * 3600 + tm_min tm * 60 + tm_sec tm) = ?s" by simp
  then have "mktime tm = Some (of_nat (seconds y m ?s))"
    using mktime_seconds [of tm] assms(2-5) v by (simp add: y_def m_def)
  moreover have "\<lparr>tm_sec = int sec, tm_min = int mins, tm_hour = int hour, tm_mday = int d + 1, tm_mon = int m, tm_year = y - YEAR0,
      tm_wday = weekday y m (int d), tm_yday = int (sum_list (take m (month_days (is_leap y))) + d), tm_isdst = 0\<rparr> =
    tm\<lparr>tm_wday := weekday y m (tm_mday tm - 1), tm_yday := int (sum_list (take m (month_days (is_leap y))) + d), tm_isdst := 0\<rparr>"
    by (simp add: f y_def)
  ultimately show ?thesis using g unfolding y_def m_def by auto
qed

lemma ucast_suc_tick: "(ucast (x + 1 :: u64) :: u32) = ucast x + 1"
proof (rule word_uint_eqI)
  have "uint (x + 1) mod 4294967296 = (uint x + 1) mod 4294967296"
    by (simp add: uint_word_ariths mod_mod_cancel)
  then show "uint (ucast (x + 1) :: u32) = uint (ucast x + 1 :: u32)"
    by (simp add: unsigned_ucast_eq take_bit_eq_mod uint_word_ariths mod_simps)
qed

lemma ucast_tick_sum:
  assumes "(ucast x :: u32) = t"
  shows "ucast (x + of_nat n :: u64) = t + of_nat n"
proof (induction n)
  case (Suc n)
  then show ?case
    using ucast_suc_tick [of "x + of_nat n"] by (simp add: ac_simps)
qed (use assms in simp)

text \<open>C27: Setting the clock to a validated date up to the year 2105 makes it read that date, with the day of
  the week filled in; after \<open>n\<close> further seconds the POSIX time is \<open>n\<close> later. Dates of 2106 to
  2111 pass validation too, but their seconds do not fit and wrap.\<close>

theorem clock_set_and_read:
  assumes "validate_date_time tm = 0" and "0 \<le> tm_sec tm" and "0 \<le> tm_min tm" and "0 \<le> tm_hour tm" and "0 \<le> tm_mon tm"
    and "tm_year tm \<le> 205"
  shows "\<exists>s' t yd. sys_time_time_set tm s = Some (0, s') \<and> mktime tm = Some t \<and>
    sys_time_time_get s' = Some (tm\<lparr>tm_wday := weekday (tm_year tm + YEAR0) (nat (tm_mon tm)) (tm_mday tm - 1),
      tm_yday := yd, tm_isdst := 0\<rparr>) \<and>
    sys_time_time_get_posix ((hwrtc_cb ^^ n) s') = t + of_nat n"
proof -
  obtain t yd where t: "mktime tm = Some t" "gmtime_r t = Some (tm\<lparr>tm_wday := weekday (tm_year tm + YEAR0) (nat (tm_mon tm)) (tm_mday tm - 1),
      tm_yday := yd, tm_isdst := 0\<rparr>)" using date_to_time [OF assms] by blast
  define s' where "s' = s\<lparr>rtc_ticks := ucast t\<rparr>"
  have down: "ucast (ucast t :: u64) = t" by (rule bit_word_eqI) (simp add: bit_ucast_iff)
  have ticks: "rtc_ticks ((hwrtc_cb ^^ n) s') = ucast t + of_nat n"
    by (induction n) (simp_all add: s'_def hwrtc_cb_def)
  have "ucast (ucast t + of_nat n :: u64) = t + of_nat n"
    using down by (rule ucast_tick_sum)
  then show ?thesis
    using t assms(1) down ticks
    by (auto simp: sys_time_time_set_def sys_time_time_set_posix_def hwrtc_time_set_def sys_time_time_get_def
        sys_time_time_get_posix_def hwrtc_time_get_def s'_def)
qed

lemma clock_set_and_read_witness:
  "\<exists>s' t yd. sys_time_time_set \<lparr>tm_sec = 59, tm_min = 59, tm_hour = 23, tm_mday = 29, tm_mon = 1, tm_year = 124,
      tm_wday = 0, tm_yday = 0, tm_isdst = 0\<rparr> \<lparr>rtc_ticks = 7\<rparr> = Some (0, s') \<and>
    sys_time_time_get s' = Some \<lparr>tm_sec = 59, tm_min = 59, tm_hour = 23, tm_mday = 29, tm_mon = 1, tm_year = 124,
      tm_wday = weekday 2024 1 28, tm_yday = yd, tm_isdst = 0\<rparr> \<and> sys_time_time_get_posix ((hwrtc_cb ^^ 3) s') = t + of_nat 3"
  using clock_set_and_read [of "\<lparr>tm_sec = 59, tm_min = 59, tm_hour = 23, tm_mday = 29, tm_mon = 1, tm_year = 124,
      tm_wday = 0, tm_yday = 0, tm_isdst = 0\<rparr>" "\<lparr>rtc_ticks = 7\<rparr>" 3]
  by (fastforce simp: validate_date_time_def is_leap_def EPOCH_YR_def YEAR0_def)

section \<open>The date formats of HTTP\<close>

text \<open>The three texts of a date that RFC 2616 allows, as a server writes them.\<close>

definition two_digits :: "int \<Rightarrow> string" where
  "two_digits i = [digit_char (nat i div 10 mod 10), digit_char (nat i mod 10)]"

definition clock_text :: "tm \<Rightarrow> string" where
  "clock_text tm = two_digits (tm_hour tm) @ '':'' @ two_digits (tm_min tm) @ '':'' @ two_digits (tm_sec tm)"

definition year_text :: "tm \<Rightarrow> string" where
  "year_text tm = two_digits ((tm_year tm + YEAR0) div 100) @ two_digits ((tm_year tm + YEAR0) mod 100)"

definition rfc1123_text :: "string \<Rightarrow> tm \<Rightarrow> string" where
  "rfc1123_text wday tm = wday @ '', '' @ two_digits (tm_mday tm) @ '' '' @ mon_name ! nat (tm_mon tm) @ '' '' @ year_text tm @
     '' '' @ clock_text tm @ '' GMT''"

definition ansi_text :: "string \<Rightarrow> tm \<Rightarrow> string" where
  "ansi_text wday tm = wday @ '' '' @ mon_name ! nat (tm_mon tm) @ '' '' @
     (if tm_mday tm < 10 then [CHR '' '', digit_char (nat (tm_mday tm))] else two_digits (tm_mday tm)) @
     '' '' @ clock_text tm @ '' '' @ year_text tm"

definition rfc1036_text :: "string \<Rightarrow> tm \<Rightarrow> string" where
  "rfc1036_text wday tm = wday @ '', '' @ two_digits (tm_mday tm) @ ''-'' @ mon_name ! nat (tm_mon tm) @ ''-'' @
     two_digits ((tm_year tm + YEAR0) mod 100) @ '' '' @ clock_text tm @ '' GMT''"

lemma of_char_digit: "n < 10 \<Longrightarrow> (of_char (digit_char n) :: nat) = 0x30 + n"
  by (simp add: digit_char_def)

lemma isdigit_digit [simp]: "n < 10 \<Longrightarrow> isdigit (digit_char n)"
  by (simp add: isdigit_def of_char_digit)

lemma digit_value_digit [simp]: "n < 10 \<Longrightarrow> digit_value (digit_char n) = int n"
  using of_char_digit [of n] by (simp add: digit_value_def) (metis of_nat_add of_nat_numeral of_nat_of_char diff_add_cancel add_diff_cancel_left')

lemma digit_not_space [simp]: "n < 10 \<Longrightarrow> digit_char n \<noteq> CHR '' ''"
  using of_char_digit [of n] by auto

lemma search_index_nth: "distinct ys \<Longrightarrow> n < length ys \<Longrightarrow> search_index (ys ! n) ys = n"
proof (induction ys arbitrary: n)
  case (Cons y ys)
  then show ?case by (cases n) auto
qed simp

lemma distinct_mon_name: "distinct mon_name"
  by (simp add: mon_name_def)

lemma length_mon_name: "length mon_name = 12" "list_all (\<lambda>s. length s = 3) mon_name"
  by (simp_all add: mon_name_def)

lemma month_text:
  assumes "0 \<le> m" and "m < 12"
  obtains a b c where "mon_name ! nat m = [a, b, c]" and "\<forall>rest. month_from_string_short (a # b # c # rest) = m"
proof -
  have "length (mon_name ! nat m) = 3" using assms length_mon_name by (simp add: list_all_length)
  then obtain a b c where abc: "mon_name ! nat m = [a, b, c]"
    by (auto simp: length_Suc_conv numeral_3_eq_3)
  have "month_from_string_short (a # b # c # rest) = m" for rest
    using search_index_nth [OF distinct_mon_name, of "nat m"] abc assms length_mon_name
    by (simp add: month_from_string_short_def)
  then show thesis using abc that by blast
qed

lemma two_digits:
  assumes "0 \<le> i" and "i < 100"
  obtains a b where "two_digits i = [digit_char a, digit_char b]" and "a < 10" and "b < 10" and "int a * 10 + int b = i"
proof -
  have "nat i div 10 < 10" using assms by (intro less_mult_imp_div_less) simp
  then have "int (nat i div 10 mod 10) * 10 + int (nat i mod 10) = int (nat i div 10 * 10 + nat i mod 10)"
    by (simp only: mod_less of_nat_add of_nat_mult of_nat_numeral)
  also have "\<dots> = i" using assms(1) by (subst div_mult_mod_eq) simp
  finally show thesis by (intro that) (simp_all add: two_digits_def)
qed

lemma mktime_cong:
  assumes "tm_sec a = tm_sec b" "tm_min a = tm_min b" "tm_hour a = tm_hour b" "tm_mday a = tm_mday b"
    "tm_mon a = tm_mon b" "tm_year a = tm_year b"
  shows "mktime a = mktime b"
  unfolding mktime_def assms by (rule refl)

lemma year_digits:
  assumes "1970 \<le> tm_year tm + YEAR0" and "tm_year tm + YEAR0 \<le> 2111"
  obtains y1 y2 y3 y4 where "year_text tm = [digit_char y1, digit_char y2, digit_char y3, digit_char y4]"
    and "y1 < 10" and "y2 < 10" and "y3 < 10" and "y4 < 10"
    and "int y1 * 1000 + int y2 * 100 + int y3 * 10 + int y4 - YEAR0 = tm_year tm"
    and "two_digits ((tm_year tm + YEAR0) mod 100) = [digit_char y3, digit_char y4]"
    and "int y3 * 10 + int y4 = (tm_year tm + YEAR0) mod 100"
proof -
  let ?y = "tm_year tm + YEAR0"
  have "0 \<le> ?y div 100" "?y div 100 < 100" using assms by auto
  from two_digits [OF this] obtain y1 y2 where hi: "two_digits (?y div 100) = [digit_char y1, digit_char y2]" "y1 < 10" "y2 < 10"
      "int y1 * 10 + int y2 = ?y div 100" by blast
  have "0 \<le> ?y mod 100" "?y mod 100 < 100" by simp_all
  from two_digits [OF this] obtain y3 y4 where lo: "two_digits (?y mod 100) = [digit_char y3, digit_char y4]" "y3 < 10" "y4 < 10"
      "int y3 * 10 + int y4 = ?y mod 100" by blast
  have "?y = (int y1 * 10 + int y2) * 100 + (int y3 * 10 + int y4)" unfolding hi(4) lo(4) by simp
  then have "int y1 * 1000 + int y2 * 100 + int y3 * 10 + int y4 - YEAR0 = tm_year tm" by (simp add: distrib_right)
  then show thesis using hi lo by (intro that [of y1 y2 y3 y4]) (simp_all only: year_text_def append_Cons append_Nil)
qed

text \<open>What each parser finds in a text whose digits are known.\<close>

lemma date_fields:
  assumes "validate_date_time tm = 0" and "0 \<le> tm_sec tm" and "0 \<le> tm_min tm" and "0 \<le> tm_hour tm" and "0 \<le> tm_mon tm"
  shows "0 \<le> tm_mday tm" "tm_mday tm < 100" "tm_hour tm < 100" "tm_min tm < 100" "tm_sec tm < 100" "tm_mon tm < 12"
    "1970 \<le> tm_year tm + YEAR0" "tm_year tm + YEAR0 \<le> 2111"
  using assms unfolding validate_date_time_def by (simp_all add: EPOCH_YR_def split: if_splits)

lemma date_digits:
  assumes "validate_date_time tm = 0" and "0 \<le> tm_sec tm" and "0 \<le> tm_min tm" and "0 \<le> tm_hour tm" and "0 \<le> tm_mon tm"
  obtains a b c d1 d2 h1 h2 i1 i2 s1 s2 where
    "mon_name ! nat (tm_mon tm) = [a, b, c]" and "\<forall>rest. month_from_string_short (a # b # c # rest) = tm_mon tm" and "\<not> 12 \<le> tm_mon tm"
    and "two_digits (tm_mday tm) = [digit_char d1, digit_char d2]" and "d1 < 10" and "d2 < 10" and "int d1 * 10 + int d2 = tm_mday tm"
    and "clock_text tm = [digit_char h1, digit_char h2, CHR '':'', digit_char i1, digit_char i2, CHR '':'', digit_char s1, digit_char s2]"
    and "h1 < 10" and "h2 < 10" and "i1 < 10" and "i2 < 10" and "s1 < 10" and "s2 < 10"
    and "int h1 * 10 + int h2 = tm_hour tm" and "int i1 * 10 + int i2 = tm_min tm" and "int s1 * 10 + int s2 = tm_sec tm"
proof -
  note v = date_fields [OF assms(1-5)]
  obtain a b c where m: "mon_name ! nat (tm_mon tm) = [a, b, c]" "\<forall>rest. month_from_string_short (a # b # c # rest) = tm_mon tm"
    by (rule month_text [OF assms(5) v(6)])
  obtain d1 d2 where d: "two_digits (tm_mday tm) = [digit_char d1, digit_char d2]" "d1 < 10" "d2 < 10" "int d1 * 10 + int d2 = tm_mday tm"
    by (rule two_digits [OF v(1,2)])
  obtain h1 h2 where h: "two_digits (tm_hour tm) = [digit_char h1, digit_char h2]" "h1 < 10" "h2 < 10" "int h1 * 10 + int h2 = tm_hour tm"
    by (rule two_digits [OF assms(4) v(3)])
  obtain i1 i2 where i: "two_digits (tm_min tm) = [digit_char i1, digit_char i2]" "i1 < 10" "i2 < 10" "int i1 * 10 + int i2 = tm_min tm"
    by (rule two_digits [OF assms(3) v(4)])
  obtain s1 s2 where s: "two_digits (tm_sec tm) = [digit_char s1, digit_char s2]" "s1 < 10" "s2 < 10" "int s1 * 10 + int s2 = tm_sec tm"
    by (rule two_digits [OF assms(2) v(5)])
  show thesis
    by (rule that [OF m v(6) [folded not_le] d _ h(2,3) i(2,3) s(2,3) h(4) i(4) s(4)])
      (simp only: clock_text_def h(1) i(1) s(1) append_Cons append_Nil)
qed

lemma rfc1123_parsed:
  assumes "validate_date_time tm = 0" and "0 \<le> tm_sec tm" and "0 \<le> tm_min tm" and "0 \<le> tm_hour tm" and "0 \<le> tm_mon tm"
    and "length wday = 3"
  shows "http_date_to_time (rfc1123_text wday tm) = mktime tm"
proof -
  obtain w1 w2 w3 where w: "wday = [w1, w2, w3]" using assms(6) by (auto simp: length_Suc_conv numeral_3_eq_3)
  obtain a b c d1 d2 h1 h2 i1 i2 s1 s2 where
    m: "mon_name ! nat (tm_mon tm) = [a, b, c]" "\<forall>rest. month_from_string_short (a # b # c # rest) = tm_mon tm" "\<not> 12 \<le> tm_mon tm" and
    d: "two_digits (tm_mday tm) = [digit_char d1, digit_char d2]" "d1 < 10" "d2 < 10" "int d1 * 10 + int d2 = tm_mday tm" and
    h: "clock_text tm = [digit_char h1, digit_char h2, CHR '':'', digit_char i1, digit_char i2, CHR '':'', digit_char s1, digit_char s2]"
      "h1 < 10" "h2 < 10" "i1 < 10" "i2 < 10" "s1 < 10" "s2 < 10" and
    t: "int h1 * 10 + int h2 = tm_hour tm" "int i1 * 10 + int i2 = tm_min tm" "int s1 * 10 + int s2 = tm_sec tm"
    by (rule date_digits [OF assms(1-5)])
  obtain y1 y2 y3 y4 where y: "year_text tm = [digit_char y1, digit_char y2, digit_char y3, digit_char y4]" "y1 < 10" "y2 < 10" "y3 < 10" "y4 < 10"
      "int y1 * 1000 + int y2 * 100 + int y3 * 10 + int y4 - YEAR0 = tm_year tm"
    by (rule year_digits [OF date_fields(7,8) [OF assms(1-5)]])
  have str: "rfc1123_text wday tm = [w1, w2, w3, CHR '','', CHR '' '', digit_char d1, digit_char d2, CHR '' '', a, b, c, CHR '' '',
      digit_char y1, digit_char y2, digit_char y3, digit_char y4, CHR '' '', digit_char h1, digit_char h2, CHR '':'',
      digit_char i1, digit_char i2, CHR '':'', digit_char s1, digit_char s2, CHR '' '', CHR ''G'', CHR ''M'', CHR ''T'']"
    by (simp only: rfc1123_text_def w m(1) d(1) h(1) y(1) append_Cons append_Nil)
  show ?thesis
    unfolding str
    by (simp add: http_date_to_time_def date_rfc1123_def m(2,3) d(2,3) h(2-7) y(2-5) time_valid_def Let_def not_le)
      (rule mktime_cong; simp add: time_of_def d h t y)
qed

lemma ansi_parsed:
  assumes "validate_date_time tm = 0" and "0 \<le> tm_sec tm" and "0 \<le> tm_min tm" and "0 \<le> tm_hour tm" and "0 \<le> tm_mon tm"
    and "length wday = 3"
  shows "http_date_to_time (ansi_text wday tm) = mktime tm"
proof -
  obtain w1 w2 w3 where w: "wday = [w1, w2, w3]" using assms(6) by (auto simp: length_Suc_conv numeral_3_eq_3)
  obtain a b c d1 d2 h1 h2 i1 i2 s1 s2 where
    m: "mon_name ! nat (tm_mon tm) = [a, b, c]" "\<forall>rest. month_from_string_short (a # b # c # rest) = tm_mon tm" "\<not> 12 \<le> tm_mon tm" and
    d: "two_digits (tm_mday tm) = [digit_char d1, digit_char d2]" "d1 < 10" "d2 < 10" "int d1 * 10 + int d2 = tm_mday tm" and
    h: "clock_text tm = [digit_char h1, digit_char h2, CHR '':'', digit_char i1, digit_char i2, CHR '':'', digit_char s1, digit_char s2]"
      "h1 < 10" "h2 < 10" "i1 < 10" "i2 < 10" "s1 < 10" "s2 < 10" and
    t: "int h1 * 10 + int h2 = tm_hour tm" "int i1 * 10 + int i2 = tm_min tm" "int s1 * 10 + int s2 = tm_sec tm"
    by (rule date_digits [OF assms(1-5)])
  obtain y1 y2 y3 y4 where y: "year_text tm = [digit_char y1, digit_char y2, digit_char y3, digit_char y4]" "y1 < 10" "y2 < 10" "y3 < 10" "y4 < 10"
      "int y1 * 1000 + int y2 * 100 + int y3 * 10 + int y4 - YEAR0 = tm_year tm"
    by (rule year_digits [OF date_fields(7,8) [OF assms(1-5)]])
  obtain c1 c2 where c: "(if tm_mday tm < 10 then [CHR '' '', digit_char (nat (tm_mday tm))] else two_digits (tm_mday tm)) = [c1, c2]"
      "c1 = CHR '' '' \<or> isdigit c1" "isdigit c2" "(if c1 \<noteq> CHR '' '' then digit_value c1 * 10 else 0) + digit_value c2 = tm_mday tm"
    using d date_fields(1) [OF assms(1-5)] by (cases "tm_mday tm < 10") fastforce+
  have str: "ansi_text wday tm = [w1, w2, w3, CHR '' '', a, b, c, CHR '' '', c1, c2, CHR '' '', digit_char h1, digit_char h2, CHR '':'',
      digit_char i1, digit_char i2, CHR '':'', digit_char s1, digit_char s2, CHR '' '', digit_char y1, digit_char y2, digit_char y3, digit_char y4]"
    by (simp only: ansi_text_def w m(1) c(1) h(1) y(1) append_Cons append_Nil)
  show ?thesis
  proof (cases "c1 = CHR '' ''")
    case True
    then have c2: "digit_value c2 = tm_mday tm" using c(4) by simp
    show ?thesis
      unfolding str True
      by (simp add: http_date_to_time_def date_ansi_def m(2,3) c(3) h(2-7) y(2-5) time_valid_def Let_def)
        (rule mktime_cong; simp add: time_of_def h t y c2)
  next
    case False
    then have c1: "digit_value c1 * 10 + digit_value c2 = tm_mday tm" "isdigit c1" using c(2,4) by simp_all
    show ?thesis
      unfolding str
      by (simp add: False c1(2) http_date_to_time_def date_ansi_def m(2,3) c(3) h(2-7) y(2-5) time_valid_def Let_def)
        (rule mktime_cong; simp add: time_of_def h t y c1(1))
  qed
qed

text \<open>The year that \<^verbatim>\<open>date_rfc1036\<close> takes the two digits for, since 1900.\<close>

definition rfc1036_year :: "int \<Rightarrow> int" where
  "rfc1036_year y = (if y mod 100 < 20 then y mod 100 + 100 else y mod 100)"

lemma rfc1036_year_near: "70 \<le> y \<Longrightarrow> y < 120 \<Longrightarrow> rfc1036_year y = y"
  using mod_pos_pos_trivial [of y 100] mod_pos_pos_trivial [of "y - 100" 100] by (cases "y < 100") (simp_all add: rfc1036_year_def)

lemma rfc1036_year_far: "120 \<le> y \<Longrightarrow> y < 220 \<Longrightarrow> rfc1036_year y = y - 100"
proof -
  assume "120 \<le> y" "y < 220"
  then have "y mod 100 = (if y < 200 then y - 100 else y - 200)" by presburger
  then show ?thesis using \<open>120 \<le> y\<close> \<open>y < 220\<close> by (simp add: rfc1036_year_def)
qed

lemma rfc1036_parsed:
  assumes "validate_date_time tm = 0" and "0 \<le> tm_sec tm" and "0 \<le> tm_min tm" and "0 \<le> tm_hour tm" and "0 \<le> tm_mon tm"
    and "4 \<le> length wday" and "CHR '' '' \<notin> set wday" and "wday ! 3 \<noteq> CHR '',''"
  shows "http_date_to_time (rfc1036_text wday tm) = mktime (tm\<lparr>tm_year := rfc1036_year (tm_year tm)\<rparr>)"
proof -
  obtain a b c d1 d2 h1 h2 i1 i2 s1 s2 where
    m: "mon_name ! nat (tm_mon tm) = [a, b, c]" "\<forall>rest. month_from_string_short (a # b # c # rest) = tm_mon tm" "\<not> 12 \<le> tm_mon tm" and
    d: "two_digits (tm_mday tm) = [digit_char d1, digit_char d2]" "d1 < 10" "d2 < 10" "int d1 * 10 + int d2 = tm_mday tm" and
    h: "clock_text tm = [digit_char h1, digit_char h2, CHR '':'', digit_char i1, digit_char i2, CHR '':'', digit_char s1, digit_char s2]"
      "h1 < 10" "h2 < 10" "i1 < 10" "i2 < 10" "s1 < 10" "s2 < 10" and
    t: "int h1 * 10 + int h2 = tm_hour tm" "int i1 * 10 + int i2 = tm_min tm" "int s1 * 10 + int s2 = tm_sec tm"
    by (rule date_digits [OF assms(1-5)])
  obtain y1 y2 y3 y4 where y: "y3 < 10" "y4 < 10" "two_digits ((tm_year tm + YEAR0) mod 100) = [digit_char y3, digit_char y4]"
      "int y3 * 10 + int y4 = (tm_year tm + YEAR0) mod 100"
    by (rule year_digits [OF date_fields(7,8) [OF assms(1-5)]])
  let ?start = "[digit_char d1, digit_char d2, CHR ''-'', a, b, c, CHR ''-'', digit_char y3, digit_char y4, CHR '' '',
      digit_char h1, digit_char h2, CHR '':'', digit_char i1, digit_char i2, CHR '':'', digit_char s1, digit_char s2,
      CHR '' '', CHR ''G'', CHR ''M'', CHR ''T'']"
  have str: "rfc1036_text wday tm = (wday @ [CHR '','']) @ CHR '' '' # ?start"
    by (simp only: rfc1036_text_def m(1) d(1) h(1) y(3) append_Cons append_Nil append_assoc)
  have "dropWhile (\<lambda>c. c \<noteq> CHR '' '') ((wday @ [CHR '','']) @ CHR '' '' # ?start) = CHR '' '' # ?start"
    using assms(7) by (subst dropWhile_append2) auto
  then have rest: "dropWhile (\<lambda>c. c \<noteq> CHR '' '') (rfc1036_text wday tm) = CHR '' '' # ?start" by (simp only: str)
  have "wday ! 3 \<noteq> CHR '' ''"
  proof
    assume "wday ! 3 = CHR '' ''"
    then show False using nth_mem [of 3 wday] assms(6,7) by simp
  qed
  then have third: "length (rfc1036_text wday tm) = length wday + 24" "rfc1036_text wday tm ! 3 \<noteq> CHR '',''" "rfc1036_text wday tm ! 3 \<noteq> CHR '' ''"
    using assms(6,8) by (auto simp: str nth_append)
  have "(tm_year tm + YEAR0) mod 100 = tm_year tm mod 100"
    using mod_mult_self1 [of "tm_year tm" 19 100] by (simp add: YEAR0_def)
  then have yy: "int y3 * 10 + int y4 < 20 \<Longrightarrow> int y3 * 10 + int y4 + 100 = rfc1036_year (tm_year tm)"
    "\<not> int y3 * 10 + int y4 < 20 \<Longrightarrow> int y3 * 10 + int y4 = rfc1036_year (tm_year tm)"
    by (simp_all add: rfc1036_year_def y(4))
  have "date_rfc1036 (rfc1036_text wday tm) = mktime (tm\<lparr>tm_year := rfc1036_year (tm_year tm)\<rparr>)"
    unfolding date_rfc1036_def rest third(1)
    by (simp add: m(2,3) d(2,3) h(2-7) y(1,2) time_valid_def Let_def)
      (intro conjI impI mktime_cong; use yy in \<open>simp add: time_of_def d h t\<close>)
  then show ?thesis using third assms(6) by (simp add: http_date_to_time_def)
qed

text \<open>POSIX time of the fields: the seconds since the start of 1970, as a number without bounds.\<close>

definition posix_seconds :: "tm \<Rightarrow> nat" where
  "posix_seconds tm = seconds (tm_year tm + YEAR0) (nat (tm_mon tm))
     (nat (((tm_mday tm - 1) * 24 + tm_hour tm) * 3600 + tm_min tm * 60 + tm_sec tm))"

lemma mktime_posix:
  assumes "validate_date_time tm = 0" and "0 \<le> tm_sec tm" and "0 \<le> tm_min tm" and "0 \<le> tm_hour tm" and "0 \<le> tm_mon tm"
  shows "\<exists>t. mktime tm = Some t \<and> (tm_year tm \<le> 205 \<longrightarrow> unat t = posix_seconds tm)"
proof -
  note v = validate_calendar [OF assms(2-5), THEN iffD1, OF assms(1)]
  let ?y = "tm_year tm + YEAR0" and ?m = "nat (tm_mon tm)"
  let ?s = "((tm_mday tm - 1) * 24 + tm_hour tm) * 3600 + tm_min tm * 60 + tm_sec tm"
  have "?s < int (month_days (is_leap ?y) ! ?m * 86400)" using v assms(2-5) by auto
  then have s: "nat ?s < month_days (is_leap ?y) ! ?m * 86400" using v by linarith
  have "mktime tm = Some (of_nat (posix_seconds tm))"
    using mktime_seconds [of tm] assms(2-5) v by (simp add: posix_seconds_def)
  moreover have "posix_seconds tm < 4294967296" if "tm_year tm \<le> 205"
    unfolding posix_seconds_def using that v s assms(5) by (intro seconds_bound) (simp_all add: YEAR0_def nat_less_iff)
  ultimately show ?thesis using small by blast
qed

lemma take_months_335: "m < 12 \<Longrightarrow> l \<le> 1 \<Longrightarrow> sum_list (take m (month_days l)) \<le> 335"
proof -
  assume "m < 12" "l \<le> 1"
  then have "m = 0 \<or> m = 1 \<or> m = 2 \<or> m = 3 \<or> m = 4 \<or> m = 5 \<or> m = 6 \<or> m = 7 \<or> m = 8 \<or> m = 9 \<or> m = 10 \<or> m = 11"
    by presburger
  then show ?thesis using \<open>l \<le> 1\<close> by (elim disjE) (simp_all add: month_days_def)
qed

text \<open>A year before 1970 counts as 1970.\<close>

lemma mktime_early:
  assumes "validate_date_time tm = 0" and "0 \<le> tm_sec tm" and "0 \<le> tm_min tm" and "0 \<le> tm_hour tm" and "0 \<le> tm_mon tm" and "y < 70"
  shows "\<exists>u. mktime (tm\<lparr>tm_year := y\<rparr>) = Some u \<and> unat u < 366 * 86400"
proof -
  have v: "tm_sec tm < 60" "tm_min tm < 60" "tm_hour tm < 24" "tm_mon tm < 12" "1 \<le> tm_mday tm" "tm_mday tm \<le> 31"
    using assms(1) unfolding validate_date_time_def by (simp_all split: if_splits)
  let ?s = "((tm_mday tm - 1) * 24 + tm_hour tm) * 3600 + tm_min tm * 60 + tm_sec tm"
  let ?n = "seconds (y + YEAR0) (nat (tm_mon tm)) (nat ?s)"
  have "days_before (y + YEAR0) = 0" using assms(6) by (simp add: days_before_def EPOCH_YR_def YEAR0_def)
  moreover have "?s < 31 * 86400" using v assms(2-5) by auto
  then have "nat ?s < 31 * 86400" by linarith
  ultimately have n: "?n < 366 * 86400"
    using take_months_335 [of "nat (tm_mon tm)" "is_leap (y + YEAR0)"] v(4) assms(5) by (simp add: seconds_def nat_less_iff)
  have "mktime (tm\<lparr>tm_year := y\<rparr>) = Some (of_nat ?n)"
    using mktime_seconds [of "tm\<lparr>tm_year := y\<rparr>"] assms(2-5) v by simp
  moreover have "unat (of_nat ?n :: u32) = ?n" using n by (intro small) simp
  ultimately show ?thesis using n by simp
qed

text \<open>C28: A validated date written in the format of RFC 1123 or in that of C's \<^verbatim>\<open>asctime\<close> is read back as
  what \<^verbatim>\<open>mktime\<close> makes of its fields, which up to the year 2105 is their POSIX time (later it
  wraps). In the format of RFC 1036 that holds for the years 1970 to 2019 only: the two digits of a
  later year are taken for the year a hundred years before, and a date of 2020 to 2069 is read as
  a time in 1970. The name of the day is not looked at.\<close>

theorem http_dates_read:
  assumes "validate_date_time tm = 0" and "0 \<le> tm_sec tm" and "0 \<le> tm_min tm" and "0 \<le> tm_hour tm" and "0 \<le> tm_mon tm"
    and "length wday = 3" and "4 \<le> length name" and "CHR '' '' \<notin> set name" and "name ! 3 \<noteq> CHR '',''"
  shows "\<exists>t. mktime tm = Some t \<and> (tm_year tm \<le> 205 \<longrightarrow> unat t = posix_seconds tm) \<and>
    http_date_to_time (rfc1123_text wday tm) = Some t \<and> http_date_to_time (ansi_text wday tm) = Some t \<and>
    (if tm_year tm < 120 then http_date_to_time (rfc1036_text name tm) = Some t
     else http_date_to_time (rfc1036_text name tm) =
         mktime (tm\<lparr>tm_year := tm_year tm - 100\<rparr>) \<and>
       (tm_year tm < 170 \<longrightarrow> (\<exists>u. http_date_to_time (rfc1036_text name tm) = Some u \<and> unat u < 366 * 86400)))"
proof -
  obtain t where t: "mktime tm = Some t" "tm_year tm \<le> 205 \<longrightarrow> unat t = posix_seconds tm"
    using mktime_posix [OF assms(1-5)] by blast
  note y = date_fields(7,8) [OF assms(1-5)]
  note r = rfc1036_parsed [OF assms(1-5,7-9)]
  have "mktime (tm\<lparr>tm_year := tm_year tm\<rparr>) = mktime tm" by (rule mktime_cong) simp_all
  then show ?thesis
    using t r rfc1123_parsed [OF assms(1-6)] ansi_parsed [OF assms(1-6)] mktime_early [OF assms(1-5), of "tm_year tm - 100"]
      rfc1036_year_near [of "tm_year tm"] rfc1036_year_far [of "tm_year tm"] y
    by (auto simp: YEAR0_def)
qed

lemma http_dates_read_witness:
  "http_date_to_time ''Sun, 06 Nov 1994 08:49:37 GMT'' = Some 784111777 \<and>
   http_date_to_time ''Sun Nov  6 08:49:37 1994'' = Some 784111777 \<and>
   http_date_to_time ''Sunday, 06-Nov-94 08:49:37 GMT'' = Some 784111777 \<and>
   http_date_to_time ''Friday, 06-Nov-20 08:49:37 GMT'' = Some 26815777"
proof -
  let ?tm = "\<lparr>tm_sec = 37, tm_min = 49, tm_hour = 8, tm_mday = 6, tm_mon = 10, tm_year = 94, tm_wday = 0, tm_yday = 0, tm_isdst = 0\<rparr>"
  have "mktime ?tm = Some 784111777" "mktime (?tm\<lparr>tm_year := 20\<rparr>) = Some 26815777" by code_simp+
  moreover have "rfc1123_text ''Sun'' ?tm = ''Sun, 06 Nov 1994 08:49:37 GMT''" "ansi_text ''Sun'' ?tm = ''Sun Nov  6 08:49:37 1994''"
    "rfc1036_text ''Sunday'' ?tm = ''Sunday, 06-Nov-94 08:49:37 GMT''"
    "rfc1036_text ''Friday'' (?tm\<lparr>tm_year := 120\<rparr>) = ''Friday, 06-Nov-20 08:49:37 GMT''" by code_simp+
  ultimately show ?thesis
    using http_dates_read [of ?tm "''Sun''" "''Sunday''"] http_dates_read [of "?tm\<lparr>tm_year := 120\<rparr>" "''Fri''" "''Friday''"]
    by (auto simp add: validate_date_time_def YEAR0_def EPOCH_YR_def)
qed

end
