(* ===== verification/Fallible.thy ===== *)
theory Fallible
  imports Gateway_Prelude
begin

text \<open>
  Code that may leave an array: reads by index, and the rules for results that are always there.
  \<open>returns P r\<close> says that the code does not go wrong and that what it yields satisfies \<open>P\<close>.
\<close>

definition arr_get :: "'a list \<Rightarrow> nat \<Rightarrow> 'a option" where
  "arr_get xs i = (if i < length xs then Some (xs ! i) else None)"

lemma arr_get_Some [simp]: "i < length xs \<Longrightarrow> arr_get xs i = Some (xs ! i)"
  by (simp add: arr_get_def)

lemma arr_get_eq_Some: "arr_get xs i = Some x \<longleftrightarrow> i < length xs \<and> x = xs ! i"
  by (auto simp: arr_get_def)

definition returns :: "('a \<Rightarrow> bool) \<Rightarrow> 'a option \<Rightarrow> bool" where
  "returns P r \<longleftrightarrow> (\<exists>x. r = Some x \<and> P x)"

lemma returns_Some [simp]: "returns P (Some x) = P x"
  by (simp add: returns_def)

lemma returns_None [simp]: "\<not> returns P None"
  by (simp add: returns_def)

lemma returnsE: "returns P r \<Longrightarrow> (\<And>x. r = Some x \<Longrightarrow> P x \<Longrightarrow> thesis) \<Longrightarrow> thesis"
  by (auto simp: returns_def)

lemma returns_defined: "returns P r \<Longrightarrow> r \<noteq> None"
  by (auto simp: returns_def)

lemma returnsD: "returns P r \<Longrightarrow> r = Some x \<Longrightarrow> P x"
  by (simp add: returns_def)

lemma returns_bind: "returns Q m \<Longrightarrow> (\<And>x. Q x \<Longrightarrow> returns P (f x)) \<Longrightarrow> returns P (m \<bind> f)"
  by (cases m) auto

lemma returns_weaken: "returns Q r \<Longrightarrow> (\<And>x. Q x \<Longrightarrow> P x) \<Longrightarrow> returns P r"
  by (auto simp: returns_def)

lemma returns_conj: "returns P r \<Longrightarrow> returns Q r \<Longrightarrow> returns (\<lambda>x. P x \<and> Q x) r"
  by (auto simp: returns_def)

end
