(* ===== verification/Jsmn.thy ===== *)
theory Jsmn
  imports Fallible
begin

text \<open>
  The tokenizer \<^verbatim>\<open>components/jsmn/jsmn.c\<close> as \<^verbatim>\<open>app/project_config.h\<close> configures it: parent links,
  strict mode, tokens whose fields are \<^verbatim>\<open>short\<close>. The text is a list of characters, read
  below \<open>len\<close> only; the token array may be absent (\<^verbatim>\<open>NULL\<close>), the code then only counts. Offsets
  stay below \<open>len\<close>, so they are natural numbers; what is stored in a token goes through
  \<open>jsmnindex\<close>.
\<close>

section \<open>Tokens\<close>

datatype jsmntype = JSMN_UNDEFINED | JSMN_OBJECT | JSMN_ARRAY | JSMN_STRING | JSMN_PRIMITIVE

definition JSMN_ERROR_NOMEM :: int where "JSMN_ERROR_NOMEM = -1"
definition JSMN_ERROR_INVAL :: int where "JSMN_ERROR_INVAL = -2"
definition JSMN_ERROR_PART :: int where "JSMN_ERROR_PART = -3"

lemmas jsmnerr_defs = JSMN_ERROR_NOMEM_def JSMN_ERROR_INVAL_def JSMN_ERROR_PART_def

record jsmntok =
  tok_type :: jsmntype
  tok_start :: int
  tok_end :: int
  tok_size :: int
  tok_parent :: int

text \<open>What \<^verbatim>\<open>calloc\<close> leaves in a token, and the conversion to \<^verbatim>\<open>jsmnindex_t\<close>.\<close>

definition blank_token :: jsmntok where
  "blank_token = \<lparr>tok_type = JSMN_UNDEFINED, tok_start = 0, tok_end = 0, tok_size = 0, tok_parent = 0\<rparr>"

definition jsmnindex :: "int \<Rightarrow> int" where
  "jsmnindex x = signed_take_bit 15 x"

record jsmn_parser =
  p_pos :: nat
  p_toknext :: nat
  p_toksuper :: int

definition jsmn_init :: jsmn_parser where
  "jsmn_init = \<lparr>p_pos = 0, p_toknext = 0, p_toksuper = -1\<rparr>"

text \<open>Array accesses; \<^const>\<open>None\<close> is an access outside.\<close>

definition tok_get :: "jsmntok list \<Rightarrow> int \<Rightarrow> jsmntok option" where
  "tok_get ts i = (if 0 \<le> i then arr_get ts (nat i) else None)"

definition tok_upd :: "jsmntok list \<Rightarrow> int \<Rightarrow> (jsmntok \<Rightarrow> jsmntok) \<Rightarrow> jsmntok list option" where
  "tok_upd ts i f = (if 0 \<le> i then arr_get ts (nat i) \<bind> (\<lambda>t. Some (ts[nat i := f t])) else None)"

definition jsmn_alloc_token :: "jsmn_parser \<Rightarrow> jsmntok list \<Rightarrow> nat \<Rightarrow> (nat option \<times> jsmn_parser \<times> jsmntok list) option" where
  "jsmn_alloc_token p ts num =
     (if num \<le> p_toknext p then Some (None, p, ts)
      else do {
        ts \<leftarrow> tok_upd ts (int (p_toknext p)) (\<lambda>t. t\<lparr>tok_start := -1, tok_end := -1, tok_size := 0, tok_parent := -1\<rparr>);
        Some (Some (p_toknext p), p\<lparr>p_toknext := p_toknext p + 1\<rparr>, ts) })"

definition jsmn_fill_token :: "jsmntype \<Rightarrow> nat \<Rightarrow> nat \<Rightarrow> jsmntok \<Rightarrow> jsmntok" where
  "jsmn_fill_token type start en t = t\<lparr>tok_type := type, tok_start := jsmnindex (int start), tok_end := jsmnindex (int en), tok_size := 0\<rparr>"

definition grow :: "jsmntok \<Rightarrow> jsmntok" where
  "grow t = t\<lparr>tok_size := jsmnindex (tok_size t + 1)\<rparr>"

definition open_token :: "jsmntok \<Rightarrow> bool" where
  "open_token t \<longleftrightarrow> tok_start t \<noteq> -1 \<and> tok_end t = -1"

section \<open>Characters\<close>

abbreviation NUL :: char where "NUL \<equiv> CHR 0x00"

abbreviation QUOTE :: char where "QUOTE \<equiv> CHR 0x22"

abbreviation BACKSLASH :: char where "BACKSLASH \<equiv> CHR 0x5C"

definition is_ws :: "char \<Rightarrow> bool" where
  "is_ws c \<longleftrightarrow> c = CHR 0x09 \<or> c = CHR 0x0D \<or> c = CHR 0x0A \<or> c = CHR '' ''"

definition prim_delim :: "char \<Rightarrow> bool" where
  "prim_delim c \<longleftrightarrow> is_ws c \<or> c = CHR '','' \<or> c = CHR '']'' \<or> c = CHR ''}''"

definition hex_digit :: "char \<Rightarrow> bool" where
  "hex_digit c \<longleftrightarrow> (let n = (of_char c :: nat) in 48 \<le> n \<and> n \<le> 57 \<or> 65 \<le> n \<and> n \<le> 70 \<or> 97 \<le> n \<and> n \<le> 102)"

definition simple_escape :: "char \<Rightarrow> bool" where
  "simple_escape c \<longleftrightarrow> c = QUOTE \<or> c = CHR ''/'' \<or> c = BACKSLASH \<or> c = CHR ''b'' \<or> c = CHR ''f'' \<or> c = CHR ''r'' \<or> c = CHR ''n'' \<or> c = CHR ''t''"

definition prim_start :: "char \<Rightarrow> bool" where
  "prim_start c \<longleftrightarrow> c = CHR ''-'' \<or> (48 \<le> (of_char c :: nat) \<and> (of_char c :: nat) \<le> 57) \<or> c = CHR ''t'' \<or> c = CHR ''f'' \<or> c = CHR ''n''"

section \<open>Primitives and strings\<close>

text \<open>The scans yield the position at which they stop or an error; the callers put \<^verbatim>\<open>pos\<close> back on an error.\<close>

function primitive_scan :: "string \<Rightarrow> nat \<Rightarrow> nat \<Rightarrow> (int + nat) option" where
  "primitive_scan js len i =
     (if i < len then do {
        c \<leftarrow> arr_get js i;
        if c = NUL then Some (Inl JSMN_ERROR_PART)
        else if prim_delim c then Some (Inr i)
        else if (of_char c :: nat) < 32 \<or> 127 \<le> (of_char c :: nat) then Some (Inl JSMN_ERROR_INVAL)
        else primitive_scan js len (i + 1) }
      else Some (Inl JSMN_ERROR_PART))"
  by auto
termination by (relation "measure (\<lambda>(js, len, i). len - i)") auto

declare primitive_scan.simps [simp del]

text \<open>\<open>n\<close> hexadecimal digits, fewer at the end of the text.\<close>

fun hex_scan :: "string \<Rightarrow> nat \<Rightarrow> nat \<Rightarrow> nat \<Rightarrow> (int + nat) option" where
  "hex_scan js len i 0 = Some (Inr i)"
| "hex_scan js len i (Suc n) =
     (if i < len then do {
        c \<leftarrow> arr_get js i;
        if c = NUL then Some (Inr i)
        else if \<not> hex_digit c then Some (Inl JSMN_ERROR_INVAL)
        else hex_scan js len (i + 1) n }
      else Some (Inr i))"

lemma hex_scan_forward: "hex_scan js len i n = Some (Inr k) \<Longrightarrow> i \<le> k"
proof (induction n arbitrary: i)
  case (Suc n)
  then show ?case by (fastforce split: if_splits bind_splits)
qed simp

function string_scan :: "string \<Rightarrow> nat \<Rightarrow> nat \<Rightarrow> (int + nat) option" where
  "string_scan js len i =
     (if i < len then do {
        c \<leftarrow> arr_get js i;
        if c = NUL then Some (Inl JSMN_ERROR_PART)
        else if c = QUOTE then Some (Inr i)
        else if c = BACKSLASH \<and> i + 1 < len then do {
          e \<leftarrow> arr_get js (i + 1);
          if simple_escape e then string_scan js len (i + 2)
          else if e = CHR ''u'' then do {
            r \<leftarrow> hex_scan js len (i + 2) 4;
            case r of Inl err \<Rightarrow> Some (Inl err) | Inr k \<Rightarrow> string_scan js len k }
          else Some (Inl JSMN_ERROR_INVAL) }
        else string_scan js len (i + 1) }
      else Some (Inl JSMN_ERROR_PART))"
  by auto
termination by (relation "measure (\<lambda>(js, len, i). len - i)") (auto dest: hex_scan_forward)

declare string_scan.simps [simp del]

text \<open>The common end of both: a token over the scanned part, unless there is no array.\<close>

definition jsmn_token :: "jsmntype \<Rightarrow> nat \<Rightarrow> nat \<Rightarrow> nat \<Rightarrow> jsmn_parser \<Rightarrow> jsmntok list option \<Rightarrow> nat
    \<Rightarrow> (int \<times> jsmn_parser \<times> jsmntok list option) option" where
  "jsmn_token type start en pos p toks num =
     (case toks of
        None \<Rightarrow> Some (0, p\<lparr>p_pos := pos\<rparr>, None)
      | Some ts \<Rightarrow> do {
          (k, p, ts) \<leftarrow> jsmn_alloc_token p ts num;
          case k of
            None \<Rightarrow> Some (JSMN_ERROR_NOMEM, p, Some ts)
          | Some k \<Rightarrow> do {
              ts \<leftarrow> tok_upd ts (int k) (\<lambda>t. (jsmn_fill_token type start en t)\<lparr>tok_parent := jsmnindex (p_toksuper p)\<rparr>);
              Some (0, p\<lparr>p_pos := pos\<rparr>, Some ts) }})"

definition jsmn_parse_primitive :: "jsmn_parser \<Rightarrow> string \<Rightarrow> nat \<Rightarrow> jsmntok list option \<Rightarrow> nat
    \<Rightarrow> (int \<times> jsmn_parser \<times> jsmntok list option) option" where
  "jsmn_parse_primitive p js len toks num = do {
     r \<leftarrow> primitive_scan js len (p_pos p);
     case r of
       Inl err \<Rightarrow> Some (err, p, toks)
     | Inr i \<Rightarrow> jsmn_token JSMN_PRIMITIVE (p_pos p) i (i - 1) p toks num }"

definition jsmn_parse_string :: "jsmn_parser \<Rightarrow> string \<Rightarrow> nat \<Rightarrow> jsmntok list option \<Rightarrow> nat
    \<Rightarrow> (int \<times> jsmn_parser \<times> jsmntok list option) option" where
  "jsmn_parse_string p js len toks num = do {
     r \<leftarrow> string_scan js len (p_pos p + 1);
     case r of
       Inl err \<Rightarrow> Some (err, p, toks)
     | Inr i \<Rightarrow> jsmn_token JSMN_STRING (p_pos p + 1) i i p toks num }"

section \<open>The main loop\<close>

text \<open>
  A step of the loop goes on with the count, the parser and the tokens, or returns a code.
\<close>

type_synonym jsmn_state = "int \<times> jsmn_parser \<times> jsmntok list option"

definition jsmn_open :: "jsmntype \<Rightarrow> int \<Rightarrow> jsmn_parser \<Rightarrow> jsmntok list option \<Rightarrow> nat \<Rightarrow> (jsmn_state + jsmn_state) option" where
  "jsmn_open type count p toks num =
     (case toks of
        None \<Rightarrow> Some (Inr (count + 1, p, None))
      | Some ts \<Rightarrow> do {
          (k, p, ts) \<leftarrow> jsmn_alloc_token p ts num;
          case k of
            None \<Rightarrow> Some (Inl (JSMN_ERROR_NOMEM, p, Some ts))
          | Some k \<Rightarrow> do {
              ts \<leftarrow> (if p_toksuper p \<noteq> -1 then do {
                       ts \<leftarrow> tok_upd ts (p_toksuper p) grow;
                       tok_upd ts (int k) (\<lambda>t. t\<lparr>tok_parent := jsmnindex (p_toksuper p)\<rparr>) }
                     else Some ts);
              ts \<leftarrow> tok_upd ts (int k) (\<lambda>t. t\<lparr>tok_type := type, tok_start := jsmnindex (int (p_pos p))\<rparr>);
              Some (Inr (count + 1, p\<lparr>p_toksuper := int (p_toknext p) - 1\<rparr>, Some ts)) }})"

text \<open>The walk along the parent links to the innermost token that is still open; it may find none.\<close>

partial_function (option) close_walk :: "jsmntype \<Rightarrow> nat \<Rightarrow> jsmntok list \<Rightarrow> int \<Rightarrow> int \<Rightarrow> (int \<times> int \<times> jsmntok list) option" where
  "close_walk type pos ts super k = do {
     t \<leftarrow> tok_get ts k;
     if open_token t then
       (if tok_type t \<noteq> type then Some (JSMN_ERROR_INVAL, super, ts)
        else do { ts \<leftarrow> tok_upd ts k (\<lambda>t. t\<lparr>tok_end := jsmnindex (int pos + 1)\<rparr>); Some (0, tok_parent t, ts) })
     else if tok_parent t = -1 then Some (0, super, ts)
     else close_walk type pos ts super (tok_parent t) }"

definition jsmn_close :: "jsmntype \<Rightarrow> int \<Rightarrow> jsmn_parser \<Rightarrow> jsmntok list option \<Rightarrow> (jsmn_state + jsmn_state) option" where
  "jsmn_close type count p toks =
     (case toks of
        None \<Rightarrow> Some (Inr (count, p, None))
      | Some ts \<Rightarrow>
          if p_toknext p < 1 then Some (Inl (JSMN_ERROR_INVAL, p, Some ts))
          else do {
            (r, super, ts) \<leftarrow> close_walk type (p_pos p) ts (p_toksuper p) (int (p_toknext p) - 1);
            if r < 0 then Some (Inl (r, p, Some ts)) else Some (Inr (count, p\<lparr>p_toksuper := super\<rparr>, Some ts)) })"

text \<open>After a value: it is counted and its parent grows.\<close>

definition jsmn_counted :: "int \<Rightarrow> (int \<times> jsmn_parser \<times> jsmntok list option) option \<Rightarrow> (jsmn_state + jsmn_state) option" where
  "jsmn_counted count res = do {
     (r, p, toks) \<leftarrow> res;
     if r < 0 then Some (Inl (r, p, toks))
     else case toks of
            Some ts \<Rightarrow> if p_toksuper p \<noteq> -1 then do { ts \<leftarrow> tok_upd ts (p_toksuper p) grow; Some (Inr (count + 1, p, Some ts)) }
              else Some (Inr (count + 1, p, Some ts))
          | None \<Rightarrow> Some (Inr (count + 1, p, None)) }"

definition jsmn_comma :: "jsmn_parser \<Rightarrow> jsmntok list option \<Rightarrow> jsmn_parser option" where
  "jsmn_comma p toks =
     (case toks of
        None \<Rightarrow> Some p
      | Some ts \<Rightarrow>
          if p_toksuper p = -1 then Some p
          else do {
            t \<leftarrow> tok_get ts (p_toksuper p);
            Some (if tok_type t \<noteq> JSMN_ARRAY \<and> tok_type t \<noteq> JSMN_OBJECT then p\<lparr>p_toksuper := tok_parent t\<rparr> else p) })"

text \<open>Strict mode: a primitive is no key and no second value of a key.\<close>

definition primitive_allowed :: "jsmn_parser \<Rightarrow> jsmntok list option \<Rightarrow> bool option" where
  "primitive_allowed p toks =
     (case toks of
        None \<Rightarrow> Some True
      | Some ts \<Rightarrow>
          if p_toksuper p = -1 then Some True
          else do { t \<leftarrow> tok_get ts (p_toksuper p); Some (\<not> (tok_type t = JSMN_OBJECT \<or> tok_type t = JSMN_STRING \<and> tok_size t \<noteq> 0)) })"

definition jsmn_step :: "char \<Rightarrow> string \<Rightarrow> nat \<Rightarrow> nat \<Rightarrow> jsmn_state \<Rightarrow> (jsmn_state + jsmn_state) option" where
  "jsmn_step c js len num = (\<lambda>(count, p, toks).
     if c = CHR ''{'' then jsmn_open JSMN_OBJECT count p toks num
     else if c = CHR ''['' then jsmn_open JSMN_ARRAY count p toks num
     else if c = CHR ''}'' then jsmn_close JSMN_OBJECT count p toks
     else if c = CHR '']'' then jsmn_close JSMN_ARRAY count p toks
     else if c = QUOTE then jsmn_counted count (jsmn_parse_string p js len toks num)
     else if is_ws c then Some (Inr (count, p, toks))
     else if c = CHR '':'' then Some (Inr (count, p\<lparr>p_toksuper := int (p_toknext p) - 1\<rparr>, toks))
     else if c = CHR '','' then do { p \<leftarrow> jsmn_comma p toks; Some (Inr (count, p, toks)) }
     else if prim_start c then do {
       ok \<leftarrow> primitive_allowed p toks;
       if ok then jsmn_counted count (jsmn_parse_primitive p js len toks num) else Some (Inl (JSMN_ERROR_INVAL, p, toks)) }
     else Some (Inl (JSMN_ERROR_INVAL, p, toks)))"

text \<open>The loop ends because no step goes back.\<close>

lemma primitive_scan_forward:
  "primitive_scan js len i = Some (Inr k) \<Longrightarrow> i \<le> k"
proof (induction "len - i" arbitrary: i rule: less_induct)
  case less
  from less(2) show ?case
    by (subst (asm) primitive_scan.simps) (fastforce split: if_splits bind_splits dest!: less(1) [rotated])
qed

lemma string_scan_forward:
  "string_scan js len i = Some (Inr k) \<Longrightarrow> i \<le> k"
proof (induction "len - i" arbitrary: i rule: less_induct)
  case less
  from less(2) show ?case
    by (subst (asm) string_scan.simps)
      (fastforce split: if_splits bind_splits sum.splits dest!: hex_scan_forward less(1) [rotated])
qed

lemma primitive_scan_start:
  assumes "primitive_scan js len i = Some (Inr k)" and "arr_get js i = Some c" and "prim_start c"
  shows "i < k"
proof -
  have "\<not> prim_delim c" using assms(3) by (auto simp: prim_start_def prim_delim_def is_ws_def)
  then show ?thesis
    using assms(1,2) primitive_scan_forward [of js len "Suc i" k] by (subst (asm) primitive_scan.simps) (auto split: if_splits)
qed

lemma jsmn_token_pos: "jsmn_token ty st en pos p toks num = Some (r, p', toks') \<Longrightarrow> p_pos p' = p_pos p \<or> p_pos p' = pos"
  by (auto simp: jsmn_token_def jsmn_alloc_token_def split: option.splits if_splits bind_splits)

lemma jsmn_parse_string_forward: "jsmn_parse_string p js len toks num = Some (r, p', toks') \<Longrightarrow> p_pos p \<le> p_pos p'"
  by (fastforce simp: jsmn_parse_string_def split: bind_splits sum.splits dest!: jsmn_token_pos string_scan_forward)

lemma jsmn_parse_primitive_forward:
  "jsmn_parse_primitive p js len toks num = Some (r, p', toks') \<Longrightarrow> arr_get js (p_pos p) = Some c \<Longrightarrow> prim_start c \<Longrightarrow>
   p_pos p \<le> p_pos p'"
  by (fastforce simp: jsmn_parse_primitive_def split: bind_splits sum.splits dest!: jsmn_token_pos primitive_scan_start)

lemma jsmn_step_forward:
  assumes "jsmn_step c js len num (count, p, toks) = Some (Inr (count', p', toks'))" and "arr_get js (p_pos p) = Some c"
  shows "p_pos p \<le> p_pos p'"
proof -
  have open_pos: "jsmn_open ty count p toks num = Some (Inr (count', p', toks')) \<Longrightarrow> p_pos p' = p_pos p" for ty
    by (auto simp: jsmn_open_def jsmn_alloc_token_def split: option.splits if_splits bind_splits)
  have close_pos: "jsmn_close ty count p toks = Some (Inr (count', p', toks')) \<Longrightarrow> p_pos p' = p_pos p" for ty
    by (auto simp: jsmn_close_def split: option.splits if_splits bind_splits)
  have counted: "jsmn_counted count res = Some (Inr (count', p', toks')) \<Longrightarrow> \<exists>r ts. res = Some (r, p', ts)" for res
    by (auto simp: jsmn_counted_def split: option.splits if_splits bind_splits)
  have comma: "jsmn_comma p ts = Some q \<Longrightarrow> p_pos q = p_pos p" for q ts
    by (auto simp: jsmn_comma_def split: option.splits if_splits bind_splits)
  show ?thesis
    using assms unfolding jsmn_step_def prod.case
    by (auto split: if_splits bind_splits dest!: open_pos close_pos counted comma
        dest: jsmn_parse_string_forward jsmn_parse_primitive_forward)
qed

function jsmn_loop :: "string \<Rightarrow> nat \<Rightarrow> nat \<Rightarrow> jsmn_state \<Rightarrow> (jsmn_state + jsmn_state) option" where
  "jsmn_loop js len num (count, p, toks) =
     (if p_pos p < len then do {
        c \<leftarrow> arr_get js (p_pos p);
        if c = NUL then Some (Inr (count, p, toks))
        else do {
          r \<leftarrow> jsmn_step c js len num (count, p, toks);
          case r of
            Inl res \<Rightarrow> Some (Inl res)
          | Inr (count', p', toks') \<Rightarrow> jsmn_loop js len num (count', p'\<lparr>p_pos := p_pos p' + 1\<rparr>, toks') }}
      else Some (Inr (count, p, toks)))"
  by pat_completeness auto
termination
  by (relation "measure (\<lambda>(js, len, num, count, p, toks). len - p_pos p)") (auto dest!: jsmn_step_forward)

declare jsmn_loop.simps [simp del]

definition jsmn_parse :: "jsmn_parser \<Rightarrow> string \<Rightarrow> nat \<Rightarrow> jsmntok list option \<Rightarrow> nat \<Rightarrow> jsmn_state option" where
  "jsmn_parse p js len toks num = do {
     r \<leftarrow> jsmn_loop js len num (int (p_toknext p), p, toks);
     case r of
       Inl res \<Rightarrow> Some res
     | Inr (count, p, None) \<Rightarrow> Some (count, p, None)
     | Inr (count, p, Some ts) \<Rightarrow>
         if length ts < p_toknext p then None
         else if \<exists>t \<in> set (take (p_toknext p) ts). open_token t then Some (JSMN_ERROR_PART, p, Some ts)
         else Some (count, p, Some ts) }"

end
