(* ===== verification/Json_Parser.thy ===== *)
theory Json_Parser
  imports Jsmn C_Text
begin

text \<open>
  \<^verbatim>\<open>components/json_parser/json_parser.c\<close>: a document is parsed in two passes of the tokenizer, the
  first of which counts the tokens to allocate; then members and elements are looked up from a
  current token. Pointers into the token array are indices; the heap is whether the array is
  allocated, and releasing it twice is \<^const>\<open>None\<close>.
\<close>

section \<open>Codes\<close>

text \<open>\<^verbatim>\<open>enum wm_json_errno\<close>, which begins at \<^verbatim>\<open>MOD_ERROR_START(MOD_JSON)\<close>.\<close>

definition WM_E_JSON_ERRNO_BASE :: int where "WM_E_JSON_ERRNO_BASE = 7 * 4096"
definition WM_E_JSON_FAIL :: int where "WM_E_JSON_FAIL = WM_E_JSON_ERRNO_BASE + 1"
definition WM_E_JSON_NOMEM :: int where "WM_E_JSON_NOMEM = WM_E_JSON_ERRNO_BASE + 2"
definition WM_E_JSON_INVAL :: int where "WM_E_JSON_INVAL = WM_E_JSON_ERRNO_BASE + 3"
definition WM_E_JSON_INCOMPLETE :: int where "WM_E_JSON_INCOMPLETE = WM_E_JSON_ERRNO_BASE + 4"
definition WM_E_JSON_INVALID_JOBJ :: int where "WM_E_JSON_INVALID_JOBJ = WM_E_JSON_ERRNO_BASE + 5"
definition WM_E_JSON_NOT_FOUND :: int where "WM_E_JSON_NOT_FOUND = WM_E_JSON_ERRNO_BASE + 6"
definition WM_E_JSON_INVALID_TYPE :: int where "WM_E_JSON_INVALID_TYPE = WM_E_JSON_ERRNO_BASE + 7"
definition WM_E_JSON_INVALID_INDEX :: int where "WM_E_JSON_INVALID_INDEX = WM_E_JSON_ERRNO_BASE + 8"
definition WM_E_JSON_INVALID_JARRAY :: int where "WM_E_JSON_INVALID_JARRAY = WM_E_JSON_ERRNO_BASE + 9"

lemmas json_errno_defs = WM_E_JSON_ERRNO_BASE_def WM_E_JSON_FAIL_def WM_E_JSON_NOMEM_def WM_E_JSON_INVAL_def
  WM_E_JSON_INCOMPLETE_def WM_E_JSON_INVALID_JOBJ_def WM_E_JSON_NOT_FOUND_def WM_E_JSON_INVALID_TYPE_def
  WM_E_JSON_INVALID_INDEX_def WM_E_JSON_INVALID_JARRAY_def

section \<open>Objects\<close>

text \<open>
  \<open>j_freed\<close> records that the allocated tokens have been released; \<open>j_cur\<close> is the index of the
  current token, or \<^const>\<open>None\<close> for \<^verbatim>\<open>NULL\<close>.
\<close>

record jobj =
  j_parser :: jsmn_parser
  j_js :: string
  j_tokens :: "jsmntok list option"
  j_freed :: bool
  j_cur :: "nat option"
  j_num_tokens :: int

definition json_obj_init :: "jsmntok list option \<Rightarrow> int \<Rightarrow> jobj" where
  "json_obj_init tokens num = \<lparr>j_parser = jsmn_init, j_js = [], j_tokens = tokens, j_freed = False, j_cur = None, j_num_tokens = num\<rparr>"

text \<open>The tokens and the current index, as far as there are any.\<close>

definition live_tokens :: "jobj \<Rightarrow> jsmntok list option" where
  "live_tokens j = (if j_freed j then None else j_tokens j)"

text \<open>
  The string a token spans, read from the text; \<^verbatim>\<open>strncmp\<close> with a key and equality of the lengths is
  equality with the key, as far as neither has a \<^verbatim>\<open>NUL\<close> inside.
\<close>

definition token_text :: "string \<Rightarrow> jsmntok \<Rightarrow> string option" where
  "token_text js t =
     (if 0 \<le> tok_start t \<and> tok_start t \<le> tok_end t \<and> tok_end t \<le> int (length js)
      then Some (take (nat (tok_end t - tok_start t)) (drop (nat (tok_start t)) js)) else None)"

definition json_token_streq :: "string \<Rightarrow> jsmntok \<Rightarrow> string \<Rightarrow> bool option" where
  "json_token_streq js t s = do { w \<leftarrow> token_text js t; Some (w = s) }"

section \<open>Walking over the tokens\<close>

text \<open>
  \<^verbatim>\<open>skip_to_last\<close>: the loop over the children of \<open>t\<close>, of which \<open>cnt\<close> are left, calls itself for
  a child that has children.
\<close>

partial_function (option) skip_children :: "jsmntok list \<Rightarrow> nat \<Rightarrow> int \<Rightarrow> nat option" where
  "skip_children ts t cnt =
     (if cnt = 0 then Some t
      else do {
        tok \<leftarrow> arr_get ts (t + 1);
        t' \<leftarrow> (if tok_size tok \<noteq> 0 then skip_children ts (t + 1) (tok_size tok) else Some (t + 1));
        skip_children ts t' (cnt - 1) })"

definition skip_to_last :: "jsmntok list \<Rightarrow> nat \<Rightarrow> nat option" where
  "skip_to_last ts t = do {
     tok \<leftarrow> arr_get ts t;
     if tok_size tok = 0 then Some t else skip_children ts t (tok_size tok) }"

partial_function (option) get_value_loop :: "jsmntok list \<Rightarrow> string \<Rightarrow> int \<Rightarrow> string \<Rightarrow> nat \<Rightarrow> int \<Rightarrow> (int \<times> nat option) option" where
  "get_value_loop ts js cur_end key t n =
     (if n = 0 then Some (- WM_E_JSON_NOT_FOUND, None)
      else do {
        tok \<leftarrow> arr_get ts (t + 1);
        if tok_end tok > cur_end then Some (- WM_E_JSON_FAIL, None)
        else if tok_type tok \<noteq> JSMN_STRING then Some (- WM_E_JSON_FAIL, None)
        else do {
          eq \<leftarrow> json_token_streq js tok key;
          if eq then Some (SYS_OK, Some (t + 2))
          else do {
            t' \<leftarrow> skip_to_last ts (t + 2);
            get_value_loop ts js cur_end key t' (n - 1) }}})"

definition json_get_value :: "jobj \<Rightarrow> string \<Rightarrow> (int \<times> nat option) option" where
  "json_get_value j key = do {
     ts \<leftarrow> live_tokens j; cur \<leftarrow> j_cur j; tok \<leftarrow> arr_get ts cur;
     if tok_size tok = 0 then Some (- WM_E_JSON_FAIL, None)
     else if tok_type tok \<noteq> JSMN_OBJECT then Some (- WM_E_JSON_INVALID_JOBJ, None)
     else get_value_loop ts (j_js j) (tok_end tok) key cur (tok_size tok) }"

text \<open>\<open>index\<close> elements are stepped over.\<close>

fun array_index_loop :: "jsmntok list \<Rightarrow> int \<Rightarrow> nat \<Rightarrow> nat \<Rightarrow> (int \<times> nat option) option" where
  "array_index_loop ts cur_end t 0 = Some (SYS_OK, Some t)"
| "array_index_loop ts cur_end t (Suc n) = do {
     tok \<leftarrow> arr_get ts t;
     if tok_end tok > cur_end then Some (- WM_E_JSON_FAIL, None)
     else do {
       t \<leftarrow> (if tok_type tok = JSMN_ARRAY \<or> tok_type tok = JSMN_OBJECT then skip_to_last ts t else Some t);
       array_index_loop ts cur_end (t + 1) n }}"

definition json_get_array_index :: "jobj \<Rightarrow> u16 \<Rightarrow> (int \<times> nat option) option" where
  "json_get_array_index j index = do {
     ts \<leftarrow> live_tokens j; cur \<leftarrow> j_cur j; tok \<leftarrow> arr_get ts cur;
     if tok_type tok \<noteq> JSMN_ARRAY then Some (- WM_E_JSON_INVALID_JARRAY, None)
     else if uint index \<ge> tok_size tok then Some (- WM_E_JSON_INVALID_INDEX, None)
     else array_index_loop ts (tok_end tok) (cur + 1) (unat index) }"

section \<open>Values of tokens\<close>

text \<open>A value is stored only when the code is \<^const>\<open>SYS_OK\<close>.\<close>

definition json_str_to_bool :: "string \<Rightarrow> jsmntok \<Rightarrow> (int \<times> bool option) option" where
  "json_str_to_bool js t =
     (if tok_type t \<noteq> JSMN_PRIMITIVE then Some (- WM_E_JSON_INVALID_TYPE, None)
      else do {
        w \<leftarrow> token_text js t;
        Some (if w = ''true'' \<or> w = ''1'' then (SYS_OK, Some True)
              else if w = ''false'' \<or> w = ''0'' then (SYS_OK, Some False)
              else (- WM_E_JSON_INVALID_TYPE, None)) })"

text \<open>
  \<^verbatim>\<open>strtoul\<close> in base 10: white space, a sign, digits; the value saturates at the largest of its
  width and is negated by a minus sign. It yields where it stopped, which is the start if there
  were no digits; \<^const>\<open>None\<close> if the digits reach the end of the text.
\<close>

definition strtoul10 :: "'w::len word itself \<Rightarrow> string \<Rightarrow> nat \<Rightarrow> ('w word \<times> nat) option" where
  "strtoul10 w js i =
     (let i1 = i + length (takeWhile is_space (drop i js));
          minus = (i1 < length js \<and> js ! i1 = CHR ''-'');
          plus = (i1 < length js \<and> js ! i1 = CHR ''+'');
          i2 = (if minus \<or> plus then i1 + 1 else i1);
          ds = takeWhile is_digit (drop i2 js); n = decimal_value ds
      in if i2 + length ds \<ge> length js then None
         else if ds = [] then Some (0, i)
         else Some (if n > unat (- 1 :: 'w word) then - 1 else if minus then - of_nat n else of_nat n, i2 + length ds))"

definition json_str_to_int :: "string \<Rightarrow> jsmntok \<Rightarrow> (int \<times> int option) option" where
  "json_str_to_int js t =
     (if tok_type t \<noteq> JSMN_PRIMITIVE then Some (- WM_E_JSON_INVALID_TYPE, None)
      else if tok_start t < 0 then None
      else do {
        (v, e) \<leftarrow> strtoul10 TYPE(32 word) js (nat (tok_start t));
        Some (if int e = tok_end t then (SYS_OK, Some (sint v)) else (- WM_E_JSON_INVALID_TYPE, None)) })"

definition json_str_to_int64 :: "string \<Rightarrow> jsmntok \<Rightarrow> (int \<times> int option) option" where
  "json_str_to_int64 js t =
     (if tok_type t \<noteq> JSMN_PRIMITIVE then Some (- WM_E_JSON_INVALID_TYPE, None)
      else if tok_start t < 0 then None
      else do {
        (v, e) \<leftarrow> strtoul10 TYPE(64 word) js (nat (tok_start t));
        Some (if int e = tok_end t then (SYS_OK, Some (sint v)) else (- WM_E_JSON_INVALID_TYPE, None)) })"

text \<open>The string that is stored, which is followed by a \<^verbatim>\<open>NUL\<close>.\<close>

definition json_str_to_str :: "string \<Rightarrow> jsmntok \<Rightarrow> int \<Rightarrow> (int \<times> string option) option" where
  "json_str_to_str js t maxlen =
     (if tok_type t \<noteq> JSMN_STRING then Some (- WM_E_JSON_INVALID_TYPE, None)
      else if tok_end t - tok_start t \<ge> maxlen then Some (- WM_E_JSON_NOMEM, None)
      else do { w \<leftarrow> token_text js t; Some (SYS_OK, Some w) })"

definition json_str_len :: "jsmntok \<Rightarrow> int \<times> int option" where
  "json_str_len t = (if tok_type t \<noteq> JSMN_STRING then (- WM_E_JSON_INVALID_TYPE, None) else (SYS_OK, Some (tok_end t - tok_start t)))"

section \<open>Lookups\<close>

definition with_token :: "jobj \<Rightarrow> (int \<times> nat option) option \<Rightarrow> (jsmntok \<Rightarrow> (int \<times> 'a option) option) \<Rightarrow> (int \<times> 'a option) option" where
  "with_token j found f = do {
     (ret, t) \<leftarrow> found;
     if ret \<noteq> SYS_OK then Some (ret, None)
     else do { ts \<leftarrow> live_tokens j; t \<leftarrow> t; tok \<leftarrow> arr_get ts t; f tok }}"

definition json_get_val_bool :: "jobj \<Rightarrow> string \<Rightarrow> (int \<times> bool option) option" where
  "json_get_val_bool j key = with_token j (json_get_value j key) (json_str_to_bool (j_js j))"

definition json_get_val_int :: "jobj \<Rightarrow> string \<Rightarrow> (int \<times> int option) option" where
  "json_get_val_int j key = with_token j (json_get_value j key) (json_str_to_int (j_js j))"

definition json_get_val_int64 :: "jobj \<Rightarrow> string \<Rightarrow> (int \<times> int option) option" where
  "json_get_val_int64 j key = with_token j (json_get_value j key) (json_str_to_int64 (j_js j))"

definition json_get_val_str :: "jobj \<Rightarrow> string \<Rightarrow> int \<Rightarrow> (int \<times> string option) option" where
  "json_get_val_str j key maxlen = with_token j (json_get_value j key) (\<lambda>t. json_str_to_str (j_js j) t maxlen)"

definition json_get_val_str_len :: "jobj \<Rightarrow> string \<Rightarrow> (int \<times> int option) option" where
  "json_get_val_str_len j key = with_token j (json_get_value j key) (\<lambda>t. Some (json_str_len t))"

definition json_array_get_bool :: "jobj \<Rightarrow> u16 \<Rightarrow> (int \<times> bool option) option" where
  "json_array_get_bool j index = with_token j (json_get_array_index j index) (json_str_to_bool (j_js j))"

definition json_array_get_int :: "jobj \<Rightarrow> u16 \<Rightarrow> (int \<times> int option) option" where
  "json_array_get_int j index = with_token j (json_get_array_index j index) (json_str_to_int (j_js j))"

definition json_array_get_int64 :: "jobj \<Rightarrow> u16 \<Rightarrow> (int \<times> int option) option" where
  "json_array_get_int64 j index = with_token j (json_get_array_index j index) (json_str_to_int64 (j_js j))"

definition json_array_get_str :: "jobj \<Rightarrow> u16 \<Rightarrow> int \<Rightarrow> (int \<times> string option) option" where
  "json_array_get_str j index maxlen = with_token j (json_get_array_index j index) (\<lambda>t. json_str_to_str (j_js j) t maxlen)"

definition json_array_get_str_len :: "jobj \<Rightarrow> u16 \<Rightarrow> (int \<times> int option) option" where
  "json_array_get_str_len j index = with_token j (json_get_array_index j index) (\<lambda>t. Some (json_str_len t))"

text \<open>Entering an object or array makes it the current token, and yields its size.\<close>

definition enter :: "jsmntype \<Rightarrow> jobj \<Rightarrow> (int \<times> nat option) option \<Rightarrow> (int \<times> int option \<times> jobj) option" where
  "enter type j found = do {
     (ret, t) \<leftarrow> found;
     if ret \<noteq> SYS_OK then Some (ret, None, j)
     else do {
       ts \<leftarrow> live_tokens j; t \<leftarrow> t; tok \<leftarrow> arr_get ts t;
       if tok_type tok \<noteq> type then Some (- WM_E_JSON_INVALID_TYPE, None, j)
       else Some (SYS_OK, Some (tok_size tok), j\<lparr>j_cur := Some t\<rparr>) }}"

definition json_get_composite_object :: "jobj \<Rightarrow> string \<Rightarrow> (int \<times> jobj) option" where
  "json_get_composite_object j key = do { (ret, n, j) \<leftarrow> enter JSMN_OBJECT j (json_get_value j key); Some (ret, j) }"

definition json_get_array_object :: "jobj \<Rightarrow> string \<Rightarrow> (int \<times> int option \<times> jobj) option" where
  "json_get_array_object j key = enter JSMN_ARRAY j (json_get_value j key)"

definition json_array_get_composite_object :: "jobj \<Rightarrow> u16 \<Rightarrow> (int \<times> jobj) option" where
  "json_array_get_composite_object j index = do { (ret, n, j) \<leftarrow> enter JSMN_OBJECT j (json_get_array_index j index); Some (ret, j) }"

definition json_array_get_array_object :: "jobj \<Rightarrow> u16 \<Rightarrow> (int \<times> int option \<times> jobj) option" where
  "json_array_get_array_object j index = enter JSMN_ARRAY j (json_get_array_index j index)"

text \<open>One step from the current token to its parent.\<close>

definition to_parent :: "jobj \<Rightarrow> (int \<times> jobj) option" where
  "to_parent j = do {
     ts \<leftarrow> live_tokens j; cur \<leftarrow> j_cur j; tok \<leftarrow> arr_get ts cur;
     Some (if tok_parent tok < 0 then (- WM_E_JSON_FAIL, j) else (SYS_OK, j\<lparr>j_cur := Some (nat (tok_parent tok))\<rparr>)) }"

definition json_release_composite_object :: "jobj \<Rightarrow> (int \<times> jobj) option" where
  "json_release_composite_object j = do {
     (ret, j) \<leftarrow> to_parent j;
     if ret \<noteq> SYS_OK then Some (ret, j) else to_parent j }"

definition json_release_array_object :: "jobj \<Rightarrow> (int \<times> jobj) option" where
  "json_release_array_object j = json_release_composite_object j"

definition json_array_release_composite_object :: "jobj \<Rightarrow> (int \<times> jobj) option" where
  "json_array_release_composite_object j = to_parent j"

definition json_array_release_array_object :: "jobj \<Rightarrow> (int \<times> jobj) option" where
  "json_array_release_array_object j = json_array_release_composite_object j"

definition cur_token :: "jobj \<Rightarrow> jsmntok option" where
  "cur_token j = do { ts \<leftarrow> live_tokens j; cur \<leftarrow> j_cur j; arr_get ts cur }"

definition json_array_get_num_elements :: "jobj \<Rightarrow> int option" where
  "json_array_get_num_elements j = do { t \<leftarrow> cur_token j; Some (if tok_type t \<noteq> JSMN_ARRAY then SYS_FAIL else tok_size t) }"

definition json_is_object :: "jobj \<Rightarrow> bool option" where
  "json_is_object j = do { t \<leftarrow> cur_token j; Some (tok_type t = JSMN_OBJECT) }"

definition json_is_array :: "jobj \<Rightarrow> bool option" where
  "json_is_array j = do { t \<leftarrow> cur_token j; Some (tok_type t = JSMN_ARRAY) }"

section \<open>Parsing a document\<close>

text \<open>
  \<^verbatim>\<open>__json_is_valid\<close>: the loop over the children of the token \<open>cur\<close>, of which \<open>n\<close> are left behind
  \<open>t\<close>; it calls itself for an object or array among them.
\<close>

partial_function (option) valid_children :: "jsmntok list \<Rightarrow> nat \<Rightarrow> nat \<Rightarrow> int \<Rightarrow> bool option" where
  "valid_children ts cur t n =
     (if n = 0 then Some True
      else do {
        tok \<leftarrow> arr_get ts (t + 1); par \<leftarrow> arr_get ts cur;
        if tok_end tok > tok_end par then Some False
        else if tok_type par = JSMN_OBJECT \<and> (tok_type tok \<noteq> JSMN_STRING \<or> tok_size tok \<noteq> 1) then Some False
        else do {
          let t = (if tok_type par = JSMN_OBJECT then t + 2 else t + 1);
          tok \<leftarrow> arr_get ts t;
          ok \<leftarrow> (if tok_type tok = JSMN_OBJECT \<or> tok_type tok = JSMN_ARRAY
                then (if tok_size tok = 0 then Some True else valid_children ts t t (tok_size tok))
                else Some (tok_size tok = 0));
          if \<not> ok then Some False
          else do { t \<leftarrow> skip_to_last ts t; valid_children ts cur t (n - 1) }}})"

definition json_is_valid :: "jsmntok list \<Rightarrow> nat \<Rightarrow> jsmntype \<Rightarrow> bool option" where
  "json_is_valid ts cur type = do {
     tok \<leftarrow> arr_get ts cur;
     if tok_type tok \<noteq> type then Some False
     else if tok_size tok = 0 then Some True
     else valid_children ts cur cur (tok_size tok) }"

definition json_error :: "int \<Rightarrow> int" where
  "json_error r = (if r = JSMN_ERROR_NOMEM then - WM_E_JSON_NOMEM else if r = JSMN_ERROR_INVAL then - WM_E_JSON_INVAL
     else if r = JSMN_ERROR_PART then - WM_E_JSON_INCOMPLETE else - WM_E_JSON_FAIL)"

definition json_init :: "jsmntok list option \<Rightarrow> nat \<Rightarrow> string \<Rightarrow> nat \<Rightarrow> (int \<times> jobj) option" where
  "json_init tokens num js len = do {
     let j = json_obj_init tokens (int num);
     (r, p, tokens) \<leftarrow> jsmn_parse (j_parser j) js len tokens num;
     let j = j\<lparr>j_parser := p, j_tokens := tokens\<rparr>;
     if r < 0 then Some (json_error r, j)
     else do {
       let j = j\<lparr>j_js := js, j_num_tokens := r, j_cur := Some 0\<rparr>;
       ts \<leftarrow> tokens; tok \<leftarrow> arr_get ts 0;
       if tok_type tok = JSMN_OBJECT then do {
         ok \<leftarrow> json_is_valid ts 0 JSMN_OBJECT; Some (if ok then SYS_OK else - WM_E_JSON_INVALID_JOBJ, j) }
       else if tok_type tok = JSMN_ARRAY then do {
         ok \<leftarrow> json_is_valid ts 0 JSMN_ARRAY; Some (if ok then SYS_OK else - WM_E_JSON_INVALID_JARRAY, j) }
       else Some (- WM_E_JSON_INVALID_JOBJ, j) }}"

text \<open>The heap: a request of no bytes is refused, any other as \<open>avail\<close> says. A token has ten bytes.\<close>

definition os_mem_calloc :: "(nat \<Rightarrow> bool) \<Rightarrow> nat \<Rightarrow> jsmntok list option" where
  "os_mem_calloc avail n = (if n = 0 \<or> \<not> avail (n * 10) then None else Some (replicate n blank_token))"

definition json_parse_stop :: "jobj \<Rightarrow> jobj option" where
  "json_parse_stop j =
     (case j_tokens j of
        None \<Rightarrow> Some j
      | Some ts \<Rightarrow> if j_freed j then None else Some (j\<lparr>j_freed := True\<rparr>))"

definition json_parse_start :: "(nat \<Rightarrow> bool) \<Rightarrow> string \<Rightarrow> nat \<Rightarrow> (int \<times> jobj) option" where
  "json_parse_start avail js len = do {
     let j = json_obj_init None 0;
     (n, p, toks) \<leftarrow> jsmn_parse (j_parser j) js len None 0;
     let j = j\<lparr>j_parser := p\<rparr>;
     if n < 0 then Some (json_error n, j)
     else case os_mem_calloc avail (nat n) of
       None \<Rightarrow> Some (- WM_E_JSON_NOMEM, j)
     | Some ts \<Rightarrow> do {
         (ret, j) \<leftarrow> json_init (Some ts) (nat n) js len;
         if ret \<noteq> SYS_OK then do { j \<leftarrow> json_parse_stop j; Some (ret, j) } else Some (ret, j) }}"

end
