(* ===== verification/Jsmn_Tree.thy ===== *)
theory Jsmn_Tree
  imports Jsmn
begin

text \<open>
  The tokens form a forest in preorder: \<open>forest pf sf i par cs\<close> says that from index \<open>i\<close> on stand
  the trees \<open>cs\<close> below \<open>par\<close>, as the parent links \<open>pf\<close> and the child counts \<open>sf\<close> tell. The
  tokenizer only adds below a node of the rightmost path, which keeps the forest; so every index it
  and the lookups follow is that of a token.
\<close>

section \<open>Forests in preorder\<close>

datatype shape = Sh (kids: "shape list")

fun sz :: "shape \<Rightarrow> nat" where
  "sz (Sh cs) = Suc (sum_list (map sz cs))"

abbreviation szs :: "shape list \<Rightarrow> nat" where
  "szs cs \<equiv> sum_list (map sz cs)"

lemma sz_kids: "sz c = Suc (szs (kids c))"
  by (cases c) simp

lemma sz_pos [simp]: "0 < sz c"
  by (cases c) simp

lemma szs_eq_0 [simp]: "szs cs = 0 \<longleftrightarrow> cs = []"
  by (cases cs) simp_all

function tree :: "(nat \<Rightarrow> int) \<Rightarrow> (nat \<Rightarrow> int) \<Rightarrow> nat \<Rightarrow> int \<Rightarrow> shape \<Rightarrow> bool"
  and forest :: "(nat \<Rightarrow> int) \<Rightarrow> (nat \<Rightarrow> int) \<Rightarrow> nat \<Rightarrow> int \<Rightarrow> shape list \<Rightarrow> bool" where
  "tree pf sf i par (Sh cs) \<longleftrightarrow> pf i = par \<and> sf i = int (length cs) \<and> forest pf sf (Suc i) (int i) cs"
| "forest pf sf i par [] \<longleftrightarrow> True"
| "forest pf sf i par (c # cs) \<longleftrightarrow> tree pf sf i par c \<and> forest pf sf (i + sz c) par cs"
  by pat_completeness auto
termination
  by (relation "measure (\<lambda>x. case x of Inl (_, _, _, _, c) \<Rightarrow> 2 * sz c | Inr (_, _, _, _, cs) \<Rightarrow> Suc (2 * szs cs))")
    (auto simp: not_less)

lemma tree_kids: "tree pf sf i par c \<longleftrightarrow> pf i = par \<and> sf i = int (length (kids c)) \<and> forest pf sf (Suc i) (int i) (kids c)"
  by (cases c) simp

lemma tree_cong:
  "(\<And>j. i \<le> j \<Longrightarrow> j < i + sz c \<Longrightarrow> pf j = pf' j \<and> sf j = sf' j) \<Longrightarrow> tree pf sf i par c = tree pf' sf' i par c"
  "(\<And>j. i \<le> j \<Longrightarrow> j < i + szs cs \<Longrightarrow> pf j = pf' j \<and> sf j = sf' j) \<Longrightarrow> forest pf sf i par cs = forest pf' sf' i par cs"
proof (induction pf sf i par c and pf sf i par cs rule: tree_forest.induct)
  case (3 pf sf i par c cs)
  have "tree pf sf i par c = tree pf' sf' i par c" by (rule 3(1)) (use 3(3) in simp)
  moreover have "forest pf sf (i + sz c) par cs = forest pf' sf' (i + sz c) par cs" by (rule 3(2)) (use 3(3) in simp)
  ultimately show ?case by simp
qed simp_all

lemma forest_append: "forest pf sf i par (cs @ ds) \<longleftrightarrow> forest pf sf i par cs \<and> forest pf sf (i + szs cs) par ds"
  by (induction cs arbitrary: i) (simp_all add: add.assoc)

text \<open>The rightmost path, down from \<open>par\<close>.\<close>

function rpath :: "int \<Rightarrow> nat \<Rightarrow> shape list \<Rightarrow> int set" where
  "rpath par i [] = {par}"
| "rpath par i [c] = insert par (rpath (int i) (Suc i) (kids c))"
| "rpath par i (c # d # cs) = rpath par (i + sz c) (d # cs)"
  by pat_completeness auto
termination by (relation "measure (\<lambda>(_, _, cs). szs cs)") (auto simp: sz_kids)

lemma rpath_par [simp]: "par \<in> rpath par i cs"
  by (induction par i cs rule: rpath.induct) simp_all

lemma rpath_range: "s \<in> rpath par i cs \<Longrightarrow> s = par \<or> int i \<le> s \<and> s < int (i + szs cs)"
  by (induction par i cs rule: rpath.induct) (force simp: sz_kids)+

lemma rpath_last: "cs \<noteq> [] \<Longrightarrow> int (i + szs cs) - 1 \<in> rpath par i cs"
proof (induction par i cs rule: rpath.induct)
  case (2 par i c)
  show ?case
  proof (cases "kids c = []")
    case True
    then show ?thesis by (simp add: sz_kids)
  next
    case False
    then show ?thesis using 2 by (simp add: sz_kids [of c])
  qed
qed (simp_all add: add.assoc)

lemma rpath_parent:
  "forest pf sf i par cs \<Longrightarrow> par < int i \<Longrightarrow> s \<in> rpath par i cs \<Longrightarrow> s \<noteq> par \<Longrightarrow> pf (nat s) \<in> rpath par i cs \<and> pf (nat s) < s"
proof (induction par i cs rule: rpath.induct)
  case (2 par i c)
  have f: "pf i = par" "forest pf sf (Suc i) (int i) (kids c)" using 2(2) by (simp_all add: tree_kids)
  show ?case
  proof (cases "s = int i")
    case True
    then show ?thesis using f 2(3) by simp
  next
    case False
    then show ?thesis using 2(1) [OF f(2)] 2(4,5) by simp
  qed
qed auto

section \<open>Adding a node\<close>

function insert_under :: "int \<Rightarrow> nat \<Rightarrow> int \<Rightarrow> shape list \<Rightarrow> shape list" where
  "insert_under par i s [] = [Sh []]"
| "insert_under par i s [c] = (if s = par then [c, Sh []] else [Sh (insert_under (int i) (Suc i) s (kids c))])"
| "insert_under par i s (c # d # cs) = c # insert_under par (i + sz c) s (d # cs)"
  by pat_completeness auto
termination by (relation "measure (\<lambda>(_, _, _, cs). szs cs)") (auto simp: sz_kids)

lemma szs_insert_under: "szs (insert_under par i s cs) = Suc (szs cs)"
proof (induction par i s cs rule: insert_under.induct)
  case (2 par i s c)
  then show ?case by (simp add: sz_kids [of c])
qed simp_all

lemma insert_under_par: "insert_under par i par cs = cs @ [Sh []]"
  by (induction par i par cs rule: insert_under.induct) simp_all

lemma insert_under_not_Nil [simp]: "insert_under par i s cs \<noteq> []"
  by (induction par i s cs rule: insert_under.induct) simp_all

lemma rpath_Cons: "cs \<noteq> [] \<Longrightarrow> rpath par i (c # cs) = rpath par (i + sz c) cs"
  by (cases cs) simp_all

lemma rpath_insert_under:
  "s \<in> rpath par i cs \<Longrightarrow> {s, int (i + szs cs)} \<subseteq> rpath par i (insert_under par i s cs)"
proof (induction par i s cs rule: insert_under.induct)
  case (2 par i s c)
  then show ?case by (auto simp: sz_kids [of c])
next
  case (3 par i s c d cs)
  then show ?case by (simp add: rpath_Cons add.assoc)
qed simp_all

lemma length_insert_under: "s \<in> rpath par i cs \<Longrightarrow> s \<noteq> par \<Longrightarrow> length (insert_under par i s cs) = length cs"
  by (induction par i s cs rule: insert_under.induct) simp_all

lemma forest_insert_under:
  assumes "forest pf sf i par cs" and "s \<in> rpath par i cs" and "par < int i" and "-1 \<le> par"
  shows "forest (pf(i + szs cs := s)) (if s = par then sf(i + szs cs := 0) else sf(i + szs cs := 0, nat s := sf (nat s) + 1))
    i par (insert_under par i s cs)"
  using assms
proof (induction par i s cs rule: insert_under.induct)
  case (1 par i s)
  then show ?case by simp
next
  case (2 par i s c)
  let ?n = "i + sz c"
  have c: "pf i = par" "sf i = int (length (kids c))" "forest pf sf (Suc i) (int i) (kids c)" using 2(2) by (simp_all add: tree_kids)
  show ?case
  proof (cases "s = par")
    case True
    have "tree (pf(?n := s)) (sf(?n := 0)) i par c = tree pf sf i par c" by (rule tree_cong) simp
    then show ?thesis using True 2(2) by (simp add: fun_upd_def)
  next
    case False
    then have s: "s \<in> rpath (int i) (Suc i) (kids c)" using 2(3) by simp
    have n: "Suc i + szs (kids c) = ?n" by (simp add: sz_kids [of c])
    let ?ins = "insert_under (int i) (Suc i) s (kids c)" and ?pf = "pf(?n := s)"
    have f: "forest ?pf (if s = int i then sf(?n := 0) else sf(?n := 0, nat s := sf (nat s) + 1)) (Suc i) (int i) ?ins"
      by (rule 2(1) [OF False c(3) s, unfolded n]) simp_all
    have ne: "i \<noteq> ?n" by simp
    show ?thesis
    proof (cases "s = int i")
      case True
      have "forest ?pf (sf(?n := 0, nat s := sf (nat s) + 1)) (Suc i) (int i) ?ins = forest ?pf (sf(?n := 0)) (Suc i) (int i) ?ins"
        by (rule tree_cong) (simp add: True)
      then have "forest ?pf (sf(?n := 0, nat s := sf (nat s) + 1)) (Suc i) (int i) ?ins" using f True by simp
      then show ?thesis using False True c(1,2) ne by (simp add: insert_under_par fun_upd_def)
    next
      case neq: False
      then have "nat s \<noteq> i" using rpath_range [OF s] neq by linarith
      moreover have "length ?ins = length (kids c)" by (rule length_insert_under [OF s neq])
      ultimately show ?thesis using False neq c(1,2) ne f by (simp add: fun_upd_def)
    qed
  qed
next
  case (3 par i s c d cs)
  let ?n = "i + sz c + szs (d # cs)"
  have s: "s \<in> rpath par (i + sz c) (d # cs)" using 3(3) by simp
  have n: "i + szs (c # d # cs) = ?n" by simp
  let ?sf = "if s = par then sf(?n := 0) else sf(?n := 0, nat s := sf (nat s) + 1)"
  have "tree (pf(?n := s)) ?sf i par c = tree pf sf i par c"
    by (rule tree_cong) (use rpath_range [OF s] in auto)
  moreover have "forest (pf(?n := s)) ?sf (i + sz c) par (insert_under par (i + sz c) s (d # cs))"
    by (rule 3(1)) (use 3(2,4,5) s in simp_all)
  moreover have "tree pf sf i par c" using 3(2) by simp
  ultimately show ?case by (simp only: n insert_under.simps forest.simps)
qed

section \<open>The tokens of a run\<close>

definition token_forest :: "jsmntok list \<Rightarrow> shape list \<Rightarrow> bool" where
  "token_forest ts F \<longleftrightarrow> forest (\<lambda>i. tok_parent (ts ! i)) (\<lambda>i. tok_size (ts ! i)) 0 (-1) F"

definition jwf :: "nat \<Rightarrow> jsmntok list \<Rightarrow> jsmn_parser \<Rightarrow> bool" where
  "jwf num ts p \<longleftrightarrow> p_toknext p \<le> num \<and> num \<le> length ts \<and>
     (\<exists>F. token_forest ts F \<and> szs F = p_toknext p \<and> p_toksuper p \<in> rpath (-1) 0 F)"

lemma jwf_init: "num \<le> length ts \<Longrightarrow> jwf num ts jsmn_init"
  by (simp add: jwf_def jsmn_init_def token_forest_def exI [of _ "[]"])

lemma jwf_super: "jwf num ts p \<Longrightarrow> p_toksuper p = -1 \<or> 0 \<le> p_toksuper p \<and> p_toksuper p < int (p_toknext p)"
  unfolding jwf_def by (auto dest!: rpath_range)

lemma token_forest_cong:
  "\<forall>i < szs F. tok_parent (ts' ! i) = tok_parent (ts ! i) \<and> tok_size (ts' ! i) = tok_size (ts ! i) \<Longrightarrow>
   token_forest ts' F = token_forest ts F"
  unfolding token_forest_def by (rule tree_cong) simp

lemma jwf_cong:
  assumes "jwf num ts p" and "length ts' = length ts" and "p_toknext p' = p_toknext p" and "p_toksuper p' = p_toksuper p"
    and "\<forall>i < p_toknext p. tok_parent (ts' ! i) = tok_parent (ts ! i) \<and> tok_size (ts' ! i) = tok_size (ts ! i)"
  shows "jwf num ts' p'"
  using assms token_forest_cong [of _ ts' ts] unfolding jwf_def by metis

lemma jwf_add:
  assumes "jwf num ts p" and "p_toknext p < num" and "length ts' = length ts" and "n = p_toknext p" and "s = p_toksuper p"
    and "\<forall>i < n. tok_parent (ts' ! i) = tok_parent (ts ! i)" and "tok_parent (ts' ! n) = s" and "tok_size (ts' ! n) = 0"
    and "\<forall>i < n. tok_size (ts' ! i) = (if int i = s then tok_size (ts ! i) + 1 else tok_size (ts ! i))"
    and "p_toknext p' = Suc n" and "p_toksuper p' = s \<or> p_toksuper p' = int n"
  shows "jwf num ts' p'"
proof -
  obtain F where F: "token_forest ts F" "szs F = n" "s \<in> rpath (-1) 0 F" using assms(1,4,5) by (auto simp: jwf_def)
  let ?F = "insert_under (-1) 0 s F"
  let ?pf = "\<lambda>i. tok_parent (ts ! i)" and ?sf = "\<lambda>i. tok_size (ts ! i)"
  have s: "s = -1 \<or> 0 \<le> s \<and> s < int n" using rpath_range [OF F(3)] F(2) by auto
  have "forest (?pf(0 + szs F := s)) (if s = -1 then ?sf(0 + szs F := 0) else ?sf(0 + szs F := 0, nat s := ?sf (nat s) + 1)) 0 (-1) ?F"
    by (rule forest_insert_under) (use F in \<open>simp_all add: token_forest_def\<close>)
  also have "forest (?pf(0 + szs F := s)) (if s = -1 then ?sf(0 + szs F := 0) else ?sf(0 + szs F := 0, nat s := ?sf (nat s) + 1)) 0 (-1) ?F
      = token_forest ts' ?F"
    unfolding token_forest_def
  proof (rule tree_cong)
    fix j assume "j < 0 + szs ?F"
    then have "j < n \<or> j = n" using F(2) by (auto simp: szs_insert_under)
    moreover have "s \<noteq> -1 \<Longrightarrow> (j = nat s) = (int j = s)" "s \<noteq> -1 \<Longrightarrow> nat s < n" using s by auto
    ultimately show "(?pf(0 + szs F := s)) j = tok_parent (ts' ! j) \<and>
        (if s = -1 then ?sf(0 + szs F := 0) else ?sf(0 + szs F := 0, nat s := ?sf (nat s) + 1)) j = tok_size (ts' ! j)"
      using F(2) assms(6-9) by (elim disjE) auto
  qed
  finally show ?thesis
    using assms(1-3,10,11) assms(4) F(2) rpath_insert_under [OF F(3)] unfolding jwf_def
    by (intro conjI exI [of _ ?F]) (auto simp: szs_insert_under)
qed

text \<open>Fewer children than tokens.\<close>

lemma size_below:
  "tree pf sf i par c \<Longrightarrow> i \<le> j \<Longrightarrow> j < i + sz c \<Longrightarrow> 0 \<le> sf j \<and> sf j < int (sz c)"
  "forest pf sf i par cs \<Longrightarrow> i \<le> j \<Longrightarrow> j < i + szs cs \<Longrightarrow> 0 \<le> sf j \<and> sf j < int (szs cs)"
proof (induction pf sf i par c and pf sf i par cs rule: tree_forest.induct)
  case (1 pf sf i par cs)
  have "length cs \<le> szs cs"
  proof (induction cs)
    case (Cons c cs)
    then show ?case by (simp add: sz_kids [of c])
  qed simp
  moreover have "0 \<le> sf j \<and> sf j < int (szs cs)" if "j \<noteq> i" using 1 that by simp
  ultimately show ?case using 1(2) by (cases "j = i") auto
next
  case (3 pf sf i par c cs)
  have "0 \<le> sf j \<and> sf j < int (sz c)" if "j < i + sz c" using 3 that by simp
  moreover have "0 \<le> sf j \<and> sf j < int (szs cs)" if "\<not> j < i + sz c" using 3 that by simp
  ultimately show ?case by (cases "j < i + sz c") auto
qed simp

lemma jwf_size:
  "jwf num ts p \<Longrightarrow> i < p_toknext p \<Longrightarrow> 0 \<le> tok_size (ts ! i) \<and> tok_size (ts ! i) < int (p_toknext p)"
  unfolding jwf_def token_forest_def using size_below(2) [of _ _ 0 "-1" _ i] by fastforce

lemma jsmnindex_small [simp]: "-1 \<le> x \<Longrightarrow> x < 32768 \<Longrightarrow> jsmnindex x = x"
  unfolding jsmnindex_def by (rule signed_take_bit_int_eq_self) simp_all

lemma tok_get_Some [simp]: "i < length ts \<Longrightarrow> tok_get ts (int i) = Some (ts ! i)"
  by (simp add: tok_get_def)

lemma tok_upd_Some [simp]: "i < length ts \<Longrightarrow> tok_upd ts (int i) f = Some (ts[i := f (ts ! i)])"
  by (simp add: tok_upd_def)

text \<open>The walk to the innermost open token stays on the rightmost path.\<close>

lemma close_walk_path:
  assumes "token_forest ts F" and "szs F \<le> length ts" and "int k \<in> rpath (-1) 0 F"
  shows "returns (\<lambda>(r, super', ts'). (r = 0 \<or> r = JSMN_ERROR_INVAL) \<and> (super' = super \<or> super' \<in> rpath (-1) 0 F) \<and>
    length ts' = length ts \<and> (\<forall>i. tok_parent (ts' ! i) = tok_parent (ts ! i) \<and> tok_size (ts' ! i) = tok_size (ts ! i)))
    (close_walk type pos ts super (int k))"
  using assms(3)
proof (induction k rule: less_induct)
  case (less k)
  have k: "k < length ts" using rpath_range [OF less(2)] assms(2) by auto
  have up: "tok_parent (ts ! k) \<in> rpath (-1) 0 F" "tok_parent (ts ! k) < int k"
    using rpath_parent [OF assms(1) [unfolded token_forest_def] _ less(2)] by simp_all
  have same: "\<forall>i. tok_parent (ts[k := (ts ! k)\<lparr>tok_end := e\<rparr>] ! i) = tok_parent (ts ! i) \<and>
      tok_size (ts[k := (ts ! k)\<lparr>tok_end := e\<rparr>] ! i) = tok_size (ts ! i)" for e
    using k by (auto simp: nth_list_update)
  show ?case
  proof (cases "open_token (ts ! k) \<or> tok_parent (ts ! k) = -1")
    case True
    then show ?thesis
      using k up(1) same by (subst close_walk.simps) auto
  next
    case False
    then have "0 \<le> tok_parent (ts ! k)" using rpath_range [OF up(1)] by auto
    then obtain j where j: "tok_parent (ts ! k) = int j" by (metis nonneg_eq_int)
    then have "j < k" "int j \<in> rpath (-1) 0 F" using up by simp_all
    from less(1) [OF this] show ?thesis
      using False k j by (subst close_walk.simps) simp
  qed
qed

section \<open>Steps keep the forest\<close>

text \<open>The scans stay in the text.\<close>

lemma primitive_scan_returns:
  "len \<le> length js \<Longrightarrow> returns (\<lambda>r. case r of Inl e \<Rightarrow> e < 0 | Inr k \<Rightarrow> k < len) (primitive_scan js len i)"
proof (induction "len - i" arbitrary: i rule: less_induct)
  case less
  show ?case
    by (subst primitive_scan.simps) (use less in \<open>simp add: jsmnerr_defs\<close>)
qed

lemma hex_scan_returns:
  "len \<le> length js \<Longrightarrow> returns (\<lambda>r. case r of Inl e \<Rightarrow> e < 0 | Inr k \<Rightarrow> True) (hex_scan js len i n)"
  by (induction n arbitrary: i) (auto simp: jsmnerr_defs)

lemma string_scan_returns:
  "len \<le> length js \<Longrightarrow> returns (\<lambda>r. case r of Inl e \<Rightarrow> e < 0 | Inr k \<Rightarrow> k < len) (string_scan js len i)"
proof (induction "len - i" arbitrary: i rule: less_induct)
  case less
  obtain r where r: "hex_scan js len (i + 2) 4 = Some r" "case r of Inl e \<Rightarrow> e < 0 | Inr k \<Rightarrow> True"
    using hex_scan_returns [OF less(2)] by (rule returnsE)
  have two: "Suc i < len \<Longrightarrow> returns (\<lambda>r. case r of Inl e \<Rightarrow> e < 0 | Inr k \<Rightarrow> k < len) (string_scan js len (Suc (Suc i)))"
    using less(1) [OF _ less(2), of "Suc (Suc i)"] by simp
  show ?case
  proof (cases r)
    case (Inl e)
    then show ?thesis
      by (subst string_scan.simps) (use less r two in \<open>auto simp: jsmnerr_defs\<close>)
  next
    case (Inr k)
    then have "i + 2 \<le> k" using r by (auto dest: hex_scan_forward)
    with Inr show ?thesis
      by (subst string_scan.simps) (use less r two in \<open>auto simp: jsmnerr_defs\<close>)
  qed
qed

text \<open>What a step does to a forest, and that the count is that of the tokens.\<close>

definition step_ok :: "nat \<Rightarrow> jsmntok list \<Rightarrow> jsmn_parser \<Rightarrow> int \<Rightarrow> jsmn_state + jsmn_state \<Rightarrow> bool" where
  "step_ok num ts p count r \<longleftrightarrow>
     (case r of
        Inl (e, p', toks') \<Rightarrow> e < 0 \<and> (\<exists>ts'. toks' = Some ts' \<and> length ts' = length ts)
      | Inr (count', p', toks') \<Rightarrow> \<exists>ts'. toks' = Some ts' \<and> length ts' = length ts \<and> jwf num ts' p' \<and>
          count' = count + (int (p_toknext p') - int (p_toknext p)))"

lemma super_index:
  assumes "jwf num ts p" and "p_toksuper p \<noteq> -1"
  obtains s where "p_toksuper p = int s" and "s < p_toknext p"
  using jwf_super [OF assms(1)] assms(2) by (metis nonneg_eq_int of_nat_less_iff)

lemma open_step:
  assumes "jwf num ts p" and "num \<le> 32767"
  shows "returns (step_ok num ts p count) (jsmn_open ty count p (Some ts) num)"
proof (cases "num \<le> p_toknext p")
  case True
  then show ?thesis by (simp add: jsmn_open_def jsmn_alloc_token_def step_ok_def jsmnerr_defs)
next
  case False
  have n: "p_toknext p < num" "num \<le> length ts" using False assms(1) by (simp_all add: jwf_def)
  show ?thesis
  proof (cases "p_toksuper p = -1")
    case True
    then show ?thesis
      using n assms jwf_add [OF assms(1) n(1) _ refl refl]
      by (simp add: jsmn_open_def jsmn_alloc_token_def step_ok_def)
  next
    case super: False
    then obtain s where s: "p_toksuper p = int s" "s < p_toknext p" using super_index [OF assms(1)] by blast
    then have "0 \<le> tok_size (ts ! s)" "tok_size (ts ! s) < 32766" using jwf_size [OF assms(1) s(2)] n assms(2) by auto
    then show ?thesis
      using n assms s jwf_add [OF assms(1) n(1) _ refl refl]
      by (simp add: jsmn_open_def jsmn_alloc_token_def step_ok_def grow_def nth_list_update)
  qed
qed

lemma close_step:
  assumes "jwf num ts p"
  shows "returns (step_ok num ts p count) (jsmn_close ty count p (Some ts))"
proof (cases "p_toknext p < 1")
  case True
  then show ?thesis by (simp add: jsmn_close_def step_ok_def jsmnerr_defs)
next
  case False
  obtain F where F: "token_forest ts F" "szs F = p_toknext p" "p_toksuper p \<in> rpath (-1) 0 F" using assms by (auto simp: jwf_def)
  have "F \<noteq> []" using False F(2) by auto
  then have last: "int (p_toknext p - 1) \<in> rpath (-1) 0 F" using rpath_last [of F 0 "-1"] F(2) False by (simp add: of_nat_diff)
  have "szs F \<le> length ts" using assms F(2) by (simp add: jwf_def)
  from close_walk_path [OF F(1) this last, where type = ty and pos = "p_pos p" and super = "p_toksuper p"]
  obtain r super' ts' where w: "close_walk ty (p_pos p) ts (p_toksuper p) (int (p_toknext p - 1)) = Some (r, super', ts')"
      "r = 0 \<or> r = JSMN_ERROR_INVAL" "super' = p_toksuper p \<or> super' \<in> rpath (-1) 0 F" "length ts' = length ts"
      "\<forall>i. tok_parent (ts' ! i) = tok_parent (ts ! i) \<and> tok_size (ts' ! i) = tok_size (ts ! i)"
    by (auto elim: returnsE)
  have "token_forest ts' F" using token_forest_cong [of F ts' ts] F(1) w(5) by simp
  then have "jwf num ts' (p\<lparr>p_toksuper := super'\<rparr>)"
    using assms F(2,3) w(3,4) unfolding jwf_def by auto
  then show ?thesis
    using False w(1,2,4) by (auto simp: jsmn_close_def step_ok_def of_nat_diff jsmnerr_defs)
qed

lemma counted_step:
  assumes "jwf num ts p" and "num \<le> 32767"
  shows "returns (step_ok num ts p count) (jsmn_counted count (jsmn_token ty st en pos p (Some ts) num))"
proof (cases "num \<le> p_toknext p")
  case True
  then show ?thesis by (simp add: jsmn_counted_def jsmn_token_def jsmn_alloc_token_def step_ok_def jsmnerr_defs)
next
  case False
  have n: "p_toknext p < num" "num \<le> length ts" using False assms(1) by (simp_all add: jwf_def)
  show ?thesis
  proof (cases "p_toksuper p = -1")
    case True
    then show ?thesis
      using n assms jwf_add [OF assms(1) n(1) _ refl refl]
      by (simp add: jsmn_counted_def jsmn_token_def jsmn_alloc_token_def jsmn_fill_token_def step_ok_def)
  next
    case super: False
    then obtain s where s: "p_toksuper p = int s" "s < p_toknext p" using super_index [OF assms(1)] by blast
    then have "0 \<le> tok_size (ts ! s)" "tok_size (ts ! s) < 32766" using jwf_size [OF assms(1) s(2)] n assms(2) by auto
    then show ?thesis
      using n assms s jwf_add [OF assms(1) n(1) _ refl refl]
      by (simp add: jsmn_counted_def jsmn_token_def jsmn_alloc_token_def jsmn_fill_token_def step_ok_def grow_def nth_list_update)
  qed
qed

lemma counted_error: "r < 0 \<Longrightarrow> returns (step_ok num ts p count) (jsmn_counted count (Some (r, q, Some ts)))"
  by (simp add: jsmn_counted_def step_ok_def)

lemma string_step:
  assumes "jwf num ts p" and "num \<le> 32767" and "len \<le> length js"
  shows "returns (step_ok num ts p count) (jsmn_counted count (jsmn_parse_string p js len (Some ts) num))"
  using string_scan_returns [OF assms(3), of "p_pos p + 1"] counted_error counted_step [OF assms(1,2)]
  by (auto simp: jsmn_parse_string_def split: sum.splits elim!: returnsE)

lemma primitive_step:
  assumes "jwf num ts p" and "num \<le> 32767" and "len \<le> length js"
  shows "returns (step_ok num ts p count) (jsmn_counted count (jsmn_parse_primitive p js len (Some ts) num))"
  using primitive_scan_returns [OF assms(3), of "p_pos p"] counted_error counted_step [OF assms(1,2)]
  by (auto simp: jsmn_parse_primitive_def split: sum.splits elim!: returnsE)

lemma colon_step:
  assumes "jwf num ts p"
  shows "jwf num ts (p\<lparr>p_toksuper := int (p_toknext p) - 1\<rparr>)"
proof -
  obtain F where F: "token_forest ts F" "szs F = p_toknext p" using assms by (auto simp: jwf_def)
  have "int (p_toknext p) - 1 \<in> rpath (-1) 0 F"
  proof (cases "F = []")
    case False
    then show ?thesis using rpath_last [of F 0 "-1"] F(2) by simp
  qed (use F(2) in simp)
  then show ?thesis using assms F unfolding jwf_def by auto
qed

lemma comma_step:
  assumes "jwf num ts p"
  shows "returns (\<lambda>p'. jwf num ts p' \<and> p_toknext p' = p_toknext p) (jsmn_comma p (Some ts))"
proof (cases "p_toksuper p = -1")
  case False
  then obtain s where s: "p_toksuper p = int s" "s < p_toknext p" using super_index [OF assms] by blast
  obtain F where F: "token_forest ts F" "szs F = p_toknext p" "int s \<in> rpath (-1) 0 F" using assms s by (auto simp: jwf_def)
  have "tok_parent (ts ! s) \<in> rpath (-1) 0 F"
    using rpath_parent [OF F(1) [unfolded token_forest_def] _ F(3)] by simp
  then show ?thesis using assms F s by (auto simp: jsmn_comma_def jwf_def)
qed (simp add: jsmn_comma_def assms)

lemma allowed_step:
  assumes "jwf num ts p"
  shows "returns (\<lambda>ok. True) (primitive_allowed p (Some ts))"
proof (cases "p_toksuper p = -1")
  case False
  then obtain s where s: "p_toksuper p = int s" "s < p_toknext p" using super_index [OF assms] by blast
  then show ?thesis using assms by (simp add: primitive_allowed_def jwf_def)
qed (simp add: primitive_allowed_def)

lemma jsmn_step_ok:
  assumes "jwf num ts p" and "num \<le> 32767" and "len \<le> length js"
  shows "returns (step_ok num ts p count) (jsmn_step c js len num (count, p, Some ts))"
proof -
  have "returns (step_ok num ts p count) (do { p \<leftarrow> jsmn_comma p (Some ts); Some (Inr (count, p, Some ts)) })"
    by (rule returns_bind [OF comma_step [OF assms(1)]]) (simp add: step_ok_def)
  moreover have "returns (step_ok num ts p count) (do {
       ok \<leftarrow> primitive_allowed p (Some ts);
       if ok then jsmn_counted count (jsmn_parse_primitive p js len (Some ts) num) else Some (Inl (JSMN_ERROR_INVAL, p, Some ts)) })"
    by (rule returns_bind [OF allowed_step [OF assms(1)]]) (use primitive_step [OF assms] in \<open>simp add: step_ok_def jsmnerr_defs\<close>)
  moreover have "step_ok num ts p count (Inr (count, p, Some ts))"
      "step_ok num ts p count (Inr (count, p\<lparr>p_toksuper := int (p_toknext p) - 1\<rparr>, Some ts))"
      "step_ok num ts p count (Inl (JSMN_ERROR_INVAL, p, Some ts))"
    using assms(1) colon_step [OF assms(1)] by (simp_all add: step_ok_def jsmnerr_defs)
  ultimately show ?thesis
    using open_step [OF assms(1,2)] close_step [OF assms(1)] string_step [OF assms]
    by (simp add: jsmn_step_def)
qed

lemma jwf_pos: "jwf num ts p \<Longrightarrow> jwf num ts (p\<lparr>p_pos := i\<rparr>)"
  by (simp add: jwf_def)

lemma jsmn_loop_ok:
  assumes "jwf num ts p" and "num \<le> 32767" and "len \<le> length js"
  shows "returns (step_ok num ts p count) (jsmn_loop js len num (count, p, Some ts))"
  using assms(1)
proof (induction "len - p_pos p" arbitrary: count p ts rule: less_induct)
  case less
  have stop: "step_ok num ts p count (Inr (count, p, Some ts))" using less(2) by (simp add: step_ok_def)
  show ?case
  proof (cases "p_pos p < len \<and> js ! p_pos p \<noteq> NUL")
    case False
    then show ?thesis using stop assms(3) by (subst jsmn_loop.simps) auto
  next
    case True
    then have at: "arr_get js (p_pos p) = Some (js ! p_pos p)" using assms(3) by simp
    obtain r where r: "jsmn_step (js ! p_pos p) js len num (count, p, Some ts) = Some r" "step_ok num ts p count r"
      using jsmn_step_ok [OF less(2) assms(2,3)] by (rule returnsE)
    show ?thesis
    proof (cases r)
      case (Inl e)
      then show ?thesis using True at r by (subst jsmn_loop.simps) simp
    next
      case (Inr st)
      then obtain count' p' ts' where st: "r = Inr (count', p', Some ts')" "length ts' = length ts" "jwf num ts' p'"
          "count' = count + (int (p_toknext p') - int (p_toknext p))"
        using r(2) by (cases st) (auto simp: step_ok_def)
      have "p_pos p \<le> p_pos p'" using jsmn_step_forward [OF r(1) [unfolded st(1)] at] .
      then have "returns (step_ok num ts' (p'\<lparr>p_pos := p_pos p' + 1\<rparr>) count')
          (jsmn_loop js len num (count', p'\<lparr>p_pos := p_pos p' + 1\<rparr>, Some ts'))"
        using True jwf_pos [OF st(3)] by (intro less(1)) auto
      then have "returns (step_ok num ts p count) (jsmn_loop js len num (count', p'\<lparr>p_pos := p_pos p' + 1\<rparr>, Some ts'))"
        by (rule returns_weaken) (use st in \<open>auto simp: step_ok_def split: sum.splits\<close>)
      then show ?thesis using True at r(1) st(1) by (subst jsmn_loop.simps) simp
    qed
  qed
qed

text \<open>The whole parser on any text: it stays within text and tokens, and what it accepts is a closed forest.\<close>

definition parsed :: "nat \<Rightarrow> nat \<Rightarrow> jsmn_state \<Rightarrow> bool" where
  "parsed num n = (\<lambda>(r, p, toks). \<exists>ts. toks = Some ts \<and> length ts = n \<and>
     (0 \<le> r \<longrightarrow> jwf num ts p \<and> r = int (p_toknext p) \<and> (\<forall>i < p_toknext p. \<not> open_token (ts ! i))))"

lemma jsmn_parse_ok:
  assumes "num \<le> length ts" and "num \<le> 32767" and "len \<le> length js"
  shows "returns (parsed num (length ts)) (jsmn_parse jsmn_init js len (Some ts) num)"
proof -
  obtain r where r: "jsmn_loop js len num (0, jsmn_init, Some ts) = Some r" "step_ok num ts jsmn_init 0 r"
    using jsmn_loop_ok [OF jwf_init [OF assms(1)] assms(2,3)] by (rule returnsE)
  show ?thesis
  proof (cases r)
    case (Inl e)
    then show ?thesis using r by (cases e) (auto simp: jsmn_parse_def parsed_def step_ok_def jsmn_init_def)
  next
    case (Inr st)
    then obtain p' ts' where st: "r = Inr (int (p_toknext p'), p', Some ts')" "length ts' = length ts" "jwf num ts' p'"
      using r(2) by (cases st) (auto simp: step_ok_def jsmn_init_def)
    have le: "p_toknext p' \<le> length ts'" using st(3) by (simp add: jwf_def)
    then have "(\<exists>t \<in> set (take (p_toknext p') ts'). open_token t) \<longleftrightarrow> (\<exists>i < p_toknext p'. open_token (ts' ! i))"
      by (simp add: nth_image [symmetric]) auto
    then show ?thesis
      using r(1) st le by (auto simp: jsmn_parse_def parsed_def jsmn_init_def jsmnerr_defs)
  qed
qed

end
