(* ===== verification/Json_Safety.thy ===== *)
theory Json_Safety
  imports Json_Parser Jsmn_Tree
begin

text \<open>
  What holds of the JSON parser for every text: the two passes agree on the number of tokens,
  and after a successful start no lookup leaves the token array or the text.
\<close>

section \<open>The counting pass\<close>

lemma counting_step:
  assumes "len \<le> length js"
  shows "returns (\<lambda>r. case r of Inl (e, p', t') \<Rightarrow> e < 0 | Inr (count', p', t') \<Rightarrow> t' = None \<and> (count' = count \<or> count' = count + 1))
    (jsmn_step c js len 0 (count, p, None))"
proof -
  obtain r1 where r1: "string_scan js len (Suc (p_pos p)) = Some r1" "case r1 of Inl e \<Rightarrow> e < 0 | Inr k \<Rightarrow> k < len"
    using string_scan_returns [OF assms] by (rule returnsE)
  obtain r2 where r2: "primitive_scan js len (p_pos p) = Some r2" "case r2 of Inl e \<Rightarrow> e < 0 | Inr k \<Rightarrow> k < len"
    using primitive_scan_returns [OF assms] by (rule returnsE)
  show ?thesis
    using r1 r2
    by (auto simp: jsmn_step_def jsmn_open_def jsmn_close_def jsmn_comma_def primitive_allowed_def jsmn_counted_def
        jsmn_parse_string_def jsmn_parse_primitive_def jsmn_token_def jsmnerr_defs split: sum.splits)
qed

lemma counting_loop:
  assumes "len \<le> length js"
  shows "returns (\<lambda>r. case r of Inl (e, q, t) \<Rightarrow> e < 0 | Inr (n, q, t) \<Rightarrow> count \<le> n \<and> n \<le> count + int (len - p_pos p) \<and> t = None)
    (jsmn_loop js len 0 (count, p, None))"
proof (induction "len - p_pos p" arbitrary: count p rule: less_induct)
  case less
  show ?case
  proof (cases "p_pos p < len \<and> js ! p_pos p \<noteq> NUL")
    case False
    then show ?thesis using assms by (subst jsmn_loop.simps) auto
  next
    case True
    let ?c = "js ! p_pos p"
    have at: "arr_get js (p_pos p) = Some ?c" using True assms by simp
    obtain r where r: "jsmn_step ?c js len 0 (count, p, None) = Some r"
        "case r of Inl (e, p', t') \<Rightarrow> e < 0 | Inr (count', p', t') \<Rightarrow> t' = None \<and> (count' = count \<or> count' = count + 1)"
      using counting_step [OF assms] by (rule returnsE)
    show ?thesis
    proof (cases r)
      case (Inl e)
      then show ?thesis using True at r by (subst jsmn_loop.simps) simp
    next
      case (Inr st)
      then obtain count' p' where st: "r = Inr (count', p', None)" "count' = count \<or> count' = count + 1"
        using r(2) by (cases st) auto
      have "p_pos p \<le> p_pos p'" by (rule jsmn_step_forward [OF r(1) [unfolded st(1)] at])
      then have "returns (\<lambda>r. case r of Inl (e, q, t) \<Rightarrow> e < 0 | Inr (n, q, t) \<Rightarrow> count \<le> n \<and> n \<le> count + int (len - p_pos p) \<and> t = None)
          (jsmn_loop js len 0 (count', p'\<lparr>p_pos := p_pos p' + 1\<rparr>, None))"
        using True st(2) by (intro returns_weaken [OF less]) (auto split: sum.splits)
      moreover have "jsmn_loop js len 0 (count, p, None) = jsmn_loop js len 0 (count', p'\<lparr>p_pos := p_pos p' + 1\<rparr>, None)"
        using True at r(1) st(1) by (subst jsmn_loop.simps) simp
      ultimately show ?thesis by (simp only:)
    qed
  qed
qed

lemma counting_loop_forward:
  "jsmn_loop js len 0 (count, p, None) = Some (Inr (n, q, t)) \<Longrightarrow> len \<le> length js \<Longrightarrow>
   count \<le> n \<and> n \<le> count + int (len - p_pos p) \<and> t = None"
  by (drule counting_loop [of len js count p, THEN returnsD, rotated]) simp_all

lemma close_walk_code:
  assumes "close_walk ty pos ts super k = Some y"
  shows "fst y = 0 \<or> fst y = JSMN_ERROR_INVAL"
proof (rule close_walk.raw_induct [where P = "\<lambda>ty pos ts super k y. fst y = 0 \<or> fst y = JSMN_ERROR_INVAL", OF _ assms])
  fix f ty pos ts super k y
  assume IH: "\<And>ty pos ts super k y. f ty pos ts super k = Some y \<Longrightarrow> fst y = 0 \<or> fst y = JSMN_ERROR_INVAL"
    and eq: "do {
     t \<leftarrow> tok_get ts k;
     if open_token t then
       (if tok_type t \<noteq> ty then Some (JSMN_ERROR_INVAL, super, ts)
        else do { ts \<leftarrow> tok_upd ts k (\<lambda>t. t\<lparr>tok_end := jsmnindex (int pos + 1)\<rparr>); Some (0, tok_parent t, ts) })
     else if tok_parent t = -1 then Some (0, super, ts)
     else f ty pos ts super (tok_parent t) } = Some y"
  show "fst y = 0 \<or> fst y = JSMN_ERROR_INVAL"
    using eq by (auto split: if_splits bind_splits dest: IH)
qed

lemma step_sim:
  assumes "jsmn_step c js len 0 (count, p1, None) = Some (Inr (count1, p1', t1))"
    and "jsmn_step c js len num (count, p2, Some ts) = Some r"
    and "p_pos p2 = p_pos p1" and "count1 = count + 1 \<Longrightarrow> p_toknext p2 < num"
  shows "case r of Inl (e, p, t) \<Rightarrow> e \<noteq> JSMN_ERROR_NOMEM | Inr (count2, p2', t) \<Rightarrow> count2 = count1 \<and> p_pos p2' = p_pos p1'"
proof -
  consider "c = CHR ''{''" | "c = CHR ''[''" | "c = CHR ''}''" | "c = CHR '']''" | "c = QUOTE" | "is_ws c" | "c = CHR '':''" | "c = CHR '',''"
    | "prim_start c" "c \<noteq> CHR ''{''" "c \<noteq> CHR ''[''" "c \<noteq> CHR ''}''" "c \<noteq> CHR '']''" "c \<noteq> QUOTE" "\<not> is_ws c" "c \<noteq> CHR '':''" "c \<noteq> CHR '',''"
    using assms(1) by (auto simp: jsmn_step_def split: if_splits)
  then show ?thesis
  proof cases
    case 1
    then show ?thesis
      using assms by (auto simp: jsmn_step_def jsmn_open_def jsmn_alloc_token_def split: if_splits bind_splits)
  next
    case 2
    then show ?thesis
      using assms by (auto simp: jsmn_step_def jsmn_open_def jsmn_alloc_token_def split: if_splits bind_splits)
  next
    case 3
    then show ?thesis
      using assms by (auto simp: jsmn_step_def jsmn_close_def jsmnerr_defs split: if_splits bind_splits dest!: close_walk_code)
  next
    case 4
    then show ?thesis
      using assms by (auto simp: jsmn_step_def jsmn_close_def jsmnerr_defs split: if_splits bind_splits dest!: close_walk_code)
  next
    case 5
    then show ?thesis
      using assms by (auto simp: jsmn_step_def jsmn_counted_def jsmn_parse_string_def jsmn_token_def jsmn_alloc_token_def jsmnerr_defs
          split: if_splits bind_splits sum.splits)
  next
    case 6
    then show ?thesis
      using assms by (auto simp: jsmn_step_def is_ws_def)
  next
    case 7
    then show ?thesis
      using assms by (auto simp: jsmn_step_def is_ws_def)
  next
    case 8
    then show ?thesis
      using assms by (auto simp: jsmn_step_def is_ws_def jsmn_comma_def split: if_splits bind_splits)
  next
    case 9
    then show ?thesis
      using assms by (auto simp: jsmn_step_def primitive_allowed_def jsmn_counted_def jsmn_parse_primitive_def jsmn_token_def
          jsmn_alloc_token_def jsmnerr_defs split: if_splits bind_splits sum.splits)
  qed
qed

lemma two_pass_loop:
  assumes "jsmn_loop js len 0 (count, p1, None) = Some (Inr (n, q, None))" and "jwf num ts p2" and "n \<le> int num"
    and "count = int (p_toknext p2)" and "p_pos p2 = p_pos p1" and "num \<le> 32767" and "len \<le> length js"
  shows "returns (\<lambda>r. case r of Inl (e, p, t) \<Rightarrow> e \<noteq> JSMN_ERROR_NOMEM | Inr (c, p, t) \<Rightarrow> c = n)
    (jsmn_loop js len num (count, p2, Some ts))"
  using assms(1,2,4,5)
proof (induction "len - p_pos p1" arbitrary: count p1 ts p2 rule: less_induct)
  case less
  show ?case
  proof (cases "p_pos p1 < len \<and> js ! p_pos p1 \<noteq> NUL")
    case False
    then show ?thesis
      using less(2,5) assms(7) by (subst jsmn_loop.simps, subst (asm) jsmn_loop.simps) (auto split: if_splits)
  next
    case True
    let ?c = "js ! p_pos p1"
    have at: "arr_get js (p_pos p1) = Some ?c" using True assms(7) by simp
    obtain count1 p1' t1 where s1: "jsmn_step ?c js len 0 (count, p1, None) = Some (Inr (count1, p1', t1))"
        "jsmn_loop js len 0 (count1, p1'\<lparr>p_pos := p_pos p1' + 1\<rparr>, t1) = Some (Inr (n, q, None))"
      using less(2) True at by (subst (asm) jsmn_loop.simps) (auto split: bind_splits sum.splits)
    have t1: "t1 = None" using returnsD [OF counting_step [OF assms(7)] s1(1)] by simp
    have forward: "p_pos p1 \<le> p_pos p1'" by (rule jsmn_step_forward [OF s1(1) at])
    have "count1 \<le> n" using counting_loop_forward [OF s1(2) [unfolded t1] assms(7)] by simp
    then have room: "count1 = count + 1 \<Longrightarrow> p_toknext p2 < num" using assms(3) less(4) by simp
    obtain r where r: "jsmn_step ?c js len num (count, p2, Some ts) = Some r" "step_ok num ts p2 count r"
      using jsmn_step_ok [OF less(3) assms(6,7)] by (rule returnsE)
    note sim = step_sim [OF s1(1) r(1) less(5) room]
    show ?thesis
    proof (cases r)
      case (Inl e)
      then show ?thesis using True at less(5) r(1) sim by (subst jsmn_loop.simps) simp
    next
      case (Inr st)
      then obtain p2' ts' where st: "r = Inr (count1, p2', Some ts')" "jwf num ts' p2'" "p_pos p2' = p_pos p1'"
          "count1 = int (p_toknext p2')"
        using r(2) sim less(4) by (cases st) (auto simp: step_ok_def)
      have "returns (\<lambda>r. case r of Inl (e, p, t) \<Rightarrow> e \<noteq> JSMN_ERROR_NOMEM | Inr (c, p, t) \<Rightarrow> c = n)
          (jsmn_loop js len num (count1, p2'\<lparr>p_pos := p_pos p2' + 1\<rparr>, Some ts'))"
        by (rule less(1) [OF _ s1(2) [unfolded t1]]) (use True forward st jwf_pos [OF st(2)] in auto)
      then show ?thesis using True at less(5) r(1) st(1) by (subst jsmn_loop.simps) simp
    qed
  qed
qed

text \<open>
  The counting pass yields an error or the number of tokens, and the second pass with room for
  that many yields the same number or finds the text malformed: it never runs out of tokens.
\<close>

lemma counting_parse:
  assumes "len \<le> length js"
  shows "returns (\<lambda>(n, p, t). n < 0 \<or> n \<le> int len \<and> t = None \<and> jsmn_loop js len 0 (0, jsmn_init, None) = Some (Inr (n, p, None)))
    (jsmn_parse jsmn_init js len None 0)"
proof -
  obtain r where r: "jsmn_loop js len 0 (0, jsmn_init, None) = Some r"
      "case r of Inl (e, q, t) \<Rightarrow> e < 0 | Inr (n, q, t) \<Rightarrow> 0 \<le> n \<and> n \<le> 0 + int (len - p_pos jsmn_init) \<and> t = None"
    using counting_loop [OF assms] by (rule returnsE)
  have i: "p_toknext jsmn_init = 0" "p_pos jsmn_init = 0" by (simp_all add: jsmn_init_def)
  show ?thesis
    using r unfolding jsmn_parse_def i by (cases r) auto
qed

lemma two_passes:
  assumes "jsmn_loop js len 0 (0, jsmn_init, None) = Some (Inr (n, p, None))" and "len \<le> length js" and "n \<le> 32767" and "0 \<le> n"
  shows "returns (\<lambda>(r, p, toks). (r = n \<or> r < 0 \<and> r \<noteq> JSMN_ERROR_NOMEM) \<and> parsed (nat n) (nat n) (r, p, toks))
    (jsmn_parse jsmn_init js len (Some (replicate (nat n) blank_token)) (nat n))"
proof -
  let ?ts = "replicate (nat n) blank_token"
  have num: "nat n \<le> length ?ts" "nat n \<le> 32767" using assms(3) by simp_all
  obtain r where r: "jsmn_parse jsmn_init js len (Some ?ts) (nat n) = Some r" "parsed (nat n) (length ?ts) r"
    using jsmn_parse_ok [OF num assms(2)] by (rule returnsE)
  have i: "p_toknext jsmn_init = 0" by (simp add: jsmn_init_def)
  obtain s where s: "jsmn_loop js len (nat n) (0, jsmn_init, Some ?ts) = Some s"
      "case s of Inl (e, p, t) \<Rightarrow> e \<noteq> JSMN_ERROR_NOMEM | Inr (c, p, t) \<Rightarrow> c = n" "step_ok (nat n) ?ts jsmn_init 0 s"
    using two_pass_loop [OF assms(1) jwf_init [OF num(1)] _ _ _ num(2) assms(2)] jsmn_loop_ok [OF jwf_init [OF num(1)] num(2) assms(2), of 0]
      assms(4) i by (auto elim!: returnsE)
  have "fst r = n \<or> fst r < 0 \<and> fst r \<noteq> JSMN_ERROR_NOMEM"
    using r(1) s unfolding jsmn_parse_def i by (cases s) (auto simp: step_ok_def jsmnerr_defs split: option.splits if_splits)
  then show ?thesis using r by auto
qed

section \<open>Spans\<close>

text \<open>
  A string token spans a part of the text; a primitive begins with one of its characters and is
  followed by a delimiter.
\<close>

definition span_ok :: "string \<Rightarrow> nat \<Rightarrow> jsmntok \<Rightarrow> bool" where
  "span_ok js len t \<longleftrightarrow>
     (tok_type t = JSMN_STRING \<or> tok_type t = JSMN_PRIMITIVE \<longrightarrow> 0 \<le> tok_start t \<and> tok_start t \<le> tok_end t \<and> tok_end t < int len) \<and>
     (tok_type t = JSMN_PRIMITIVE \<longrightarrow> prim_start (js ! nat (tok_start t)) \<and> prim_delim (js ! nat (tok_end t)) \<and> tok_start t < tok_end t)"

definition spans :: "string \<Rightarrow> nat \<Rightarrow> nat \<Rightarrow> jsmntok list \<Rightarrow> bool" where
  "spans js len n ts \<longleftrightarrow> (\<forall>i < n. span_ok js len (ts ! i))"

lemma spans_update: "spans js len n ts \<Longrightarrow> (k < n \<Longrightarrow> span_ok js len x) \<Longrightarrow> spans js len n (ts[k := x])"
  unfolding spans_def by (cases "k < length ts") (auto simp: nth_list_update list_update_beyond)

lemma spans_Suc: "spans js len (Suc n) ts \<longleftrightarrow> spans js len n ts \<and> span_ok js len (ts ! n)"
  unfolding spans_def by (auto simp: less_Suc_eq)

lemma spansD: "spans js len n ts \<Longrightarrow> i < n \<Longrightarrow> span_ok js len (ts ! i)"
  by (simp add: spans_def)

lemma tok_updD: "tok_upd ts i f = Some ts' \<Longrightarrow> \<exists>k < length ts. i = int k \<and> ts' = ts[k := f (ts ! k)]"
  by (auto simp: tok_upd_def arr_get_eq_Some split: if_splits bind_splits intro!: exI [of _ "nat i"])

lemma tok_getD: "tok_get ts i = Some t \<Longrightarrow> \<exists>k < length ts. i = int k \<and> t = ts ! k"
  by (auto simp: tok_get_def arr_get_eq_Some split: if_splits intro!: exI [of _ "nat i"])

lemma span_ok_simps [simp]:
  "span_ok js len (t\<lparr>tok_parent := x\<rparr>) = span_ok js len t" "span_ok js len (t\<lparr>tok_size := y\<rparr>) = span_ok js len t"
  "span_ok js len (grow t) = span_ok js len t"
  by (simp_all add: span_ok_def grow_def)

lemma spans_grow: "spans js len n ts \<Longrightarrow> tok_upd ts i grow = Some ts' \<Longrightarrow> spans js len n ts'"
  by (auto dest!: tok_updD intro!: spans_update spansD)

lemma close_walk_effect:
  assumes "close_walk ty pos ts super k = Some y"
  shows "case y of (r, super', ts') \<Rightarrow> ts' = ts \<or> (\<exists>k e. k < length ts \<and> open_token (ts ! k) \<and> ts' = ts[k := (ts ! k)\<lparr>tok_end := e\<rparr>])"
proof (rule close_walk.raw_induct [where P = "\<lambda>ty pos ts super k y. case y of (r, super', ts') \<Rightarrow>
    ts' = ts \<or> (\<exists>k e. k < length ts \<and> open_token (ts ! k) \<and> ts' = ts[k := (ts ! k)\<lparr>tok_end := e\<rparr>])", OF _ assms])
  fix f ty pos ts super k y
  assume IH: "\<And>ty pos ts super k y. f ty pos ts super k = Some y \<Longrightarrow> case y of (r, super', ts') \<Rightarrow>
      ts' = ts \<or> (\<exists>k e. k < length ts \<and> open_token (ts ! k) \<and> ts' = ts[k := (ts ! k)\<lparr>tok_end := e\<rparr>])"
    and eq: "do {
     t \<leftarrow> tok_get ts k;
     if open_token t then
       (if tok_type t \<noteq> ty then Some (JSMN_ERROR_INVAL, super, ts)
        else do { ts \<leftarrow> tok_upd ts k (\<lambda>t. t\<lparr>tok_end := jsmnindex (int pos + 1)\<rparr>); Some (0, tok_parent t, ts) })
     else if tok_parent t = -1 then Some (0, super, ts)
     else f ty pos ts super (tok_parent t) } = Some y"
  show "case y of (r, super', ts') \<Rightarrow>
      ts' = ts \<or> (\<exists>k e. k < length ts \<and> open_token (ts ! k) \<and> ts' = ts[k := (ts ! k)\<lparr>tok_end := e\<rparr>])"
    using eq by (auto split: if_splits bind_splits dest!: tok_getD tok_updD dest: IH)
qed

lemma open_span: "open_token t \<Longrightarrow> span_ok js len t \<Longrightarrow> span_ok js len (t\<lparr>tok_end := e\<rparr>)"
  by (auto simp: open_token_def span_ok_def)

lemma spans_at_end: "tok_upd ts (int n) f = Some ts' \<Longrightarrow> spans js len n ts \<Longrightarrow> spans js len n ts'"
  by (auto dest!: tok_updD intro!: spans_update)

lemma jsmn_token_spans:
  assumes "jsmn_token ty st en pos p (Some ts) num = Some (r, p', toks')" and "spans js len (p_toknext p) ts"
    and "\<And>t. span_ok js len (jsmn_fill_token ty st en t)" and "0 \<le> r"
  shows "\<exists>ts'. toks' = Some ts' \<and> spans js len (p_toknext p') ts'"
proof -
  let ?n = "p_toknext p"
  obtain t where t: "?n < length ts" "toks' = Some (ts[?n := (jsmn_fill_token ty st en t)\<lparr>tok_parent := jsmnindex (p_toksuper p)\<rparr>])"
      "p_toknext p' = Suc ?n"
    using assms(1,4) by (auto simp: jsmn_token_def jsmn_alloc_token_def jsmnerr_defs split: if_splits bind_splits dest!: tok_updD)
  then show ?thesis using assms(2,3) by (auto simp: spans_Suc intro!: spans_update)
qed

lemma jsmn_counted_spans:
  assumes "jsmn_counted count res = Some (Inr (count', p', Some ts'))"
    and "\<And>r p ts. res = Some (r, p, Some ts) \<Longrightarrow> 0 \<le> r \<Longrightarrow> spans js len (p_toknext p) ts"
  shows "spans js len (p_toknext p') ts'"
  using assms by (auto simp: jsmn_counted_def split: if_splits bind_splits option.splits intro: spans_grow)

lemma primitive_scan_delim:
  "primitive_scan js len i = Some (Inr k) \<Longrightarrow> k < len \<and> prim_delim (js ! k)"
proof (induction "len - i" arbitrary: i rule: less_induct)
  case less
  from less(2) show ?case
    by (subst (asm) primitive_scan.simps) (fastforce simp: arr_get_eq_Some split: if_splits bind_splits dest!: less(1) [rotated])
qed

lemma jsmn_step_spans:
  assumes "jsmn_step c js len num (count, p, Some ts) = Some (Inr (count', p', Some ts'))" and "spans js len (p_toknext p) ts"
    and "arr_get js (p_pos p) = Some c" and "len \<le> length js" and "len \<le> 32767"
  shows "spans js len (p_toknext p') ts'"
proof -
  have opened: "spans js len (p_toknext p') ts'" if o: "jsmn_open ty count p (Some ts) num = Some (Inr (count', p', Some ts'))"
    and ty: "ty = JSMN_OBJECT \<or> ty = JSMN_ARRAY" for ty
  proof -
    let ?n = "p_toknext p"
    obtain ts1 ts2 ts3 where u: "tok_upd ts (int ?n) (\<lambda>t. t\<lparr>tok_start := -1, tok_end := -1, tok_size := 0, tok_parent := -1\<rparr>) = Some ts1"
        "ts2 = ts1 \<and> ts3 = ts2 \<or> tok_upd ts1 (p_toksuper p) grow = Some ts2 \<and> tok_upd ts2 (int ?n) (\<lambda>t. t\<lparr>tok_parent := jsmnindex (p_toksuper p)\<rparr>) = Some ts3"
        "tok_upd ts3 (int ?n) (\<lambda>t. t\<lparr>tok_type := ty, tok_start := jsmnindex (int (p_pos p))\<rparr>) = Some ts'" "p_toknext p' = Suc ?n"
      using o by (auto simp: jsmn_open_def jsmn_alloc_token_def split: if_splits bind_splits; blast)
    have "spans js len ?n ts1" using spans_at_end [OF u(1)] assms(2) by blast
    then have "spans js len ?n ts3" using u(2) spans_at_end spans_grow by metis
    then have "spans js len ?n ts'" using spans_at_end [OF u(3)] by blast
    moreover have "tok_type (ts' ! ?n) = ty" using tok_updD [OF u(3)] by auto
    ultimately show ?thesis using ty u(4) by (auto simp: spans_Suc span_ok_def)
  qed
  have closed: "spans js len (p_toknext p') ts'" if "jsmn_close ty count p (Some ts) = Some (Inr (count', p', Some ts'))" for ty
    using that assms(2)
    by (auto simp: jsmn_close_def split: if_splits bind_splits dest!: close_walk_effect intro!: spans_update open_span spansD)
  have str: "spans js len (p_toknext p') ts'"
    if "jsmn_counted count (jsmn_parse_string p js len (Some ts) num) = Some (Inr (count', p', Some ts'))"
    using that
  proof (rule jsmn_counted_spans)
    fix r q qs assume *: "jsmn_parse_string p js len (Some ts) num = Some (r, q, Some qs)" "0 \<le> r"
    then obtain k where k: "string_scan js len (p_pos p + 1) = Some (Inr k)" "jsmn_token JSMN_STRING (p_pos p + 1) k k p (Some ts) num = Some (r, q, Some qs)"
      using returnsD [OF string_scan_returns [OF assms(4), of "p_pos p + 1"]]
      by (auto simp: jsmn_parse_string_def split: bind_splits sum.splits)
    have "p_pos p + 1 \<le> k" "k < len"
      using string_scan_forward [OF k(1)] returnsD [OF string_scan_returns [OF assms(4)] k(1)] by simp_all
    then have "span_ok js len (jsmn_fill_token JSMN_STRING (p_pos p + 1) k t)" for t
      using assms(5) by (simp add: span_ok_def jsmn_fill_token_def)
    then show "spans js len (p_toknext q) qs" using jsmn_token_spans [OF k(2) assms(2) _ *(2)] by auto
  qed
  have prim: "spans js len (p_toknext p') ts'"
    if "jsmn_counted count (jsmn_parse_primitive p js len (Some ts) num) = Some (Inr (count', p', Some ts'))" and c: "prim_start c"
    using that(1)
  proof (rule jsmn_counted_spans)
    fix r q qs assume *: "jsmn_parse_primitive p js len (Some ts) num = Some (r, q, Some qs)" "0 \<le> r"
    then obtain k where k: "primitive_scan js len (p_pos p) = Some (Inr k)" "jsmn_token JSMN_PRIMITIVE (p_pos p) k (k - 1) p (Some ts) num = Some (r, q, Some qs)"
      using returnsD [OF primitive_scan_returns [OF assms(4), of "p_pos p"]]
      by (auto simp: jsmn_parse_primitive_def split: bind_splits sum.splits)
    have "p_pos p < k" "k < len" "prim_delim (js ! k)" "js ! p_pos p = c"
      using primitive_scan_start [OF k(1) assms(3) c] primitive_scan_delim [OF k(1)] assms(3) by (simp_all add: arr_get_eq_Some)
    then have "span_ok js len (jsmn_fill_token JSMN_PRIMITIVE (p_pos p) k t)" for t
      using assms(5) c by (simp add: span_ok_def jsmn_fill_token_def)
    then show "spans js len (p_toknext q) qs" using jsmn_token_spans [OF k(2) assms(2) _ *(2)] by auto
  qed
  have comma: "jsmn_comma p (Some qs) = Some q \<Longrightarrow> p_toknext q = p_toknext p" for q qs
    by (auto simp: jsmn_comma_def split: if_splits bind_splits)
  show ?thesis
    using assms(1,2) opened closed str prim unfolding jsmn_step_def prod.case
    by (auto split: if_splits bind_splits dest!: comma)
qed

lemma jsmn_loop_spans:
  assumes "jsmn_loop js len num (count, p, Some ts) = Some (Inr (count', p', Some ts'))" and "spans js len (p_toknext p) ts"
    and "jwf num ts p" and "num \<le> 32767" and "len \<le> length js" and "len \<le> 32767"
  shows "spans js len (p_toknext p') ts'"
  using assms(1-3)
proof (induction "len - p_pos p" arbitrary: count p ts rule: less_induct)
  case less
  show ?case
  proof (cases "p_pos p < len \<and> js ! p_pos p \<noteq> NUL")
    case False
    then show ?thesis using less(2,3) assms(5) by (subst (asm) jsmn_loop.simps) (auto split: if_splits)
  next
    case True
    let ?c = "js ! p_pos p"
    have at: "arr_get js (p_pos p) = Some ?c" using True assms(5) by simp
    obtain r where r: "jsmn_step ?c js len num (count, p, Some ts) = Some r" "step_ok num ts p count r"
      using jsmn_step_ok [OF less(4) assms(4,5)] by (rule returnsE)
    obtain count1 p1 ts1 where st: "r = Inr (count1, p1, Some ts1)" "jwf num ts1 p1"
      using r less(2) True at by (subst (asm) jsmn_loop.simps) (auto simp: step_ok_def split: sum.splits)
    have "jsmn_loop js len num (count1, p1\<lparr>p_pos := p_pos p1 + 1\<rparr>, Some ts1) = Some (Inr (count', p', Some ts'))"
      using r(1) st(1) less(2) True at by (subst (asm) jsmn_loop.simps) simp
    moreover have "spans js len (p_toknext p1) ts1"
      by (rule jsmn_step_spans [OF r(1) [unfolded st(1)] less(3) at assms(5,6)])
    moreover have "p_pos p \<le> p_pos p1" by (rule jsmn_step_forward [OF r(1) [unfolded st(1)] at])
    moreover have "len - (p_pos p1 + 1) < len - p_pos p" using True calculation(3) by linarith
    ultimately show ?thesis using less(1) [of "p1\<lparr>p_pos := p_pos p1 + 1\<rparr>" count1 ts1] jwf_pos [OF st(2)] by simp
  qed
qed

end
