(* ===== verification/Json_Lookup.thy ===== *)
theory Json_Lookup
  imports Json_Safety
begin

text \<open>
  The lookups on a parsed document: what they find, in terms of the tree of its tokens, and that
  they never leave it, whatever the document was.
\<close>

abbreviation tree_of :: "jsmntok list \<Rightarrow> nat \<Rightarrow> int \<Rightarrow> shape \<Rightarrow> bool" where
  "tree_of ts \<equiv> tree (\<lambda>i. tok_parent (ts ! i)) (\<lambda>i. tok_size (ts ! i))"

abbreviation forest_of :: "jsmntok list \<Rightarrow> nat \<Rightarrow> int \<Rightarrow> shape list \<Rightarrow> bool" where
  "forest_of ts \<equiv> forest (\<lambda>i. tok_parent (ts ! i)) (\<lambda>i. tok_size (ts ! i))"

section \<open>Skipping and validation\<close>

lemma skip_children_forest:
  "forest_of ts (Suc t) par cs \<Longrightarrow> Suc t + szs cs \<le> length ts \<Longrightarrow> skip_children ts t (int (length cs)) = Some (t + szs cs)"
proof (induction "szs cs" arbitrary: t par cs rule: less_induct)
  case less
  show ?case
  proof (cases cs)
    case Nil
    then show ?thesis by (simp add: skip_children.simps)
  next
    case (Cons c ds)
    have c: "tok_size (ts ! Suc t) = int (length (kids c))" "forest_of ts (Suc (Suc t)) (int (Suc t)) (kids c)"
        "forest_of ts (Suc (t + sz c)) par ds" using less(2) Cons by (simp_all add: tree_kids)
    have k: "szs (kids c) < szs cs" "szs ds < szs cs" "sz c = Suc (szs (kids c))" using Cons by (simp_all add: sz_kids [of c])
    have "skip_children ts (Suc t) (int (length (kids c))) = Some (Suc t + szs (kids c))"
      by (rule less(1) [OF k(1) c(2)]) (use less(3) Cons k(3) in simp)
    moreover have "skip_children ts (t + sz c) (int (length ds)) = Some (t + sz c + szs ds)"
      by (rule less(1) [OF k(2) c(3)]) (use less(3) Cons in simp)
    moreover have "Suc t < length ts" using less(3) Cons k(3) by simp
    ultimately show ?thesis using Cons c(1) k(3) by (subst skip_children.simps) auto
  qed
qed

lemma skip_to_last_tree:
  assumes "tree_of ts i par c" and "i + sz c \<le> length ts"
  shows "skip_to_last ts i = Some (i + sz c - 1)"
proof -
  have "forest_of ts (Suc i) (int i) (kids c)" "tok_size (ts ! i) = int (length (kids c))" using assms(1) by (simp_all add: tree_kids)
  then show ?thesis
    using skip_children_forest [of ts i "int i" "kids c"] assms(2) by (auto simp: skip_to_last_def sz_kids [of c])
qed

text \<open>What validation decides of the tree at a token.\<close>

definition is_compound :: "jsmntype \<Rightarrow> bool" where
  "is_compound ty \<longleftrightarrow> ty = JSMN_OBJECT \<or> ty = JSMN_ARRAY"

function val_ok :: "jsmntok list \<Rightarrow> nat \<Rightarrow> shape \<Rightarrow> bool"
  and vals_ok :: "jsmntok list \<Rightarrow> bool \<Rightarrow> int \<Rightarrow> nat \<Rightarrow> shape list \<Rightarrow> bool" where
  "val_ok ts i (Sh cs) \<longleftrightarrow>
     (if is_compound (tok_type (ts ! i)) then vals_ok ts (tok_type (ts ! i) = JSMN_OBJECT) (tok_end (ts ! i)) (Suc i) cs else cs = [])"
| "vals_ok ts obj e i [] \<longleftrightarrow> True"
| "vals_ok ts obj e i (c # cs) \<longleftrightarrow> tok_end (ts ! i) \<le> e \<and>
     (if obj then tok_type (ts ! i) = JSMN_STRING \<and> (case kids c of [v] \<Rightarrow> val_ok ts (Suc i) v | _ \<Rightarrow> False) else val_ok ts i c) \<and>
     vals_ok ts obj e (i + sz c) cs"
  by pat_completeness auto
termination
  by (relation "measure (\<lambda>x. case x of Inl (_, _, c) \<Rightarrow> 2 * sz c | Inr (_, _, _, _, cs) \<Rightarrow> Suc (2 * szs cs))")
    (auto simp: sz_kids)

lemma val_ok_kids:
  "val_ok ts i c \<longleftrightarrow>
     (if is_compound (tok_type (ts ! i)) then vals_ok ts (tok_type (ts ! i) = JSMN_OBJECT) (tok_end (ts ! i)) (Suc i) (kids c) else kids c = [])"
  by (cases c) simp

lemma valid_children_forest:
  assumes "is_compound (tok_type (ts ! cur))" and "cur < length ts"
    and "forest_of ts (Suc t) par cs" and "Suc t + szs cs \<le> length ts"
  shows "valid_children ts cur t (int (length cs)) = Some (vals_ok ts (tok_type (ts ! cur) = JSMN_OBJECT) (tok_end (ts ! cur)) (Suc t) cs)"
  using assms
proof (induction "szs cs" arbitrary: cur t par cs rule: less_induct)
  case less
  show ?case
  proof (cases cs)
    case Nil
    then show ?thesis by (simp add: valid_children.simps)
  next
    case (Cons c ds)
    let ?obj = "tok_type (ts ! cur) = JSMN_OBJECT"
    have c: "tree_of ts (Suc t) par c" "forest_of ts (Suc (t + sz c)) par ds" using less(4) Cons by simp_all
    have size: "tok_size (ts ! Suc t) = int (length (kids c))" using c(1) by (simp add: tree_kids)
    have len: "Suc t + sz c \<le> length ts" "Suc t < length ts" using less(5) Cons by (simp_all add: sz_kids [of c])
    have tail: "valid_children ts cur (t + sz c) (int (length ds)) = Some (vals_ok ts ?obj (tok_end (ts ! cur)) (Suc (t + sz c)) ds)"
      by (rule less(1) [OF _ less(2,3) c(2)]) (use less(5) Cons in \<open>simp_all add: sz_kids [of c]\<close>)
    have child: "(if is_compound (tok_type (ts ! i)) then (if tok_size (ts ! i) = 0 then Some True else valid_children ts i i (tok_size (ts ! i)))
          else Some (tok_size (ts ! i) = 0)) = Some (val_ok ts i v)"
      if v: "tree_of ts i q v" "i + sz v \<le> length ts" "sz v \<le> sz c" for i q v
    proof -
      have "szs (kids v) < szs cs" using v(3) Cons by (simp add: sz_kids [of v])
      then have "is_compound (tok_type (ts ! i)) \<Longrightarrow> valid_children ts i i (int (length (kids v))) =
          Some (vals_ok ts (tok_type (ts ! i) = JSMN_OBJECT) (tok_end (ts ! i)) (Suc i) (kids v))"
        using v(1,2) by (intro less(1)) (auto simp: tree_kids sz_kids [of v])
      then show ?thesis using v(1) by (auto simp: tree_kids val_ok_kids)
    qed
    show ?thesis
    proof (cases ?obj)
      case False
      have "skip_to_last ts (Suc t) = Some (t + sz c)" using skip_to_last_tree [OF c(1) len(1)] by (simp add: sz_kids [of c])
      then show ?thesis
        using False Cons len less(3) tail child [OF c(1) len(1)]
        by (subst valid_children.simps) (auto simp: is_compound_def)
    next
      case True
      show ?thesis
      proof (cases "tok_type (ts ! Suc t) = JSMN_STRING \<and> length (kids c) = 1")
        case bad: False
        then show ?thesis
          using True Cons len less(3) size by (subst valid_children.simps) (auto split: list.splits)
      next
        case good: True
        then obtain v where v: "kids c = [v]" by (auto simp: length_Suc_conv)
        then have tv: "tree_of ts (Suc (Suc t)) (int (Suc t)) v" "sz c = Suc (sz v)" using c(1) by (simp_all add: tree_kids sz_kids [of c])
        then have lv: "Suc (Suc t) + sz v \<le> length ts" "Suc (Suc t) < length ts" using len(1) sz_kids [of v] by simp_all
        have "skip_to_last ts (Suc (Suc t)) = Some (t + sz c)" using skip_to_last_tree [OF tv(1) lv(1)] tv(2) by (simp add: sz_kids [of v])
        then show ?thesis
          using True Cons len lv less(3) tail child [OF tv(1) lv(1)] tv(2) good v size
          by (subst valid_children.simps) (auto simp: is_compound_def)
      qed
    qed
  qed
qed

section \<open>What the lookups find\<close>

text \<open>The members of an object: the text of each key with the index of its value; and the indices of elements.\<close>

definition text_at :: "string \<Rightarrow> jsmntok \<Rightarrow> string" where
  "text_at js t = take (nat (tok_end t - tok_start t)) (drop (nat (tok_start t)) js)"

fun members :: "string \<Rightarrow> jsmntok list \<Rightarrow> nat \<Rightarrow> shape list \<Rightarrow> (string \<times> nat) list" where
  "members js ts i [] = []"
| "members js ts i (c # cs) = (text_at js (ts ! i), Suc i) # members js ts (i + sz c) cs"

fun element_indices :: "nat \<Rightarrow> shape list \<Rightarrow> nat list" where
  "element_indices i [] = []"
| "element_indices i (c # cs) = i # element_indices (i + sz c) cs"

lemma token_text_at:
  "span_ok js len t \<Longrightarrow> tok_type t = JSMN_STRING \<or> tok_type t = JSMN_PRIMITIVE \<Longrightarrow> len \<le> length js \<Longrightarrow>
   token_text js t = Some (text_at js t)"
  by (auto simp: span_ok_def token_text_def text_at_def)

lemma get_value_members:
  assumes "forest_of ts (Suc t) par cs" and "vals_ok ts True e (Suc t) cs" and "Suc t + szs cs \<le> length ts"
    and "\<forall>i. t < i \<and> i \<le> t + szs cs \<longrightarrow> span_ok js len (ts ! i)" and "len \<le> length js"
  shows "get_value_loop ts js e key t (int (length cs)) =
    Some (case map_of (members js ts (Suc t) cs) key of None \<Rightarrow> (- WM_E_JSON_NOT_FOUND, None) | Some k \<Rightarrow> (SYS_OK, Some k))"
  using assms(1-4)
proof (induction cs arbitrary: t)
  case Nil
  then show ?case by (simp add: get_value_loop.simps)
next
  case (Cons c cs)
  obtain v where v: "kids c = [v]" and str: "tok_type (ts ! Suc t) = JSMN_STRING" and e: "tok_end (ts ! Suc t) \<le> e"
    using Cons.prems(2) by (auto split: list.splits)
  have c: "tree_of ts (Suc t) par c" "forest_of ts (Suc (t + sz c)) par cs" using Cons.prems(1) by simp_all
  have tv: "tree_of ts (Suc (Suc t)) (int (Suc t)) v" "sz c = Suc (sz v)" using c(1) v by (simp_all add: tree_kids sz_kids [of c])
  have len: "Suc t < length ts" "Suc (Suc t) + sz v \<le> length ts" using Cons.prems(3) tv(2) by simp_all
  have key: "token_text js (ts ! Suc t) = Some (text_at js (ts ! Suc t))"
    using Cons.prems(4) tv(2) str by (intro token_text_at [OF _ _ assms(5)]) auto
  have skip: "skip_to_last ts (Suc (Suc t)) = Some (t + sz c)"
    using skip_to_last_tree [OF tv(1) len(2)] tv(2) by (simp add: sz_kids [of v])
  have "get_value_loop ts js e key (t + sz c) (int (length cs)) =
      Some (case map_of (members js ts (Suc (t + sz c)) cs) key of None \<Rightarrow> (- WM_E_JSON_NOT_FOUND, None) | Some k \<Rightarrow> (SYS_OK, Some k))"
    by (rule Cons.IH) (use c Cons.prems(2-4) in auto)
  then show ?case
    using len(1) e str key skip by (subst get_value_loop.simps) (auto simp: json_token_streq_def)
qed

lemma array_index_elements:
  assumes "forest_of ts i par cs" and "vals_ok ts False e i cs" and "i + szs cs \<le> length ts" and "n < length cs"
  shows "array_index_loop ts e i n = Some (SYS_OK, Some (element_indices i cs ! n))"
  using assms
proof (induction n arbitrary: i cs)
  case 0
  then show ?case by (cases cs) simp_all
next
  case (Suc n)
  then obtain c ds where cs: "cs = c # ds" by (cases cs) auto
  have c: "tree_of ts i par c" "forest_of ts (i + sz c) par ds" "val_ok ts i c" "vals_ok ts False e (i + sz c) ds" "tok_end (ts ! i) \<le> e"
    using Suc.prems(1,2) cs by simp_all
  have len: "i + sz c \<le> length ts" "i < length ts" using Suc.prems(3) cs by (simp_all add: sz_kids [of c])
  have next_element: "array_index_loop ts e (i + sz c) n = Some (SYS_OK, Some (element_indices (i + sz c) ds ! n))"
    by (rule Suc.IH [OF c(2,4)]) (use Suc.prems(3,4) cs in simp_all)
  have "\<not> is_compound (tok_type (ts ! i)) \<Longrightarrow> sz c = 1" using c(3) by (simp add: val_ok_kids sz_kids [of c])
  then have "(if tok_type (ts ! i) = JSMN_ARRAY \<or> tok_type (ts ! i) = JSMN_OBJECT then skip_to_last ts i else Some i) = Some (i + sz c - 1)"
    using skip_to_last_tree [OF c(1) len(1)] by (auto simp: is_compound_def)
  then show ?case
    using next_element len(2) c(5) cs by (simp add: sz_kids [of c])
qed

section \<open>Documents\<close>

text \<open>
  An object or array node below a valid value is valid itself, and every node but the root has its
  parent there: so entering and leaving stays inside.
\<close>

definition node :: "jsmntok list \<Rightarrow> nat \<Rightarrow> nat \<Rightarrow> bool" where
  "node ts n j \<longleftrightarrow> (\<exists>c par. tree_of ts j par c \<and> j + sz c \<le> n \<and> (val_ok ts j c \<or> tok_type (ts ! j) = JSMN_STRING))"

lemma nodes_below:
  "tree_of ts i par c \<Longrightarrow> val_ok ts i c \<Longrightarrow> i + sz c \<le> n \<Longrightarrow> i \<le> j \<Longrightarrow> j < i + sz c \<Longrightarrow>
     node ts n j \<and> (j = i \<or> int i \<le> tok_parent (ts ! j) \<and> tok_parent (ts ! j) < int j)"
  "forest_of ts i par cs \<Longrightarrow> vals_ok ts obj e i cs \<Longrightarrow> i + szs cs \<le> n \<Longrightarrow> i \<le> j \<Longrightarrow> j < i + szs cs \<Longrightarrow>
     node ts n j \<and> (tok_parent (ts ! j) = par \<or> int i \<le> tok_parent (ts ! j) \<and> tok_parent (ts ! j) < int j)"
proof (induction ts i c and ts obj e i cs arbitrary: par and par rule: val_ok_vals_ok.induct)
  case (1 ts i cs)
  have f: "forest_of ts (Suc i) (int i) cs" using 1(2) by simp
  show ?case
  proof (cases "j = i")
    case True
    then show ?thesis using 1(2-4) unfolding node_def by blast
  next
    case False
    then have "cs \<noteq> []" using 1(5,6) by auto
    then have comp: "is_compound (tok_type (ts ! i))" using 1(3) by (auto split: if_splits)
    then have "vals_ok ts (tok_type (ts ! i) = JSMN_OBJECT) (tok_end (ts ! i)) (Suc i) cs" using 1(3) by simp
    then have "node ts n j \<and> (tok_parent (ts ! j) = int i \<or> int (Suc i) \<le> tok_parent (ts ! j) \<and> tok_parent (ts ! j) < int j)"
      using 1(1) [OF comp f] 1(4-6) False by simp
    then show ?thesis using False 1(5) by auto
  qed
next
  case (2 ts obj e i)
  then show ?case by simp
next
  case (3 ts obj e i c cs)
  show ?case
  proof (cases "j < i + sz c")
    case False
    then show ?thesis using 3 by fastforce
  next
    case here: True
    have c: "tree_of ts i par c" using 3(4) by simp
    show ?thesis
    proof (cases obj)
      case False
      then show ?thesis using 3 here by (cases "j = i") (fastforce simp: tree_kids)+
    next
      case True
      then obtain v where v: "kids c = [v]" "val_ok ts (Suc i) v" "tok_type (ts ! i) = JSMN_STRING" using 3(5) by (auto split: list.splits)
      have tv: "tree_of ts (Suc i) (int i) v" "sz c = Suc (sz v)" using c v(1) by (simp_all add: tree_kids sz_kids [of c])
      show ?thesis
      proof (cases "j = i")
        case True
        then show ?thesis using c v(3) 3(6) here by (auto simp: node_def tree_kids)
      next
        case False
        have "node ts n j \<and> (j = Suc i \<or> int (Suc i) \<le> tok_parent (ts ! j) \<and> tok_parent (ts ! j) < int j)"
          using 3(1) [OF True v(1) refl tv(1)] v(2) tv(2) 3(6,7) here False by simp
        moreover have "tok_parent (ts ! Suc i) = int i" using tv(1) by (simp add: tree_kids)
        ultimately show ?thesis using False 3(7) by auto
      qed
    qed
  qed
qed

definition document :: "jobj \<Rightarrow> bool" where
  "document j \<longleftrightarrow> \<not> j_freed j \<and>
     (\<exists>ts c len. j_tokens j = Some ts \<and> tree_of ts 0 (-1) c \<and> val_ok ts 0 c \<and> sz c \<le> length ts \<and>
        len \<le> length (j_js j) \<and> (\<forall>i < sz c. span_ok (j_js j) len (ts ! i)) \<and> (\<exists>i < sz c. j_cur j = Some i))"

lemma json_is_valid_tree:
  assumes "tree_of ts i par c" and "i + sz c \<le> length ts" and "is_compound (tok_type (ts ! i))"
  shows "json_is_valid ts i (tok_type (ts ! i)) = Some (val_ok ts i c)"
proof -
  have k: "forest_of ts (Suc i) (int i) (kids c)" "tok_size (ts ! i) = int (length (kids c))" "i < length ts"
    using assms(1,2) by (simp_all add: tree_kids sz_kids [of c])
  then show ?thesis
    using valid_children_forest [OF assms(3) k(3,1)] assms(2,3)
    by (auto simp: json_is_valid_def val_ok_kids sz_kids [of c])
qed

lemma parse_spans:
  assumes "jsmn_parse jsmn_init js len (Some ts) num = Some (r, p, Some ts')" and "0 \<le> r"
    and "num \<le> length ts" and "num \<le> 32767" and "len \<le> length js" and "len \<le> 32767"
  shows "spans js len (p_toknext p) ts'"
proof -
  have i: "p_toknext jsmn_init = 0" by (simp add: jsmn_init_def)
  obtain s where s: "jsmn_loop js len num (0, jsmn_init, Some ts) = Some s" "step_ok num ts jsmn_init 0 s"
    using jsmn_loop_ok [OF jwf_init [OF assms(3)] assms(4,5)] by (rule returnsE)
  then have "\<exists>count. s = Inr (count, p, Some ts')"
    using assms(1,2) unfolding jsmn_parse_def i
    by (cases s) (auto simp: step_ok_def jsmnerr_defs split: option.splits if_splits)
  then obtain count where "jsmn_loop js len num (0, jsmn_init, Some ts) = Some (Inr (count, p, Some ts'))" using s(1) by blast
  from jsmn_loop_spans [OF this _ jwf_init [OF assms(3)] assms(4-6)] show ?thesis by (simp add: spans_def i)
qed

lemma json_error_not_ok [simp]: "json_error r \<noteq> SYS_OK" "json_error r \<noteq> 0"
  by (simp_all add: json_error_def json_errno_defs sys_errno_defs)

lemma init_document:
  assumes "jsmn_loop js len 0 (0, jsmn_init, None) = Some (Inr (n, p, None))" and "len \<le> length js" and "len \<le> 32767" and "0 < n" and "n \<le> int len"
  shows "returns (\<lambda>(r, j). j_freed j = False \<and> j_tokens j \<noteq> None \<and> r \<noteq> - WM_E_JSON_NOMEM \<and> (r = SYS_OK \<longrightarrow> document j \<and> j_js j = js \<and> j_cur j = Some 0))
    (json_init (Some (replicate (nat n) blank_token)) (nat n) js len)"
proof -
  let ?blank = "replicate (nat n) blank_token"
  have num: "nat n \<le> length ?blank" "nat n \<le> 32767" using assms(3-5) by simp_all
  obtain r p' toks where r: "jsmn_parse jsmn_init js len (Some ?blank) (nat n) = Some (r, p', toks)"
      "r = n \<or> r < 0 \<and> r \<noteq> JSMN_ERROR_NOMEM" "parsed (nat n) (nat n) (r, p', toks)"
    using two_passes [OF assms(1,2)] assms(3-5) by (auto elim!: returnsE)
  show ?thesis
  proof (cases "r < 0")
    case True
    then have "json_error r \<noteq> - WM_E_JSON_NOMEM" using r(2) assms(4) by (auto simp: json_error_def json_errno_defs)
    then show ?thesis
      using True r(1,3) by (auto simp: json_init_def json_obj_init_def parsed_def)
  next
    case False
    then obtain ts where ts: "toks = Some ts" "length ts = nat n" "jwf (nat n) ts p'" "int (p_toknext p') = n" "r = n"
      using r(2,3) by (auto simp: parsed_def)
    obtain F where F: "token_forest ts F" "szs F = nat n" using ts(3,4) by (auto simp: jwf_def)
    then obtain c F' where c: "F = c # F'" using assms(4) by (cases F) auto
    have tree: "tree_of ts 0 (-1) c" "sz c \<le> length ts" using F c ts(2) by (simp_all add: token_forest_def)
    have sp: "spans js len (nat n) ts" using parse_spans [OF r(1) [unfolded ts(1)] _ num assms(2,3)] False ts(4) by (metis nat_int not_le)
    have at: "arr_get ts 0 = Some (ts ! 0)" using ts(2) assms(4) by simp
    have valid: "tok_type (ts ! 0) = JSMN_OBJECT \<Longrightarrow> json_is_valid ts 0 JSMN_OBJECT = Some (val_ok ts 0 c)"
        "tok_type (ts ! 0) = JSMN_ARRAY \<Longrightarrow> json_is_valid ts 0 JSMN_ARRAY = Some (val_ok ts 0 c)"
      using json_is_valid_tree [OF tree(1)] tree(2) by (auto simp: is_compound_def)
    have ok: "document \<lparr>j_parser = p', j_js = js, j_tokens = Some ts, j_freed = False, j_cur = Some 0, j_num_tokens = n\<rparr>" if "val_ok ts 0 c"
      unfolding document_def using that tree sp assms(2) ts(2) by (auto simp: spans_def intro!: exI [of _ c] exI [of _ len])
    show ?thesis
      using False r(1) ts valid at ok
      by (auto simp: json_init_def json_obj_init_def is_compound_def json_errno_defs sys_errno_defs Let_def)
  qed
qed

lemma start_document:
  assumes "len \<le> length js" and "len \<le> 32767"
  shows "returns (\<lambda>(r, j). (r = SYS_OK \<longrightarrow> document j \<and> j_js j = js \<and> j_cur j = Some 0) \<and>
      (r = - WM_E_JSON_NOMEM \<longrightarrow> j_tokens j = None) \<and> (r \<noteq> SYS_OK \<longrightarrow> j_tokens j = None \<or> j_freed j))
    (json_parse_start avail js len)"
proof -
  obtain n p t where n: "jsmn_parse jsmn_init js len None 0 = Some (n, p, t)"
      "n < 0 \<or> n \<le> int len \<and> t = None \<and> jsmn_loop js len 0 (0, jsmn_init, None) = Some (Inr (n, p, None))"
    using counting_parse [OF assms(1)] by (auto elim!: returnsE)
  show ?thesis
  proof (cases "n < 0 \<or> os_mem_calloc avail (nat n) = None")
    case True
    then show ?thesis using n by (auto simp: json_parse_start_def json_obj_init_def json_errno_defs sys_errno_defs Let_def)
  next
    case False
    then have c: "os_mem_calloc avail (nat n) = Some (replicate (nat n) blank_token)" "0 < n"
      by (auto simp: os_mem_calloc_def split: if_splits)
    have "n \<le> int len" "jsmn_loop js len 0 (0, jsmn_init, None) = Some (Inr (n, p, None))" using n False by auto
    then obtain r j where r: "json_init (Some (replicate (nat n) blank_token)) (nat n) js len = Some (r, j)"
        "\<not> j_freed j" "j_tokens j \<noteq> None" "r \<noteq> - WM_E_JSON_NOMEM" "r = SYS_OK \<longrightarrow> document j \<and> j_js j = js \<and> j_cur j = Some 0"
      using init_document [OF _ assms c(2)] by (auto elim!: returnsE)
    then show ?thesis
      using n(1) c by (auto simp: json_parse_start_def json_obj_init_def json_parse_stop_def)
  qed
qed

lemma documentE:
  assumes "document j"
  obtains ts n i len where "live_tokens j = Some ts" and "j_cur j = Some i" and "i < n" and "n \<le> length ts"
    and "\<And>k. k < n \<Longrightarrow> node ts n k" and "\<And>k. k < n \<Longrightarrow> span_ok (j_js j) len (ts ! k)" and "len \<le> length (j_js j)"
    and "\<And>k. k < n \<Longrightarrow> tok_parent (ts ! k) < int n" and "\<And>k. k < n \<Longrightarrow> document (j\<lparr>j_cur := Some k\<rparr>)"
proof -
  obtain ts c len i where d: "\<not> j_freed j" "j_tokens j = Some ts" "tree_of ts 0 (-1) c" "val_ok ts 0 c" "sz c \<le> length ts"
      "len \<le> length (j_js j)" "\<forall>i < sz c. span_ok (j_js j) len (ts ! i)" "i < sz c" "j_cur j = Some i"
    using assms unfolding document_def by blast
  have below: "node ts (sz c) k" "k = 0 \<or> tok_parent (ts ! k) < int k" if "k < sz c" for k
    using nodes_below(1) [OF d(3,4), of "sz c" k] that by auto
  have "tok_parent (ts ! 0) = -1" using d(3) by (simp add: tree_kids)
  then have par: "tok_parent (ts ! k) < int (sz c)" if "k < sz c" for k
    using below(2) [OF that] that by (cases "k = 0") auto
  have doc: "document (j\<lparr>j_cur := Some k\<rparr>)" if "k < sz c" for k
    unfolding document_def using d that by (auto intro!: exI [of _ c] exI [of _ len])
  show thesis
    using that [of ts i "sz c" len] d below(1) par doc by (auto simp: live_tokens_def)
qed

text \<open>What was found is in the document, and \<open>up\<close> leads back from it.\<close>

definition found_ok :: "jobj \<Rightarrow> (jobj \<Rightarrow> (int \<times> jobj) option) \<Rightarrow> (int \<times> nat option) option \<Rightarrow> bool" where
  "found_ok j up = returns (\<lambda>(r, v). r = SYS_OK \<longrightarrow>
     (\<exists>k. v = Some k \<and> document (j\<lparr>j_cur := Some k\<rparr>) \<and> up (j\<lparr>j_cur := Some k\<rparr>) = Some (SYS_OK, j)))"

lemma members_parents:
  "forest_of ts i par cs \<Longrightarrow> vals_ok ts True e i cs \<Longrightarrow> map_of (members js ts i cs) key = Some k \<Longrightarrow>
   0 < k \<and> tok_parent (ts ! k) = int (k - 1) \<and> tok_parent (ts ! (k - 1)) = par"
proof (induction cs arbitrary: i)
  case (Cons c cs)
  have "tok_parent (ts ! Suc i) = int i \<and> tok_parent (ts ! i) = par"
    using Cons.prems(1,2) by (cases "kids c") (auto simp: tree_kids)
  then show ?case using Cons.prems Cons.IH [of "i + sz c"] by (auto split: if_splits)
qed simp

lemma element_parent: "forest_of ts i par cs \<Longrightarrow> n < length cs \<Longrightarrow> tok_parent (ts ! (element_indices i cs ! n)) = par"
proof (induction cs arbitrary: i n)
  case (Cons c cs)
  then show ?case by (cases n) (auto simp: tree_kids [of _ _ _ _ c])
qed simp

lemma j_cur_same: "j_cur j = Some i \<Longrightarrow> j\<lparr>j_cur := Some i\<rparr> = j"
  by (metis jobj.surjective jobj.update_convs(5) jobj.select_convs(5))

lemma to_parent_at:
  "live_tokens j = Some ts \<Longrightarrow> k < length ts \<Longrightarrow> 0 \<le> tok_parent (ts ! k) \<Longrightarrow>
   to_parent (j\<lparr>j_cur := Some k\<rparr>) = Some (SYS_OK, j\<lparr>j_cur := Some (nat (tok_parent (ts ! k)))\<rparr>)"
  by (simp add: to_parent_def live_tokens_def split: if_splits)

lemma members_range: "map_of (members js ts i cs) key = Some k \<Longrightarrow> \<forall>c \<in> set cs. kids c \<noteq> [] \<Longrightarrow> i < k \<and> k < i + szs cs"
proof (induction cs arbitrary: i)
  case (Cons c cs)
  have "1 < sz c" using Cons.prems(2) by (cases "kids c") (auto simp: sz_kids [of c] sz_kids)
  then show ?case
    using Cons.prems Cons.IH [of "i + sz c"] by (auto split: if_splits)
qed simp

lemma vals_ok_kids: "vals_ok ts True e i cs \<Longrightarrow> c \<in> set cs \<Longrightarrow> kids c \<noteq> []"
  by (induction cs arbitrary: i) (auto split: list.splits)

lemma element_range: "n < length cs \<Longrightarrow> i \<le> element_indices i cs ! n \<and> element_indices i cs ! n < i + szs cs"
proof (induction cs arbitrary: i n)
  case (Cons c cs)
  show ?case
  proof (cases n)
    case (Suc m)
    then have "i + sz c \<le> element_indices (i + sz c) cs ! m \<and> element_indices (i + sz c) cs ! m < i + sz c + szs cs"
      using Cons.prems by (intro Cons.IH) simp
    then show ?thesis using Suc by (simp add: add.assoc)
  qed (simp add: sz_kids [of c])
qed simp

lemma get_value_ok: "document j \<Longrightarrow> found_ok j json_release_composite_object (json_get_value j key)"
proof (erule documentE)
  fix ts n i len
  assume d: "live_tokens j = Some ts" "j_cur j = Some i" "i < n" "n \<le> length ts" "\<And>k. k < n \<Longrightarrow> node ts n k"
    "\<And>k. k < n \<Longrightarrow> span_ok (j_js j) len (ts ! k)" "len \<le> length (j_js j)" "\<And>k. k < n \<Longrightarrow> document (j\<lparr>j_cur := Some k\<rparr>)"
  show ?thesis
  proof (cases "tok_size (ts ! i) \<noteq> 0 \<and> tok_type (ts ! i) = JSMN_OBJECT")
    case False
    then show ?thesis using d(1-4) by (auto simp: found_ok_def json_get_value_def sys_errno_defs json_errno_defs)
  next
    case True
    obtain c par where c: "tree_of ts i par c" "i + sz c \<le> n" "val_ok ts i c" using d(5) [OF d(3)] True by (auto simp: node_def)
    have f: "forest_of ts (Suc i) (int i) (kids c)" "tok_size (ts ! i) = int (length (kids c))" using c(1) by (simp_all add: tree_kids)
    have v: "vals_ok ts True (tok_end (ts ! i)) (Suc i) (kids c)" using c(3) True by (simp add: val_ok_kids is_compound_def)
    have n: "Suc i + szs (kids c) \<le> n" using c(2) by (simp add: sz_kids [of c])
    have "json_get_value j key = Some (case map_of (members (j_js j) ts (Suc i) (kids c)) key of
        None \<Rightarrow> (- WM_E_JSON_NOT_FOUND, None) | Some k \<Rightarrow> (SYS_OK, Some k))"
    proof -
      have "\<forall>k. i < k \<and> k \<le> i + szs (kids c) \<longrightarrow> span_ok (j_js j) len (ts ! k)" using d(6) n by simp
      from get_value_members [OF f(1) v _ this d(7), of key] show ?thesis
        using n d(1-4) True f(2) by (simp add: json_get_value_def)
    qed
    moreover have "k < n" if "map_of (members (j_js j) ts (Suc i) (kids c)) key = Some k" for k
      using members_range [OF that] vals_ok_kids [OF v] n by fastforce
    moreover have "json_release_composite_object (j\<lparr>j_cur := Some k\<rparr>) = Some (SYS_OK, j)"
      if "map_of (members (j_js j) ts (Suc i) (kids c)) key = Some k" and "k < n" for k
    proof -
      have "0 < k" "tok_parent (ts ! k) = int (k - 1)" "tok_parent (ts ! (k - 1)) = int i"
        using members_parents [OF f(1) v that(1)] by simp_all
      moreover have "nat (int k - 1) = k - 1" "k - 1 < length ts" using that(2) d(4) by simp_all
      ultimately show ?thesis
        using that(2) d(1,4) to_parent_at [of j ts k] to_parent_at [of j ts "k - 1"] j_cur_same [OF d(2)]
        by (simp add: json_release_composite_object_def)
    qed
    ultimately show ?thesis
      using d(8) by (auto simp: found_ok_def sys_errno_defs json_errno_defs split: option.splits)
  qed
qed

lemma get_array_index_ok: "document j \<Longrightarrow> found_ok j json_array_release_composite_object (json_get_array_index j index)"
proof (erule documentE)
  fix ts n i len
  assume d: "live_tokens j = Some ts" "j_cur j = Some i" "i < n" "n \<le> length ts" "\<And>k. k < n \<Longrightarrow> node ts n k"
    "\<And>k. k < n \<Longrightarrow> document (j\<lparr>j_cur := Some k\<rparr>)"
  show ?thesis
  proof (cases "tok_type (ts ! i) = JSMN_ARRAY \<and> uint index < tok_size (ts ! i)")
    case False
    then show ?thesis using d(1-4) by (auto simp: found_ok_def json_get_array_index_def sys_errno_defs json_errno_defs)
  next
    case True
    obtain c par where c: "tree_of ts i par c" "i + sz c \<le> n" "val_ok ts i c" using d(5) [OF d(3)] True by (auto simp: node_def)
    have f: "forest_of ts (Suc i) (int i) (kids c)" "tok_size (ts ! i) = int (length (kids c))" using c(1) by (simp_all add: tree_kids)
    have v: "vals_ok ts False (tok_end (ts ! i)) (Suc i) (kids c)" using c(3) True by (simp add: val_ok_kids is_compound_def)
    have n: "Suc i + szs (kids c) \<le> n" using c(2) by (simp add: sz_kids [of c])
    have k: "unat index < length (kids c)" using True unfolding f(2) uint_nat by (simp only: of_nat_less_iff)
    have "json_get_array_index j index = Some (SYS_OK, Some (element_indices (Suc i) (kids c) ! unat index))"
      using array_index_elements [OF f(1) v _ k] n d(1-4) True by (simp add: json_get_array_index_def)
    moreover have "json_array_release_composite_object (j\<lparr>j_cur := Some (element_indices (Suc i) (kids c) ! unat index)\<rparr>) = Some (SYS_OK, j)"
      using to_parent_at [OF d(1), of "element_indices (Suc i) (kids c) ! unat index"] element_parent [OF f(1) k]
        element_range [OF k, of "Suc i"] n d(4) j_cur_same [OF d(2)]
      by (simp add: json_array_release_composite_object_def)
    ultimately show ?thesis
      using d(6) element_range [OF k, of "Suc i"] n by (simp add: found_ok_def)
  qed
qed

section \<open>No lookup goes wrong\<close>

lemma takeWhile_stops: "a \<le> b \<Longrightarrow> b < length xs \<Longrightarrow> \<not> P (xs ! b) \<Longrightarrow> a + length (takeWhile P (drop a xs)) \<le> b"
proof (induction "b - a" arbitrary: a)
  case (Suc n)
  then have "drop a xs = xs ! a # drop (Suc a) xs" by (simp add: Cons_nth_drop_Suc)
  moreover have "Suc a + length (takeWhile P (drop (Suc a) xs)) \<le> b" by (rule Suc.hyps(1)) (use Suc.hyps(2) Suc.prems in auto)
  ultimately show ?case using Suc by simp
qed (simp add: Cons_nth_drop_Suc [symmetric])

lemma delim_not_digit: "prim_delim c \<Longrightarrow> \<not> is_digit c" "prim_start c \<Longrightarrow> \<not> is_space c" "prim_start c \<Longrightarrow> c \<noteq> CHR ''+''"
  by (auto simp: prim_delim_def is_ws_def is_digit_def prim_start_def is_space_def)

lemma strtoul_defined:
  assumes "span_ok js len t" and "tok_type t = JSMN_PRIMITIVE" and "len \<le> length js"
  shows "returns (\<lambda>_. True) (strtoul10 w js (nat (tok_start t)))"
proof -
  define i e where "i = nat (tok_start t)" and "e = nat (tok_end t)"
  have t: "prim_start (js ! i)" "prim_delim (js ! e)" "i < e" "e < length js"
    using assms by (auto simp: span_ok_def i_def e_def)
  have "takeWhile is_space (drop i js) = []"
    using t delim_not_digit(2) [OF t(1)] by (simp add: Cons_nth_drop_Suc [symmetric])
  moreover have "k + length (takeWhile is_digit (drop k js)) < length js" if "k \<le> e" for k
    using takeWhile_stops [of k e js is_digit] that t delim_not_digit(1) [OF t(2)] by simp
  ultimately show ?thesis
    using t(3) by (simp add: strtoul10_def Let_def i_def [symmetric] not_le)
qed

lemma values_defined:
  assumes "span_ok js len t" and "len \<le> length js"
  shows "returns (\<lambda>_. True) (json_str_to_bool js t)" "returns (\<lambda>_. True) (json_str_to_int js t)"
    "returns (\<lambda>_. True) (json_str_to_int64 js t)" "returns (\<lambda>_. True) (json_str_to_str js t maxlen)"
  using token_text_at [OF assms(1) _ assms(2)] strtoul_defined [OF assms(1) _ assms(2), of "TYPE(32 word)"]
    strtoul_defined [OF assms(1) _ assms(2), of "TYPE(64 word)"] assms(1)
  by (auto simp: json_str_to_bool_def json_str_to_int_def json_str_to_int64_def json_str_to_str_def span_ok_def elim!: returnsE)

lemma with_token_defined:
  assumes "document j" and "found_ok j up found" and "\<And>t len. span_ok (j_js j) len t \<Longrightarrow> len \<le> length (j_js j) \<Longrightarrow> returns (\<lambda>_. True) (f t)"
  shows "returns (\<lambda>_. True) (with_token j found f)"
proof -
  obtain r v where f: "found = Some (r, v)" "r = SYS_OK \<Longrightarrow> \<exists>k. v = Some k \<and> document (j\<lparr>j_cur := Some k\<rparr>)"
    using assms(2) by (auto simp: found_ok_def elim!: returnsE)
  show ?thesis
  proof (cases "r = SYS_OK")
    case True
    then obtain k where k: "v = Some k" "document (j\<lparr>j_cur := Some k\<rparr>)" using f(2) by blast
    from k(2) show ?thesis
      by (rule documentE) (use f(1) True k(1) in \<open>auto simp: with_token_def live_tokens_def split: if_splits intro: assms(3)\<close>)
  next
    case False
    then show ?thesis using f(1) by (simp add: with_token_def)
  qed
qed

lemma enter_document:
  assumes "document j" and "found_ok j up found"
  shows "returns (\<lambda>(r, n, j'). document j' \<and> j_js j' = j_js j \<and> (r = SYS_OK \<longrightarrow> up j' = Some (SYS_OK, j))) (enter type j found)"
proof -
  obtain r v where f: "found = Some (r, v)"
      "r = SYS_OK \<Longrightarrow> \<exists>k. v = Some k \<and> document (j\<lparr>j_cur := Some k\<rparr>) \<and> up (j\<lparr>j_cur := Some k\<rparr>) = Some (SYS_OK, j)"
    using assms(2) by (auto simp: found_ok_def elim!: returnsE)
  show ?thesis
  proof (cases "r = SYS_OK")
    case True
    then obtain k where k: "v = Some k" "document (j\<lparr>j_cur := Some k\<rparr>)" "up (j\<lparr>j_cur := Some k\<rparr>) = Some (SYS_OK, j)" using f(2) by blast
    from k(2) show ?thesis
      by (rule documentE) (use f(1) True k assms(1) in \<open>auto simp: enter_def live_tokens_def json_errno_defs sys_errno_defs split: if_splits\<close>)
  next
    case False
    then show ?thesis using f(1) assms(1) by (simp add: enter_def)
  qed
qed

lemma to_parent_document:
  assumes "document j"
  shows "returns (\<lambda>(r, j'). document j' \<and> j_js j' = j_js j) (to_parent j)"
proof -
  obtain ts n i len where d: "live_tokens j = Some ts" "j_cur j = Some i" "i < n" "n \<le> length ts"
      "tok_parent (ts ! i) < int n" "\<And>k. k < n \<Longrightarrow> document (j\<lparr>j_cur := Some k\<rparr>)"
    using assms by (elim documentE) blast
  then have "\<not> tok_parent (ts ! i) < 0 \<Longrightarrow> nat (tok_parent (ts ! i)) < n" by simp
  then show ?thesis using d assms by (simp add: to_parent_def)
qed

text \<open>Every object reached from a successful start by entering and leaving.\<close>

inductive json_reach :: "(nat \<Rightarrow> bool) \<Rightarrow> string \<Rightarrow> nat \<Rightarrow> jobj \<Rightarrow> bool" for avail js len where
  started: "json_parse_start avail js len = Some (SYS_OK, j) \<Longrightarrow> json_reach avail js len j"
| member_object: "json_reach avail js len j \<Longrightarrow> json_get_composite_object j key = Some (r, j') \<Longrightarrow> json_reach avail js len j'"
| member_array: "json_reach avail js len j \<Longrightarrow> json_get_array_object j key = Some (r, n, j') \<Longrightarrow> json_reach avail js len j'"
| element_object: "json_reach avail js len j \<Longrightarrow> json_array_get_composite_object j index = Some (r, j') \<Longrightarrow> json_reach avail js len j'"
| element_array: "json_reach avail js len j \<Longrightarrow> json_array_get_array_object j index = Some (r, n, j') \<Longrightarrow> json_reach avail js len j'"
| leave_member: "json_reach avail js len j \<Longrightarrow> json_release_composite_object j = Some (r, j') \<Longrightarrow> json_reach avail js len j'"
| leave_element: "json_reach avail js len j \<Longrightarrow> json_array_release_composite_object j = Some (r, j') \<Longrightarrow> json_reach avail js len j'"

lemma release_document:
  assumes "document j"
  shows "returns (\<lambda>(r, j'). document j' \<and> j_js j' = j_js j) (json_release_composite_object j)"
proof -
  obtain r k where "to_parent j = Some (r, k)" "document k" "j_js k = j_js j"
    using to_parent_document [OF assms] by (auto elim!: returnsE)
  then show ?thesis using to_parent_document [of k] by (simp add: json_release_composite_object_def)
qed

lemma enter_operations:
  assumes "document j"
  shows "returns (\<lambda>(r, j'). document j' \<and> j_js j' = j_js j \<and> (r = SYS_OK \<longrightarrow> json_release_composite_object j' = Some (SYS_OK, j)))
      (json_get_composite_object j key)"
    "returns (\<lambda>(r, n, j'). document j' \<and> j_js j' = j_js j \<and> (r = SYS_OK \<longrightarrow> json_release_composite_object j' = Some (SYS_OK, j)))
      (json_get_array_object j key)"
    "returns (\<lambda>(r, j'). document j' \<and> j_js j' = j_js j \<and> (r = SYS_OK \<longrightarrow> json_array_release_composite_object j' = Some (SYS_OK, j)))
      (json_array_get_composite_object j index)"
    "returns (\<lambda>(r, n, j'). document j' \<and> j_js j' = j_js j \<and> (r = SYS_OK \<longrightarrow> json_array_release_composite_object j' = Some (SYS_OK, j)))
      (json_array_get_array_object j index)"
proof -
  note e = enter_document [OF assms get_value_ok [OF assms]] and a = enter_document [OF assms get_array_index_ok [OF assms]]
  show "returns (\<lambda>(r, j'). document j' \<and> j_js j' = j_js j \<and> (r = SYS_OK \<longrightarrow> json_release_composite_object j' = Some (SYS_OK, j)))
      (json_get_composite_object j key)"
    unfolding json_get_composite_object_def by (rule returns_bind [OF e]) auto
  show "returns (\<lambda>(r, j'). document j' \<and> j_js j' = j_js j \<and> (r = SYS_OK \<longrightarrow> json_array_release_composite_object j' = Some (SYS_OK, j)))
      (json_array_get_composite_object j index)"
    unfolding json_array_get_composite_object_def by (rule returns_bind [OF a]) auto
qed (simp_all add: json_get_array_object_def json_array_get_array_object_def
    enter_document [OF assms get_value_ok [OF assms]] enter_document [OF assms get_array_index_ok [OF assms]])

lemma reach_document:
  assumes "json_reach avail js len j" and "len \<le> length js" and "len \<le> 32767"
  shows "document j"
  using assms(1)
proof induction
  case (started j)
  then show ?case using returnsD [OF start_document [OF assms(2,3)] started] by simp
next
  case (member_object j key r j')
  then show ?case using returnsD [OF enter_operations(1) [OF member_object.IH] member_object.hyps(2)] by simp
next
  case (member_array j key r n j')
  then show ?case using returnsD [OF enter_operations(2) [OF member_array.IH] member_array.hyps(2)] by simp
next
  case (element_object j index r j')
  then show ?case using returnsD [OF enter_operations(3) [OF element_object.IH] element_object.hyps(2)] by simp
next
  case (element_array j index r n j')
  then show ?case using returnsD [OF enter_operations(4) [OF element_array.IH] element_array.hyps(2)] by simp
next
  case (leave_member j r j')
  then show ?case using returnsD [OF release_document [OF leave_member.IH] leave_member.hyps(2)] by simp
next
  case (leave_element j r j')
  then show ?case using returnsD [OF to_parent_document [OF leave_element.IH] leave_element.hyps(2) [unfolded json_array_release_composite_object_def]] by simp
qed

end
