(* ===== verification/Json_Text.thy ===== *)
theory Json_Text
  imports Json_Lookup
begin

text \<open>
  JSON documents as a grammar, white space included, and the tokens that belong to them. The
  tokenizer turns the text of a document into exactly these tokens.
\<close>

section \<open>Documents and their text\<close>

text \<open>
  A member is white space, key, white space, colon, white space, value, white space; an element is
  white space, value, white space. Objects and arrays end with white space before their bracket.
\<close>

datatype json = JStr string | JPrim string | JObj members_syntax string | JArr elements_syntax string
  and members_syntax = MNil | MCons string string string string json string members_syntax
  and elements_syntax = ENil | ECons string json string elements_syntax

primrec render :: "json \<Rightarrow> string" and render_members :: "members_syntax \<Rightarrow> string" and render_elements :: "elements_syntax \<Rightarrow> string" where
  "render (JStr s) = QUOTE # s @ [QUOTE]"
| "render (JPrim s) = s"
| "render (JObj ms w) = CHR ''{'' # render_members ms @ w @ [CHR ''}'']"
| "render (JArr es w) = CHR ''['' # render_elements es @ w @ [CHR '']'']"
| "render_members MNil = []"
| "render_members (MCons w1 k w2 w3 v w4 ms) =
     w1 @ QUOTE # k @ QUOTE # w2 @ CHR '':'' # w3 @ render v @ w4 @ (if ms = MNil then [] else CHR '','' # render_members ms)"
| "render_elements ENil = []"
| "render_elements (ECons w1 v w2 es) = w1 @ render v @ w2 @ (if es = ENil then [] else CHR '','' # render_elements es)"

text \<open>Strings hold escapes as the tokenizer wants them; primitives begin like a number or a literal.\<close>

fun string_ok :: "string \<Rightarrow> bool" where
  "string_ok [] \<longleftrightarrow> True"
| "string_ok (c # cs) \<longleftrightarrow> c \<noteq> NUL \<and> c \<noteq> QUOTE \<and>
     (if c = BACKSLASH
      then (case cs of
              [] \<Rightarrow> False
            | e # ds \<Rightarrow> if simple_escape e then string_ok ds
                else e = CHR ''u'' \<and> (case ds of a # b # c # d # rest \<Rightarrow> hex_digit a \<and> hex_digit b \<and> hex_digit c \<and> hex_digit d \<and> string_ok rest
                  | _ \<Rightarrow> False))
      else string_ok cs)"

definition prim_char :: "char \<Rightarrow> bool" where
  "prim_char c \<longleftrightarrow> \<not> prim_delim c \<and> 32 \<le> (of_char c :: nat) \<and> (of_char c :: nat) < 127"

definition prim_ok :: "string \<Rightarrow> bool" where
  "prim_ok s \<longleftrightarrow> s \<noteq> [] \<and> prim_start (hd s) \<and> list_all prim_char s"

abbreviation ws :: "string \<Rightarrow> bool" where "ws \<equiv> list_all is_ws"

primrec json_ok :: "json \<Rightarrow> bool" and members_ok :: "members_syntax \<Rightarrow> bool" and elements_ok :: "elements_syntax \<Rightarrow> bool" where
  "json_ok (JStr s) \<longleftrightarrow> string_ok s"
| "json_ok (JPrim s) \<longleftrightarrow> prim_ok s"
| "json_ok (JObj ms w) \<longleftrightarrow> members_ok ms \<and> ws w"
| "json_ok (JArr es w) \<longleftrightarrow> elements_ok es \<and> ws w"
| "members_ok MNil \<longleftrightarrow> True"
| "members_ok (MCons w1 k w2 w3 v w4 ms) \<longleftrightarrow> ws w1 \<and> string_ok k \<and> ws w2 \<and> ws w3 \<and> json_ok v \<and> ws w4 \<and> members_ok ms"
| "elements_ok ENil \<longleftrightarrow> True"
| "elements_ok (ECons w1 v w2 es) \<longleftrightarrow> ws w1 \<and> json_ok v \<and> ws w2 \<and> elements_ok es"

section \<open>The tokens of a document\<close>

primrec member_count :: "members_syntax \<Rightarrow> nat" where
  "member_count MNil = 0"
| "member_count (MCons w1 k w2 w3 v w4 ms) = Suc (member_count ms)"

primrec element_count :: "elements_syntax \<Rightarrow> nat" where
  "element_count ENil = 0"
| "element_count (ECons w1 v w2 es) = Suc (element_count es)"

primrec ntoks :: "json \<Rightarrow> nat" and member_ntoks :: "members_syntax \<Rightarrow> nat" and element_ntoks :: "elements_syntax \<Rightarrow> nat" where
  "ntoks (JStr s) = 1"
| "ntoks (JPrim s) = 1"
| "ntoks (JObj ms w) = Suc (member_ntoks ms)"
| "ntoks (JArr es w) = Suc (element_ntoks es)"
| "member_ntoks MNil = 0"
| "member_ntoks (MCons w1 k w2 w3 v w4 ms) = Suc (ntoks v) + member_ntoks ms"
| "element_ntoks ENil = 0"
| "element_ntoks (ECons w1 v w2 es) = ntoks v + element_ntoks es"

definition mk_token :: "jsmntype \<Rightarrow> nat \<Rightarrow> nat \<Rightarrow> nat \<Rightarrow> int \<Rightarrow> jsmntok" where
  "mk_token ty st en cnt par = \<lparr>tok_type = ty, tok_start = int st, tok_end = int en, tok_size = int cnt, tok_parent = par\<rparr>"

definition key_start :: "nat \<Rightarrow> string \<Rightarrow> nat" where
  "key_start off w1 = off + length w1 + 1"

definition member_value_start :: "nat \<Rightarrow> string \<Rightarrow> string \<Rightarrow> string \<Rightarrow> string \<Rightarrow> nat" where
  "member_value_start off w1 k w2 w3 = key_start off w1 + length k + 1 + length w2 + 1 + length w3"

text \<open>\<open>off\<close> is where the text begins, \<open>par\<close> the parent and \<open>base\<close> the index of the first token.\<close>

primrec toks :: "json \<Rightarrow> nat \<Rightarrow> int \<Rightarrow> nat \<Rightarrow> jsmntok list"
  and member_toks :: "members_syntax \<Rightarrow> nat \<Rightarrow> int \<Rightarrow> nat \<Rightarrow> jsmntok list"
  and element_toks :: "elements_syntax \<Rightarrow> nat \<Rightarrow> int \<Rightarrow> nat \<Rightarrow> jsmntok list" where
  "toks (JStr s) off par base = [mk_token JSMN_STRING (off + 1) (off + 1 + length s) 0 par]"
| "toks (JPrim s) off par base = [mk_token JSMN_PRIMITIVE off (off + length s) 0 par]"
| "toks (JObj ms w) off par base =
     mk_token JSMN_OBJECT off (off + length (render (JObj ms w))) (member_count ms) par # member_toks ms (off + 1) (int base) (Suc base)"
| "toks (JArr es w) off par base =
     mk_token JSMN_ARRAY off (off + length (render (JArr es w))) (element_count es) par # element_toks es (off + 1) (int base) (Suc base)"
| "member_toks MNil off par base = []"
| "member_toks (MCons w1 k w2 w3 v w4 ms) off par base =
     mk_token JSMN_STRING (key_start off w1) (key_start off w1 + length k) 1 par #
     toks v (member_value_start off w1 k w2 w3) (int base) (Suc base) @
     member_toks ms (member_value_start off w1 k w2 w3 + length (render v) + length w4 + 1) par (Suc base + ntoks v)"
| "element_toks ENil off par base = []"
| "element_toks (ECons w1 v w2 es) off par base =
     toks v (off + length w1) par base @
     element_toks es (off + length w1 + length (render v) + length w2 + 1) par (base + ntoks v)"

lemma length_toks [simp]:
  "length (toks v off par base) = ntoks v"
  "length (member_toks ms off par base) = member_ntoks ms"
  "length (element_toks es off par base) = element_ntoks es"
  by (induction v and ms and es arbitrary: off par base and off par base and off par base) simp_all

lemma count_le_ntoks [simp]: "member_count ms \<le> member_ntoks ms" "element_count es \<le> element_ntoks es" "0 < ntoks v"
proof -
  have p: "0 < ntoks v" for v by (cases v) simp_all
  show "member_count ms \<le> member_ntoks ms"
  proof (induction ms rule: members_syntax.induct [where ?P1.0 = "\<lambda>_. True" and ?P3.0 = "\<lambda>_. True"])
    case (MCons w1 k w2 w3 v w4 ms)
    then show ?case by simp
  qed simp_all
  show "element_count es \<le> element_ntoks es"
  proof (induction es rule: elements_syntax.induct [where ?P1.0 = "\<lambda>_. True" and ?P2.0 = "\<lambda>_. True"])
    case (ECons w1 v w2 es)
    then show ?case using p [of v] by simp
  qed simp_all
  show "0 < ntoks v" by (rule p)
qed

text \<open>All of them are closed, and their parents are among them or the given one.\<close>

definition closed_block :: "int \<Rightarrow> nat \<Rightarrow> jsmntok list \<Rightarrow> bool" where
  "closed_block par base ts \<longleftrightarrow>
     (\<forall>i < length ts. \<not> open_token (ts ! i) \<and> (tok_parent (ts ! i) = par \<or> int base \<le> tok_parent (ts ! i) \<and> tok_parent (ts ! i) < int (base + i)))"

lemma closed_block_Nil [simp]: "closed_block par base []"
  by (simp add: closed_block_def)

lemma closed_block_Cons:
  "\<not> open_token t \<Longrightarrow> tok_parent t = par \<Longrightarrow> closed_block (int base) (Suc base) ts \<or> closed_block par (Suc base) ts \<Longrightarrow> closed_block par base (t # ts)"
  unfolding closed_block_def by (auto simp: nth_Cons split: nat.split)

lemma closed_block_append:
  "closed_block par base ts \<Longrightarrow> closed_block par (base + length ts) us \<Longrightarrow> closed_block par base (ts @ us)"
  unfolding closed_block_def
proof (intro allI impI)
  fix i
  assume ts: "\<forall>i<length ts. \<not> open_token (ts ! i) \<and> (tok_parent (ts ! i) = par \<or> int base \<le> tok_parent (ts ! i) \<and> tok_parent (ts ! i) < int (base + i))"
    and us: "\<forall>i<length us. \<not> open_token (us ! i) \<and> (tok_parent (us ! i) = par \<or> int (base + length ts) \<le> tok_parent (us ! i) \<and>
        tok_parent (us ! i) < int (base + length ts + i))" and i: "i < length (ts @ us)"
  show "\<not> open_token ((ts @ us) ! i) \<and> (tok_parent ((ts @ us) ! i) = par \<or>
      int base \<le> tok_parent ((ts @ us) ! i) \<and> tok_parent ((ts @ us) ! i) < int (base + i))"
  proof (cases "i < length ts")
    case False
    then have "i - length ts < length us" using i by simp
    with us [rule_format, OF this] False show ?thesis by (auto simp: nth_append)
  qed (use ts in \<open>simp add: nth_append\<close>)
qed

lemma mk_token_closed [simp]: "\<not> open_token (mk_token ty st en cnt par)" "tok_parent (mk_token ty st en cnt par) = par"
  by (simp_all add: open_token_def mk_token_def)

lemma toks_closed:
  "closed_block par base (toks v off par base)"
  "closed_block par base (member_toks ms off par base)"
  "closed_block par base (element_toks es off par base)"
proof (induction v and ms and es arbitrary: off par base and off par base and off par base)
  case (MCons w1 k w2 w3 v w4 ms)
  have "closed_block par base (mk_token JSMN_STRING (key_start off w1) (key_start off w1 + length k) 1 par #
     toks v (member_value_start off w1 k w2 w3) (int base) (Suc base))"
    by (rule closed_block_Cons) (simp_all add: MCons)
  from closed_block_append [OF this] show ?case using MCons by simp
next
  case (ECons w1 v w2 es)
  then show ?case by (simp add: closed_block_append)
qed (simp_all add: closed_block_Cons)

end
