(* ===== verification/Json_Run.thy ===== *)
theory Json_Run
  imports Json_Text
begin

text \<open>
  The tokenizer on the text of a document: what each character does to the tokens, and that a
  whole value appends exactly its tokens.
\<close>

section \<open>Scans\<close>

lemma drop_Cons_nth: "drop i js = c # r \<Longrightarrow> i < length js \<and> js ! i = c \<and> drop (Suc i) js = r"
  by (metis drop_Suc drop_all hd_drop_conv_nth leI list.distinct(1) list.sel(1,3) tl_drop)

lemma drop_append_split: "drop i js = xs @ ys \<Longrightarrow> drop (i + length xs) js = ys"
  by (metis add.commute append_eq_conv_conj drop_drop)

lemma hex_scan_four:
  "drop i js = a # b # c # d # r \<Longrightarrow> hex_digit a \<and> hex_digit b \<and> hex_digit c \<and> hex_digit d \<Longrightarrow> i + 4 \<le> len \<Longrightarrow>
   hex_scan js len i 4 = Some (Inr (i + 4))"
proof -
  assume d: "drop i js = a # b # c # d # r" and h: "hex_digit a \<and> hex_digit b \<and> hex_digit c \<and> hex_digit d" and l: "i + 4 \<le> len"
  have n: "\<not> hex_digit NUL" by (simp add: hex_digit_def)
  note d1 = drop_Cons_nth [OF d] and d2 = drop_Cons_nth [OF d1 [THEN conjunct2, THEN conjunct2]]
  note d3 = drop_Cons_nth [OF d2 [THEN conjunct2, THEN conjunct2]] and d4 = drop_Cons_nth [OF d3 [THEN conjunct2, THEN conjunct2]]
  have "a \<noteq> NUL \<and> b \<noteq> NUL \<and> c \<noteq> NUL \<and> d \<noteq> NUL" using h n by metis
  then show ?thesis using d1 d2 d3 d4 h l by (simp add: numeral_eq_Suc)
qed

lemma string_scan_ok:
  "string_ok s \<Longrightarrow> drop i js = s @ QUOTE # r \<Longrightarrow> i + length s < len \<Longrightarrow> string_scan js len i = Some (Inr (i + length s))"
proof (induction s arbitrary: i rule: string_ok.induct)
  case 1
  then show ?case using drop_Cons_nth [of i js QUOTE r] by (subst string_scan.simps) simp
next
  case (2 c cs)
  have d: "i < length js" "js ! i = c" "drop (Suc i) js = cs @ QUOTE # r" using drop_Cons_nth [of i js c] 2(5) by auto
  have c: "c \<noteq> NUL" "c \<noteq> QUOTE" "i < len" using 2(4,6) by auto
  show ?case
  proof (cases "c = BACKSLASH")
    case False
    then have "string_scan js len (Suc i) = Some (Inr (Suc i + length cs))" using 2(3) [OF False _ d(3)] 2(4,6) False by simp
    then show ?thesis using c d False by (subst string_scan.simps) simp
  next
    case True
    then obtain e ds where cs: "cs = e # ds" using 2(4) by (cases cs) auto
    have e: "Suc i < length js" "js ! Suc i = e" "drop (Suc (Suc i)) js = ds @ QUOTE # r" using drop_Cons_nth [of "Suc i" js e] d(3) cs by auto
    show ?thesis
    proof (cases "simple_escape e")
      case simple: True
      then have "string_scan js len (Suc (Suc i)) = Some (Inr (Suc (Suc i) + length ds))"
        using 2(1) [OF True cs simple] 2(4,6) e(3) True cs by simp
      then show ?thesis using c d e True cs simple 2(6) by (subst string_scan.simps) simp
    next
      case False
      then obtain a1 a2 a3 a4 rest where u: "e = CHR ''u''" "ds = a1 # a2 # a3 # a4 # rest"
          "hex_digit a1 \<and> hex_digit a2 \<and> hex_digit a3 \<and> hex_digit a4" "string_ok rest"
        using 2(4) True cs by (auto split: list.splits)
      have "hex_scan js len (Suc (Suc i)) 4 = Some (Inr (Suc (Suc i) + 4))"
        using hex_scan_four [OF _ u(3)] e(3) u(2) 2(6) cs by simp
      moreover have "drop (Suc (Suc i) + 4) js = rest @ QUOTE # r"
        using drop_append_split [of "Suc (Suc i)" js "[a1, a2, a3, a4]"] e(3) u(2) by (simp add: numeral_eq_Suc)
      then have "string_scan js len (Suc (Suc i) + 4) = Some (Inr (Suc (Suc i) + 4 + length rest))"
        using 2(2) [OF True cs False u(2) refl refl refl] u(4) 2(6) cs u(2) by simp
      ultimately show ?thesis using c d e True cs False u 2(6) by (subst string_scan.simps) simp
    qed
  qed
qed

lemma primitive_scan_ok:
  "list_all prim_char s \<Longrightarrow> drop i js = s @ d # r \<Longrightarrow> prim_delim d \<Longrightarrow> i + length s < len \<Longrightarrow>
   primitive_scan js len i = Some (Inr (i + length s))"
proof (induction s arbitrary: i)
  case Nil
  have "d \<noteq> NUL" using Nil(3) by (auto simp: prim_delim_def is_ws_def)
  then show ?case using Nil drop_Cons_nth [of i js d r] by (subst primitive_scan.simps) simp
next
  case (Cons c s)
  have "c \<noteq> NUL" using Cons(2) by (auto simp: prim_char_def)
  then show ?case
    using Cons drop_Cons_nth [of i js c "s @ d # r"] by (subst primitive_scan.simps) (simp add: prim_char_def)
qed

section \<open>Runs\<close>

text \<open>
  The loop with the tokens \<open>A\<close> in use and \<open>B\<close> free; a run from one state to another means that the
  loop gives the same from both.
\<close>

definition st :: "nat \<Rightarrow> int \<Rightarrow> jsmntok list \<Rightarrow> jsmntok list \<Rightarrow> jsmn_state" where
  "st pos super A B = (int (length A), \<lparr>p_pos = pos, p_toknext = length A, p_toksuper = super\<rparr>, Some (A @ B))"

definition slots :: "jsmn_state \<Rightarrow> nat" where
  "slots x = length (the (snd (snd x)))"

definition run :: "string \<Rightarrow> nat \<Rightarrow> jsmn_state \<Rightarrow> jsmn_state \<Rightarrow> bool" where
  "run js len x y \<longleftrightarrow> slots x = slots y \<and> jsmn_loop js len (slots x) x = jsmn_loop js len (slots x) y"

lemma slots_st [simp]: "slots (st pos s A B) = length A + length B"
  by (simp add: slots_def st_def)

lemma run_refl [simp]: "run js len x x"
  by (simp add: run_def)

lemma run_trans [trans]: "run js len x y \<Longrightarrow> run js len y z \<Longrightarrow> run js len x z"
  unfolding run_def by metis

lemma run_step:
  assumes "drop pos js = c # r" and "pos < len" and "c \<noteq> NUL" and "length A' + length B' = length A + length B"
    and "jsmn_step c js len (length (A @ B)) (st pos super A B) =
      Some (Inr (int (length A'), \<lparr>p_pos = pos', p_toknext = length A', p_toksuper = super'\<rparr>, Some (A' @ B')))"
  shows "run js len (st pos super A B) (st (Suc pos') super' A' B')"
  using assms drop_Cons_nth [OF assms(1)]
  unfolding run_def slots_st unfolding st_def by (subst jsmn_loop.simps) simp

definition growl :: "int \<Rightarrow> jsmntok list \<Rightarrow> jsmntok list" where
  "growl s A = (if s = -1 then A else A[nat s := grow (A ! nat s)])"

lemma length_growl [simp]: "length (growl s A) = length A"
  by (simp add: growl_def)

text \<open>The superior token may take a value: it is an array, or a key that has none yet, or there is none.\<close>

definition room :: "int \<Rightarrow> jsmntok list \<Rightarrow> bool" where
  "room s A \<longleftrightarrow> s = -1 \<or> 0 \<le> s \<and> nat s < length A \<and> s < 32768 \<and> 0 \<le> tok_size (A ! nat s) \<and> tok_size (A ! nat s) < 32767"

definition takes_value :: "int \<Rightarrow> jsmntok list \<Rightarrow> bool" where
  "takes_value s A \<longleftrightarrow> s = -1 \<or> tok_type (A ! nat s) = JSMN_ARRAY \<or> tok_type (A ! nat s) = JSMN_STRING \<and> tok_size (A ! nat s) = 0"

lemma char_cases [simp]: "is_ws CHR '','' = False" "is_ws CHR '':'' = False" "is_ws CHR ''{'' = False" "is_ws CHR ''}'' = False"
  "is_ws CHR ''['' = False" "is_ws CHR '']'' = False" "is_ws QUOTE = False"
  by (simp_all add: is_ws_def)

lemma run_ws: "ws w \<Longrightarrow> drop pos js = w @ r \<Longrightarrow> pos + length w \<le> len \<Longrightarrow> run js len (st pos s A B) (st (pos + length w) s A B)"
proof (induction w arbitrary: pos)
  case (Cons c w)
  have c: "is_ws c" "c \<noteq> NUL" using Cons.prems(1) by (auto simp: is_ws_def)
  have "jsmn_step c js len n (st pos s A B) = Some (Inr (st pos s A B))" for n
    using c(1) by (auto simp: jsmn_step_def st_def is_ws_def)
  then have "run js len (st pos s A B) (st (Suc pos) s A B)"
    using Cons.prems c(2) by (intro run_step [of pos js c "w @ r"]) (simp_all add: st_def)
  moreover have "run js len (st (Suc pos) s A B) (st (Suc pos + length w) s A B)"
    using Cons.prems drop_Cons_nth [of pos js c] by (intro Cons.IH) simp_all
  ultimately show ?case by (simp add: run_trans)
qed simp

text \<open>A new token at the end of those in use.\<close>

lemma alloc_st:
  "B \<noteq> [] \<Longrightarrow> jsmn_alloc_token \<lparr>p_pos = pos, p_toknext = length A, p_toksuper = s\<rparr> (A @ B) (length A + length B) =
   Some (Some (length A), \<lparr>p_pos = pos, p_toknext = Suc (length A), p_toksuper = s\<rparr>,
     A @ (hd B)\<lparr>tok_start := -1, tok_end := -1, tok_size := 0, tok_parent := -1\<rparr> # tl B)"
  by (cases B) (simp_all add: jsmn_alloc_token_def nth_append list_update_append)

lemma room_index: "room s A \<Longrightarrow> s \<noteq> -1 \<Longrightarrow> \<exists>k < length A. s = int k \<and> jsmnindex s = s \<and> growl s A = A[k := grow (A ! k)]"
  by (auto simp: room_def growl_def intro!: exI [of _ "nat s"])

lemma counted_st:
  assumes "room s A" and "B \<noteq> []" and "x < 32768" and "y < 32768"
  shows "jsmn_counted (int (length A)) (jsmn_token ty x y pos' \<lparr>p_pos = pos, p_toknext = length A, p_toksuper = s\<rparr> (Some (A @ B)) (length A + length B)) =
    Some (Inr (int (length A) + 1, \<lparr>p_pos = pos', p_toknext = Suc (length A), p_toksuper = s\<rparr>,
      Some (growl s A @ mk_token ty x y 0 s # tl B)))"
proof (cases "s = -1")
  case True
  then show ?thesis
    using assms by (simp add: jsmn_token_def alloc_st jsmn_counted_def growl_def jsmn_fill_token_def mk_token_def)
next
  case False
  then obtain k where k: "k < length A" "s = int k" "jsmnindex (int k) = int k" "growl (int k) A = A[k := grow (A ! k)]"
    using room_index [OF assms(1)] by auto
  then show ?thesis
    using assms by (simp add: jsmn_token_def alloc_st jsmn_counted_def jsmn_fill_token_def mk_token_def nth_append list_update_append)
qed

section \<open>Tokens of the characters\<close>

lemma prim_start_cases:
  "prim_start c \<Longrightarrow> c \<noteq> CHR ''{'' \<and> c \<noteq> CHR ''['' \<and> c \<noteq> CHR ''}'' \<and> c \<noteq> CHR '']'' \<and> c \<noteq> QUOTE \<and> \<not> is_ws c \<and>
     c \<noteq> CHR '':'' \<and> c \<noteq> CHR '','' \<and> c \<noteq> NUL"
  by (auto simp: prim_start_def is_ws_def)

lemma run_string:
  assumes "string_ok t" and "drop pos js = QUOTE # t @ QUOTE # r" and "pos + length t + 1 < len" and "len < 32768"
    and "room s A" and "B \<noteq> []"
  shows "run js len (st pos s A B) (st (pos + length t + 2) s (growl s A @ [mk_token JSMN_STRING (pos + 1) (pos + 1 + length t) 0 s]) (tl B))"
proof -
  have scan: "string_scan js len (Suc pos) = Some (Inr (Suc pos + length t))"
    using string_scan_ok [OF assms(1), of "Suc pos" js r len] drop_Cons_nth [OF assms(2)] assms(3) by simp
  have "run js len (st pos s A B)
      (st (Suc (Suc pos + length t)) s (growl s A @ [mk_token JSMN_STRING (pos + 1) (pos + 1 + length t) 0 s]) (tl B))"
    using assms scan by (intro run_step [OF assms(2)])
      (simp_all add: st_def jsmn_step_def jsmn_parse_string_def counted_st)
  then show ?thesis by simp
qed

lemma run_primitive:
  assumes "prim_ok t" and "drop pos js = t @ d # r" and "prim_delim d" and "pos + length t < len" and "len < 32768"
    and "room s A" and "takes_value s A" and "B \<noteq> []"
  shows "run js len (st pos s A B) (st (pos + length t) s (growl s A @ [mk_token JSMN_PRIMITIVE pos (pos + length t) 0 s]) (tl B))"
proof -
  obtain c t' where t: "t = c # t'" "prim_start c" using assms(1) by (cases t) (auto simp: prim_ok_def)
  note c = prim_start_cases [OF t(2)]
  have scan: "primitive_scan js len pos = Some (Inr (pos + length t))"
    using assms(1) by (intro primitive_scan_ok [OF _ assms(2,3,4)]) (simp add: prim_ok_def)
  have allowed: "primitive_allowed \<lparr>p_pos = pos, p_toknext = length A, p_toksuper = s\<rparr> (Some (A @ B)) = Some True"
  proof (cases "s = -1")
    case False
    then show ?thesis using assms(6,7) room_index [OF assms(6) False]
      by (auto simp: primitive_allowed_def takes_value_def nth_append)
  qed (simp add: primitive_allowed_def)
  have "run js len (st pos s A B)
      (st (Suc (pos + length t - 1)) s (growl s A @ [mk_token JSMN_PRIMITIVE pos (pos + length t) 0 s]) (tl B))"
    using assms c t scan allowed
    by (intro run_step [of pos js c "t' @ d # r"]) (simp_all add: st_def jsmn_step_def jsmn_parse_primitive_def counted_st)
  then show ?thesis using t(1) by simp
qed

definition bracket :: "jsmntype \<Rightarrow> char \<Rightarrow> char \<Rightarrow> bool" where
  "bracket ty b e \<longleftrightarrow> ty = JSMN_OBJECT \<and> b = CHR ''{'' \<and> e = CHR ''}'' \<or> ty = JSMN_ARRAY \<and> b = CHR ''['' \<and> e = CHR '']''"

definition opened :: "jsmntype \<Rightarrow> nat \<Rightarrow> int \<Rightarrow> jsmntok" where
  "opened ty pos s = \<lparr>tok_type = ty, tok_start = int pos, tok_end = -1, tok_size = 0, tok_parent = s\<rparr>"

lemma bracket_step:
  assumes "bracket ty b e"
  shows "jsmn_step b js len num (c, p, t) = jsmn_open ty c p t num" "jsmn_step e js len num (c, p, t) = jsmn_close ty c p t"
    "b \<noteq> NUL" "e \<noteq> NUL"
  using assms by (auto simp: bracket_def jsmn_step_def)

lemma run_open:
  assumes "bracket ty b e" and "drop pos js = b # r" and "pos < len" and "len < 32768" and "room s A" and "B \<noteq> []"
  shows "run js len (st pos s A B) (st (Suc pos) (int (length A)) (growl s A @ [opened ty pos s]) (tl B))"
proof (rule run_step [OF assms(2,3)])
  have pos: "pos < 32768" using assms(3,4) by simp
  have "jsmn_open ty (int (length A)) \<lparr>p_pos = pos, p_toknext = length A, p_toksuper = s\<rparr> (Some (A @ B)) (length A + length B) =
      Some (Inr (int (length A) + 1, \<lparr>p_pos = pos, p_toknext = Suc (length A), p_toksuper = int (length A)\<rparr>, Some (growl s A @ opened ty pos s # tl B)))"
  proof (cases "s = -1")
    case True
    then show ?thesis using assms(6) pos by (simp add: jsmn_open_def alloc_st growl_def opened_def)
  next
    case False
    then obtain k where k: "k < length A" "s = int k" "jsmnindex (int k) = int k" "growl (int k) A = A[k := grow (A ! k)]"
      using room_index [OF assms(5)] by auto
    then show ?thesis
      using assms(6) pos by (simp add: jsmn_open_def alloc_st opened_def nth_append list_update_append)
  qed
  then show "jsmn_step b js len (length (A @ B)) (st pos s A B) = Some (Inr (int (length (growl s A @ [opened ty pos s])),
      \<lparr>p_pos = pos, p_toknext = length (growl s A @ [opened ty pos s]), p_toksuper = int (length A)\<rparr>, Some ((growl s A @ [opened ty pos s]) @ tl B)))"
    by (simp add: bracket_step [OF assms(1)] st_def)
qed (use bracket_step [OF assms(1)] assms(6) in \<open>simp_all add: Suc_leI\<close>)

lemma close_block:
  assumes "length A0 = n" and "closed_block (int n) (Suc n) M" and "tok_type t = ty" and "open_token t" and "k < length M + 1"
  shows "close_walk ty pos (A0 @ t # M @ B) super (int (n + k)) =
    Some (0, tok_parent t, A0 @ t\<lparr>tok_end := jsmnindex (int pos + 1)\<rparr> # M @ B)"
  using assms(5)
proof (induction k rule: less_induct)
  case (less k)
  show ?case
  proof (cases k)
    case 0
    then show ?thesis using assms(1,3,4) by (subst close_walk.simps) (simp add: nth_append list_update_append)
  next
    case (Suc i)
    let ?T = "A0 @ t # M @ B"
    have i: "i < length M" using less(2) Suc by simp
    have at: "?T ! (n + k) = M ! i" using i Suc assms(1) by (simp add: nth_append)
    have p: "\<not> open_token (M ! i)" "tok_parent (M ! i) = int n \<or> int (Suc n) \<le> tok_parent (M ! i) \<and> tok_parent (M ! i) < int (Suc n + i)"
      using assms(2) i by (auto simp: closed_block_def)
    define q where "q = nat (tok_parent (M ! i)) - n"
    have q: "tok_parent (M ! i) = int (n + q)" "q < k" using p(2) Suc by (auto simp: q_def)
    have "close_walk ty pos ?T super (int (n + q)) = Some (0, tok_parent t, A0 @ t\<lparr>tok_end := jsmnindex (int pos + 1)\<rparr> # M @ B)"
      by (rule less(1)) (use q(2) less(2) in simp_all)
    moreover have "n + k < length ?T" using i Suc assms(1) by simp
    ultimately show ?thesis using at p(1) q(1) by (subst close_walk.simps) (simp del: of_nat_add)
  qed
qed

lemma run_close:
  assumes "bracket ty b e" and "drop pos js = e # r" and "pos < len" and "len < 32768"
    and "length A0 = n" and "closed_block (int n) (Suc n) M" and "tok_type t = ty" and "open_token t"
  shows "run js len (st pos s (A0 @ t # M) B) (st (Suc pos) (tok_parent t) (A0 @ t\<lparr>tok_end := int pos + 1\<rparr> # M) B)"
proof (rule run_step [OF assms(2,3)])
  have "close_walk ty pos (A0 @ t # M @ B) s (int (n + length M)) = Some (0, tok_parent t, A0 @ t\<lparr>tok_end := int pos + 1\<rparr> # M @ B)"
    using close_block [OF assms(5-8), of "length M" pos B s] assms(3,4) by simp
  then show "jsmn_step e js len (length ((A0 @ t # M) @ B)) (st pos s (A0 @ t # M) B) =
      Some (Inr (int (length (A0 @ t\<lparr>tok_end := int pos + 1\<rparr> # M)), \<lparr>p_pos = pos, p_toknext = length (A0 @ t\<lparr>tok_end := int pos + 1\<rparr> # M),
        p_toksuper = tok_parent t\<rparr>, Some ((A0 @ t\<lparr>tok_end := int pos + 1\<rparr> # M) @ B)))"
    using assms(5) by (simp add: bracket_step [OF assms(1)] st_def jsmn_close_def)
qed (use bracket_step [OF assms(1)] in simp_all)

lemma run_colon: "drop pos js = CHR '':'' # r \<Longrightarrow> pos < len \<Longrightarrow> run js len (st pos s A B) (st (Suc pos) (int (length A) - 1) A B)"
  by (erule run_step) (simp_all add: jsmn_step_def st_def)

lemma run_comma:
  assumes "drop pos js = CHR '','' # r" and "pos < len" and "k < length A" and "A ! k = t"
  shows "run js len (st pos (int k) A B) (st (Suc pos) (if is_compound (tok_type t) then int k else tok_parent t) A B)"
  using assms by (intro run_step [OF assms(1)]) (auto simp: jsmn_step_def st_def jsmn_comma_def is_compound_def nth_append)

section \<open>Whole values\<close>

text \<open>A value is followed by a delimiter, so that a primitive ends.\<close>

definition bump :: "nat \<Rightarrow> jsmntok \<Rightarrow> jsmntok" where
  "bump k t = t\<lparr>tok_size := tok_size t + int k\<rparr>"

definition value_runs :: "string \<Rightarrow> nat \<Rightarrow> json \<Rightarrow> bool" where
  "value_runs js len v \<longleftrightarrow> (\<forall>pos s A B c r.
     drop pos js = render v @ c # r \<longrightarrow> prim_delim c \<longrightarrow> pos + length (render v) < len \<longrightarrow> len < 32768 \<longrightarrow>
     room s A \<longrightarrow> takes_value s A \<longrightarrow> ntoks v \<le> length B \<longrightarrow> length A + length B < 32768 \<longrightarrow>
     run js len (st pos s A B) (st (pos + length (render v)) s (growl s A @ toks v pos s (length A)) (drop (ntoks v) B)))"

definition members_run :: "string \<Rightarrow> nat \<Rightarrow> members_syntax \<Rightarrow> bool" where
  "members_run js len ms \<longleftrightarrow> (\<forall>pos h A B c r.
     drop pos js = render_members ms @ c # r \<longrightarrow> prim_delim c \<longrightarrow> pos + length (render_members ms) < len \<longrightarrow> len < 32768 \<longrightarrow>
     h < length A \<longrightarrow> tok_type (A ! h) = JSMN_OBJECT \<longrightarrow> 0 \<le> tok_size (A ! h) \<longrightarrow> tok_size (A ! h) + int (member_count ms) < 32768 \<longrightarrow>
     member_ntoks ms \<le> length B \<longrightarrow> length A + length B < 32768 \<longrightarrow>
     (\<exists>s'. run js len (st pos (int h) A B) (st (pos + length (render_members ms)) s'
       (A[h := bump (member_count ms) (A ! h)] @ member_toks ms pos (int h) (length A)) (drop (member_ntoks ms) B))))"

definition elements_run :: "string \<Rightarrow> nat \<Rightarrow> elements_syntax \<Rightarrow> bool" where
  "elements_run js len es \<longleftrightarrow> (\<forall>pos h A B c r.
     drop pos js = render_elements es @ c # r \<longrightarrow> prim_delim c \<longrightarrow> pos + length (render_elements es) < len \<longrightarrow> len < 32768 \<longrightarrow>
     h < length A \<longrightarrow> tok_type (A ! h) = JSMN_ARRAY \<longrightarrow> 0 \<le> tok_size (A ! h) \<longrightarrow> tok_size (A ! h) + int (element_count es) < 32768 \<longrightarrow>
     element_ntoks es \<le> length B \<longrightarrow> length A + length B < 32768 \<longrightarrow>
     run js len (st pos (int h) A B) (st (pos + length (render_elements es)) (int h)
       (A[h := bump (element_count es) (A ! h)] @ element_toks es pos (int h) (length A)) (drop (element_ntoks es) B)))"

lemma grow_bump: "0 \<le> tok_size t \<Longrightarrow> tok_size t < 32767 \<Longrightarrow> grow t = bump 1 t"
  by (simp add: grow_def bump_def)

lemma bump_simps [simp]: "bump j (bump k t) = bump (j + k) t" "bump 0 t = t" "tok_type (bump k t) = tok_type t"
  "tok_size (bump k t) = tok_size t + int k" "tok_parent (bump k t) = tok_parent t"
  by (simp_all add: bump_def)

lemma delim_after:
  assumes "ws w" and "t = [] \<or> (\<exists>u. t = CHR '','' # u)" and "prim_delim c"
  obtains d q where "w @ t @ c # r = d # q" and "prim_delim d"
  using assms by (cases w) (auto simp: prim_delim_def)

lemma room_int: "h < length A \<Longrightarrow> length A + length B < 32768 \<Longrightarrow> 0 \<le> tok_size (A ! h) \<Longrightarrow> tok_size (A ! h) < 32767 \<Longrightarrow> room (int h) A"
  by (simp add: room_def)

lemma member_runs:
  assumes v: "value_runs js len v" and ok: "ws w1" "string_ok k" "ws w2" "ws w3" "ws w4"
    and d: "drop pos js = w1 @ QUOTE # k @ QUOTE # w2 @ CHR '':'' # w3 @ render v @ w4 @ t @ c # r"
    and t: "t = [] \<or> (\<exists>u. t = CHR '','' # u)" and c: "prim_delim c"
    and p: "member_value_start pos w1 k w2 w3 + length (render v) + length w4 < len" "len < 32768"
    and h: "h < length A" "0 \<le> tok_size (A ! h)" "tok_size (A ! h) < 32767"
    and B: "Suc (ntoks v) \<le> length B" "length A + length B < 32768"
  shows "run js len (st pos (int h) A B) (st (member_value_start pos w1 k w2 w3 + length (render v) + length w4) (int (length A))
     (A[h := bump 1 (A ! h)] @ mk_token JSMN_STRING (key_start pos w1) (key_start pos w1 + length k) 1 (int h) #
        toks v (member_value_start pos w1 k w2 w3) (int (length A)) (Suc (length A))) (drop (Suc (ntoks v)) B))"
    and "drop (member_value_start pos w1 k w2 w3 + length (render v) + length w4) js = t @ c # r"
proof -
  let ?p1 = "pos + length w1" and ?p4 = "member_value_start pos w1 k w2 w3"
  let ?p2 = "?p1 + length k + 2" let ?p3 = "?p2 + length w2"
  let ?key = "\<lambda>n. mk_token JSMN_STRING (key_start pos w1) (key_start pos w1 + length k) n (int h)"
  let ?A = "A[h := bump 1 (A ! h)]"
  have p4: "?p4 = Suc ?p3 + length w3" by (simp add: member_value_start_def key_start_def)
  have d1: "drop ?p1 js = QUOTE # k @ QUOTE # w2 @ CHR '':'' # w3 @ render v @ w4 @ t @ c # r" by (rule drop_append_split [OF d])
  then have d2: "drop ?p2 js = w2 @ CHR '':'' # w3 @ render v @ w4 @ t @ c # r"
    using drop_append_split [of ?p1 js "QUOTE # k @ [QUOTE]"] by simp
  have d3: "drop ?p3 js = CHR '':'' # w3 @ render v @ w4 @ t @ c # r" by (rule drop_append_split [OF d2])
  have d3': "drop (Suc ?p3) js = w3 @ render v @ w4 @ t @ c # r" using drop_Cons_nth [OF d3] by simp
  have d4: "drop ?p4 js = render v @ w4 @ t @ c # r" unfolding p4 by (rule drop_append_split [OF d3'])
  have d5: "drop (?p4 + length (render v)) js = w4 @ t @ c # r" by (rule drop_append_split [OF d4])
  show d6: "drop (?p4 + length (render v) + length w4) js = t @ c # r" by (rule drop_append_split [OF d5])
  have A: "growl (int h) A = ?A" using h by (simp add: growl_def grow_bump)
  have ne: "B \<noteq> []" using B(1) by auto
  have bound: "?p1 + length k + 1 < len" "?p3 < len" "Suc ?p3 + length w3 \<le> len" using p p4 by simp_all
  note room_int [OF h(1) B(2) h(2,3)]
  have "run js len (st pos (int h) A B) (st ?p1 (int h) A B)" by (rule run_ws [OF ok(1) d]) (use bound in simp)
  also have "run js len (st ?p1 (int h) A B) (st ?p2 (int h) (?A @ [?key 0]) (tl B))"
    using run_string [OF ok(2) d1 bound(1) p(2) \<open>room (int h) A\<close> ne] by (simp add: A key_start_def)
  also have "run js len (st ?p2 (int h) (?A @ [?key 0]) (tl B)) (st ?p3 (int h) (?A @ [?key 0]) (tl B))"
    by (rule run_ws [OF ok(3) d2]) (use bound in simp)
  also have "run js len (st ?p3 (int h) (?A @ [?key 0]) (tl B)) (st (Suc ?p3) (int (length A)) (?A @ [?key 0]) (tl B))"
    using run_colon [OF d3 bound(2), of "int h" "?A @ [?key 0]" "tl B"] by simp
  also have "run js len (st (Suc ?p3) (int (length A)) (?A @ [?key 0]) (tl B)) (st ?p4 (int (length A)) (?A @ [?key 0]) (tl B))"
    unfolding p4 by (rule run_ws [OF ok(4) d3' bound(3)])
  also have "run js len (st ?p4 (int (length A)) (?A @ [?key 0]) (tl B))
      (st (?p4 + length (render v)) (int (length A)) (?A @ ?key 1 # toks v ?p4 (int (length A)) (Suc (length A))) (drop (ntoks v) (tl B)))"
  proof -
    obtain e q where e: "w4 @ t @ c # r = e # q" "prim_delim e" using delim_after [OF ok(5) t c] by metis
    have "growl (int (length A)) (?A @ [?key 0]) = ?A @ [?key 1]"
      by (simp add: growl_def grow_def mk_token_def bump_def list_update_append nth_append)
    moreover have "room (int (length A)) (?A @ [?key 0])" "takes_value (int (length A)) (?A @ [?key 0])"
      using B by (simp_all add: room_def takes_value_def mk_token_def nth_append)
    moreover have "ntoks v \<le> length (tl B)" "length (?A @ [?key 0]) + length (tl B) < 32768" using B by simp_all
    ultimately show ?thesis
      using v [unfolded value_runs_def, rule_format, of ?p4 e q "int (length A)" "?A @ [?key 0]" "tl B"] d4 [unfolded e(1)] e(2) p by simp
  qed
  also have "run js len \<dots> (st (?p4 + length (render v) + length w4) (int (length A))
      (?A @ ?key 1 # toks v ?p4 (int (length A)) (Suc (length A))) (drop (ntoks v) (tl B)))"
    by (rule run_ws [OF ok(5) d5]) (use p in simp)
  finally show "run js len (st pos (int h) A B) (st (?p4 + length (render v) + length w4) (int (length A))
      (?A @ ?key 1 # toks v ?p4 (int (length A)) (Suc (length A))) (drop (Suc (ntoks v)) B))"
    by (simp add: drop_Suc)
qed

lemma members_runI:
  assumes "value_runs js len v" and "members_run js len ms" and "ws w1" "string_ok k" "ws w2" "ws w3" "ws w4"
  shows "members_run js len (MCons w1 k w2 w3 v w4 ms)"
  unfolding members_run_def
proof (intro allI impI)
  fix pos h :: nat and A B :: "jsmntok list" and c r
  let ?all = "MCons w1 k w2 w3 v w4 ms" and ?t = "if ms = MNil then [] else CHR '','' # render_members ms"
  let ?p4 = "member_value_start pos w1 k w2 w3" let ?p6 = "?p4 + length (render v) + length w4"
  assume d: "drop pos js = render_members ?all @ c # r" and c: "prim_delim c" and p: "pos + length (render_members ?all) < len" "len < 32768"
    and h: "h < length A" "tok_type (A ! h) = JSMN_OBJECT" "0 \<le> tok_size (A ! h)" "tok_size (A ! h) + int (member_count ?all) < 32768"
    and B: "member_ntoks ?all \<le> length B" "length A + length B < 32768"
  have end_pos: "pos + length (render_members ?all) = ?p6 + length ?t" by (simp add: member_value_start_def key_start_def)
  have t: "?t = [] \<or> (\<exists>u. ?t = CHR '','' # u)" by simp
  have d': "drop pos js = w1 @ QUOTE # k @ QUOTE # w2 @ CHR '':'' # w3 @ render v @ w4 @ ?t @ c # r" using d by simp
  have p6: "?p6 < len" using p end_pos by simp
  have size: "tok_size (A ! h) < 32767" using h(4) by simp
  have room: "Suc (ntoks v) \<le> length B" using B(1) by simp
  note first = member_runs [OF assms(1,3-7) d' t c p6 p(2) h(1,3) size room B(2)]
  let ?A2 = "A[h := bump 1 (A ! h)] @ mk_token JSMN_STRING (key_start pos w1) (key_start pos w1 + length k) 1 (int h) #
        toks v ?p4 (int (length A)) (Suc (length A))" and ?B2 = "drop (Suc (ntoks v)) B"
  show "\<exists>s'. run js len (st pos (int h) A B) (st (pos + length (render_members ?all)) s'
      (A[h := bump (member_count ?all) (A ! h)] @ member_toks ?all pos (int h) (length A)) (drop (member_ntoks ?all) B))"
  proof (cases "ms = MNil")
    case True
    then show ?thesis using first(1) unfolding end_pos by auto
  next
    case False
    then have comma: "drop ?p6 js = CHR '','' # render_members ms @ c # r" using first(2) by simp
    have key: "length A < length ?A2" "is_compound (tok_type (?A2 ! length A)) = False" "tok_parent (?A2 ! length A) = int h"
      by (simp_all add: nth_append mk_token_def is_compound_def)
    have step: "run js len (st ?p6 (int (length A)) ?A2 ?B2) (st (Suc ?p6) (int h) ?A2 ?B2)"
      using run_comma [OF comma p6 key(1) refl, of ?B2] key(2,3) by simp
    have "\<exists>s'. run js len (st (Suc ?p6) (int h) ?A2 ?B2) (st (Suc ?p6 + length (render_members ms)) s'
        (?A2[h := bump (member_count ms) (?A2 ! h)] @ member_toks ms (Suc ?p6) (int h) (length ?A2)) (drop (member_ntoks ms) ?B2))"
      using assms(2) [unfolded members_run_def, rule_format, of "Suc ?p6" c r h ?A2 ?B2] drop_Cons_nth [OF comma] c p end_pos False h B
      by (simp add: nth_append)
    then obtain s' where rest: "run js len (st (Suc ?p6) (int h) ?A2 ?B2) (st (Suc ?p6 + length (render_members ms)) s'
        (?A2[h := bump (member_count ms) (?A2 ! h)] @ member_toks ms (Suc ?p6) (int h) (length ?A2)) (drop (member_ntoks ms) ?B2))" ..
    have e1: "?A2[h := bump (member_count ms) (?A2 ! h)] @ member_toks ms (Suc ?p6) (int h) (length ?A2) =
        A[h := bump (member_count ?all) (A ! h)] @ member_toks ?all pos (int h) (length A)"
      using h(1) by (simp add: list_update_append nth_append)
    have e2: "drop (member_ntoks ms) ?B2 = drop (member_ntoks ?all) B" by (simp add: add.commute)
    have e3: "Suc ?p6 + length (render_members ms) = pos + length (render_members ?all)" using False unfolding end_pos by simp
    show ?thesis by (rule exI) (rule run_trans [OF run_trans [OF first(1) step] rest, unfolded e1 e2 e3])
  qed
qed

lemma elements_runI:
  assumes "value_runs js len v" and "elements_run js len es" and "ws w1" "ws w2"
  shows "elements_run js len (ECons w1 v w2 es)"
  unfolding elements_run_def
proof (intro allI impI)
  fix pos h :: nat and A B :: "jsmntok list" and c r
  let ?all = "ECons w1 v w2 es" and ?t = "if es = ENil then [] else CHR '','' # render_elements es"
  let ?p1 = "pos + length w1" let ?p2 = "?p1 + length (render v)" let ?p3 = "?p2 + length w2"
  assume d: "drop pos js = render_elements ?all @ c # r" and c: "prim_delim c" and p: "pos + length (render_elements ?all) < len" "len < 32768"
    and h: "h < length A" "tok_type (A ! h) = JSMN_ARRAY" "0 \<le> tok_size (A ! h)" "tok_size (A ! h) + int (element_count ?all) < 32768"
    and B: "element_ntoks ?all \<le> length B" "length A + length B < 32768"
  have end_pos: "pos + length (render_elements ?all) = ?p3 + length ?t" by simp
  have d0: "drop pos js = w1 @ render v @ w2 @ ?t @ c # r" using d by simp
  have d1: "drop ?p1 js = render v @ w2 @ ?t @ c # r" by (rule drop_append_split [OF d0])
  have d2: "drop ?p2 js = w2 @ ?t @ c # r" by (rule drop_append_split [OF d1])
  have d3: "drop ?p3 js = ?t @ c # r" by (rule drop_append_split [OF d2])
  have p3: "?p3 < len" using p end_pos by simp
  have size: "tok_size (A ! h) < 32767" using h(4) by simp
  let ?A2 = "A[h := bump 1 (A ! h)] @ toks v ?p1 (int h) (length A)" and ?B2 = "drop (ntoks v) B"
  have "run js len (st pos (int h) A B) (st ?p1 (int h) A B)" by (rule run_ws [OF assms(3) d0]) (use p3 in simp)
  also have "run js len \<dots> (st ?p2 (int h) ?A2 ?B2)"
  proof -
    have t: "?t = [] \<or> (\<exists>u. ?t = CHR '','' # u)" by simp
    obtain e q where e: "w2 @ ?t @ c # r = e # q" "prim_delim e" using delim_after [OF assms(4) t c] by metis
    have "growl (int h) A = A[h := bump 1 (A ! h)]" using h(3) size by (simp add: growl_def grow_bump)
    moreover have "takes_value (int h) A" using h(2) by (simp add: takes_value_def)
    ultimately show ?thesis
      using assms(1) [unfolded value_runs_def, rule_format, of ?p1 e q "int h" A B] d1 [unfolded e(1)] e(2) p p3 B
        room_int [OF h(1) B(2) h(3) size] by simp
  qed
  also have "run js len \<dots> (st ?p3 (int h) ?A2 ?B2)" by (rule run_ws [OF assms(4) d2]) (use p3 in simp)
  finally have first: "run js len (st pos (int h) A B) (st ?p3 (int h) ?A2 ?B2)" .
  show "run js len (st pos (int h) A B) (st (pos + length (render_elements ?all)) (int h)
      (A[h := bump (element_count ?all) (A ! h)] @ element_toks ?all pos (int h) (length A)) (drop (element_ntoks ?all) B))"
  proof (cases "es = ENil")
    case True
    then show ?thesis using first unfolding end_pos by simp
  next
    case False
    then have comma: "drop ?p3 js = CHR '','' # render_elements es @ c # r" using d3 by simp
    have arr: "h < length ?A2" "is_compound (tok_type (?A2 ! h))" using h(1,2) by (simp_all add: nth_append is_compound_def)
    have step: "run js len (st ?p3 (int h) ?A2 ?B2) (st (Suc ?p3) (int h) ?A2 ?B2)"
      using run_comma [OF comma p3 arr(1) refl, of ?B2] arr(2) by simp
    have rest: "run js len (st (Suc ?p3) (int h) ?A2 ?B2) (st (Suc ?p3 + length (render_elements es)) (int h)
        (?A2[h := bump (element_count es) (?A2 ! h)] @ element_toks es (Suc ?p3) (int h) (length ?A2)) (drop (element_ntoks es) ?B2))"
      using assms(2) [unfolded elements_run_def, rule_format, of "Suc ?p3" c r h ?A2 ?B2] drop_Cons_nth [OF comma] c p end_pos False h B
      by (simp add: nth_append)
    have e1: "?A2[h := bump (element_count es) (?A2 ! h)] @ element_toks es (Suc ?p3) (int h) (length ?A2) =
        A[h := bump (element_count ?all) (A ! h)] @ element_toks ?all pos (int h) (length A)"
      using h(1) by (simp add: list_update_append nth_append)
    have e2: "drop (element_ntoks es) ?B2 = drop (element_ntoks ?all) B" by (simp add: add.commute)
    have e3: "Suc ?p3 + length (render_elements es) = pos + length (render_elements ?all)" using False unfolding end_pos by simp
    show ?thesis by (rule run_trans [OF run_trans [OF first step] rest, unfolded e1 e2 e3])
  qed
qed

lemma block_runs:
  assumes br: "bracket ty b e" and w: "ws w" and d: "drop pos js = b # body @ w @ e # r"
    and p: "pos + length body + length w + 1 < len" "len < 32768" and s: "room s A" "B \<noteq> []"
    and body: "run js len (st (Suc pos) (int (length A)) (growl s A @ [opened ty pos s]) (tl B))
      (st (Suc pos + length body) s' (growl s A @ bump n (opened ty pos s) # M) B')"
    and M: "closed_block (int (length A)) (Suc (length A)) M"
  shows "run js len (st pos s A B) (st (pos + length body + length w + 2) s
      (growl s A @ mk_token ty pos (pos + length body + length w + 2) n s # M) B')"
proof -
  let ?A = "growl s A @ bump n (opened ty pos s) # M"
  have d1: "drop (Suc pos) js = body @ w @ e # r" using drop_Cons_nth [OF d] by simp
  have d2: "drop (Suc pos + length body) js = w @ e # r" by (rule drop_append_split [OF d1])
  have d3: "drop (Suc pos + length body + length w) js = e # r" by (rule drop_append_split [OF d2])
  have t: "tok_type (bump n (opened ty pos s)) = ty" "open_token (bump n (opened ty pos s))"
    "tok_parent (bump n (opened ty pos s)) = s" by (simp_all add: bump_def opened_def open_token_def)
  have "run js len (st pos s A B) (st (Suc pos) (int (length A)) (growl s A @ [opened ty pos s]) (tl B))"
    by (rule run_open [OF br d _ p(2) s]) (use p in simp)
  also note body
  also have "run js len (st (Suc pos + length body) s' ?A B') (st (Suc pos + length body + length w) s' ?A B')"
    by (rule run_ws [OF w d2]) (use p in simp)
  also have "run js len (st (Suc pos + length body + length w) s' ?A B')
      (st (Suc (Suc pos + length body + length w)) s
        (growl s A @ (bump n (opened ty pos s))\<lparr>tok_end := int (Suc pos + length body + length w) + 1\<rparr> # M) B')"
    using run_close [OF br d3 _ p(2) _ M t(1,2), of "growl s A" s' B'] p(1) t(3) by simp
  also have "(bump n (opened ty pos s))\<lparr>tok_end := int (Suc pos + length body + length w) + 1\<rparr> =
      mk_token ty pos (pos + length body + length w + 2) n s"
    by (simp add: bump_def opened_def mk_token_def)
  finally show ?thesis by simp
qed

lemma brackets: "bracket JSMN_OBJECT CHR ''{'' CHR ''}''" "bracket JSMN_ARRAY CHR ''['' CHR '']''"
  by (simp_all add: bracket_def)

text \<open>An object or array needs no delimiter.\<close>

definition compound_runs :: "string \<Rightarrow> nat \<Rightarrow> json \<Rightarrow> bool" where
  "compound_runs js len v \<longleftrightarrow> (\<forall>pos s A B r.
     drop pos js = render v @ r \<longrightarrow> pos + length (render v) \<le> len \<longrightarrow> len < 32768 \<longrightarrow>
     room s A \<longrightarrow> ntoks v \<le> length B \<longrightarrow> length A + length B < 32768 \<longrightarrow>
     run js len (st pos s A B) (st (pos + length (render v)) s (growl s A @ toks v pos s (length A)) (drop (ntoks v) B)))"

lemma compound_value: "compound_runs js len v \<Longrightarrow> value_runs js len v"
  unfolding compound_runs_def value_runs_def by (metis less_imp_le)

lemma object_runs:
  assumes "members_run js len ms" and "ws w"
  shows "compound_runs js len (JObj ms w)"
  unfolding compound_runs_def
proof (intro allI impI)
  fix pos :: nat and s and A B :: "jsmntok list" and r
  let ?v = "JObj ms w"
  assume d: "drop pos js = render ?v @ r" and p: "pos + length (render ?v) \<le> len" "len < 32768"
    and s: "room s A" and B: "ntoks ?v \<le> length B" "length A + length B < 32768"
  let ?A = "growl s A @ [opened JSMN_OBJECT pos s]"
  have d0: "drop pos js = CHR ''{'' # render_members ms @ w @ CHR ''}'' # r" using d by simp
  obtain e q where e: "w @ [] @ CHR ''}'' # r = e # q" "prim_delim e"
    using delim_after [OF assms(2), of "[]" "CHR ''}''" r] by (auto simp: prim_delim_def)
  have d1: "drop (Suc pos) js = render_members ms @ e # q" using drop_Cons_nth [OF d0] e(1) by simp
  have h: "?A ! length A = opened JSMN_OBJECT pos s" by (simp add: nth_append)
  have "member_count ms \<le> length (tl B)" by (rule order_trans [OF count_le_ntoks(1)]) (use B(1) in simp)
  then have "\<exists>s'. run js len (st (Suc pos) (int (length A)) ?A (tl B)) (st (Suc pos + length (render_members ms)) s'
      (?A[length A := bump (member_count ms) (?A ! length A)] @ member_toks ms (Suc pos) (int (length A)) (length ?A)) (drop (member_ntoks ms) (tl B)))"
    using B p by (intro assms(1) [unfolded members_run_def, rule_format, OF d1 e(2)])
      (simp_all only: h, simp_all add: opened_def)
  then obtain s' where "run js len (st (Suc pos) (int (length A)) ?A (tl B)) (st (Suc pos + length (render_members ms)) s'
      (growl s A @ bump (member_count ms) (opened JSMN_OBJECT pos s) # member_toks ms (Suc pos) (int (length A)) (Suc (length A)))
      (drop (member_ntoks ms) (tl B)))"
    unfolding h by (auto simp: list_update_append)
  from block_runs [OF brackets(1) assms(2) d0 _ p(2) s _ this toks_closed(2)]
  show "run js len (st pos s A B) (st (pos + length (render ?v)) s (growl s A @ toks ?v pos s (length A)) (drop (ntoks ?v) B))"
    using p B by (cases B) (simp_all add: add.assoc)
qed

lemma array_runs:
  assumes "elements_run js len es" and "ws w"
  shows "compound_runs js len (JArr es w)"
  unfolding compound_runs_def
proof (intro allI impI)
  fix pos :: nat and s and A B :: "jsmntok list" and r
  let ?v = "JArr es w"
  assume d: "drop pos js = render ?v @ r" and p: "pos + length (render ?v) \<le> len" "len < 32768"
    and s: "room s A" and B: "ntoks ?v \<le> length B" "length A + length B < 32768"
  let ?A = "growl s A @ [opened JSMN_ARRAY pos s]"
  have d0: "drop pos js = CHR ''['' # render_elements es @ w @ CHR '']'' # r" using d by simp
  obtain e q where e: "w @ [] @ CHR '']'' # r = e # q" "prim_delim e"
    using delim_after [OF assms(2), of "[]" "CHR '']''" r] by (auto simp: prim_delim_def)
  have d1: "drop (Suc pos) js = render_elements es @ e # q" using drop_Cons_nth [OF d0] e(1) by simp
  have h: "?A ! length A = opened JSMN_ARRAY pos s" by (simp add: nth_append)
  have "element_count es \<le> length (tl B)" by (rule order_trans [OF count_le_ntoks(2)]) (use B(1) in simp)
  then have "run js len (st (Suc pos) (int (length A)) ?A (tl B)) (st (Suc pos + length (render_elements es)) (int (length A))
      (?A[length A := bump (element_count es) (?A ! length A)] @ element_toks es (Suc pos) (int (length A)) (length ?A)) (drop (element_ntoks es) (tl B)))"
    using B p by (intro assms(1) [unfolded elements_run_def, rule_format, OF d1 e(2)])
      (simp_all only: h, simp_all add: opened_def)
  then have "run js len (st (Suc pos) (int (length A)) ?A (tl B)) (st (Suc pos + length (render_elements es)) (int (length A))
      (growl s A @ bump (element_count es) (opened JSMN_ARRAY pos s) # element_toks es (Suc pos) (int (length A)) (Suc (length A)))
      (drop (element_ntoks es) (tl B)))"
    unfolding h by (simp add: list_update_append)
  from block_runs [OF brackets(2) assms(2) d0 _ p(2) s _ this toks_closed(3)]
  show "run js len (st pos s A B) (st (pos + length (render ?v)) s (growl s A @ toks ?v pos s (length A)) (drop (ntoks ?v) B))"
    using p B by (cases B) (simp_all add: add.assoc)
qed

lemma value_runs_ok:
  "json_ok v \<Longrightarrow> value_runs js len v"
  "members_ok ms \<Longrightarrow> members_run js len ms"
  "elements_ok es \<Longrightarrow> elements_run js len es"
proof (induction v and ms and es)
  case (JStr t)
  have "run js len (st pos s A B) (st (pos + length (render (JStr t))) s (growl s A @ toks (JStr t) pos s (length A)) (drop (ntoks (JStr t)) B))"
    if "drop pos js = render (JStr t) @ c # r" "pos + length (render (JStr t)) < len" "len < 32768" "room s A" "ntoks (JStr t) \<le> length B"
    for pos s A c r and B :: "jsmntok list"
    using run_string [of t pos js "c # r" len s A B] that JStr by (cases B) simp_all
  then show ?case unfolding value_runs_def by blast
next
  case (JPrim t)
  have "run js len (st pos s A B) (st (pos + length (render (JPrim t))) s (growl s A @ toks (JPrim t) pos s (length A)) (drop (ntoks (JPrim t)) B))"
    if "drop pos js = render (JPrim t) @ c # r" "prim_delim c" "pos + length (render (JPrim t)) < len" "len < 32768" "room s A"
      "takes_value s A" "ntoks (JPrim t) \<le> length B"
    for pos s A c r and B :: "jsmntok list"
    using run_primitive [of t pos js c r len s A B] that JPrim by (cases B) simp_all
  then show ?case unfolding value_runs_def by blast
next
  case (JObj ms w)
  then show ?case by (intro compound_value object_runs) simp_all
next
  case (JArr es w)
  then show ?case by (intro compound_value array_runs) simp_all
next
  case MNil
  show ?case unfolding members_run_def by (auto intro!: exI run_refl)
next
  case (MCons w1 k w2 w3 v w4 ms)
  then show ?case by (intro members_runI) simp_all
next
  case ENil
  show ?case unfolding elements_run_def by simp
next
  case (ECons w1 v w2 es)
  then show ?case by (intro elements_runI) simp_all
qed

end
