(* ===== verification/Json_Document.thy ===== *)
theory Json_Document
  imports Json_Run
begin

text \<open>
  The parser on the text of a document: the two passes accept it, and every lookup finds what the
  document says.
\<close>

section \<open>Both passes accept a document\<close>

text \<open>A step that goes on with tokens goes on without them, and counts alike.\<close>

lemma step_keeps: "jsmn_step c js len num (count, p, Some ts) = Some (Inr (count', p', t')) \<Longrightarrow> \<exists>ts'. t' = Some ts'"
  by (cases t') (auto simp: jsmn_step_def jsmn_open_def jsmn_close_def jsmn_comma_def jsmn_counted_def jsmn_parse_string_def
      jsmn_parse_primitive_def jsmn_token_def jsmn_alloc_token_def split: if_splits bind_splits sum.splits)

lemma counted_None [simp]: "jsmn_counted count None = None"
  by (simp add: jsmn_counted_def)

lemma counted_counts:
  "jsmn_counted count (Some (err, p, Some ts)) = Some (Inr (count', p', Some ts')) \<Longrightarrow> p_pos q = p_pos p \<Longrightarrow>
   \<exists>q'. jsmn_counted count (Some (err, q, None)) = Some (Inr (count', q', None)) \<and> p_pos q' = p_pos p'"
  "jsmn_counted count (jsmn_token ty x y pos p (Some ts) num) = Some (Inr (count', p', Some ts')) \<Longrightarrow>
   \<exists>q'. jsmn_counted count (jsmn_token ty x y pos q None m) = Some (Inr (count', q', None)) \<and> p_pos q' = p_pos p'"
  by (auto simp: jsmn_counted_def jsmn_token_def jsmn_alloc_token_def jsmnerr_defs split: if_splits bind_splits)

lemma step_counts:
  assumes "jsmn_step c js len num (count, p, Some ts) = Some (Inr (count', p', Some ts'))" and "p_pos q = p_pos p"
  shows "\<exists>q'. jsmn_step c js len m (count, q, None) = Some (Inr (count', q', None)) \<and> p_pos q' = p_pos p'"
proof -
  consider "c = CHR ''{''" | "c = CHR ''[''" | "c = CHR ''}''" | "c = CHR '']''" | "c = QUOTE" | "is_ws c" | "c = CHR '':''" | "c = CHR '',''"
    | "prim_start c" "c \<notin> {CHR ''{'', CHR ''['', CHR ''}'', CHR '']'', QUOTE, CHR '':'', CHR '',''}" "\<not> is_ws c"
    using assms(1) by (auto simp: jsmn_step_def split: if_splits)
  then show ?thesis
  proof cases
    case 1
    then show ?thesis
      using assms by (auto simp: jsmn_step_def jsmn_open_def jsmn_alloc_token_def split: if_splits bind_splits)
  next
    case 2
    then show ?thesis
      using assms by (auto simp: jsmn_step_def jsmn_open_def jsmn_alloc_token_def split: if_splits bind_splits)
  next
    case 3
    then show ?thesis
      using assms by (auto simp: jsmn_step_def jsmn_close_def split: if_splits bind_splits)
  next
    case 4
    then show ?thesis
      using assms by (auto simp: jsmn_step_def jsmn_close_def split: if_splits bind_splits)
  next
    case 5
    then have a: "jsmn_counted count (jsmn_parse_string p js len (Some ts) num) = Some (Inr (count', p', Some ts'))"
      using assms(1) by (simp add: jsmn_step_def)
    then obtain r where r: "string_scan js len (Suc (p_pos p)) = Some r"
      by (cases "string_scan js len (Suc (p_pos p))") (simp_all add: jsmn_parse_string_def)
    show ?thesis
    proof (cases r)
      case (Inl err)
      then show ?thesis using a r 5 assms(2) counted_counts(1) [of count err p ts count' p' ts' q]
        by (simp add: jsmn_step_def jsmn_parse_string_def)
    next
      case (Inr k)
      then show ?thesis using a r 5 assms(2) counted_counts(2) [of count JSMN_STRING "Suc (p_pos p)" k k p ts num count' p' ts' q m]
        by (simp add: jsmn_step_def jsmn_parse_string_def)
    qed
  next
    case 6
    then have "jsmn_step c js len n (count, u, t) = Some (Inr (count, u, t))" for n u t by (auto simp: jsmn_step_def is_ws_def)
    then show ?thesis using assms by simp
  next
    case 7
    then show ?thesis using assms by (simp add: jsmn_step_def) (metis (no_types) jsmn_parser.select_convs(1) jsmn_parser.surjective jsmn_parser.update_convs(3))
  next
    case 8
    then show ?thesis
      using assms by (auto simp: jsmn_step_def is_ws_def jsmn_comma_def split: if_splits bind_splits)
  next
    case 9
    then show ?thesis
      using assms by (auto simp: jsmn_step_def primitive_allowed_def jsmn_parse_primitive_def
          split: if_splits bind_splits sum.splits intro: counted_counts)
  qed
qed

lemma loop_counts:
  assumes "jsmn_loop js len num (count, p, Some ts) = Some (Inr (n, p', t'))" and "p_pos q = p_pos p" and "len \<le> length js"
  shows "\<exists>q'. jsmn_loop js len 0 (count, q, None) = Some (Inr (n, q', None))"
  using assms(1,2)
proof (induction "len - p_pos p" arbitrary: count p ts q rule: less_induct)
  case less
  show ?case
  proof (cases "p_pos p < len \<and> js ! p_pos p \<noteq> NUL")
    case False
    then show ?thesis
      using less(2,3) assms(3) by (subst (asm) jsmn_loop.simps, subst jsmn_loop.simps) (auto split: if_splits)
  next
    case True
    let ?c = "js ! p_pos p"
    have at: "arr_get js (p_pos p) = Some ?c" using True assms(3) by simp
    obtain count1 p1 t1 where s1: "jsmn_step ?c js len num (count, p, Some ts) = Some (Inr (count1, p1, t1))"
        "jsmn_loop js len num (count1, p1\<lparr>p_pos := p_pos p1 + 1\<rparr>, t1) = Some (Inr (n, p', t'))"
      using less(2) True at by (subst (asm) jsmn_loop.simps) (auto split: bind_splits sum.splits)
    obtain ts1 where t1: "t1 = Some ts1" using step_keeps [OF s1(1)] ..
    obtain q1 where q1: "jsmn_step ?c js len 0 (count, q, None) = Some (Inr (count1, q1, None))" "p_pos q1 = p_pos p1"
      using step_counts [OF s1(1) [unfolded t1] less(3)] by blast
    have "p_pos p \<le> p_pos p1" by (rule jsmn_step_forward [OF s1(1) at])
    then have "\<exists>q'. jsmn_loop js len 0 (count1, q1\<lparr>p_pos := p_pos q1 + 1\<rparr>, None) = Some (Inr (n, q', None))"
      using True [THEN conjunct1] q1(2) s1(2) [unfolded t1] by (intro less(1) [of "p1\<lparr>p_pos := p_pos p1 + 1\<rparr>"]) simp_all
    then show ?thesis using True at less(3) q1(1) by (subst jsmn_loop.simps) simp
  qed
qed

definition compound :: "json \<Rightarrow> bool" where
  "compound v \<longleftrightarrow> (case v of JObj ms w \<Rightarrow> True | JArr es w \<Rightarrow> True | _ \<Rightarrow> False)"

lemma compound_runs_ok: "json_ok v \<Longrightarrow> compound v \<Longrightarrow> compound_runs js len v"
  by (cases v) (simp_all add: compound_def object_runs array_runs value_runs_ok)

lemma document_run:
  assumes "json_ok v" and "compound v" and "ws w" and "ws w'" and "len = length (w @ render v @ w')" and "len < 32768"
    and "ntoks v \<le> len"
  shows "\<exists>p. p_toknext p = ntoks v \<and> jsmn_loop ((w @ render v @ w') @ rest) len (ntoks v) (0, jsmn_init, Some (replicate (ntoks v) blank_token)) =
    Some (Inr (int (ntoks v), p, Some (toks v (length w) (-1) 0)))"
proof -
  let ?js = "(w @ render v @ w') @ rest" and ?B = "replicate (ntoks v) blank_token" and ?T = "toks v (length w) (-1) 0"
  have d: "drop 0 ?js = w @ render v @ w' @ rest" by simp
  have d1: "drop (0 + length w) ?js = render v @ w' @ rest" by (rule drop_append_split [OF d])
  have d2: "drop (0 + length w + length (render v)) ?js = w' @ rest" by (rule drop_append_split [OF d1])
  have "run ?js len (st 0 (-1) [] ?B) (st (length w) (-1) [] ?B)"
    using run_ws [OF assms(3) d, of len "-1" "[]" ?B] assms(5) by simp
  also have "run ?js len \<dots> (st (length w + length (render v)) (-1) ?T [])"
    using compound_runs_ok [OF assms(1,2), of ?js len, unfolded compound_runs_def, rule_format, of "length w" "w' @ rest" "-1" "[]" ?B]
      d1 assms(5-7) by (simp add: room_def growl_def)
  also have "run ?js len \<dots> (st len (-1) ?T [])"
    using run_ws [OF assms(4), of "length w + length (render v)" ?js rest len "-1" ?T "[]"] d2 assms(5) by (simp add: add.assoc)
  finally have "run ?js len (st 0 (-1) [] ?B) (st len (-1) ?T [])" .
  moreover have "jsmn_loop ?js len n (st len (-1) ?T []) = Some (Inr (st len (-1) ?T []))" for n
    unfolding st_def by (subst jsmn_loop.simps) simp
  ultimately show ?thesis
    by (intro exI [of _ "\<lparr>p_pos = len, p_toknext = ntoks v, p_toksuper = -1\<rparr>"]) (simp add: run_def st_def jsmn_init_def slots_def)
qed

section \<open>The tokens of a document in the array\<close>

definition tokens_at :: "jsmntok list \<Rightarrow> nat \<Rightarrow> jsmntok list \<Rightarrow> bool" where
  "tokens_at ts i xs \<longleftrightarrow> i + length xs \<le> length ts \<and> (\<forall>k < length xs. ts ! (i + k) = xs ! k)"

lemma tokens_at_Nil [simp]: "tokens_at ts i [] \<longleftrightarrow> i \<le> length ts"
  by (simp add: tokens_at_def)

lemma tokens_at_Cons [simp]: "tokens_at ts i (x # xs) \<longleftrightarrow> i < length ts \<and> ts ! i = x \<and> tokens_at ts (Suc i) xs"
  by (auto simp: tokens_at_def nth_Cons split: nat.splits)

lemma tokens_at_append [simp]: "tokens_at ts i (xs @ ys) \<longleftrightarrow> tokens_at ts i xs \<and> tokens_at ts (i + length xs) ys"
proof
  assume a: "tokens_at ts i (xs @ ys)"
  then have "ts ! (i + k) = xs ! k" if "k < length xs" for k
    using that by (auto simp: tokens_at_def nth_append)
  moreover have "ts ! (i + length xs + k) = ys ! k" if "k < length ys" for k
    using a that by (auto simp: tokens_at_def nth_append add.assoc dest: spec [of _ "length xs + k"])
  ultimately show "tokens_at ts i xs \<and> tokens_at ts (i + length xs) ys" using a by (simp add: tokens_at_def)
next
  assume a: "tokens_at ts i xs \<and> tokens_at ts (i + length xs) ys"
  have "ts ! (i + k) = (xs @ ys) ! k" if "k < length xs + length ys" for k
  proof (cases "k < length xs")
    case False
    then have "ts ! (i + length xs + (k - length xs)) = ys ! (k - length xs)"
      using a [THEN conjunct2] that unfolding tokens_at_def by (simp only: less_diff_conv2)
    then show ?thesis using False by (simp add: nth_append add.assoc)
  qed (use a in \<open>simp add: tokens_at_def nth_append\<close>)
  then show "tokens_at ts i (xs @ ys)" using a by (simp add: tokens_at_def)
qed

primrec shape_of :: "json \<Rightarrow> shape" and member_shapes :: "members_syntax \<Rightarrow> shape list" and element_shapes :: "elements_syntax \<Rightarrow> shape list" where
  "shape_of (JStr s) = Sh []"
| "shape_of (JPrim s) = Sh []"
| "shape_of (JObj ms w) = Sh (member_shapes ms)"
| "shape_of (JArr es w) = Sh (element_shapes es)"
| "member_shapes MNil = []"
| "member_shapes (MCons w1 k w2 w3 v w4 ms) = Sh [shape_of v] # member_shapes ms"
| "element_shapes ENil = []"
| "element_shapes (ECons w1 v w2 es) = shape_of v # element_shapes es"

lemma shape_sizes [simp]:
  "sz (shape_of v) = ntoks v" "szs (member_shapes ms) = member_ntoks ms" "szs (element_shapes es) = element_ntoks es"
  by (induction v and ms and es) simp_all

lemma shape_lengths [simp]: "length (member_shapes ms) = member_count ms" "length (element_shapes es) = element_count es"
proof -
  show "length (member_shapes ms) = member_count ms"
    by (induction ms rule: members_syntax.induct [where ?P1.0 = "\<lambda>_. True" and ?P3.0 = "\<lambda>_. True"]) simp_all
  show "length (element_shapes es) = element_count es"
    by (induction es rule: elements_syntax.induct [where ?P1.0 = "\<lambda>_. True" and ?P2.0 = "\<lambda>_. True"]) simp_all
qed

lemma mk_token_simps [simp]:
  "tok_type (mk_token ty x y n par) = ty" "tok_start (mk_token ty x y n par) = int x" "tok_end (mk_token ty x y n par) = int y"
  "tok_size (mk_token ty x y n par) = int n"
  by (simp_all add: mk_token_def)

lemma toks_tree:
  "tokens_at ts i (toks v off par i) \<Longrightarrow> tree_of ts i par (shape_of v)"
  "tokens_at ts i (member_toks ms off par i) \<Longrightarrow> forest_of ts i par (member_shapes ms)"
  "tokens_at ts i (element_toks es off par i) \<Longrightarrow> forest_of ts i par (element_shapes es)"
proof (induction v and ms and es arbitrary: i off par and i off par and i off par)
  case (MCons w1 k w2 w3 v w4 ms)
  then show ?case by (auto simp: mk_token_def add.assoc)
qed (auto simp: mk_token_def)


text \<open>Keys and values in the order of the text.\<close>

primrec fields :: "members_syntax \<Rightarrow> (string \<times> json) list" where
  "fields MNil = []"
| "fields (MCons w1 k w2 w3 v w4 ms) = (k, v) # fields ms"

primrec elements :: "elements_syntax \<Rightarrow> json list" where
  "elements ENil = []"
| "elements (ECons w1 v w2 es) = v # elements es"

lemma length_fields [simp]: "length (fields ms) = member_count ms"
  by (induction ms rule: members_syntax.induct [where ?P1.0 = "\<lambda>_. True" and ?P3.0 = "\<lambda>_. True"]) simp_all

lemma length_elements [simp]: "length (elements es) = element_count es"
  by (induction es rule: elements_syntax.induct [where ?P1.0 = "\<lambda>_. True" and ?P2.0 = "\<lambda>_. True"]) simp_all

text \<open>A value in the text and its tokens in the array.\<close>

definition reads_at :: "string \<Rightarrow> jsmntok list \<Rightarrow> nat \<Rightarrow> int \<Rightarrow> json \<Rightarrow> bool" where
  "reads_at js ts i par v \<longleftrightarrow> (\<exists>off r. tokens_at ts i (toks v off par i) \<and> drop off js = render v @ r)"

lemma text_of_span: "drop off js = w @ k @ r \<Longrightarrow> tok_start t = int (off + length w) \<Longrightarrow> tok_end t = int (off + length w + length k) \<Longrightarrow> text_at js t = k"
  using drop_append_split [of off js w "k @ r"] by (simp add: text_at_def nat_add_distrib)

lemma toks_type: "tokens_at ts i (toks v off par i) \<Longrightarrow>
    tok_type (ts ! i) = (case v of JStr s \<Rightarrow> JSMN_STRING | JPrim s \<Rightarrow> JSMN_PRIMITIVE | JObj ms w \<Rightarrow> JSMN_OBJECT | JArr es w \<Rightarrow> JSMN_ARRAY)
    \<and> tok_end (ts ! i) \<le> int (off + length (render v)) \<and> tok_parent (ts ! i) = par"
  by (cases v) auto

lemma toks_valid:
  "tokens_at ts i (toks v off par i) \<Longrightarrow> val_ok ts i (shape_of v)"
  "tokens_at ts i (member_toks ms off par i) \<Longrightarrow> int (off + length (render_members ms)) \<le> e \<Longrightarrow> vals_ok ts True e i (member_shapes ms)"
  "tokens_at ts i (element_toks es off par i) \<Longrightarrow> int (off + length (render_elements es)) \<le> e \<Longrightarrow> vals_ok ts False e i (element_shapes es)"
proof (induction v and ms and es arbitrary: i off par and i off par e and i off par e)
  case (MCons w1 k w2 w3 v w4 ms)
  have "val_ok ts (Suc i) (shape_of v)" using MCons.prems(1) by (intro MCons.IH(1)) auto
  moreover have "vals_ok ts True e (i + Suc (ntoks v)) (member_shapes ms)"
    using MCons.prems by (cases "ms = MNil") (auto intro!: MCons.IH(2) simp: member_value_start_def key_start_def)
  ultimately show ?case using MCons.prems by (auto simp: key_start_def)
next
  case (ECons w1 v w2 es)
  have "val_ok ts i (shape_of v)" using ECons.prems(1) by (intro ECons.IH(1)) auto
  moreover have "vals_ok ts False e (i + ntoks v) (element_shapes es)"
    using ECons.prems by (cases "es = ENil") (auto intro!: ECons.IH(2))
  moreover have "tok_end (ts ! i) \<le> e"
    using toks_type [of ts i v "off + length w1" par] ECons.prems by auto
  ultimately show ?case by simp
qed (auto simp: is_compound_def)


lemma toks_spans:
  "tokens_at ts i (toks v off par i) \<Longrightarrow> drop off js = render v @ r \<Longrightarrow>
   (case v of JStr s \<Rightarrow> text_at js (ts ! i) = s | JPrim s \<Rightarrow> text_at js (ts ! i) = s | _ \<Rightarrow> True)"
  using text_of_span [of off js "[QUOTE]" "case v of JStr s \<Rightarrow> s | _ \<Rightarrow> []" "QUOTE # r" "ts ! i"]
    text_of_span [of off js "[]" "case v of JPrim s \<Rightarrow> s | _ \<Rightarrow> []" r "ts ! i"]
  by (cases v) auto

text \<open>Looking a key up among the tokens is looking it up among the members of the text.\<close>

lemma members_fields:
  "tokens_at ts i (member_toks ms off par i) \<Longrightarrow> drop off js = render_members ms @ r \<Longrightarrow>
   rel_option (\<lambda>k v. reads_at js ts k (int (k - 1)) v) (map_of (members js ts i (member_shapes ms)) key) (map_of (fields ms) key)"
proof (induction ms arbitrary: i off r rule: members_syntax.induct [where ?P1.0 = "\<lambda>_. True" and ?P3.0 = "\<lambda>_. True"])
  case (MCons w1 k w2 w3 v w4 ms)
  let ?p4 = "member_value_start off w1 k w2 w3" let ?p6 = "?p4 + length (render v) + length w4"
  let ?t = "if ms = MNil then [] else CHR '','' # render_members ms"
  have d: "drop off js = (w1 @ [QUOTE]) @ k @ QUOTE # w2 @ CHR '':'' # w3 @ render v @ w4 @ ?t @ r" using MCons.prems(2) by simp
  have key: "text_at js (ts ! i) = k"
    by (rule text_of_span [OF d]) (use MCons.prems(1) in \<open>simp_all add: key_start_def\<close>)
  have d4: "drop ?p4 js = render v @ w4 @ ?t @ r"
    using drop_append_split [of off js "w1 @ QUOTE # k @ QUOTE # w2 @ CHR '':'' # w3" "render v @ w4 @ ?t @ r"] d
    by (simp add: member_value_start_def key_start_def add.assoc)
  have val: "reads_at js ts (Suc i) (int i) v" unfolding reads_at_def using MCons.prems(1) d4 by auto
  show ?case
  proof (cases "ms = MNil")
    case True
    then show ?thesis using key val by simp
  next
    case False
    have d6: "drop (?p4 + length (render v @ w4)) js = ?t @ r" using drop_append_split [of ?p4 js "render v @ w4" "?t @ r"] d4 by simp
    then have "drop (Suc ?p6) js = render_members ms @ r" using False drop_Cons_nth [of ?p6 js "CHR '',''"] by (simp add: add.assoc)
    then have "rel_option (\<lambda>k v. reads_at js ts k (int (k - 1)) v)
        (map_of (members js ts (i + Suc (ntoks v)) (member_shapes ms)) key) (map_of (fields ms) key)"
      using MCons.prems(1) by (intro MCons.IH) (auto simp: add.assoc)
    then show ?thesis using key val by simp
  qed
qed simp_all

lemma elements_elements:
  "tokens_at ts i (element_toks es off par i) \<Longrightarrow> drop off js = render_elements es @ r \<Longrightarrow> n < element_count es \<Longrightarrow>
   reads_at js ts (element_indices i (element_shapes es) ! n) par (elements es ! n)"
proof (induction es arbitrary: i off r n rule: elements_syntax.induct [where ?P1.0 = "\<lambda>_. True" and ?P2.0 = "\<lambda>_. True"])
  case (ECons w1 v w2 es)
  let ?t = "if es = ENil then [] else CHR '','' # render_elements es"
  let ?p1 = "off + length w1" let ?p3 = "?p1 + length (render v) + length w2"
  have d: "drop off js = w1 @ render v @ w2 @ ?t @ r" using ECons.prems(2) by simp
  have d1: "drop ?p1 js = render v @ w2 @ ?t @ r" by (rule drop_append_split [OF d])
  show ?case
  proof (cases n)
    case 0
    then show ?thesis unfolding reads_at_def using ECons.prems(1) d1 by auto
  next
    case (Suc m)
    then have ne: "es \<noteq> ENil" using ECons.prems(3) by auto
    have "drop (?p1 + length (render v @ w2)) js = ?t @ r" using drop_append_split [of ?p1 js "render v @ w2" "?t @ r"] d1 by simp
    then have "drop (Suc ?p3) js = render_elements es @ r" using ne drop_Cons_nth [of ?p3 js "CHR '',''"] by (simp add: add.assoc)
    then have "reads_at js ts (element_indices (i + ntoks v) (element_shapes es) ! m) par (elements es ! m)"
      using ECons.prems(1,3) Suc by (intro ECons.IH) auto
    then show ?thesis using Suc by simp
  qed
qed simp_all

section \<open>Lookups in a document\<close>

text \<open>What a lookup from a value of the document gives: a code, or a value inside it.\<close>

definition find_member :: "json \<Rightarrow> string \<Rightarrow> int + json" where
  "find_member v key =
     (case v of
        JObj ms w \<Rightarrow> if ms = MNil then Inl (- WM_E_JSON_FAIL)
          else (case map_of (fields ms) key of None \<Rightarrow> Inl (- WM_E_JSON_NOT_FOUND) | Some u \<Rightarrow> Inr u)
      | JArr es w \<Rightarrow> Inl (if es = ENil then - WM_E_JSON_FAIL else - WM_E_JSON_INVALID_JOBJ)
      | _ \<Rightarrow> Inl (- WM_E_JSON_FAIL))"

definition find_element :: "json \<Rightarrow> u16 \<Rightarrow> int + json" where
  "find_element v index =
     (case v of
        JArr es w \<Rightarrow> if unat index < length (elements es) then Inr (elements es ! unat index) else Inl (- WM_E_JSON_INVALID_INDEX)
      | _ \<Rightarrow> Inl (- WM_E_JSON_INVALID_JARRAY))"

text \<open>The current token of an object belongs to a value.\<close>

definition denotes :: "jobj \<Rightarrow> json \<Rightarrow> bool" where
  "denotes j v \<longleftrightarrow> \<not> j_freed j \<and>
     (\<exists>ts i par len. j_tokens j = Some ts \<and> j_cur j = Some i \<and> reads_at (j_js j) ts i par v \<and>
        len \<le> length (j_js j) \<and> (\<forall>k < length ts. span_ok (j_js j) len (ts ! k)))"

lemma denotesE:
  assumes "denotes j v"
  obtains ts i par off r len where "live_tokens j = Some ts" "j_cur j = Some i" "tokens_at ts i (toks v off par i)"
    "drop off (j_js j) = render v @ r" "len \<le> length (j_js j)" "\<forall>k < length ts. span_ok (j_js j) len (ts ! k)"
    "\<And>k par u. reads_at (j_js j) ts k par u \<Longrightarrow> denotes (j\<lparr>j_cur := Some k\<rparr>) u"
proof -
  obtain ts i par len off r where d: "\<not> j_freed j" "j_tokens j = Some ts" "j_cur j = Some i" "tokens_at ts i (toks v off par i)"
      "drop off (j_js j) = render v @ r" "len \<le> length (j_js j)" "\<forall>k < length ts. span_ok (j_js j) len (ts ! k)"
    using assms unfolding denotes_def reads_at_def by blast
  have "denotes (j\<lparr>j_cur := Some k\<rparr>) u" if "reads_at (j_js j) ts k par u" for k par u
    unfolding denotes_def using d that by (intro conjI exI [of _ ts] exI [of _ k] exI [of _ par] exI [of _ len]) simp_all
  then show thesis using d by (intro that) (simp_all add: live_tokens_def)
qed

definition found :: "jobj \<Rightarrow> (int \<times> nat option) option \<Rightarrow> int + json \<Rightarrow> bool" where
  "found j res spec \<longleftrightarrow>
     (case spec of Inl e \<Rightarrow> res = Some (e, None) \<and> e \<noteq> SYS_OK
      | Inr u \<Rightarrow> (\<exists>k. res = Some (SYS_OK, Some k) \<and> denotes (j\<lparr>j_cur := Some k\<rparr>) u))"

lemma tokens_at_bound: "tokens_at ts i xs \<Longrightarrow> i + length xs \<le> length ts"
  by (simp add: tokens_at_def)

lemma tokens_at_first: "tokens_at ts i (toks v off par i) \<Longrightarrow> i < length ts"
  by (cases v) simp_all

lemma get_value_found:
  assumes "denotes j v"
  shows "found j (json_get_value j key) (find_member v key)"
  using assms
proof (rule denotesE)
  fix ts i par off r len
  assume j: "live_tokens j = Some ts" "j_cur j = Some i" and t: "tokens_at ts i (toks v off par i)" and d: "drop off (j_js j) = render v @ r"
    and l: "len \<le> length (j_js j)" and sp: "\<forall>k < length ts. span_ok (j_js j) len (ts ! k)"
    and D: "\<And>k par u. reads_at (j_js j) ts k par u \<Longrightarrow> denotes (j\<lparr>j_cur := Some k\<rparr>) u"
  show ?thesis
  proof (cases "\<exists>ms w. v = JObj ms w \<and> ms \<noteq> MNil")
    case False
    have "element_count es = 0 \<longleftrightarrow> es = ENil" for es by (cases es) simp_all
    then show ?thesis
      using False j t by (cases v) (auto simp: json_get_value_def found_def find_member_def json_errno_defs sys_errno_defs)
  next
    case True
    then obtain ms w where v: "v = JObj ms w" "ms \<noteq> MNil" by blast
    let ?e = "tok_end (ts ! i)"
    have m: "tokens_at ts (Suc i) (member_toks ms (off + 1) (int i) (Suc i))" and e: "?e = int (off + length (render v))"
      and h: "tok_type (ts ! i) = JSMN_OBJECT" "tok_size (ts ! i) = int (member_count ms)" "i < length ts"
      using t v(1) by simp_all
    have d': "drop (off + 1) (j_js j) = render_members ms @ w @ CHR ''}'' # r" using d v(1) drop_Cons_nth [of off "j_js j"] by auto
    have "get_value_loop ts (j_js j) ?e key i (int (length (member_shapes ms))) =
        Some (case map_of (members (j_js j) ts (Suc i) (member_shapes ms)) key of None \<Rightarrow> (- WM_E_JSON_NOT_FOUND, None) | Some k \<Rightarrow> (SYS_OK, Some k))"
    proof (rule get_value_members [OF toks_tree(2) [OF m] _ _ _ l])
      show "vals_ok ts True ?e (Suc i) (member_shapes ms)" by (rule toks_valid(2) [OF m]) (simp add: e v(1))
      show "Suc i + szs (member_shapes ms) \<le> length ts" using tokens_at_bound [OF m] by simp
      then show "\<forall>k. i < k \<and> k \<le> i + szs (member_shapes ms) \<longrightarrow> span_ok (j_js j) len (ts ! k)" using sp by simp
    qed
    moreover have "member_count ms \<noteq> 0" using v(2) by (cases ms) simp_all
    moreover have "rel_option (\<lambda>k v. reads_at (j_js j) ts k (int (k - 1)) v)
        (map_of (members (j_js j) ts (Suc i) (member_shapes ms)) key) (map_of (fields ms) key)"
      by (rule members_fields [OF m d'])
    ultimately show ?thesis
      using j h v(2) unfolding v(1)
      by (auto simp: json_get_value_def found_def find_member_def json_errno_defs sys_errno_defs dest: D elim!: option.rel_cases)
  qed
qed

lemma get_array_index_found:
  assumes "denotes j v"
  shows "found j (json_get_array_index j index) (find_element v index)"
  using assms
proof (rule denotesE)
  fix ts i par off r len
  assume j: "live_tokens j = Some ts" "j_cur j = Some i" and t: "tokens_at ts i (toks v off par i)" and d: "drop off (j_js j) = render v @ r"
    and D: "\<And>k par u. reads_at (j_js j) ts k par u \<Longrightarrow> denotes (j\<lparr>j_cur := Some k\<rparr>) u"
  have idx: "int n \<le> uint index \<longleftrightarrow> n \<le> unat index" for n by (metis of_nat_le_iff uint_nat)
  show ?thesis
  proof (cases "\<exists>es w. v = JArr es w \<and> unat index < element_count es")
    case False
    show ?thesis
      using False j t
      by (cases v) (simp_all add: json_get_array_index_def found_def find_element_def json_errno_defs sys_errno_defs idx)
  next
    case True
    then obtain es w where v: "v = JArr es w" "unat index < element_count es" by blast
    have m: "tokens_at ts (Suc i) (element_toks es (off + 1) (int i) (Suc i))"
      and h: "tok_type (ts ! i) = JSMN_ARRAY" "tok_size (ts ! i) = int (element_count es)" "i < length ts"
        "tok_end (ts ! i) = int (off + length (render v))"
      using t v(1) by simp_all
    have d': "drop (off + 1) (j_js j) = render_elements es @ w @ CHR '']'' # r" using d v(1) drop_Cons_nth [of off "j_js j"] by auto
    have "array_index_loop ts (tok_end (ts ! i)) (Suc i) (unat index) = Some (SYS_OK, Some (element_indices (Suc i) (element_shapes es) ! unat index))"
    proof (rule array_index_elements [OF toks_tree(3) [OF m]])
      show "vals_ok ts False (tok_end (ts ! i)) (Suc i) (element_shapes es)" by (rule toks_valid(3) [OF m]) (simp add: h(4) v(1))
      show "Suc i + szs (element_shapes es) \<le> length ts" using tokens_at_bound [OF m] by simp
    qed (simp add: v(2))
    moreover have "denotes (j\<lparr>j_cur := Some (element_indices (Suc i) (element_shapes es) ! unat index)\<rparr>) (elements es ! unat index)"
      by (rule D [OF elements_elements [OF m d' v(2)]])
    ultimately show ?thesis
      using j h(1-3) v(2) unfolding v(1) by (simp add: json_get_array_index_def found_def find_element_def idx)
  qed
qed

end
