(* ===== verification/Json_Properties.thy ===== *)
theory Json_Properties
  imports Json_Document
begin

text \<open>
  What a client of the JSON parser relies on: parsing ends and cleans up, no lookup leaves the
  tokens, entering and leaving a value are inverse, and a document reads as its text says.
\<close>

section \<open>Navigating a document\<close>

text \<open>The steps down into a document, in the code and in the text.\<close>

datatype nav = Into_object string | Into_array string | Object_at u16 | Array_at u16

fun go_step :: "jobj \<Rightarrow> nav \<Rightarrow> (int \<times> jobj) option" where
  "go_step j (Into_object key) = json_get_composite_object j key"
| "go_step j (Into_array key) = do { (r, n, j) \<leftarrow> json_get_array_object j key; Some (r, j) }"
| "go_step j (Object_at index) = json_array_get_composite_object j index"
| "go_step j (Array_at index) = do { (r, n, j) \<leftarrow> json_array_get_array_object j index; Some (r, j) }"

primrec go :: "jobj \<Rightarrow> nav list \<Rightarrow> (int \<times> jobj) option" where
  "go j [] = Some (SYS_OK, j)"
| "go j (s # path) = do { (r, j) \<leftarrow> go_step j s; if r \<noteq> SYS_OK then Some (r, j) else go j path }"

definition is_object :: "json \<Rightarrow> bool" where
  "is_object v \<longleftrightarrow> (case v of JObj ms w \<Rightarrow> True | _ \<Rightarrow> False)"

definition is_array :: "json \<Rightarrow> bool" where
  "is_array v \<longleftrightarrow> (case v of JArr es w \<Rightarrow> True | _ \<Rightarrow> False)"

definition of_type :: "(json \<Rightarrow> bool) \<Rightarrow> int + json \<Rightarrow> int + json" where
  "of_type P r = (case r of Inl e \<Rightarrow> Inl e | Inr u \<Rightarrow> if P u then Inr u else Inl (- WM_E_JSON_INVALID_TYPE))"

fun walk_step :: "json \<Rightarrow> nav \<Rightarrow> int + json" where
  "walk_step v (Into_object key) = of_type is_object (find_member v key)"
| "walk_step v (Into_array key) = of_type is_array (find_member v key)"
| "walk_step v (Object_at index) = of_type is_object (find_element v index)"
| "walk_step v (Array_at index) = of_type is_array (find_element v index)"

primrec walk :: "json \<Rightarrow> nav list \<Rightarrow> int + json" where
  "walk v [] = Inr v"
| "walk v (s # path) = (case walk_step v s of Inl e \<Rightarrow> Inl e | Inr u \<Rightarrow> walk u path)"

lemma enter_found:
  assumes "denotes j v" and "found j res spec" and "type = JSMN_OBJECT \<and> P = is_object \<or> type = JSMN_ARRAY \<and> P = is_array"
  shows "case of_type P spec of
      Inl e \<Rightarrow> e \<noteq> SYS_OK \<and> (\<exists>n. enter type j res = Some (e, n, j))
    | Inr u \<Rightarrow> \<exists>n j'. enter type j res = Some (SYS_OK, n, j') \<and> denotes j' u"
proof (cases spec)
  case (Inl e)
  then show ?thesis using assms(2) by (simp add: found_def of_type_def enter_def)
next
  case (Inr u)
  then obtain k where k: "res = Some (SYS_OK, Some k)" "denotes (j\<lparr>j_cur := Some k\<rparr>) u" using assms(2) by (auto simp: found_def)
  obtain ts par off where t: "live_tokens j = Some ts" "tokens_at ts k (toks u off par k)"
    using k(2) unfolding denotes_def reads_at_def live_tokens_def by auto
  have "k < length ts" by (rule tokens_at_first [OF t(2)])
  moreover have "tok_type (ts ! k) = type \<longleftrightarrow> P u"
    using toks_type [OF t(2)] assms(3) by (cases u) (auto simp: is_object_def is_array_def)
  ultimately show ?thesis using k t(1) Inr by (auto simp: enter_def of_type_def json_errno_defs sys_errno_defs)
qed

lemma go_step_walk:
  assumes "denotes j v"
  shows "case walk_step v s of
      Inl e \<Rightarrow> e \<noteq> SYS_OK \<and> go_step j s = Some (e, j)
    | Inr u \<Rightarrow> \<exists>j'. go_step j s = Some (SYS_OK, j') \<and> denotes j' u"
proof (cases s)
  case (Into_object key)
  then show ?thesis using enter_found [OF assms get_value_found [OF assms, of key], of JSMN_OBJECT is_object]
    by (auto simp: json_get_composite_object_def split: sum.splits)
next
  case (Into_array key)
  then show ?thesis using enter_found [OF assms get_value_found [OF assms, of key], of JSMN_ARRAY is_array]
    by (auto simp: json_get_array_object_def split: sum.splits)
next
  case (Object_at index)
  then show ?thesis using enter_found [OF assms get_array_index_found [OF assms, of index], of JSMN_OBJECT is_object]
    by (auto simp: json_array_get_composite_object_def split: sum.splits)
next
  case (Array_at index)
  then show ?thesis using enter_found [OF assms get_array_index_found [OF assms, of index], of JSMN_ARRAY is_array]
    by (auto simp: json_array_get_array_object_def split: sum.splits)
qed

lemma go_walk:
  "denotes j v \<Longrightarrow> case walk v path of
      Inl e \<Rightarrow> e \<noteq> SYS_OK \<and> (\<exists>j'. go j path = Some (e, j'))
    | Inr u \<Rightarrow> \<exists>j'. go j path = Some (SYS_OK, j') \<and> denotes j' u"
proof (induction path arbitrary: j v)
  case (Cons s path)
  show ?case
  proof (cases "walk_step v s")
    case (Inl e)
    then show ?thesis using go_step_walk [OF Cons.prems, of s] by auto
  next
    case (Inr u)
    then obtain j' where "go_step j s = Some (SYS_OK, j')" "denotes j' u" using go_step_walk [OF Cons.prems, of s] by auto
    then show ?thesis using Cons.IH [of j' u] Inr by (simp split: sum.splits)
  qed
qed simp

section \<open>Values\<close>

definition string_value :: "json \<Rightarrow> int \<Rightarrow> int \<times> string option" where
  "string_value v maxlen =
     (case v of
        JStr s \<Rightarrow> if int (length s) \<ge> maxlen then (- WM_E_JSON_NOMEM, None) else (SYS_OK, Some s)
      | _ \<Rightarrow> (- WM_E_JSON_INVALID_TYPE, None))"

definition bool_value :: "json \<Rightarrow> int \<times> bool option" where
  "bool_value v =
     (case v of
        JPrim s \<Rightarrow> if s = ''true'' \<or> s = ''1'' then (SYS_OK, Some True)
          else if s = ''false'' \<or> s = ''0'' then (SYS_OK, Some False) else (- WM_E_JSON_INVALID_TYPE, None)
      | _ \<Rightarrow> (- WM_E_JSON_INVALID_TYPE, None))"

definition leaf :: "(json \<Rightarrow> int \<times> 'a option) \<Rightarrow> int + json \<Rightarrow> int \<times> 'a option" where
  "leaf f r = (case r of Inl e \<Rightarrow> (e, None) | Inr u \<Rightarrow> f u)"

lemma leaf_found:
  assumes "denotes j v" and "found j res spec"
  shows "with_token j res (\<lambda>t. json_str_to_str (j_js j) t maxlen) = Some (leaf (\<lambda>u. string_value u maxlen) spec)"
    and "with_token j res (json_str_to_bool (j_js j)) = Some (leaf bool_value spec)"
proof -
  have "with_token j res (\<lambda>t. json_str_to_str (j_js j) t maxlen) = Some (leaf (\<lambda>u. string_value u maxlen) spec) \<and>
    with_token j res (json_str_to_bool (j_js j)) = Some (leaf bool_value spec)"
  proof (cases spec)
    case (Inl e)
    then show ?thesis using assms(2) by (simp add: found_def with_token_def leaf_def)
  next
    case (Inr u)
    then obtain k where k: "res = Some (SYS_OK, Some k)" "denotes (j\<lparr>j_cur := Some k\<rparr>) u" using assms(2) by (auto simp: found_def)
    obtain ts par off r len where t: "live_tokens j = Some ts" "tokens_at ts k (toks u off par k)" "drop off (j_js j) = render u @ r"
        "len \<le> length (j_js j)" "\<forall>k < length ts. span_ok (j_js j) len (ts ! k)"
      using k(2) unfolding denotes_def reads_at_def live_tokens_def by auto
    have bound: "k < length ts" by (rule tokens_at_first [OF t(2)])
    have tx: "token_text (j_js j) (ts ! k) = Some (text_at (j_js j) (ts ! k))"
      if "tok_type (ts ! k) = JSMN_STRING \<or> tok_type (ts ! k) = JSMN_PRIMITIVE"
      using t(5) bound by (intro token_text_at [OF _ that t(4)]) simp
    show ?thesis
      using k(1) t(1) bound tx toks_type [OF t(2)] toks_spans [OF t(2,3)] t(2) Inr
      by (cases u) (simp_all add: with_token_def leaf_def string_value_def bool_value_def json_str_to_str_def json_str_to_bool_def)
  qed
  then show "with_token j res (\<lambda>t. json_str_to_str (j_js j) t maxlen) = Some (leaf (\<lambda>u. string_value u maxlen) spec)"
    and "with_token j res (json_str_to_bool (j_js j)) = Some (leaf bool_value spec)" by simp_all
qed

text \<open>Reading at the end of a path.\<close>

definition read_member :: "jobj \<Rightarrow> nav list \<Rightarrow> (jobj \<Rightarrow> (int \<times> 'a option) option) \<Rightarrow> (int \<times> 'a option) option" where
  "read_member j path get = do { (r, j) \<leftarrow> go j path; if r \<noteq> SYS_OK then Some (r, None) else get j }"

definition text_member :: "json \<Rightarrow> nav list \<Rightarrow> (json \<Rightarrow> int \<times> 'a option) \<Rightarrow> int \<times> 'a option" where
  "text_member v path get = (case walk v path of Inl e \<Rightarrow> (e, None) | Inr u \<Rightarrow> get u)"

lemma read_text:
  assumes "denotes j v" and "\<And>j u. denotes j u \<Longrightarrow> get j = Some (get' u)"
  shows "read_member j path get = Some (text_member v path get')"
  using go_walk [OF assms(1), of path] assms(2)
  by (auto simp: read_member_def text_member_def split: sum.splits)


section \<open>Parsing a document\<close>

lemma ntoks_le:
  "json_ok v \<Longrightarrow> ntoks v \<le> length (render v)"
  "members_ok ms \<Longrightarrow> member_ntoks ms \<le> length (render_members ms)"
  "elements_ok es \<Longrightarrow> element_ntoks es \<le> length (render_elements es)"
proof (induction v and ms and es)
  case (JPrim s)
  then show ?case by (cases s) (auto simp: prim_ok_def)
qed auto

lemma start_denotes:
  assumes "json_ok v" and "compound v" and "ws w" and "ws w'" and "len = length (w @ render v @ w')" and "len \<le> 32767"
    and "avail (10 * ntoks v)"
  shows "\<exists>j. json_parse_start avail ((w @ render v @ w') @ rest) len = Some (SYS_OK, j) \<and> denotes j v"
proof -
  let ?js = "(w @ render v @ w') @ rest" and ?n = "ntoks v" and ?ts = "toks v (length w) (-1) 0"
  have n: "?n \<le> len" using ntoks_le(1) [OF assms(1)] assms(5) by simp
  have len: "len \<le> length ?js" using assms(5) by simp
  obtain p where p: "p_toknext p = ?n"
      "jsmn_loop ?js len ?n (0, jsmn_init, Some (replicate ?n blank_token)) = Some (Inr (int ?n, p, Some ?ts))"
    using document_run [OF assms(1-5) _ n, of rest] assms(6) by auto
  obtain q where q: "jsmn_loop ?js len 0 (0, jsmn_init, None) = Some (Inr (int ?n, q, None))"
    using loop_counts [OF p(2) refl len] by blast
  have i: "p_toknext jsmn_init = 0" by (simp add: jsmn_init_def)
  have first: "jsmn_parse jsmn_init ?js len None 0 = Some (int ?n, q, None)"
    using q unfolding jsmn_parse_def i by simp
  have "\<not> open_token t" if "t \<in> set (take ?n ?ts)" for t
    using that toks_closed(1) [of "-1" 0 v "length w"] by (auto simp: closed_block_def in_set_conv_nth)
  then have second: "jsmn_parse jsmn_init ?js len (Some (replicate ?n blank_token)) ?n = Some (int ?n, p, Some ?ts)"
    using p unfolding jsmn_parse_def i by auto
  have at: "tokens_at ?ts 0 (toks v (length w) (-1) 0)" by (simp add: tokens_at_def)
  have valid: "json_is_valid ?ts 0 (tok_type (?ts ! 0)) = Some True"
    using json_is_valid_tree [OF toks_tree(1) [OF at]] toks_valid(1) [OF at] toks_type [OF at] assms(2)
    by (cases v) (simp_all add: compound_def is_compound_def)
  have "spans ?js len ?n ?ts"
    using parse_spans [OF second] p(1) n assms(6) len by simp
  then have sp: "\<forall>k < length ?ts. span_ok ?js len (?ts ! k)" by (simp add: spans_def)
  have "reads_at ?js ?ts 0 (-1) v" unfolding reads_at_def using at by (auto intro!: exI [of _ "length w"])
  then have "denotes \<lparr>j_parser = p, j_js = ?js, j_tokens = Some ?ts, j_freed = False, j_cur = Some 0, j_num_tokens = int ?n\<rparr> v"
    unfolding denotes_def using sp len by auto
  moreover have "json_init (Some (replicate ?n blank_token)) ?n ?js len =
      Some (SYS_OK, \<lparr>j_parser = p, j_js = ?js, j_tokens = Some ?ts, j_freed = False, j_cur = Some 0, j_num_tokens = int ?n\<rparr>)"
    using second valid toks_type [OF at] assms(2)
    by (cases v) (simp_all add: json_init_def json_obj_init_def compound_def Let_def)
  moreover have "os_mem_calloc avail ?n = Some (replicate ?n blank_token)"
    using assms(7) count_le_ntoks(3) [of v] by (simp add: os_mem_calloc_def mult.commute)
  ultimately show ?thesis
    using first by (simp add: json_parse_start_def json_obj_init_def)
qed

section \<open>Properties\<close>

text \<open>C6: parsing a text of at most 32767 characters ends, whatever the text and the heap. With
  \<^const>\<open>SYS_OK\<close> the object holds the tokens of a well formed document, at its root; the code for
  no memory appears only if nothing was allocated; and after any error nothing stays allocated.
\<close>

theorem json_parse_start_ends:
  assumes "len \<le> length js" and "len \<le> 32767"
  shows "\<exists>r j. json_parse_start avail js len = Some (r, j) \<and>
    (if r = SYS_OK then document j \<and> j_js j = js \<and> j_cur j = Some 0
     else (j_tokens j = None \<or> j_freed j) \<and> (r = - WM_E_JSON_NOMEM \<longrightarrow> j_tokens j = None))"
proof -
  obtain r j where "json_parse_start avail js len = Some (r, j)"
      "(r = SYS_OK \<longrightarrow> document j \<and> j_js j = js \<and> j_cur j = Some 0) \<and>
       (r = - WM_E_JSON_NOMEM \<longrightarrow> j_tokens j = None) \<and> (r \<noteq> SYS_OK \<longrightarrow> j_tokens j = None \<or> j_freed j)"
    using start_document [OF assms, of avail] by (auto elim!: returnsE)
  then show ?thesis by auto
qed

theorem json_parse_start_ends_witness:
  "\<exists>r j. json_parse_start (\<lambda>_. True) ''[1,2'' 4 = Some (r, j) \<and>
    (if r = SYS_OK then document j \<and> j_js j = ''[1,2'' \<and> j_cur j = Some 0
     else (j_tokens j = None \<or> j_freed j) \<and> (r = - WM_E_JSON_NOMEM \<longrightarrow> j_tokens j = None))"
  by (rule json_parse_start_ends) simp_all

text \<open>C5: after any sequence of entering and leaving objects and arrays of a parsed document, every
  lookup, and every further step in or out, reads only tokens and text that are there.
\<close>

theorem json_lookups_safe:
  assumes "json_reach avail js len j" and "len \<le> length js" and "len \<le> 32767"
  shows "json_get_val_bool j key \<noteq> None \<and> json_get_val_int j key \<noteq> None \<and> json_get_val_int64 j key \<noteq> None \<and>
    json_get_val_str j key maxlen \<noteq> None \<and> json_get_val_str_len j key \<noteq> None \<and>
    json_array_get_bool j index \<noteq> None \<and> json_array_get_int j index \<noteq> None \<and> json_array_get_int64 j index \<noteq> None \<and>
    json_array_get_str j index maxlen \<noteq> None \<and> json_array_get_str_len j index \<noteq> None \<and>
    json_get_composite_object j key \<noteq> None \<and> json_get_array_object j key \<noteq> None \<and>
    json_array_get_composite_object j index \<noteq> None \<and> json_array_get_array_object j index \<noteq> None \<and>
    json_release_composite_object j \<noteq> None \<and> json_array_release_composite_object j \<noteq> None \<and> json_parse_stop j \<noteq> None"
proof -
  have d: "document j" by (rule reach_document [OF assms])
  note v = with_token_defined [OF d get_value_ok [OF d]] and a = with_token_defined [OF d get_array_index_ok [OF d]]
  have leaf: "returns (\<lambda>_. True) (json_get_val_bool j key)" "returns (\<lambda>_. True) (json_get_val_int j key)"
      "returns (\<lambda>_. True) (json_get_val_int64 j key)" "returns (\<lambda>_. True) (json_get_val_str j key maxlen)"
      "returns (\<lambda>_. True) (json_get_val_str_len j key)" "returns (\<lambda>_. True) (json_array_get_bool j index)"
      "returns (\<lambda>_. True) (json_array_get_int j index)" "returns (\<lambda>_. True) (json_array_get_int64 j index)"
      "returns (\<lambda>_. True) (json_array_get_str j index maxlen)" "returns (\<lambda>_. True) (json_array_get_str_len j index)"
    unfolding json_get_val_bool_def json_get_val_int_def json_get_val_int64_def json_get_val_str_def json_get_val_str_len_def
      json_array_get_bool_def json_array_get_int_def json_array_get_int64_def json_array_get_str_def json_array_get_str_len_def
    by (intro v a values_defined; simp)+
  have "json_parse_stop j \<noteq> None" using d by (auto simp: document_def json_parse_stop_def)
  then show ?thesis
    using leaf [THEN returns_defined] enter_operations [OF d, THEN returns_defined] release_document [OF d, THEN returns_defined]
      to_parent_document [OF d, THEN returns_defined]
    unfolding json_array_release_composite_object_def by (intro conjI)
qed


lemma nested_document: "json_ok v \<Longrightarrow> compound v \<Longrightarrow> length (render v) \<le> 32767 \<Longrightarrow>
   \<exists>j. json_reach (\<lambda>_. True) (render v) (length (render v)) j \<and> denotes j v"
  using start_denotes [of v "[]" "[]" "length (render v)" "\<lambda>_. True" "[]"] by (auto intro: json_reach.started)

definition sample :: json where
  "sample = JObj (MCons [] ''id'' [] '' '' (JStr ''7'') [] (MCons '' '' ''data'' [] [] (JArr (ECons [] (JObj (MCons [] ''on'' [] [] (JPrim ''true'') [] MNil) []) []
     (ECons '' '' (JPrim ''-1'') [] ENil)) []) [] MNil)) ''  ''"

lemma sample_ok: "json_ok sample" "compound sample" "ntoks sample = 9" "length (render sample) = 39"
  by code_simp+

lemma sample_reach: "\<exists>j. json_reach (\<lambda>_. True) (render sample) (length (render sample)) j \<and> denotes j sample"
  by (rule nested_document) (simp_all add: sample_ok)

theorem json_lookups_safe_witness:
  "\<exists>j. json_reach (\<lambda>_. True) (render sample) (length (render sample)) j \<and> json_get_val_str j ''id'' 8 \<noteq> None"
proof -
  obtain j where j: "json_reach (\<lambda>_. True) (render sample) (length (render sample)) j"
    using sample_reach by blast
  have "json_get_val_str j ''id'' 8 \<noteq> None" using json_lookups_safe [OF j, of "''id''" 8 0] sample_ok(4) by simp
  then show ?thesis using j by blast
qed

text \<open>C34: leaving an object or array that was just entered comes back to where the client was: for a
  member over its key, for an element in one step.
\<close>

theorem json_enter_and_leave:
  assumes "json_reach avail js len j" and "len \<le> length js" and "len \<le> 32767"
  shows "(json_get_composite_object j key = Some (SYS_OK, k) \<longrightarrow> json_release_composite_object k = Some (SYS_OK, j)) \<and>
    (json_get_array_object j key = Some (SYS_OK, n, k) \<longrightarrow> json_release_array_object k = Some (SYS_OK, j)) \<and>
    (json_array_get_composite_object j index = Some (SYS_OK, k) \<longrightarrow> json_array_release_composite_object k = Some (SYS_OK, j)) \<and>
    (json_array_get_array_object j index = Some (SYS_OK, n, k) \<longrightarrow> json_array_release_array_object k = Some (SYS_OK, j))"
proof -
  note d = enter_operations [OF reach_document [OF assms]]
  show ?thesis
    using returnsD [OF d(1) [of key]] returnsD [OF d(2) [of key]] returnsD [OF d(3) [of index]] returnsD [OF d(4) [of index]]
    by (fastforce simp: json_release_array_object_def json_array_release_array_object_def)
qed

theorem json_enter_and_leave_witness:
  "\<exists>j k n. json_get_array_object j ''data'' = Some (SYS_OK, n, k) \<and> json_release_array_object k = Some (SYS_OK, j)"
proof -
  obtain j where j: "json_reach (\<lambda>_. True) (render sample) (length (render sample)) j" "denotes j sample"
    using sample_reach by blast
  have "walk_step sample (Into_array ''data'') \<noteq> Inl e" for e by (simp add: sample_def find_member_def of_type_def is_array_def)
  then obtain n k where "json_get_array_object j ''data'' = Some (SYS_OK, n, k)"
    using go_step_walk [OF j(2), of "Into_array ''data''"] by (auto split: sum.splits bind_splits)
  moreover have "length (render sample) \<le> 32767" by (simp add: sample_ok)
  ultimately show ?thesis using json_enter_and_leave [OF j(1) order_refl] by blast
qed

text \<open>C4: a document reads as its text says. For every document of the grammar, with white space
  wherever it may stand, the parser accepts its text, and reading the string or the truth value of
  a member, at the end of any path down into objects and arrays, gives what the text has there: the
  value of the first member with the key, or the code for why there is none.
\<close>

theorem json_document_read:
  assumes "json_ok v" and "compound v" and "ws w" and "ws w'" and "len = length (w @ render v @ w')" and "len \<le> 32767"
    and "avail (10 * ntoks v)"
  shows "\<exists>j. json_parse_start avail ((w @ render v @ w') @ rest) len = Some (SYS_OK, j) \<and>
    (\<forall>path key maxlen.
       read_member j path (\<lambda>j. json_get_val_str j key maxlen) =
         Some (text_member v path (\<lambda>u. leaf (\<lambda>x. string_value x maxlen) (find_member u key))) \<and>
       read_member j path (\<lambda>j. json_get_val_bool j key) = Some (text_member v path (\<lambda>u. leaf bool_value (find_member u key))))"
proof -
  obtain j where j: "json_parse_start avail ((w @ render v @ w') @ rest) len = Some (SYS_OK, j)" "denotes j v"
    using start_denotes [of v w w' len avail rest] assms by blast
  have "json_get_val_str i key maxlen = Some (leaf (\<lambda>x. string_value x maxlen) (find_member u key))"
    "json_get_val_bool i key = Some (leaf bool_value (find_member u key))" if "denotes i u" for i u key maxlen
    using leaf_found [OF that get_value_found [OF that]] by (simp_all add: json_get_val_str_def json_get_val_bool_def)
  then have "\<forall>path key maxlen.
       read_member j path (\<lambda>j. json_get_val_str j key maxlen) =
         Some (text_member v path (\<lambda>u. leaf (\<lambda>x. string_value x maxlen) (find_member u key))) \<and>
       read_member j path (\<lambda>j. json_get_val_bool j key) = Some (text_member v path (\<lambda>u. leaf bool_value (find_member u key)))"
    by (intro allI conjI read_text [OF j(2)])
  then show ?thesis using j(1) by (intro exI conjI)
qed

theorem json_document_read_witness:
  "\<exists>j. json_parse_start (\<lambda>_. True) (render sample @ [NUL]) 39 = Some (SYS_OK, j) \<and>
    read_member j [] (\<lambda>j. json_get_val_str j ''id'' 8) = Some (SYS_OK, Some ''7'') \<and>
    read_member j [Into_array ''data'', Object_at 0] (\<lambda>j. json_get_val_bool j ''on'') = Some (SYS_OK, Some True)"
proof -
  have a: "text_member sample [] (\<lambda>u. leaf (\<lambda>x. string_value x 8) (find_member u ''id'')) = (SYS_OK, Some ''7'')"
    "text_member sample [Into_array ''data'', Object_at 0] (\<lambda>u. leaf bool_value (find_member u ''on'')) = (SYS_OK, Some True)"
    by code_simp+
  show ?thesis
    using json_document_read [OF sample_ok(1,2), of "[]" "[]" 39 "\<lambda>_. True" "[NUL]"] sample_ok(4) a by auto
qed

text \<open>C35: after an error the tokens are already released, so a client that then calls
  \<^verbatim>\<open>json_parse_stop\<close> releases them twice, unless none were allocated.
\<close>

theorem json_stop_after_error:
  assumes "json_parse_start avail js len = Some (r, j)" and "r \<noteq> SYS_OK"
  shows "json_parse_stop j = None \<longleftrightarrow> j_tokens j \<noteq> None"
  using assms
  by (auto simp: json_parse_start_def json_parse_stop_def json_obj_init_def Let_def split: option.splits if_splits bind_splits)

theorem json_stop_after_error_witness:
  "\<exists>j. json_parse_start (\<lambda>_. True) ''{'' 1 = Some (- WM_E_JSON_INCOMPLETE, j) \<and> json_parse_stop j = None"
proof -
  have "map_option (\<lambda>(r, j). (r, j_tokens j \<noteq> None)) (json_parse_start (\<lambda>_. True) ''{'' 1) = Some (- WM_E_JSON_INCOMPLETE, True)"
    by code_simp
  then have "\<exists>j. json_parse_start (\<lambda>_. True) ''{'' 1 = Some (- WM_E_JSON_INCOMPLETE, j) \<and> j_tokens j \<noteq> None" by auto
  moreover have "- WM_E_JSON_INCOMPLETE \<noteq> SYS_OK" by code_simp
  ultimately show ?thesis using json_stop_after_error by blast
qed

end
