(* ===== verification/Mqtt_Command.thy ===== *)
theory Mqtt_Command
  imports Json_Parser Circuit_Breaker Monitor_Board
begin

text \<open>
  \<^verbatim>\<open>mqtt_subscribe_command\<close> of \<^verbatim>\<open>app/eth_mqtt_handle.c\<close>, the handler of a command from the
  cloud: it reads the header of the JSON text, then every attribute of its data in a fixed order,
  and sets the shared device data and the settings of a breaker. It changes \<^verbatim>\<open>set_ok\<close> and the
  state that the breaker thread works on. A buffer that was never written is \<^const>\<open>None\<close>.
\<close>

section \<open>The names in a command\<close>

text \<open>The two enumerations and the tables of names they index, in the same order.\<close>

datatype head_field = H_HEADER | H_CLIENT | H_COMMAND | H_TIME | H_TYPE | H_ID | H_VER | H_DATA

definition device_post_attr_head :: "(string \<times> head_field) list" where
  "device_post_attr_head =
     [(''header'', H_HEADER), (''client'', H_CLIENT), (''command'', H_COMMAND), (''time'', H_TIME),
      (''type'', H_TYPE), (''id'', H_ID), (''ver'', H_VER), (''data'', H_DATA)]"

text \<open>An attribute that sets a register carries the register and the factor of its value.\<close>

datatype attr_index =
    ATTR_FAN_O | ATTR_FAN_C | ATTR_HOT_O | ATTR_HOT_C | ATTR_P | ATTR_V | ATTR_LED | ATTR_FAN
  | ATTR_RECLOSE | ATTR_CBCLOSE | ATTR_SET | ATTR_REG hold_reg int

definition device_post_attr :: "(string \<times> attr_index) list" where
  "device_post_attr =
     [(''fan_open'', ATTR_FAN_O), (''fan_close'', ATTR_FAN_C), (''hot_fan_open'', ATTR_HOT_O), (''hot_fan_close'', ATTR_HOT_C),
      (''P'', ATTR_P), (''V'', ATTR_V), (''led'', ATTR_LED), (''fan'', ATTR_FAN), (''reclose'', ATTR_RECLOSE),
      (''cbclose'', ATTR_CBCLOSE), (''set'', ATTR_SET),
      (''SPUV'', ATTR_REG REG1_SPUV 100), (''SPUVP'', ATTR_REG REG1_SPUVP 100),
      (''SPOV'', ATTR_REG REG1_SPOV 100), (''SPOVP'', ATTR_REG REG1_SPOVP 100),
      (''SPVC'', ATTR_REG REG1_SPVC 10), (''SPVCP'', ATTR_REG REG1_SPVCP 10),
      (''SPOT'', ATTR_REG REG1_SPOT 10), (''SPOTP'', ATTR_REG REG1_SPOTP 10),
      (''SLEAKAGE'', ATTR_REG REG1_SLEAKAGE 1), (''SLEAKAGEP'', ATTR_REG REG1_SLEAKAGEP 1),
      (''OP'', ATTR_REG REG1_OP 1), (''OPP'', ATTR_REG REG1_OPP 1),
      (''UVA'', ATTR_REG REG1_UVA 100), (''UVAP'', ATTR_REG REG1_UVAP 100),
      (''UVB'', ATTR_REG REG1_UVB 100), (''UVBP'', ATTR_REG REG1_UVBP 100),
      (''UVC'', ATTR_REG REG1_UVC 100), (''UVCP'', ATTR_REG REG1_UVCP 100),
      (''OVA'', ATTR_REG REG1_OVA 100), (''OVAP'', ATTR_REG REG1_OVAP 100),
      (''OVB'', ATTR_REG REG1_OVB 100), (''OVBP'', ATTR_REG REG1_OVBP 100),
      (''OVC'', ATTR_REG REG1_OVC 100), (''OVCP'', ATTR_REG REG1_OVCP 100),
      (''OCA'', ATTR_REG REG1_OCA 10), (''OCAP'', ATTR_REG REG1_OCAP 10),
      (''OCB'', ATTR_REG REG1_OCB 10), (''OCBP'', ATTR_REG REG1_OCBP 10),
      (''OCC'', ATTR_REG REG1_OCC 10), (''OCCP'', ATTR_REG REG1_OCCP 10),
      (''OTA'', ATTR_REG REG1_OTA 10), (''OTAP'', ATTR_REG REG1_OTAP 10),
      (''OTB'', ATTR_REG REG1_OTB 10), (''OTBP'', ATTR_REG REG1_OTBP 10),
      (''OTC'', ATTR_REG REG1_OTC 10), (''OTCP'', ATTR_REG REG1_OTCP 10),
      (''OTN'', ATTR_REG REG1_OTN 10), (''OTNP'', ATTR_REG REG1_OTNP 10)]"

section \<open>The header\<close>

record cmd_locals =
  l_jobj :: jobj
  l_ret :: int
  client_id_data :: "string option"
  id_data :: "string option"
  type_data :: "string option"
  p_data :: "int option"

definition parse_str :: "jobj \<Rightarrow> string \<Rightarrow> int \<Rightarrow> (int \<times> string) option" where
  "parse_str j key buf_len = do {
     (r, w) \<leftarrow> json_get_val_str j key buf_len;
     if r = SYS_OK then do {
       w \<leftarrow> w;
       (r, n) \<leftarrow> json_get_val_str_len j key;
       Some (SYS_OK, w) }
     else Some (SYS_FAIL, []) }"

text \<open>The name of the breaker with an address, and the index of the last breaker in the table that has the name.\<close>

definition breaker_name :: "u8 \<Rightarrow> string" where
  "breaker_name a = ''BRKRS_'' @ format_d (uint a)"

fun breaker_scan :: "string option \<Rightarrow> u8 list \<Rightarrow> u8 \<Rightarrow> u8 option \<Rightarrow> u8 option option" where
  "breaker_scan name [] j hit = Some hit"
| "breaker_scan name (a # as) j hit =
     (if a = 0xff then breaker_scan name as (j + 1) hit
      else do { w \<leftarrow> name; breaker_scan name as (j + 1) (if w = breaker_name a then Some j else hit) })"

definition find_breaker :: "string option \<Rightarrow> sys_type \<Rightarrow> u8 option option" where
  "find_breaker name d =
     (if length (cb_slave_addr d) < CIRCUIT_BREAKER_MAX_NUM then None
      else breaker_scan name (take CIRCUIT_BREAKER_MAX_NUM (cb_slave_addr d)) 0 None)"

text \<open>
  One turn of the loop over the header: the handler returns with the device data, or goes on. A
  client other than \<open>dev\<close>, the name of this device, ends it.
\<close>

definition head_case :: "string \<Rightarrow> string \<Rightarrow> head_field \<Rightarrow> cmd_locals \<Rightarrow> sys_type \<Rightarrow> (sys_type + cmd_locals \<times> sys_type) option" where
  "head_case dev key h l d =
     (case h of
        H_HEADER \<Rightarrow> do {
          (r, j) \<leftarrow> json_get_composite_object (l_jobj l) key;
          Some (Inr (l\<lparr>l_jobj := j, l_ret := r\<rparr>, d)) }
      | H_CLIENT \<Rightarrow> do {
          (r, str_var) \<leftarrow> parse_str (l_jobj l) key 1024;
          if r = SYS_OK then do {
            client \<leftarrow> strcpy 64 str_var;
            if client \<noteq> dev then do {
              (r, j) \<leftarrow> json_release_composite_object (l_jobj l);
              j \<leftarrow> json_parse_stop j;
              Some (Inl d) }
            else Some (Inr (l\<lparr>l_ret := r, client_id_data := Some client\<rparr>, d)) }
          else do {
            (_, j) \<leftarrow> json_release_composite_object (l_jobj l);
            Some (Inr (l\<lparr>l_jobj := j, l_ret := r\<rparr>, d)) }}
      | H_COMMAND \<Rightarrow> Some (Inr (l, d))
      | H_TIME \<Rightarrow> Some (Inr (l, d))
      | H_TYPE \<Rightarrow> do {
          (r, str_var) \<leftarrow> parse_str (l_jobj l) key 1024;
          if r = SYS_OK then do {
            t \<leftarrow> strcpy 32 str_var;
            Some (Inr (l\<lparr>l_ret := r, type_data := Some t\<rparr>, d)) }
          else Some (Inr (l\<lparr>l_ret := r\<rparr>, d)) }
      | H_ID \<Rightarrow> do {
          (r, str_var) \<leftarrow> parse_str (l_jobj l) key 1024;
          name \<leftarrow> (if r = SYS_OK then do { w \<leftarrow> strcpy 64 str_var; Some (Some w) } else Some (id_data l));
          hit \<leftarrow> find_breaker name d;
          Some (Inr (l\<lparr>l_ret := r, id_data := name\<rparr>,
            d\<lparr>cbclose_data_addr := (case hit of None \<Rightarrow> 0xff | Some j \<Rightarrow> j)\<rparr>)) }
      | H_VER \<Rightarrow> do {
          (_, j) \<leftarrow> json_release_composite_object (l_jobj l);
          Some (Inr (l\<lparr>l_jobj := j\<rparr>, d)) }
      | H_DATA \<Rightarrow> do {
          (r, j) \<leftarrow> json_get_composite_object (l_jobj l) key;
          Some (Inr (l\<lparr>l_jobj := j, l_ret := r\<rparr>, d)) })"

fun head_loop :: "string \<Rightarrow> (string \<times> head_field) list \<Rightarrow> cmd_locals \<Rightarrow> sys_type \<Rightarrow> (sys_type + cmd_locals \<times> sys_type) option" where
  "head_loop dev [] l d = Some (Inr (l, d))"
| "head_loop dev ((key, h) # hs) l d = do {
     r \<leftarrow> head_case dev key h l d;
     case r of
       Inl d \<Rightarrow> Some (Inl d)
     | Inr (l, d) \<Rightarrow>
         if l_ret l \<noteq> SYS_OK then do { j \<leftarrow> json_parse_stop (l_jobj l); Some (Inl d) }
         else head_loop dev hs l d }"

section \<open>The attributes\<close>

definition on_off :: "string \<Rightarrow> 'a \<Rightarrow> 'a \<Rightarrow> 'a \<Rightarrow> 'a" where
  "on_off w on off other = (if w = ''ON'' then on else if w = ''OFF'' then off else other)"

text \<open>\<open>V\<close>: the relay \<open>p_data\<close> of every power board with the name; \<open>p_data\<close> is counted down for each.\<close>

fun relay_boards :: "string option \<Rightarrow> string \<Rightarrow> sys_slave_type list \<Rightarrow> nat \<Rightarrow> int option \<times> u8 \<times> sys_type \<Rightarrow> (int option \<times> u8 \<times> sys_type) option" where
  "relay_boards name w [] j (p, set_ok, d) = Some (p, set_ok, d)"
| "relay_boards name w (b # bs) j (p, set_ok, d) = do {
     hit \<leftarrow> (if device_type b = POWER_MONITOR_BOARD
            then do { i \<leftarrow> name; n \<leftarrow> c_string (device_name b); Some (i = n) } else Some False);
     if hit then do {
       k \<leftarrow> p;
       if 1 \<le> k \<and> k \<le> 10 then do {
         let old = power_monitoring_relay_data d ! j;
         let new = on_off w (set_bit (nat (k - 1)) old) (unset_bit (nat (k - 1)) old) old;
         relays \<leftarrow> arr_put (power_monitoring_relay_data d) j new;
         relay_boards name w bs (Suc j) (Some (k - 1), 1, d\<lparr>power_monitoring_relay_data := relays\<rparr>) }
       else relay_boards name w bs (Suc j) (p, set_ok, d) }
     else relay_boards name w bs (Suc j) (p, set_ok, d) }"

text \<open>Whether the first slave is a power board with the name.\<close>

definition first_board :: "string option \<Rightarrow> sys_type \<Rightarrow> bool option" where
  "first_board name d =
     (case own_slave_device d of
        [] \<Rightarrow> None
      | b # bs \<Rightarrow> if device_type b = POWER_MONITOR_BOARD
          then do { i \<leftarrow> name; n \<leftarrow> c_string (device_name b); Some (i = n) } else Some False)"

text \<open>The settings of the breaker at \<open>cbclose_data_addr\<close>.\<close>

definition set_register :: "hold_reg \<Rightarrow> u16 \<Rightarrow> cb_state \<Rightarrow> cb_state option" where
  "set_register r v s =
     (let a = cbclose_data_addr (device_data s) in
      if a = 0xff then Some s
      else if unat a < length (reg_hold s) then Some (s\<lparr>reg_hold := (reg_hold s)[unat a := (reg_hold s ! unat a)(r := v)]\<rparr>)
      else None)"

text \<open>
  The loop over the breakers for \<open>cbclose\<close> stores the same values for every hit but the index, so
  the last one counts. \<open>af\<close> is \<^verbatim>\<open>atof\<close> followed by the conversion to \<^verbatim>\<open>float\<close>, as bits.
  The product of a number and the factor of its register is computed without bounds and cut to the
  16 bits stored; the code multiplies in \<^verbatim>\<open>int\<close>, where a product that does not fit is undefined.
\<close>

definition attr_case :: "(string \<Rightarrow> u32) \<Rightarrow> attr_index \<Rightarrow> string \<Rightarrow> cmd_locals \<times> u8 \<times> cb_state \<Rightarrow> (cmd_locals \<times> u8 \<times> cb_state) option" where
  "attr_case af a w = (\<lambda>(l, set_ok, s). let d = device_data s in
     case a of
       ATTR_FAN_O \<Rightarrow> Some (l, 1, s\<lparr>device_data := d\<lparr>fan_open_temp := af w, fan_temp_flag := fan_temp_flag d OR 0x01\<rparr>\<rparr>)
     | ATTR_FAN_C \<Rightarrow> Some (l, 1, s\<lparr>device_data := d\<lparr>fan_close_temp := af w, fan_temp_flag := fan_temp_flag d OR 0x02\<rparr>\<rparr>)
     | ATTR_HOT_O \<Rightarrow> Some (l, 1, s\<lparr>device_data := d\<lparr>hot_fan_open_humi := of_int (atoi w), hot_humi_flag := hot_humi_flag d OR 0x01\<rparr>\<rparr>)
     | ATTR_HOT_C \<Rightarrow> Some (l, 1, s\<lparr>device_data := d\<lparr>hot_fan_close_humi := of_int (atoi w), hot_humi_flag := hot_humi_flag d OR 0x01\<rparr>\<rparr>)
     | ATTR_P \<Rightarrow> Some (l\<lparr>p_data := Some (atoi w)\<rparr>, set_ok, s)
     | ATTR_V \<Rightarrow>
         if length (own_slave_device d) < unat (slave_device_max d) then None
         else do {
           (p, set_ok, d) \<leftarrow> relay_boards (id_data l) w (take (unat (slave_device_max d)) (own_slave_device d)) 0 (p_data l, set_ok, d);
           Some (l\<lparr>p_data := p\<rparr>, set_ok, s\<lparr>device_data := d\<rparr>) }
     | ATTR_LED \<Rightarrow> do {
         hit \<leftarrow> first_board (id_data l) d;
         Some (if hit then (l, 1, s\<lparr>device_data :=
             on_off w (d\<lparr>led_flag := 1, led_data_flag := 1\<rparr>)
               (if lock_in_error_flag d = 0 then d\<lparr>led_flag := 1, led_data_flag := 0\<rparr> else d) d\<rparr>)
           else (l, set_ok, s)) }
     | ATTR_FAN \<Rightarrow> do {
         hit \<leftarrow> first_board (id_data l) d;
         if hit then do {
           let old = power_monitoring_relay_data d ! 0;
           relays \<leftarrow> arr_put (power_monitoring_relay_data d) 0 (on_off w (old OR FAN_RELAY) (old AND NOT FAN_RELAY) old);
           Some (l, 1, s\<lparr>device_data := d\<lparr>power_monitoring_relay_data := relays\<rparr>\<rparr>) }
         else Some (l, set_ok, s) }
     | ATTR_RECLOSE \<Rightarrow>
         if autoeclosing_enable_flag d = 1 then do {
           t \<leftarrow> type_data l;
           Some (if t = ''KA22016AS''
             then (l, 1, s\<lparr>device_data := d\<lparr>reclose_flag := 1, reclose_data_flag := on_off w 1 2 (reclose_data_flag d)\<rparr>\<rparr>)
             else (l, set_ok, s)) }
         else Some (l, set_ok, s)
     | ATTR_CBCLOSE \<Rightarrow>
         if circuit_breaker_enable_flag d = 1 then do {
           hit \<leftarrow> find_breaker (id_data l) d;
           Some (case hit of
               None \<Rightarrow> (l, set_ok, s)
             | Some j \<Rightarrow> (l, 1, s\<lparr>device_data := d\<lparr>cbclose_flag := 1, cbclose_data_addr := j,
                   cbclose_data_flag := on_off w 1 2 (cbclose_data_flag d)\<rparr>\<rparr>)) }
         else Some (l, set_ok, s)
     | ATTR_SET \<Rightarrow> Some (l, 0, s\<lparr>device_data := d\<lparr>set_flag := 1\<rparr>\<rparr>)
     | ATTR_REG r k \<Rightarrow> do {
         let p = atoi w;
         s \<leftarrow> set_register r (of_int (p * k)) s;
         Some (if (r = REG1_SLEAKAGE \<or> r = REG1_SLEAKAGEP) \<and> circuit_breaker_enable_flag d = 1
           then (l\<lparr>p_data := Some p\<rparr>, 1, s\<lparr>device_data := d\<lparr>cb_hold_flag := 1\<rparr>\<rparr>)
           else (l\<lparr>p_data := Some p\<rparr>, set_ok, s)) })"

fun attr_loop :: "(string \<Rightarrow> u32) \<Rightarrow> (string \<times> attr_index) list \<Rightarrow> cmd_locals \<times> u8 \<times> cb_state \<Rightarrow> (cmd_locals \<times> u8 \<times> cb_state) option" where
  "attr_loop af [] x = Some x"
| "attr_loop af ((key, a) # as) (l, set_ok, s) = do {
     (r, str_var) \<leftarrow> parse_str (l_jobj l) key 1024;
     x \<leftarrow> (if r = SYS_OK then attr_case af a str_var (l, set_ok, s) else Some (l, set_ok, s));
     attr_loop af as x }"

section \<open>The handler\<close>

definition mqtt_subscribe_command ::
    "(string \<Rightarrow> u32) \<Rightarrow> (nat \<Rightarrow> bool) \<Rightarrow> string \<Rightarrow> string \<Rightarrow> nat \<Rightarrow> u8 \<times> cb_state \<Rightarrow> (u8 \<times> cb_state) option" where
  "mqtt_subscribe_command af avail dev js len = (\<lambda>(set_ok, s). do {
     (r, j) \<leftarrow> json_parse_start avail js len;
     if r \<noteq> SYS_OK then do { j \<leftarrow> json_parse_stop j; Some (set_ok, s) }
     else do {
       r \<leftarrow> head_loop dev device_post_attr_head
         \<lparr>l_jobj = j, l_ret = r, client_id_data = None, id_data = None, type_data = None, p_data = None\<rparr> (device_data s);
       case r of
         Inl d \<Rightarrow> Some (set_ok, s\<lparr>device_data := d\<rparr>)
       | Inr (l, d) \<Rightarrow> do {
           (l, set_ok, s) \<leftarrow> attr_loop af device_post_attr (l, 2, s\<lparr>device_data := d\<rparr>);
           (_, j) \<leftarrow> json_release_composite_object (l_jobj l);
           j \<leftarrow> json_parse_stop j;
           Some (set_ok, s) }}})"

end
