(* ===== verification/Command_Properties.thy ===== *)
theory Command_Properties
  imports Mqtt_Command Json_Properties Cb_Properties
begin

text \<open>
  What a command from the cloud does: commands for other devices are dropped, settings and relay
  commands take effect, and the command that switches a breaker reaches the wrong one.
\<close>

section \<open>Reading strings of a command\<close>

definition text_string :: "json \<Rightarrow> string \<Rightarrow> string option" where
  "text_string v key = (case find_member v key of Inr (JStr s) \<Rightarrow> if length s < 1024 then Some s else None | _ \<Rightarrow> None)"

lemma with_token_total: "denotes j v \<Longrightarrow> found j res spec \<Longrightarrow> \<exists>x. with_token j res (\<lambda>t. Some (f t)) = Some x"
proof (cases spec)
  case (Inr u)
  assume "denotes j v" and "found j res spec"
  then obtain k where k: "res = Some (SYS_OK, Some k)" "denotes (j\<lparr>j_cur := Some k\<rparr>) u" using Inr by (auto simp: found_def)
  then obtain ts par off where "live_tokens j = Some ts" "tokens_at ts k (toks u off par k)"
    unfolding denotes_def reads_at_def live_tokens_def by auto
  then show ?thesis using k(1) tokens_at_first by (auto simp: with_token_def)
qed (auto simp: found_def with_token_def)

lemma parse_str_text:
  assumes "denotes j v"
  shows "parse_str j key 1024 = Some (case text_string v key of Some s \<Rightarrow> (SYS_OK, s) | None \<Rightarrow> (SYS_FAIL, []))"
proof -
  note f = get_value_found [OF assms, of key]
  have err: "e \<noteq> SYS_OK" if "find_member v key = Inl e" for e using f that by (simp add: found_def)
  obtain x where "json_get_val_str_len j key = Some x"
    using with_token_total [OF assms f] unfolding json_get_val_str_len_def by blast
  then show ?thesis
    using leaf_found(1) [OF assms f, of 1024] err
    by (cases x) (auto simp: parse_str_def json_get_val_str_def leaf_def string_value_def text_string_def json_errno_defs sys_errno_defs
        split: sum.splits json.splits)
qed

text \<open>Entering and leaving an object of the document.\<close>

lemma enter_text:
  assumes "denotes j v" and "find_member v key = Inr u" and "is_object u"
  obtains j' where "json_get_composite_object j key = Some (SYS_OK, j')" and "denotes j' u"
  using go_step_walk [OF assms(1), of "Into_object key"] assms(2,3) by (auto simp: of_type_def)

lemma denotes_stop: "denotes j v \<Longrightarrow> json_parse_stop j \<noteq> None"
  by (auto simp: denotes_def json_parse_stop_def)


lemma reach_leave:
  assumes "json_reach avail js len j" and "len \<le> length js" and "len \<le> 32767"
  shows "\<exists>r j'. json_release_composite_object j = Some (r, j') \<and> json_parse_stop j' \<noteq> None"
  using release_document [OF reach_document [OF assms]]
  by (fastforce simp: document_def json_parse_stop_def elim!: returnsE)

lemma enter_reach:
  assumes "json_reach avail js len j" and "len \<le> length js" and "len \<le> 32767" and "denotes j v"
    and "find_member v key = Inr u" and "is_object u"
  obtains j' where "json_get_composite_object j key = Some (SYS_OK, j')" and "denotes j' u" and "json_reach avail js len j'"
    and "json_release_composite_object j' = Some (SYS_OK, j)"
proof -
  obtain j' where j: "json_get_composite_object j key = Some (SYS_OK, j')" "denotes j' u"
    by (rule enter_text [OF assms(4-6)])
  moreover have "json_reach avail js len j'" by (rule json_reach.member_object [OF assms(1) j(1)])
  moreover have "json_release_composite_object j' = Some (SYS_OK, j)"
    using returnsD [OF enter_operations(1) [OF reach_document [OF assms(1-3)]] j(1)] by simp
  ultimately show thesis by (rule that)
qed

section \<open>The header\<close>

lemma breaker_scan_total: "\<exists>h. breaker_scan (Some i) as j hit = Some h"
  by (induction as arbitrary: j hit) auto

lemma find_breaker_total: "wf_device d \<Longrightarrow> \<exists>h. find_breaker (Some i) d = Some h"
  using breaker_scan_total by (simp add: find_breaker_def wf_device_def)

text \<open>The parts of a command for the device \<open>dev\<close> that the handler needs.\<close>

definition command_header :: "json \<Rightarrow> string \<Rightarrow> string \<Rightarrow> string \<Rightarrow> json \<Rightarrow> bool" where
  "command_header v dev t i D \<longleftrightarrow>
     (\<exists>H. find_member v ''header'' = Inr H \<and> is_object H \<and> text_string H ''client'' = Some dev \<and>
        text_string H ''type'' = Some t \<and> text_string H ''id'' = Some i) \<and>
     length dev < 64 \<and> length t < 32 \<and> length i < 64 \<and> find_member v ''data'' = Inr D \<and> is_object D"

lemma head_for_us:
  assumes "command_header v dev t i D" and "denotes (l_jobj l) v" and "json_reach avail js len (l_jobj l)" and "len \<le> length js"
    and "len \<le> 32767" and "find_breaker (Some i) d = Some hit"
  shows "\<exists>l'. head_loop dev device_post_attr_head l d =
      Some (Inr (l', d\<lparr>cbclose_data_addr := (case hit of None \<Rightarrow> 0xff | Some j \<Rightarrow> j)\<rparr>)) \<and>
    denotes (l_jobj l') D \<and> json_reach avail js len (l_jobj l') \<and> id_data l' = Some i \<and> type_data l' = Some t \<and> p_data l' = p_data l"
proof -
  obtain H where H: "find_member v ''header'' = Inr H" "is_object H" "text_string H ''client'' = Some dev"
      "text_string H ''type'' = Some t" "text_string H ''id'' = Some i"
    and D: "length dev < 64" "length t < 32" "length i < 64" "find_member v ''data'' = Inr D" "is_object D"
    using assms(1) unfolding command_header_def by blast
  obtain j where j: "json_get_composite_object (l_jobj l) ''header'' = Some (SYS_OK, j)" "denotes j H"
      "json_release_composite_object j = Some (SYS_OK, l_jobj l)"
    by (rule enter_reach [OF assms(3-5,2) H(1,2)])
  obtain k where k: "json_get_composite_object (l_jobj l) ''data'' = Some (SYS_OK, k)" "denotes k D" "json_reach avail js len k"
    by (rule enter_reach [OF assms(3-5,2) D(4,5)])
  note p = parse_str_text [OF j(2), of "''client''"] parse_str_text [OF j(2), of "''type''"] parse_str_text [OF j(2), of "''id''"]
  show ?thesis
    using j k p H(3-5) D(1-3) assms(6)
    by (simp add: device_post_attr_head_def head_case_def strcpy_def)
qed

text \<open>The name of the client is copied into 64 bytes before it is compared.\<close>

lemma head_for_others:
  assumes "find_member v ''header'' = Inr H" and "is_object H" and "text_string H ''client'' = Some c" and "c \<noteq> dev"
    and "denotes (l_jobj l) v" and "json_reach avail js len (l_jobj l)" and "len \<le> length js" and "len \<le> 32767"
  shows "head_loop dev device_post_attr_head l d = (if length c < 64 then Some (Inl d) else None)"
proof -
  obtain j where j: "json_get_composite_object (l_jobj l) ''header'' = Some (SYS_OK, j)" "denotes j H" "json_reach avail js len j"
    by (rule enter_reach [OF assms(6-8,5,1,2)])
  obtain r j' where "json_release_composite_object j = Some (r, j')" "json_parse_stop j' \<noteq> None"
    using reach_leave [OF j(3) assms(7,8)] by blast
  then show ?thesis
    using j parse_str_text [OF j(2), of "''client''"] assms(3,4)
    by (auto simp: device_post_attr_head_def head_case_def strcpy_def)
qed

section \<open>The attributes\<close>

text \<open>What the handler needs of the device data, and what stays as it is while it runs.\<close>

definition cmd_ready :: "cb_state \<Rightarrow> bool" where
  "cmd_ready s \<longleftrightarrow> wf_cb s \<and> unat (slave_device_max (device_data s)) \<le> SLAVE_MAX_NUM \<and>
     (\<forall>b \<in> set (own_slave_device (device_data s)). c_string (device_name b) \<noteq> None)"

definition same_tables :: "sys_type \<Rightarrow> sys_type \<Rightarrow> bool" where
  "same_tables d d' \<longleftrightarrow> cb_slave_addr d' = cb_slave_addr d \<and> own_slave_device d' = own_slave_device d \<and>
     slave_device_max d' = slave_device_max d \<and> length (power_monitoring_relay_data d') = length (power_monitoring_relay_data d) \<and>
     circuit_breaker_enable_flag d' = circuit_breaker_enable_flag d"

definition breaker_addr :: "u8 option \<Rightarrow> u8" where
  "breaker_addr hit = (case hit of None \<Rightarrow> 0xff | Some j \<Rightarrow> j)"

definition cmd_inv :: "string \<Rightarrow> string \<Rightarrow> u8 option \<Rightarrow> json \<Rightarrow> cmd_locals \<times> u8 \<times> cb_state \<Rightarrow> bool" where
  "cmd_inv i t hit D = (\<lambda>(l, set_ok, s). denotes (l_jobj l) D \<and> id_data l = Some i \<and> type_data l = Some t \<and> cmd_ready s \<and>
     find_breaker (Some i) (device_data s) = Some hit \<and> cbclose_data_addr (device_data s) = breaker_addr hit)"

text \<open>The settings of the breaker that was hit, after one attribute and after a list of them.\<close>

definition upd_at :: "u8 option \<Rightarrow> ('a \<Rightarrow> 'a) \<Rightarrow> 'a list \<Rightarrow> 'a list" where
  "upd_at hit f xs = (case hit of None \<Rightarrow> xs | Some k \<Rightarrow> xs[unat k := f (xs ! unat k)])"

lemma upd_at_simps [simp]: "upd_at None f xs = xs" "upd_at hit (\<lambda>x. x) xs = xs" "length (upd_at hit f xs) = length xs"
  by (auto simp: upd_at_def split: option.splits)

lemma upd_at_comp: "\<forall>k. hit = Some k \<longrightarrow> unat k < length xs \<Longrightarrow> upd_at hit g (upd_at hit f xs) = upd_at hit (\<lambda>x. g (f x)) xs"
  by (cases hit) (simp_all add: upd_at_def)

definition reg_change :: "attr_index \<Rightarrow> string \<Rightarrow> cb_reg_holding \<Rightarrow> cb_reg_holding" where
  "reg_change a w = (case a of ATTR_REG r m \<Rightarrow> (\<lambda>h. h(r := of_int (atoi w * m))) | _ \<Rightarrow> (\<lambda>h. h))"

fun settings :: "json \<Rightarrow> (string \<times> attr_index) list \<Rightarrow> cb_reg_holding \<Rightarrow> cb_reg_holding" where
  "settings D [] h = h"
| "settings D ((key, a) # as) h = settings D as (case text_string D key of Some w \<Rightarrow> reg_change a w h | None \<Rightarrow> h)"

lemma breaker_scan_range:
  "breaker_scan (Some i) as j hit = Some (Some k) \<Longrightarrow> unat j + length as \<le> 255 \<Longrightarrow> hit = Some k \<or> unat k < unat j + length as"
proof (induction as arbitrary: j hit)
  case (Cons a as)
  have j: "unat (j + 1) = Suc (unat j)" using Cons.prems(2) by (simp add: unat_word_ariths)
  show ?case
    using Cons.prems Cons.IH [of "j + 1" "Some j"] Cons.IH [of "j + 1" hit] j by (auto split: if_splits)
qed simp

lemma find_breaker_range: "find_breaker (Some i) d = Some (Some k) \<Longrightarrow> unat k < 32"
  using breaker_scan_range [of i "take 32 (cb_slave_addr d)" 0 None k]
  by (auto simp: find_breaker_def CIRCUIT_BREAKER_MAX_NUM_def split: if_splits)


lemma relay_boards_total:
  "\<forall>b \<in> set bs. c_string (device_name b) \<noteq> None \<Longrightarrow> p \<noteq> None \<Longrightarrow> j + length bs \<le> length (power_monitoring_relay_data d) \<Longrightarrow>
   \<exists>p' so' rl. relay_boards (Some i) w bs j (p, so, d) = Some (p', so', d\<lparr>power_monitoring_relay_data := rl\<rparr>) \<and> p' \<noteq> None \<and>
     length rl = length (power_monitoring_relay_data d)"
proof (induction bs arbitrary: j p so d)
  case Nil
  then show ?case by (intro exI [of _ p] exI [of _ so] exI [of _ "power_monitoring_relay_data d"]) simp
next
  case (Cons b bs)
  obtain n k where n: "c_string (device_name b) = Some n" "p = Some k" using Cons.prems(1,2) by auto
  show ?case
  proof (cases "device_type b = POWER_MONITOR_BOARD \<and> i = n \<and> 1 \<le> k \<and> k \<le> 10")
    case False
    then show ?thesis using Cons.IH [of p "Suc j" d so] Cons.prems n by auto
  next
    case True
    let ?old = "power_monitoring_relay_data d ! j"
    let ?rl = "(power_monitoring_relay_data d)[j := on_off w (set_bit (nat (k - 1)) ?old) (unset_bit (nat (k - 1)) ?old) ?old]"
    show ?thesis
      using True Cons.IH [of "Some (k - 1)" "Suc j" "d\<lparr>power_monitoring_relay_data := ?rl\<rparr>" 1] Cons.prems n
      by (auto simp: arr_put_def)
  qed
qed

definition attr_effect :: "attr_index \<Rightarrow> string \<Rightarrow> u8 option \<Rightarrow> cmd_locals \<times> u8 \<times> cb_state \<Rightarrow> cmd_locals \<times> u8 \<times> cb_state \<Rightarrow> bool" where
  "attr_effect a w hit = (\<lambda>(l, so, s) (l', so', s').
     same_tables (device_data s) (device_data s') \<and> l_jobj l' = l_jobj l \<and>
     p_data l' = (case a of ATTR_P \<Rightarrow> Some (atoi w) | ATTR_REG r m \<Rightarrow> Some (atoi w) | ATTR_V \<Rightarrow> p_data l' | _ \<Rightarrow> p_data l) \<and>
     reg_hold s' = upd_at hit (reg_change a w) (reg_hold s) \<and>
     (a \<noteq> ATTR_RECLOSE \<longrightarrow> reclose_data_flag (device_data s') = reclose_data_flag (device_data s)) \<and>
     (a \<noteq> ATTR_V \<and> a \<noteq> ATTR_FAN \<longrightarrow> power_monitoring_relay_data (device_data s') = power_monitoring_relay_data (device_data s)) \<and>
     cbclose_flag (device_data s') =
       (if a = ATTR_CBCLOSE \<and> circuit_breaker_enable_flag (device_data s) = 1 \<and> hit \<noteq> None then 1 else cbclose_flag (device_data s)) \<and>
     s' = s\<lparr>device_data := device_data s', reg_hold := reg_hold s'\<rparr>)"

lemma breaker_addr_simps [simp]: "breaker_addr None = 0xff" "breaker_addr (Some k) = k"
  by (simp_all add: breaker_addr_def)

lemma set_register_at:
  "wf_cb s \<Longrightarrow> cbclose_data_addr (device_data s) = breaker_addr hit \<Longrightarrow> \<forall>k. hit = Some k \<longrightarrow> unat k < 32 \<Longrightarrow>
   set_register r v s = Some (s\<lparr>reg_hold := upd_at hit (\<lambda>h. h(r := v)) (reg_hold s)\<rparr>)"
  by (cases hit) (auto simp: upd_at_def set_register_def wf_cb_def CIRCUIT_BREAKER_MAX_NUM_def)

lemma attr_step:
  assumes "cmd_inv i t hit D (l, so, s)" and "a = ATTR_V \<longrightarrow> p_data l \<noteq> None"
  shows "\<exists>x. attr_case af a w (l, so, s) = Some x \<and> cmd_inv i t hit D x \<and> attr_effect a w hit (l, so, s) x \<and> (a = ATTR_V \<longrightarrow> p_data (fst x) \<noteq> None)"
proof -
  let ?d = "device_data s"
  have inv: "denotes (l_jobj l) D" "id_data l = Some i" "type_data l = Some t" "wf_cb s" "wf_device ?d" "unat (slave_device_max ?d) \<le> 16"
      "\<forall>b \<in> set (own_slave_device ?d). c_string (device_name b) \<noteq> None" "find_breaker (Some i) ?d = Some hit" "cbclose_data_addr ?d = breaker_addr hit"
    using assms(1) by (simp_all add: cmd_inv_def cmd_ready_def SLAVE_MAX_NUM_def wf_cb_def)
  have k: "\<forall>k. hit = Some k \<longrightarrow> unat k < 32" using find_breaker_range inv(8) by blast
  have len: "length (own_slave_device ?d) = 16" "length (power_monitoring_relay_data ?d) = 16" using inv(5) by (simp_all add: wf_device_def SLAVE_MAX_NUM_def)
  note defs = attr_case_def cmd_inv_def cmd_ready_def attr_effect_def same_tables_def wf_cb_def wf_device_def SLAVE_MAX_NUM_def find_breaker_def reg_change_def Let_def
  obtain b bs n where b: "own_slave_device ?d = b # bs" "c_string (device_name b) = Some n"
    using len(1) inv(7) by (cases "own_slave_device ?d") auto
  show ?thesis
  proof (cases a)
    case ATTR_V
    let ?bs = "take (unat (slave_device_max ?d)) (own_slave_device ?d)"
    have "\<forall>b \<in> set ?bs. c_string (device_name b) \<noteq> None" using inv(7) by (meson in_set_takeD)
    moreover have "0 + length ?bs \<le> length (power_monitoring_relay_data ?d)" using len inv(6) by simp
    ultimately obtain p' so' rl where "relay_boards (Some i) w ?bs 0 (p_data l, so, ?d) = Some (p', so', ?d\<lparr>power_monitoring_relay_data := rl\<rparr>)"
        "p' \<noteq> None" "length rl = length (power_monitoring_relay_data ?d)"
      using relay_boards_total [of ?bs "p_data l" 0 ?d i w so] assms(2) ATTR_V by blast
    then show ?thesis
      using inv ATTR_V len by (simp add: defs)
  next
    case (ATTR_REG r m)
    then show ?thesis
      using inv set_register_at [OF inv(4,9) k] by (simp add: defs)
  next
    case ATTR_CBCLOSE
    then show ?thesis using inv by (cases hit) (auto simp: defs)
  next
    case ATTR_LED
    then show ?thesis using inv b by (auto simp: defs first_board_def on_off_def)
  next
    case ATTR_FAN
    then show ?thesis using inv b len by (auto simp: defs first_board_def arr_put_def)
  next
    case ATTR_RECLOSE
    then show ?thesis using inv by (auto simp: defs)
  qed (use inv in \<open>simp_all add: defs\<close>)
qed


lemma entry_step:
  assumes "cmd_inv i t hit D x" and "a = ATTR_V \<longrightarrow> text_string D key = None \<or> p_data (fst x) \<noteq> None"
  shows "\<exists>y. attr_loop af ((key, a) # as) x = attr_loop af as y \<and> cmd_inv i t hit D y \<and>
    (case text_string D key of None \<Rightarrow> y = x | Some w \<Rightarrow> attr_effect a w hit x y)"
proof -
  obtain l so s where x: "x = (l, so, s)" by (cases x)
  have d: "denotes (l_jobj l) D" using assms(1) x by (simp add: cmd_inv_def)
  show ?thesis
  proof (cases "text_string D key")
    case None
    then show ?thesis using parse_str_text [OF d, of key] assms(1) x by auto
  next
    case (Some w)
    then obtain y where "attr_case af a w (l, so, s) = Some y" "cmd_inv i t hit D y" "attr_effect a w hit (l, so, s) y"
      using attr_step [of i t hit D l so s a af w] assms x by auto
    then show ?thesis using parse_str_text [OF d, of key] Some x by (cases y) auto
  qed
qed

text \<open>What a list of attributes does, if the relay attribute is not among them.\<close>

definition loop_effect :: "json \<Rightarrow> (string \<times> attr_index) list \<Rightarrow> u8 option \<Rightarrow> cmd_locals \<times> u8 \<times> cb_state \<Rightarrow> cmd_locals \<times> u8 \<times> cb_state \<Rightarrow> bool" where
  "loop_effect D as hit = (\<lambda>(l, so, s) (l', so', s').
     let given = (\<lambda>a. \<exists>(key, b) \<in> set as. b = a \<and> text_string D key \<noteq> None) in
     same_tables (device_data s) (device_data s') \<and> l_jobj l' = l_jobj l \<and>
     reg_hold s' = upd_at hit (settings D as) (reg_hold s) \<and>
     (\<not> given ATTR_RECLOSE \<longrightarrow> reclose_data_flag (device_data s') = reclose_data_flag (device_data s)) \<and>
     (\<not> given ATTR_FAN \<longrightarrow> power_monitoring_relay_data (device_data s') = power_monitoring_relay_data (device_data s)) \<and>
     cbclose_flag (device_data s') =
       (if given ATTR_CBCLOSE \<and> circuit_breaker_enable_flag (device_data s) = 1 \<and> hit \<noteq> None then 1 else cbclose_flag (device_data s)) \<and>
     (p_data l \<noteq> None \<longrightarrow> p_data l' \<noteq> None) \<and>
     s' = s\<lparr>device_data := device_data s', reg_hold := reg_hold s'\<rparr>)"

lemma same_tables_refl [simp]: "same_tables d d"
  by (simp add: same_tables_def)

lemma same_tables_trans: "same_tables d e \<Longrightarrow> same_tables e f \<Longrightarrow> same_tables d f"
  by (simp add: same_tables_def)

lemma cmd_inv_regs: "cmd_inv i t hit D (l, so, s) \<Longrightarrow> hit = Some k \<Longrightarrow> unat k < length (reg_hold s)"
  using find_breaker_range by (auto simp: cmd_inv_def cmd_ready_def wf_cb_def CIRCUIT_BREAKER_MAX_NUM_def)

lemma loop_effect_Cons:
  assumes "case text_string D key of None \<Rightarrow> y = x | Some w \<Rightarrow> attr_effect a w hit x y" and "a \<noteq> ATTR_V \<or> text_string D key = None"
    and "loop_effect D as hit y z" and "cmd_inv i t hit D x"
  shows "loop_effect D ((key, a) # as) hit x z"
proof -
  obtain l so s l' so' s' l'' so'' s'' where x: "x = (l, so, s)" "y = (l', so', s')" "z = (l'', so'', s'')" by (metis prod_cases3)
  have k: "\<forall>k. hit = Some k \<longrightarrow> unat k < length (reg_hold s)" using cmd_inv_regs assms(4) x(1) by blast
  show ?thesis
  proof (cases "text_string D key")
    case None
    then have "settings D ((key, a) # as) = settings D as" by (intro ext) simp
    then show ?thesis using None assms x by (auto simp: loop_effect_def Let_def)
  next
    case (Some w)
    then have e: "attr_effect a w hit (l, so, s) (l', so', s')" using assms(1) x by simp
    have "settings D ((key, a) # as) = (\<lambda>h. settings D as (reg_change a w h))" using Some by (intro ext) simp
    then have regs: "reg_hold s'' = upd_at hit (settings D ((key, a) # as)) (reg_hold s)"
      using e assms(3) x upd_at_comp [OF k, of "settings D as" "reg_change a w"] Some
      by (simp add: attr_effect_def loop_effect_def Let_def)
    have p: "p_data l \<noteq> None \<longrightarrow> p_data l'' \<noteq> None"
      using e assms(2,3) x Some by (cases a) (auto simp: attr_effect_def loop_effect_def Let_def)
    have s: "s'' = s\<lparr>device_data := device_data s'', reg_hold := reg_hold s''\<rparr>"
    proof -
      have "s' = s\<lparr>device_data := device_data s', reg_hold := reg_hold s'\<rparr>"
        using e unfolding attr_effect_def prod.case by (elim conjE)
      moreover have "s'' = s'\<lparr>device_data := device_data s'', reg_hold := reg_hold s''\<rparr>"
        using assms(3) unfolding x loop_effect_def Let_def prod.case by (elim conjE)
      ultimately show ?thesis by (metis cb_state.surjective cb_state.update_convs(6,8))
    qed
    have "same_tables (device_data s) (device_data s'')"
      using e assms(3) x same_tables_trans by (auto simp: attr_effect_def loop_effect_def Let_def)
    moreover have "circuit_breaker_enable_flag (device_data s') = circuit_breaker_enable_flag (device_data s)"
      using e by (simp add: attr_effect_def same_tables_def)
    ultimately show ?thesis
      using e assms(2,3) x regs p s Some by (auto simp: attr_effect_def loop_effect_def Let_def)
  qed
qed

lemma loop_steps:
  "cmd_inv i t hit D x \<Longrightarrow> \<forall>key. (key, ATTR_V) \<in> set as \<longrightarrow> text_string D key = None \<Longrightarrow>
   \<exists>y. attr_loop af as x = Some y \<and> cmd_inv i t hit D y \<and> loop_effect D as hit x y"
proof (induction as arbitrary: x)
  case Nil
  then show ?case by (cases x) (auto simp: loop_effect_def Let_def upd_at_def split: option.splits)
next
  case (Cons e as)
  obtain key a where e: "e = (key, a)" by (cases e)
  then have v: "a \<noteq> ATTR_V \<or> text_string D key = None" using Cons.prems(2) by auto
  obtain y where y: "attr_loop af ((key, a) # as) x = attr_loop af as y" "cmd_inv i t hit D y"
      "case text_string D key of None \<Rightarrow> y = x | Some w \<Rightarrow> attr_effect a w hit x y"
    using entry_step [OF Cons.prems(1), of a key] v by blast
  obtain z where z: "attr_loop af as y = Some z" "cmd_inv i t hit D z" "loop_effect D as hit y z"
    using Cons.IH [OF y(2)] Cons.prems(2) by auto
  then show ?case using y(1) loop_effect_Cons [OF y(3) v z(3) Cons.prems(1)] e by auto
qed


section \<open>The whole handler\<close>

text \<open>Text and memory that the handler gets: a command of the grammar, and room for its tokens.\<close>

definition command_text :: "json \<Rightarrow> string \<Rightarrow> nat \<Rightarrow> (nat \<Rightarrow> bool) \<Rightarrow> bool" where
  "command_text v js len avail \<longleftrightarrow>
     (\<exists>w w' rest. json_ok v \<and> compound v \<and> ws w \<and> ws w' \<and> js = (w @ render v @ w') @ rest \<and> len = length (w @ render v @ w') \<and>
        len \<le> 32767 \<and> avail (10 * ntoks v))"

lemma command_start:
  assumes "command_text v js len avail"
  obtains j where "json_parse_start avail js len = Some (SYS_OK, j)" and "denotes j v" and "json_reach avail js len j"
    and "len \<le> length js" and "len \<le> 32767"
proof -
  obtain w w' rest where t: "json_ok v" "compound v" "ws w" "ws w'" "js = (w @ render v @ w') @ rest" "len = length (w @ render v @ w')"
      "len \<le> 32767" "avail (10 * ntoks v)"
    using assms unfolding command_text_def by blast
  obtain j where "json_parse_start avail js len = Some (SYS_OK, j)" "denotes j v"
    using start_denotes [of v w w' len avail rest] t by blast
  then show thesis using t(5-7) by (intro that [of j]) (auto intro: json_reach.started)
qed

lemma command_runs:
  assumes "command_text v js len avail" and "command_header v dev t i D" and "cmd_ready s" and "find_breaker (Some i) (device_data s) = Some hit"
  obtains l where "cmd_inv i t hit D (l, 2, s\<lparr>device_data := (device_data s)\<lparr>cbclose_data_addr := breaker_addr hit\<rparr>\<rparr>)" and "p_data l = None"
    and "\<And>l' so' s'. attr_loop af device_post_attr (l, 2, s\<lparr>device_data := (device_data s)\<lparr>cbclose_data_addr := breaker_addr hit\<rparr>\<rparr>) = Some (l', so', s') \<Longrightarrow>
        l_jobj l' = l_jobj l \<Longrightarrow> mqtt_subscribe_command af avail dev js len (so, s) = Some (so', s')"
proof -
  obtain j where j: "json_parse_start avail js len = Some (SYS_OK, j)" "denotes j v" "json_reach avail js len j" "len \<le> length js" "len \<le> 32767"
    by (rule command_start [OF assms(1)])
  let ?l = "\<lparr>l_jobj = j, l_ret = SYS_OK, client_id_data = None, id_data = None, type_data = None, p_data = None\<rparr>"
  obtain l where l: "head_loop dev device_post_attr_head ?l (device_data s) =
        Some (Inr (l, (device_data s)\<lparr>cbclose_data_addr := breaker_addr hit\<rparr>))" "denotes (l_jobj l) D"
      "json_reach avail js len (l_jobj l)" "id_data l = Some i" "type_data l = Some t" "p_data l = None"
    using head_for_us [OF assms(2), of ?l avail js len "device_data s" hit] j assms(4) unfolding breaker_addr_def by auto
  obtain r j' where r: "json_release_composite_object (l_jobj l) = Some (r, j')" "json_parse_stop j' \<noteq> None"
    using reach_leave [OF l(3) j(4,5)] by blast
  show thesis
  proof (rule that [of l])
    show "cmd_inv i t hit D (l, 2, s\<lparr>device_data := (device_data s)\<lparr>cbclose_data_addr := breaker_addr hit\<rparr>\<rparr>)"
      using l assms(3,4) by (simp add: cmd_inv_def cmd_ready_def wf_cb_def wf_device_def find_breaker_def)
  next
    fix l' so' s'
    assume "attr_loop af device_post_attr (l, 2, s\<lparr>device_data := (device_data s)\<lparr>cbclose_data_addr := breaker_addr hit\<rparr>\<rparr>) = Some (l', so', s')"
      and "l_jobj l' = l_jobj l"
    then show "mqtt_subscribe_command af avail dev js len (so, s) = Some (so', s')"
      using j(1) l(1) r by (auto simp: mqtt_subscribe_command_def)
  qed (rule l(6))
qed

text \<open>Without a relay command, the data of the command acts on the breaker it names.\<close>

lemma attr_keys:
  "(key, ATTR_V) \<in> set device_post_attr \<Longrightarrow> key = ''V''"
  "(key, ATTR_RECLOSE) \<in> set device_post_attr \<longleftrightarrow> key = ''reclose''"
  "(key, ATTR_CBCLOSE) \<in> set device_post_attr \<longleftrightarrow> key = ''cbclose''"
  by (auto simp: device_post_attr_def)

lemma command_effect:
  assumes "command_text v js len avail" and "command_header v dev t i D" and "cmd_ready s"
    and "find_breaker (Some i) (device_data s) = Some hit" and "text_string D ''V'' = None"
  obtains so' s' where "mqtt_subscribe_command af avail dev js len (so, s) = Some (so', s')" and "cmd_ready s'"
    and "same_tables (device_data s) (device_data s')" and "cbclose_data_addr (device_data s') = breaker_addr hit"
    and "reg_hold s' = upd_at hit (settings D device_post_attr) (reg_hold s)"
    and "s' = s\<lparr>device_data := device_data s', reg_hold := reg_hold s'\<rparr>"
    and "text_string D ''reclose'' = None \<Longrightarrow> reclose_data_flag (device_data s') = reclose_data_flag (device_data s)"
    and "text_string D ''cbclose'' \<noteq> None \<Longrightarrow> circuit_breaker_enable_flag (device_data s) = 1 \<Longrightarrow> hit \<noteq> None \<Longrightarrow>
        cbclose_flag (device_data s') = 1"
proof -
  let ?s = "s\<lparr>device_data := (device_data s)\<lparr>cbclose_data_addr := breaker_addr hit\<rparr>\<rparr>"
  obtain l where l: "cmd_inv i t hit D (l, 2, ?s)"
      "\<And>l' so' s'. attr_loop af device_post_attr (l, 2, ?s) = Some (l', so', s') \<Longrightarrow> l_jobj l' = l_jobj l \<Longrightarrow>
        mqtt_subscribe_command af avail dev js len (so, s) = Some (so', s')"
    using command_runs [OF assms(1-4)] by metis
  obtain l' so' s' where y: "attr_loop af device_post_attr (l, 2, ?s) = Some (l', so', s')" "cmd_inv i t hit D (l', so', s')"
      "loop_effect D device_post_attr hit (l, 2, ?s) (l', so', s')"
    using loop_steps [OF l(1), of device_post_attr af] attr_keys(1) assms(5) by (metis prod_cases3)
  note e = y(3) [unfolded loop_effect_def Let_def prod.case]
  have s: "s' = ?s\<lparr>device_data := device_data s', reg_hold := reg_hold s'\<rparr>" using e by (elim conjE)
  show thesis
  proof (rule that [of so' s'])
    show "mqtt_subscribe_command af avail dev js len (so, s) = Some (so', s')"
      by (rule l(2) [OF y(1)]) (use e in \<open>elim conjE\<close>)
    show "cmd_ready s'" "cbclose_data_addr (device_data s') = breaker_addr hit" using y(2) by (simp_all add: cmd_inv_def)
    show "same_tables (device_data s) (device_data s')" using e by (simp add: same_tables_def)
    show "reg_hold s' = upd_at hit (settings D device_post_attr) (reg_hold s)" using e by simp
    show "s' = s\<lparr>device_data := device_data s', reg_hold := reg_hold s'\<rparr>"
      by (rule s [THEN trans]) simp
    show "reclose_data_flag (device_data s') = reclose_data_flag (device_data s)" if "text_string D ''reclose'' = None"
      using e [THEN conjunct2, THEN conjunct2, THEN conjunct2, THEN conjunct1] that attr_keys(2) by fastforce
    show "cbclose_flag (device_data s') = 1"
      if "text_string D ''cbclose'' \<noteq> None" and "circuit_breaker_enable_flag (device_data s) = 1" and "hit \<noteq> None"
    proof -
      have "\<exists>(key, b) \<in> set device_post_attr. b = ATTR_CBCLOSE \<and> text_string D key \<noteq> None"
        using that(1) attr_keys(3) by (intro bexI [of _ "(''cbclose'', ATTR_CBCLOSE)"]) auto
      then show ?thesis
        using e [THEN conjunct2, THEN conjunct2, THEN conjunct2, THEN conjunct2, THEN conjunct2, THEN conjunct1] that(2,3)
        by simp
    qed
  qed
qed

section \<open>Breakers and their settings\<close>

fun attr_regs :: "(string \<times> attr_index) list \<Rightarrow> hold_reg list" where
  "attr_regs [] = []"
| "attr_regs ((key, ATTR_REG r m) # as) = r # attr_regs as"
| "attr_regs ((key, a) # as) = attr_regs as"

lemma attr_regs_Cons: "attr_regs ((key, a) # as) = (case a of ATTR_REG r m \<Rightarrow> r # attr_regs as | _ \<Rightarrow> attr_regs as)"
  by (cases a) simp_all

lemma attr_regs_iff: "r \<in> set (attr_regs as) \<longleftrightarrow> (\<exists>key m. (key, ATTR_REG r m) \<in> set as)"
  by (induction as rule: attr_regs.induct) auto

lemma settings_other: "r \<notin> set (attr_regs as) \<Longrightarrow> settings D as h r = h r"
proof (induction as arbitrary: h)
  case (Cons e as)
  then show ?case
    by (cases e) (auto simp: attr_regs_Cons reg_change_def split: attr_index.splits option.splits)
qed simp

lemma settings_once:
  "distinct (attr_regs as) \<Longrightarrow> (key, ATTR_REG r m) \<in> set as \<Longrightarrow>
   settings D as h r = (case text_string D key of Some w \<Rightarrow> of_int (atoi w * m) | None \<Rightarrow> h r)"
proof (induction as arbitrary: h)
  case (Cons e as)
  obtain key' a where e: "e = (key', a)" by (cases e)
  show ?case
  proof (cases "e = (key, ATTR_REG r m)")
    case True
    then have "r \<notin> set (attr_regs as)" using Cons.prems(1) by simp
    then show ?thesis using True by (simp add: settings_other reg_change_def split: option.splits)
  next
    case False
    then have m: "(key, ATTR_REG r m) \<in> set as" using Cons.prems(2) by simp
    then have r: "r \<in> set (attr_regs as)" by (auto simp: attr_regs_iff)
    have "settings D (e # as) h r = settings D as (case text_string D key' of Some w \<Rightarrow> reg_change a w h | None \<Rightarrow> h) r"
      using e by simp
    also have "\<dots> = (case text_string D key of Some w \<Rightarrow> of_int (atoi w * m) |
        None \<Rightarrow> (case text_string D key' of Some w \<Rightarrow> reg_change a w h | None \<Rightarrow> h) r)"
      using Cons.IH [OF _ m] Cons.prems(1) e by (simp add: attr_regs_Cons split: attr_index.splits)
    also have "(case text_string D key' of Some w \<Rightarrow> reg_change a w h | None \<Rightarrow> h) r = h r"
      using Cons.prems(1) e r by (auto simp: attr_regs_Cons reg_change_def split: attr_index.splits option.splits)
    finally show ?thesis .
  qed
qed simp

lemma distinct_attr_regs: "distinct (attr_regs device_post_attr)"
  by (simp add: device_post_attr_def)

lemma format_d_inject:
  assumes "0 \<le> a" and "0 \<le> b" and "a < 2 ^ 31" and "b < 2 ^ 31" and "format_d a = format_d b"
  shows "a = b"
proof -
  have "atoi (format_d a) = a" "atoi (format_d b) = b" by (rule atoi_format_d; use assms in simp)+
  then show ?thesis by (metis assms(5))
qed

lemma breaker_name_inject [simp]: "breaker_name a = breaker_name b \<longleftrightarrow> a = b"
proof -
  have "uint a < 2 ^ 31" "uint b < 2 ^ 31" using uint_lt2p [of a] uint_lt2p [of b] by simp_all
  then show ?thesis using format_d_inject [of "uint a" "uint b"] by (auto simp: breaker_name_def word_uint_eq_iff)
qed

text \<open>The table of addresses as a full scan of the bus leaves it: address \<open>k + 1\<close> at index \<open>k\<close>.\<close>

definition scanned_table :: "u8 list \<Rightarrow> bool" where
  "scanned_table as \<longleftrightarrow> length as = 32 \<and> (\<forall>k < 32. as ! k = 0xff \<or> as ! k = of_nat (Suc k))"

lemma breaker_scan_absent: "b \<notin> set as \<Longrightarrow> breaker_scan (Some (breaker_name b)) as j hit = Some hit"
  by (induction as arbitrary: j) auto

lemma breaker_scan_named:
  assumes "\<And>m. m < length as \<Longrightarrow> as ! m = b \<Longrightarrow> m = k" and "b \<noteq> 0xff" and "k < length as" and "as ! k = b"
  shows "breaker_scan (Some (breaker_name b)) as j hit = Some (Some (j + of_nat k))"
  using assms
proof (induction as arbitrary: j hit k)
  case (Cons a as)
  show ?case
  proof (cases k)
    case 0
    have "as ! m \<noteq> b" if "m < length as" for m using Cons.prems(1) [of "Suc m"] 0 that by auto
    then have "b \<notin> set as" by (auto simp: in_set_conv_nth)
    then show ?thesis using Cons.prems(2-4) 0 by (simp add: breaker_scan_absent)
  next
    case (Suc n)
    then have a: "a \<noteq> b" using Cons.prems(1) [of 0] by auto
    have m: "m = n" if "m < length as" "as ! m = b" for m using Cons.prems(1) [of "Suc m"] Suc that by auto
    have "breaker_scan (Some (breaker_name b)) as j' hit' = Some (Some (j' + of_nat n))" for j' hit'
      by (rule Cons.IH [OF m]) (use Cons.prems(2-4) Suc in simp_all)
    then show ?thesis using Cons.prems(2) Suc a by (simp add: add_ac)
  qed
qed simp

lemma unat_address: "k < 32 \<Longrightarrow> unat (of_nat (Suc k) :: u8) = Suc k"
  by (rule unat_of_nat_u8) simp

lemma scanned_address: "k < 32 \<Longrightarrow> n < 32 \<Longrightarrow> (of_nat (Suc k) :: u8) = of_nat (Suc n) \<longleftrightarrow> k = n"
  by (metis unat_address nat.inject)

lemma scanned_breaker:
  assumes "scanned_table (cb_slave_addr d)" and "k < 32" and "cb_slave_addr d ! k = of_nat (Suc k)"
  shows "find_breaker (Some (breaker_name (of_nat (Suc k)))) d = Some (Some (of_nat k))"
proof -
  let ?b = "of_nat (Suc k) :: u8"
  have b: "?b \<noteq> 0xff" using unat_address [OF assms(2)] assms(2) by auto
  have "m = k" if "m < 32" "cb_slave_addr d ! m = ?b" for m
    using assms(1,2) that b scanned_address [of m k] by (metis scanned_table_def)
  then show ?thesis
    using assms b breaker_scan_named [of "cb_slave_addr d" ?b k 0 None]
    by (simp add: find_breaker_def CIRCUIT_BREAKER_MAX_NUM_def scanned_table_def del: of_nat_Suc)
qed

lemma coil_reply_out: "read_coil_handle a n ts s = Some (r, t, ts') \<Longrightarrow> usart_out t = usart_out s"
  unfolding read_coil_handle_def
proof (induction n arbitrary: ts s)
  case (Suc n)
  then obtain u where u: "cb_irqs (tick_now ts) s = Some u" by (auto split: bind_splits)
  show ?case
    using Suc.prems u cb_irqs_frame [OF u] Suc.IH [of "tl ts" u]
    by (cases "circuit_timeout_flag u = 1") (auto simp: cb_eval_def cb_clear_rx_def Let_def split: bind_splits if_splits)
qed auto

section \<open>Properties\<close>

text \<open>C11: A command whose header names another client: if the name fits the 64 bytes that it is
  copied into before it is compared, neither the device data nor the settings of any breaker are
  changed, whatever type, breaker and data are; a longer name is written over the end of the array.\<close>

theorem command_for_others_ignored:
  assumes "command_text v js len avail" and "find_member v ''header'' = Inr H" and "is_object H"
    and "text_string H ''client'' = Some c" and "c \<noteq> dev"
  shows "mqtt_subscribe_command af avail dev js len (so, s) = (if length c < 64 then Some (so, s) else None)"
proof -
  obtain j where "json_parse_start avail js len = Some (SYS_OK, j)" "denotes j v" "json_reach avail js len j" "len \<le> length js" "len \<le> 32767"
    by (rule command_start [OF assms(1)])
  then show ?thesis
    using head_for_others [OF assms(2-5), of _ avail js len] by (simp add: mqtt_subscribe_command_def)
qed

text \<open>The settings go to the image at the index of the breaker in the table.\<close>

lemma command_stores:
  assumes "command_text v js len avail" and "command_header v dev t i D" and "cmd_ready s"
    and "find_breaker (Some i) (device_data s) = Some (Some j)" and "text_string D ''V'' = None"
  obtains so' s' where "mqtt_subscribe_command af avail dev js len (so, s) = Some (so', s')" and "cmd_ready s'"
    and "s' = s\<lparr>device_data := device_data s', reg_hold := (reg_hold s)[unat j := settings D device_post_attr (reg_hold s ! unat j)]\<rparr>"
    and "unat j < length (reg_hold s)"
proof -
  obtain so' s' where c: "mqtt_subscribe_command af avail dev js len (so, s) = Some (so', s')" "cmd_ready s'"
      "reg_hold s' = upd_at (Some j) (settings D device_post_attr) (reg_hold s)" "s' = s\<lparr>device_data := device_data s', reg_hold := reg_hold s'\<rparr>"
    using command_effect [OF assms, of af so] by metis
  show thesis
  proof (rule that [OF c(1,2)])
    show "unat j < length (reg_hold s)"
      using assms(3) find_breaker_range [OF assms(4)] by (simp add: cmd_ready_def wf_cb_def CIRCUIT_BREAKER_MAX_NUM_def)
    show "s' = s\<lparr>device_data := device_data s', reg_hold := (reg_hold s)[unat j := settings D device_post_attr (reg_hold s ! unat j)]\<rparr>"
      using c(3,4) by (simp add: upd_at_def)
  qed
qed

lemma settings_tabled:
  assumes "(key, r, m) \<in> set table" and "\<forall>(key, r, m) \<in> set table. (key, ATTR_REG r m) \<in> set device_post_attr"
  shows "settings D device_post_attr h r = (case text_string D key of Some w \<Rightarrow> of_int (atoi w * m) | None \<Rightarrow> h r)"
  using assms by (intro settings_once [OF distinct_attr_regs]) auto

text \<open>The frame that writes the settings of a breaker only depends on the image with its address.\<close>

lemma write_hold_other:
  assumes "unat a \<noteq> k"
  shows "map_option usart_out (write_hold_send_data a (s\<lparr>device_data := d, reg_hold := (reg_hold s)[k := h]\<rparr>)) =
    map_option usart_out (write_hold_send_data a s)"
  using assms by (simp add: write_hold_send_data_def cb_transmit_def Let_def)

text \<open>C10: A command for this device without a relay command that names the breaker with address
  \<open>k + 1\<close>, from the state that a scan of the bus leaves: the handler returns; each setting that the data gives as a
  string is the number times the factor of its register, but in the image with number \<open>k\<close>, which
  the breaker thread takes for that of address \<open>k\<close>. All other registers and images stay, also the
  image of the named breaker, so that the frame that writes its settings is the same as before.\<close>

theorem cloud_settings_stored:
  assumes "command_text v js len avail" and "command_header v dev t (breaker_name (of_nat (Suc k))) D" and "cmd_ready s"
    and "scanned_table (cb_slave_addr (device_data s))" and "k < 32" and "cb_slave_addr (device_data s) ! k = of_nat (Suc k)"
    and "text_string D ''V'' = None"
  shows "let table =
      [(''SPUV'', REG1_SPUV, 100), (''SPUVP'', REG1_SPUVP, 100), (''SPOV'', REG1_SPOV, 100),
       (''SPOVP'', REG1_SPOVP, 100), (''SPVC'', REG1_SPVC, 10), (''SPVCP'', REG1_SPVCP, 10),
       (''SPOT'', REG1_SPOT, 10), (''SPOTP'', REG1_SPOTP, 10), (''SLEAKAGE'', REG1_SLEAKAGE, 1),
       (''SLEAKAGEP'', REG1_SLEAKAGEP, 1), (''OP'', REG1_OP, 1), (''OPP'', REG1_OPP, 1), (''UVA'', REG1_UVA, 100),
       (''UVAP'', REG1_UVAP, 100), (''UVB'', REG1_UVB, 100), (''UVBP'', REG1_UVBP, 100), (''UVC'', REG1_UVC, 100),
       (''UVCP'', REG1_UVCP, 100), (''OVA'', REG1_OVA, 100), (''OVAP'', REG1_OVAP, 100), (''OVB'', REG1_OVB, 100),
       (''OVBP'', REG1_OVBP, 100), (''OVC'', REG1_OVC, 100), (''OVCP'', REG1_OVCP, 100), (''OCA'', REG1_OCA, 10),
       (''OCAP'', REG1_OCAP, 10), (''OCB'', REG1_OCB, 10), (''OCBP'', REG1_OCBP, 10), (''OCC'', REG1_OCC, 10),
       (''OCCP'', REG1_OCCP, 10), (''OTA'', REG1_OTA, 10), (''OTAP'', REG1_OTAP, 10), (''OTB'', REG1_OTB, 10),
       (''OTBP'', REG1_OTBP, 10), (''OTC'', REG1_OTC, 10), (''OTCP'', REG1_OTCP, 10), (''OTN'', REG1_OTN, 10),
       (''OTNP'', REG1_OTNP, 10)] in
    \<exists>so' s'. mqtt_subscribe_command af avail dev js len (so, s) = Some (so', s') \<and> cmd_ready s' \<and>
    (\<forall>(key, r, m) \<in> set table. (reg_hold s' ! k) r =
       (case text_string D key of Some w \<Rightarrow> of_int (atoi w * m) | None \<Rightarrow> (reg_hold s ! k) r)) \<and>
    (\<forall>r. r \<notin> set (map (fst \<circ> snd) table) \<longrightarrow> (reg_hold s' ! k) r = (reg_hold s ! k) r) \<and>
    (\<forall>n. n \<noteq> k \<longrightarrow> reg_hold s' ! n = reg_hold s ! n) \<and>
    map_option usart_out (write_hold_send_data (of_nat (Suc k)) s') = map_option usart_out (write_hold_send_data (of_nat (Suc k)) s)"
    (is "let table = ?table in ?claim table")
proof -
  have k: "unat (of_nat k :: u8) = k" using assms(5) by (intro unat_of_nat_u8) simp
  obtain so' s' where c: "mqtt_subscribe_command af avail dev js len (so, s) = Some (so', s')" "cmd_ready s'"
      "s' = s\<lparr>device_data := device_data s', reg_hold := (reg_hold s)[k := settings D device_post_attr (reg_hold s ! k)]\<rparr>"
      "k < length (reg_hold s)"
    using command_stores [OF assms(1-3) scanned_breaker [OF assms(4-6)] assms(7), of af so] unfolding k by metis
  have regs: "reg_hold s' = (reg_hold s)[k := settings D device_post_attr (reg_hold s ! k)]" by (subst c(3)) simp
  have table: "\<forall>(key, r, m) \<in> set ?table. (key, ATTR_REG r m) \<in> set device_post_attr"
    and named: "attr_regs device_post_attr = map (fst \<circ> snd) ?table"
    by (simp_all add: device_post_attr_def)
  have "\<forall>(key, r, m) \<in> set ?table. (reg_hold s' ! k) r =
      (case text_string D key of Some w \<Rightarrow> of_int (atoi w * m) | None \<Rightarrow> (reg_hold s ! k) r)"
    using settings_tabled [OF _ table, of _ _ _ D "reg_hold s ! k"] regs c(4) by (intro ballI) (auto simp del: set_simps)
  moreover have "\<forall>r. r \<notin> set (map (fst \<circ> snd) ?table) \<longrightarrow> (reg_hold s' ! k) r = (reg_hold s ! k) r"
    using regs c(4) settings_other [of _ device_post_attr D "reg_hold s ! k", unfolded named] by (auto simp del: set_simps)
  moreover have "map_option usart_out (write_hold_send_data (of_nat (Suc k)) s') = map_option usart_out (write_hold_send_data (of_nat (Suc k)) s)"
    using unat_address [OF assms(5)] by (subst c(3), intro write_hold_other) simp
  moreover have "\<forall>n. n \<noteq> k \<longrightarrow> reg_hold s' ! n = reg_hold s ! n" using regs by simp
  ultimately have "?claim ?table" using c(1,2) by blast
  then show ?thesis by (simp only: Let_def)
qed

text \<open>C12: A command that switches on the breaker with address \<open>k + 1\<close>, from the state that a scan
  of the bus leaves: the frame that the breaker thread sends for it is addressed to \<open>k\<close>, the index in
  the table, which for the first breaker is the broadcast address, and it asks for opening.\<close>

theorem cloud_switch_goes_astray:
  assumes "command_text v js len avail" and "command_header v dev t (breaker_name (of_nat (Suc k))) D" and "cmd_ready s"
    and "scanned_table (cb_slave_addr (device_data s))" and "k < 32" and "cb_slave_addr (device_data s) ! k = of_nat (Suc k)"
    and "circuit_breaker_enable_flag (device_data s) = 1" and "reclose_data_flag (device_data s) = 0"
    and "text_string D ''cbclose'' = Some ''ON''" and "text_string D ''reclose'' = None" and "text_string D ''V'' = None"
  shows "\<exists>so' s'. mqtt_subscribe_command af avail dev js len (so, s) = Some (so', s') \<and>
    (\<forall>ts u ts'. cb_close_cmd ts s' = Some (u, ts') \<longrightarrow>
       usart_out u = usart_out s @ [with_crc_le circuit_breaker_modbus_crc16 [of_nat k, 5, 0, 0, 0, 0]])"
proof -
  obtain so' s' where c: "mqtt_subscribe_command af avail dev js len (so, s) = Some (so', s')" "cmd_ready s'"
      "s' = s\<lparr>device_data := device_data s', reg_hold := reg_hold s'\<rparr>"
      "cbclose_data_addr (device_data s') = of_nat k" "cbclose_flag (device_data s') = 1"
      "reclose_data_flag (device_data s') = 0"
    using command_effect [OF assms(1-3) scanned_breaker [OF assms(4-6)] assms(11), of af so] assms(7-10)
    unfolding breaker_addr_simps by (metis option.distinct(1))
  have out: "usart_out s' = usart_out s" by (subst c(3)) simp
  have "usart_out u = usart_out s @ [with_crc_le circuit_breaker_modbus_crc16 [of_nat k, 5, 0, 0, 0, 0]]"
    if u: "cb_close_cmd ts s' = Some (u, ts')" for ts u ts'
  proof -
    let ?s = "s'\<lparr>device_data := (device_data s')\<lparr>cbclose_flag := 0\<rparr>\<rparr>"
    obtain r x where x: "read_coil_handle (of_nat k) 30 ts (set_coil_send_data (of_nat k) 0 ?s) = Some (r, x, ts')"
        "u = x\<lparr>device_data := (device_data x)\<lparr>reclose_data_flag := 0, cbclose_data_addr := 0xff\<rparr>\<rparr>"
      using u c(4-6) by (auto simp: cb_close_cmd_def Let_def split: bind_splits)
    have "length (circuit_breaker_tx_buf ?s) = 300" using c(2) by (simp add: cmd_ready_def wf_cb_def)
    from cb_request_frame [OF this, of "[of_nat k, 5, 0, 0, 0, 0]"] show ?thesis
      using x coil_reply_out [OF x(1)] out by (simp add: set_coil_send_data_def)
  qed
  then show ?thesis using c(1) by blast
qed

text \<open>A command, and a gateway that has found the breaker with address 2.\<close>

definition cloud_command :: "string \<Rightarrow> string \<Rightarrow> string \<Rightarrow> json" where
  "cloud_command c key w = JObj
     (MCons [] ''header'' [] [] (JObj (MCons [] ''client'' [] [] (JStr c) []
        (MCons [] ''type'' [] [] (JStr ''CB'') [] (MCons [] ''id'' [] [] (JStr ''BRKRS_2'') [] MNil))) []) []
     (MCons [] ''data'' [] [] (JObj (MCons [] key [] [] (JStr w) [] MNil) []) [] MNil)) []"

definition found_breaker :: cb_state where
  "found_breaker = cb_state_init\<lparr>device_data := device_data_init\<lparr>cb_slave_addr := (replicate 32 0xff)[1 := 2], circuit_breaker_enable_flag := 1\<rparr>\<rparr>"

lemma cloud_command_text:
  assumes "json_ok (cloud_command c key w)" and "length (render (cloud_command c key w)) \<le> 32767"
  shows "command_text (cloud_command c key w) (render (cloud_command c key w)) (length (render (cloud_command c key w))) (\<lambda>_. True)"
  unfolding command_text_def
  by (intro exI [of _ "[]"]) (use assms in \<open>simp add: cloud_command_def compound_def\<close>)

lemma cloud_command_header:
  "length c < 64 \<Longrightarrow> command_header (cloud_command c key w) c ''CB'' ''BRKRS_2'' (JObj (MCons [] key [] [] (JStr w) [] MNil) [])"
  by (simp add: command_header_def cloud_command_def find_member_def text_string_def is_object_def)

lemma found_breaker_ready: "cmd_ready found_breaker"
  using cb_ready_init
  by (simp add: cmd_ready_def found_breaker_def cb_ready_def wf_cb_def wf_device_def c_string_def zeros_def slave_zero_def device_data_init_def cb_state_init_def
      CIRCUIT_BREAKER_MAX_NUM_def SLAVE_MAX_NUM_def)

lemma found_breaker_table: "scanned_table (cb_slave_addr (device_data found_breaker))"
  by code_simp

lemma breaker_2: "breaker_name (of_nat (Suc 1)) = ''BRKRS_2''"
  by code_simp

lemma found_breaker_found: "find_breaker (Some ''BRKRS_2'') (device_data found_breaker) = Some (Some 1)"
  by code_simp

theorem command_for_others_ignored_witness:
  "let v = cloud_command ''gate-2'' ''SPUV'' ''180'' in
   mqtt_subscribe_command (\<lambda>_. 0) (\<lambda>_. True) ''gate-1'' (render v) (length (render v)) (0, found_breaker) = Some (0, found_breaker)"
proof -
  let ?v = "cloud_command ''gate-2'' ''SPUV'' ''180''"
  have "json_ok ?v" "length (render ?v) \<le> 32767" by code_simp+
  note t = cloud_command_text [OF this]
  obtain H where "find_member ?v ''header'' = Inr H" "is_object H" "text_string H ''client'' = Some ''gate-2''"
    using cloud_command_header [of "''gate-2''" "''SPUV''" "''180''"] by (auto simp: command_header_def)
  from command_for_others_ignored [OF t this, of "''gate-1''"] show ?thesis by simp
qed

theorem cloud_settings_stored_witness:
  "let v = cloud_command ''gate-1'' ''SPUV'' ''180'' in
   \<exists>so' s'. mqtt_subscribe_command (\<lambda>_. 0) (\<lambda>_. True) ''gate-1'' (render v) (length (render v)) (0, found_breaker) = Some (so', s') \<and>
     (reg_hold s' ! 1) REG1_SPUV = 18000 \<and> reg_hold s' ! 2 = reg_hold found_breaker ! 2"
proof -
  let ?v = "cloud_command ''gate-1'' ''SPUV'' ''180''"
  let ?D = "JObj (MCons [] ''SPUV'' [] [] (JStr ''180'') [] MNil) []"
  have "json_ok ?v" "length (render ?v) \<le> 32767" by code_simp+
  note t = cloud_command_text [OF this]
  have h: "command_header ?v ''gate-1'' ''CB'' (breaker_name (of_nat (Suc 1))) ?D" unfolding breaker_2 by (rule cloud_command_header) simp
  have d: "cb_slave_addr (device_data found_breaker) ! 1 = of_nat (Suc 1)" "text_string ?D ''V'' = None"
    "text_string ?D ''SPUV'' = Some ''180''" "atoi ''180'' = 180" by code_simp+
  from cloud_settings_stored [OF t h found_breaker_ready found_breaker_table _ d(1,2), of "\<lambda>_. 0" 0] d(3,4) show ?thesis
    by (auto simp: Let_def)
qed

theorem cloud_switch_goes_astray_witness:
  "let v = cloud_command ''gate-1'' ''cbclose'' ''ON'' in
   \<exists>so' s'. mqtt_subscribe_command (\<lambda>_. 0) (\<lambda>_. True) ''gate-1'' (render v) (length (render v)) (0, found_breaker) = Some (so', s') \<and>
     (\<forall>ts u ts'. cb_close_cmd ts s' = Some (u, ts') \<longrightarrow> usart_out u = [with_crc_le circuit_breaker_modbus_crc16 [1, 5, 0, 0, 0, 0]])"
proof -
  let ?v = "cloud_command ''gate-1'' ''cbclose'' ''ON''"
  let ?D = "JObj (MCons [] ''cbclose'' [] [] (JStr ''ON'') [] MNil) []"
  have "json_ok ?v" "length (render ?v) \<le> 32767" by code_simp+
  note t = cloud_command_text [OF this]
  have h: "command_header ?v ''gate-1'' ''CB'' (breaker_name (of_nat (Suc 1))) ?D"
    unfolding breaker_2 by (rule cloud_command_header) simp
  have d: "text_string ?D ''V'' = None" "text_string ?D ''reclose'' = None" "text_string ?D ''cbclose'' = Some ''ON''" by code_simp+
  have s: "cb_slave_addr (device_data found_breaker) ! 1 = of_nat (Suc 1)" "circuit_breaker_enable_flag (device_data found_breaker) = 1"
    "reclose_data_flag (device_data found_breaker) = 0" "usart_out found_breaker = []" by code_simp+
  from cloud_switch_goes_astray [OF t h found_breaker_ready found_breaker_table _ s(1,2,3) d(3,2,1), of "\<lambda>_. 0" 0] s(4)
  show ?thesis by simp
qed

end
