(* ===== verification/Flash_Driver.thy ===== *)
theory Flash_Driver
  imports Gateway_Prelude
begin

text \<open>
  The flash driver: \<^verbatim>\<open>peripheral_drivers/qspi_w25q64/flash_drv.c\<close> and the writing and erasing loops
  of \<^verbatim>\<open>qspi_flash.c\<close>. The chip behind the QSPI is a parameter, the record of what its commands do
  to its state. Addresses and lengths are natural numbers below \<open>2 ^ 32\<close>; every chip of the table
  of configurations has pages of 256 and sectors of 4096 bytes. The mutex of the driver is not
  modelled.
\<close>

section \<open>The chip\<close>

text \<open>
  What is read at an address through the memory window; the commands page program and erase of a
  sector or block with the poll of the busy bit, which tells whether the chip finished in time.
\<close>

record 'c nor_chip =
  rom :: "'c \<Rightarrow> nat \<Rightarrow> u8"
  page_program :: "nat \<Rightarrow> u8 list \<Rightarrow> 'c \<Rightarrow> bool \<times> 'c"
  erase_4k :: "nat \<Rightarrow> 'c \<Rightarrow> bool \<times> 'c"
  erase_32k :: "nat \<Rightarrow> 'c \<Rightarrow> bool \<times> 'c"
  erase_64k :: "nat \<Rightarrow> 'c \<Rightarrow> bool \<times> 'c"

definition LL_OK :: int where "LL_OK = 0"
definition LL_ERR :: int where "LL_ERR = -1"
definition LL_ERR_INVD_PARAM :: int where "LL_ERR_INVD_PARAM = -3"
definition LL_ERR_TIMEOUT :: int where "LL_ERR_TIMEOUT = -8"

lemmas ll_defs = LL_OK_def LL_ERR_def LL_ERR_INVD_PARAM_def LL_ERR_TIMEOUT_def

definition QSPI_ROM_BASE :: nat where "QSPI_ROM_BASE = 0x98000000"
definition QSPI_ROM_END :: nat where "QSPI_ROM_END = 0x9BFFFFFF"
definition W25Q64_PAGE_SIZE :: nat where "W25Q64_PAGE_SIZE = 256"

section \<open>Reading\<close>

text \<open>The result with the bytes stored in the buffer, if any are.\<close>

definition QSPI_FLASH_Read :: "'c nor_chip \<Rightarrow> nat \<Rightarrow> nat \<Rightarrow> 'c \<Rightarrow> int \<times> u8 list" where
  "QSPI_FLASH_Read C u32Addr u32Size c =
     (if u32Size = 0 \<or> (u32Addr + QSPI_ROM_BASE + u32Size) mod 2 ^ 32 > QSPI_ROM_END then (LL_ERR_INVD_PARAM, [])
      else (LL_OK, map (rom C c) [u32Addr..<u32Addr + u32Size]))"

definition flash_drv_read :: "'c nor_chip \<Rightarrow> nat \<Rightarrow> nat \<Rightarrow> 'c \<Rightarrow> int \<times> u8 list" where
  "flash_drv_read C addr len c =
     (if len = 0 then (SYS_OK, [])
      else let (ret, buffer) = QSPI_FLASH_Read C addr len c
           in (if ret = LL_OK then SYS_OK else SYS_FAIL, buffer))"

section \<open>Writing\<close>

function qspi_write_loop :: "'c nor_chip \<Rightarrow> nat \<Rightarrow> u8 list \<Rightarrow> 'c \<Rightarrow> int \<times> 'c" where
  "qspi_write_loop C u32Addr bs c =
     (if bs = [] then (LL_OK, c)
      else let n = (if length bs \<ge> W25Q64_PAGE_SIZE then W25Q64_PAGE_SIZE else length bs);
               (ready, c) = page_program C u32Addr (take n bs) c
           in if \<not> ready then (LL_ERR_TIMEOUT, c) else qspi_write_loop C (u32Addr + n) (drop n bs) c)"
  by pat_completeness auto
termination
  by (relation "measure (\<lambda>(C, a, bs, c). length bs)") (auto simp: W25Q64_PAGE_SIZE_def split: if_splits)

declare qspi_write_loop.simps [simp del]

definition QSPI_FLASH_Write :: "'c nor_chip \<Rightarrow> nat \<Rightarrow> u8 list \<Rightarrow> 'c \<Rightarrow> int \<times> 'c" where
  "QSPI_FLASH_Write C u32Addr bs c = (if bs = [] then (LL_ERR_INVD_PARAM, c) else qspi_write_loop C u32Addr bs c)"

text \<open>The pages after the first; \<open>tail\<close> is the number of bytes in the last one, 0 for a full page.\<close>

function flash_write_pages :: "'c nor_chip \<Rightarrow> nat \<Rightarrow> nat \<Rightarrow> nat \<Rightarrow> nat \<Rightarrow> u8 list \<Rightarrow> 'c \<Rightarrow> int \<times> 'c" where
  "flash_write_pages C i endPgNum tail addrCur pBuf c =
     (if i > endPgNum then (LL_OK, c)
      else if i = endPgNum then QSPI_FLASH_Write C addrCur (take (if tail = 0 then 0x100 else tail) pBuf) c
      else let (funcStatus, c) = QSPI_FLASH_Write C addrCur (take W25Q64_PAGE_SIZE pBuf) c
           in if funcStatus \<noteq> LL_OK then (LL_ERR, c)
              else flash_write_pages C (i + 1) endPgNum tail (addrCur + W25Q64_PAGE_SIZE) (drop W25Q64_PAGE_SIZE pBuf) c)"
  by pat_completeness auto
termination
  by (relation "measure (\<lambda>(C, i, e, _). e + 1 - i)") auto

declare flash_write_pages.simps [simp del]

definition FLASH_Write :: "'c nor_chip \<Rightarrow> nat \<Rightarrow> u8 list \<Rightarrow> 'c \<Rightarrow> int \<times> 'c" where
  "FLASH_Write C address buffer c =
     (let num = length buffer;
          begPgNum = address div 256;
          endPgNum = (address + num - 1) div 256
      in if begPgNum = endPgNum then QSPI_FLASH_Write C address buffer c
         else let step = W25Q64_PAGE_SIZE * (begPgNum + 1) - 1 - address + 1;
                  (funcStatus, c) = QSPI_FLASH_Write C address (take step buffer) c
              in if funcStatus \<noteq> LL_OK then (LL_ERR, c)
                 else flash_write_pages C (begPgNum + 1) endPgNum ((address + num) mod 256) (address + step) (drop step buffer) c)"

definition flash_drv_write :: "'c nor_chip \<Rightarrow> nat \<Rightarrow> u8 list \<Rightarrow> 'c \<Rightarrow> int \<times> 'c" where
  "flash_drv_write C addr buffer c =
     (if buffer = [] then (SYS_OK, c)
      else let (ret, c) = FLASH_Write C addr buffer c in (if ret = LL_OK then SYS_OK else SYS_FAIL, c))"

section \<open>Erasing\<close>

definition FLASH_32K_BLOCK_SIZE :: nat where "FLASH_32K_BLOCK_SIZE = 0x8000"
definition FLASH_64K_BLOCK_SIZE :: nat where "FLASH_64K_BLOCK_SIZE = 0x10000"
definition SECTOR_SIZE :: nat where "SECTOR_SIZE = 0x1000"

lemmas flash_size_defs = FLASH_32K_BLOCK_SIZE_def FLASH_64K_BLOCK_SIZE_def SECTOR_SIZE_def W25Q64_PAGE_SIZE_def

lemma sector_progress: "a < a - a mod SECTOR_SIZE + SECTOR_SIZE"
  using mod_less_divisor [of SECTOR_SIZE a] by (simp add: SECTOR_SIZE_def)

function flash_erase_loop :: "'c nor_chip \<Rightarrow> nat \<Rightarrow> nat \<Rightarrow> 'c \<Rightarrow> int \<times> 'c" where
  "flash_erase_loop C startAddr len c =
     (if len = 0 then (LL_OK, c)
      else let (command, endAddr) =
            (if startAddr mod FLASH_64K_BLOCK_SIZE = 0 \<and> len > FLASH_64K_BLOCK_SIZE - SECTOR_SIZE
             then (erase_64k C (startAddr div FLASH_64K_BLOCK_SIZE * FLASH_64K_BLOCK_SIZE), startAddr + FLASH_64K_BLOCK_SIZE)
             else if startAddr mod FLASH_32K_BLOCK_SIZE = 0 \<and> len > FLASH_32K_BLOCK_SIZE - SECTOR_SIZE
             then (erase_32k C (startAddr div FLASH_32K_BLOCK_SIZE * FLASH_32K_BLOCK_SIZE), startAddr + FLASH_32K_BLOCK_SIZE)
             else let validStart = startAddr - startAddr mod SECTOR_SIZE
                  in (erase_4k C (validStart div SECTOR_SIZE * SECTOR_SIZE), validStart + SECTOR_SIZE));
               (ready, c) = command c
        in if \<not> ready then (LL_ERR, c)
           else flash_erase_loop C endAddr (if len < endAddr - startAddr then 0 else len - (endAddr - startAddr)) c)"
  by pat_completeness auto
termination
proof (relation "measure (\<lambda>(C, a, len, c). len)", goal_cases)
  case (2 C a len c p command e q ready c')
  then have "a < e"
    using sector_progress [of a] by (auto simp: Let_def flash_size_defs split: if_splits)
  with 2 show ?case by auto
qed simp

declare flash_erase_loop.simps [simp del]

definition FLASH_Erase :: "'c nor_chip \<Rightarrow> nat \<Rightarrow> nat \<Rightarrow> 'c \<Rightarrow> int \<times> 'c" where
  "FLASH_Erase C startAddr endAddr c = flash_erase_loop C startAddr ((endAddr + 2 ^ 32 - startAddr + 1) mod 2 ^ 32) c"

definition flash_drv_erase :: "'c nor_chip \<Rightarrow> nat \<Rightarrow> nat \<Rightarrow> 'c \<Rightarrow> int \<times> 'c" where
  "flash_drv_erase C addr len c =
     (let (ret, c) = FLASH_Erase C addr ((addr + len + 2 ^ 32 - 1) mod 2 ^ 32) c
      in (if ret = LL_OK then SYS_OK else SYS_FAIL, c))"

section \<open>What the code relies on\<close>

text \<open>
  Programming clears bits, erasing sets them. Power may fail during a command: a program command
  has then written the first bytes of its data, an erase has not happened or is complete; without
  power nothing changes. \<open>cap\<close> is the capacity of the chip. A page program stays inside a page.
\<close>

definition programmed :: "(nat \<Rightarrow> u8) \<Rightarrow> nat \<Rightarrow> u8 list \<Rightarrow> nat \<Rightarrow> u8" where
  "programmed f a bs = (\<lambda>x. if a \<le> x \<and> x < a + length bs then f x AND bs ! (x - a) else f x)"

definition erased :: "(nat \<Rightarrow> u8) \<Rightarrow> nat \<Rightarrow> nat \<Rightarrow> nat \<Rightarrow> u8" where
  "erased f a n = (\<lambda>x. if a \<le> x \<and> x < a + n then 0xFF else f x)"

definition kept :: "'c nor_chip \<Rightarrow> ('c \<Rightarrow> bool) \<Rightarrow> 'c \<Rightarrow> 'r \<times> 'c \<Rightarrow> bool" where
  "kept C on c r \<longleftrightarrow> \<not> on c \<longrightarrow> \<not> on (snd r) \<and> rom C (snd r) = rom C c"

definition command_ok :: "'c nor_chip \<Rightarrow> ('c \<Rightarrow> bool) \<Rightarrow> (nat \<Rightarrow> u8) \<Rightarrow> ((nat \<Rightarrow> u8) \<Rightarrow> bool) \<Rightarrow> bool \<times> 'c \<Rightarrow> bool" where
  "command_ok C on f broken r \<longleftrightarrow>
     (case r of (ready, c) \<Rightarrow> (on c \<longrightarrow> ready \<and> rom C c = f) \<and> (\<not> on c \<longrightarrow> broken (rom C c)))"

definition chip_ok :: "'c nor_chip \<Rightarrow> ('c \<Rightarrow> bool) \<Rightarrow> nat \<Rightarrow> bool" where
  "chip_ok C on cap \<longleftrightarrow>
     (\<forall>a bs c. kept C on c (page_program C a bs c)) \<and>
     (\<forall>a c. kept C on c (erase_4k C a c) \<and> kept C on c (erase_32k C a c) \<and> kept C on c (erase_64k C a c)) \<and>
     (\<forall>c a bs. on c \<and> bs \<noteq> [] \<and> a mod 256 + length bs \<le> 256 \<and> a + length bs \<le> cap \<longrightarrow>
        command_ok C on (programmed (rom C c) a bs) (\<lambda>f. \<exists>k. f = programmed (rom C c) a (take k bs)) (page_program C a bs c)) \<and>
     (\<forall>c a. \<forall>(erase, n) \<in> {(erase_4k C, 0x1000), (erase_32k C, 0x8000), (erase_64k C, 0x10000)}.
        on c \<and> a mod n = 0 \<and> a + n \<le> cap \<longrightarrow>
        command_ok C on (erased (rom C c) a n) (\<lambda>f. f = rom C c \<or> f = erased (rom C c) a n) (erase a c)) \<and>
     cap \<le> 0x1000000"

text \<open>A chip that loses its power after a number of commands, with half of the last one done.\<close>

record w25q =
  cells :: "nat \<Rightarrow> u8"
  power :: nat

definition w25q_command :: "((nat \<Rightarrow> u8) \<Rightarrow> nat \<Rightarrow> u8) \<Rightarrow> ((nat \<Rightarrow> u8) \<Rightarrow> nat \<Rightarrow> u8) \<Rightarrow> w25q \<Rightarrow> bool \<times> w25q" where
  "w25q_command f broken c =
     (if power c = 0 then (False, c)
      else if power c = 1 then (False, c\<lparr>cells := broken (cells c), power := 0\<rparr>)
      else (True, c\<lparr>cells := f (cells c), power := power c - 1\<rparr>))"

definition w25q_chip :: "w25q nor_chip" where
  "w25q_chip = \<lparr>rom = cells,
     page_program = (\<lambda>a bs. w25q_command (\<lambda>f. programmed f a bs) (\<lambda>f. programmed f a (take (length bs div 2) bs))),
     erase_4k = (\<lambda>a. w25q_command (\<lambda>f. erased f a 0x1000) (\<lambda>f. f)),
     erase_32k = (\<lambda>a. w25q_command (\<lambda>f. erased f a 0x8000) (\<lambda>f. f)),
     erase_64k = (\<lambda>a. w25q_command (\<lambda>f. erased f a 0x10000) (\<lambda>f. f))\<rparr>"

lemma w25q_chip_ok: "chip_ok w25q_chip (\<lambda>c. 0 < power c) 0x800000"
  by (auto simp: chip_ok_def kept_def command_ok_def w25q_chip_def w25q_command_def)

end
