(* ===== verification/Psm_Flash.thy ===== *)
theory Psm_Flash
  imports Flash_Driver Psm_Crc32
begin

text \<open>
  The lower half of \<^verbatim>\<open>components/psm/psm_v2.c\<close>, the store of settings in flash: the partition, the
  objects in it and how they are laid out in bytes, reading, writing and erasing, the descriptor
  of the swap area. Offsets and sizes are natural numbers; the wrap-around of a difference is
  written out (\<open>sub32\<close>), sums stay below \<open>2 ^ 32\<close> on every supported chip. \<open>avail\<close> tells which
  sizes the heap can allocate; the read-write lock is not modelled, every operation holds it.
\<close>

definition SYS_E_PERM :: int where "SYS_E_PERM = -2"
definition SYS_E_NOMEM :: int where "SYS_E_NOMEM = -13"
definition SYS_E_FAULT :: int where "SYS_E_FAULT = -15"
definition SYS_E_INVAL :: int where "SYS_E_INVAL = -23"
definition SYS_E_NOSPC :: int where "SYS_E_NOSPC = -29"
definition SYS_E_CRC :: int where "SYS_E_CRC = -36"

lemmas psm_errno_defs = sys_errno_defs SYS_E_PERM_def SYS_E_NOMEM_def SYS_E_FAULT_def SYS_E_INVAL_def SYS_E_NOSPC_def SYS_E_CRC_def

definition sub32 :: "nat \<Rightarrow> nat \<Rightarrow> nat" where
  "sub32 a b = (a + 2 ^ 32 - b) mod 2 ^ 32"

lemma sub32_eq: "b \<le> a \<Longrightarrow> a < 2 ^ 32 \<Longrightarrow> sub32 a b = a - b"
proof -
  assume a: "b \<le> a" "a < 2 ^ 32"
  then have "a + 2 ^ 32 - b = (a - b) + 2 ^ 32" by simp
  then show ?thesis using a by (simp only: sub32_def mod_add_self2) simp
qed

section \<open>Little-endian numbers\<close>

definition le16 :: "u16 \<Rightarrow> u8 list" where
  "le16 x = [lo8 x, hi8 x]"

definition le32 :: "u32 \<Rightarrow> u8 list" where
  "le32 x = [ucast x, ucast (drop_bit 8 x), ucast (drop_bit 16 x), ucast (drop_bit 24 x)]"

definition of_le16 :: "u8 list \<Rightarrow> u16" where
  "of_le16 b = be16 (b ! 1) (b ! 0)"

definition of_le32 :: "u8 list \<Rightarrow> u32" where
  "of_le32 b = be32 (b ! 3) (b ! 2) (b ! 1) (b ! 0)"

section \<open>Objects and the partition\<close>

text \<open>The packed header that every object has in flash, 12 bytes.\<close>

record psm_object =
  object_type :: u16
  flags :: u8
  crc32 :: u32
  data_len :: u16
  obj_id :: u16
  name_len :: u8

definition sizeof_object :: nat where "sizeof_object = 12"

definition object_bytes :: "psm_object \<Rightarrow> u8 list" where
  "object_bytes p = le16 (object_type p) @ [flags p] @ le32 (crc32 p) @ le16 (data_len p) @ le16 (obj_id p) @ [name_len p]"

definition object_of :: "u8 list \<Rightarrow> psm_object" where
  "object_of b = \<lparr>object_type = of_le16 (take 2 b), flags = b ! 2, crc32 = of_le32 (take 4 (drop 3 b)),
     data_len = of_le16 (take 2 (drop 7 b)), obj_id = of_le16 (take 2 (drop 9 b)), name_len = b ! 11\<rparr>"

definition offset_flags :: nat where "offset_flags = 2"
definition offset_crc32 :: nat where "offset_crc32 = 3"

definition OBJECT_TYPE_INVALID :: u16 where "OBJECT_TYPE_INVALID = 0"
definition OBJECT_TYPE_SMALL_BINARY :: u16 where "OBJECT_TYPE_SMALL_BINARY = 0xAA55"
definition READ_BUFFER_SIZE :: nat where "READ_BUFFER_SIZE = 64"
definition PSM_INVALID_OBJ_ID :: u16 where "PSM_INVALID_OBJ_ID = 0xFFFF"
definition PSM_DATA_SWAP_DEMARCATION :: nat where "PSM_DATA_SWAP_DEMARCATION = 4"
definition CHECKPOINT_MARKER :: u16 where "CHECKPOINT_MARKER = 0x55AA"
definition PSM_MAX_OBJNAME_LEN :: nat where "PSM_MAX_OBJNAME_LEN = 256"
definition PSM_MAX_OBJECTS :: nat where "PSM_MAX_OBJECTS = 512"
definition PSM_DEFAULT_INDEX_ELEMENTS :: nat where "PSM_DEFAULT_INDEX_ELEMENTS = 10"
definition PSM_FLASH_SECTOR_SIZE :: nat where "PSM_FLASH_SECTOR_SIZE = 4096"

definition PSM_OBJ_INACTIVE :: u8 where "PSM_OBJ_INACTIVE = 0x01"
definition PSM_OBJ_CACHE_REQ :: u8 where "PSM_OBJ_CACHE_REQ = 0x02"
definition PSM_OBJ_INDEX_REQ :: u8 where "PSM_OBJ_INDEX_REQ = 0x04"

text \<open>An entry of the index; the cache of an object holds its name and data.\<close>

record psm_index =
  name_hash :: u32
  index_obj_id :: u16
  flash_offset :: nat
  cache :: "(u8 list \<times> u8 list) option"

text \<open>The index is \<^const>\<open>None\<close> before it is allocated and else the list of the entries in use.\<close>

record psm =
  total_active_object_size :: nat
  object_offset_limit :: nat
  data_free_offset :: nat
  highest_used_obj_id :: u16
  index_max_elements :: nat
  index :: "psm_index list option"
  read_only :: bool
  secure :: bool
  fdesc_fl_dev :: u8
  block_size :: nat
  block_cnt :: nat
  part_size :: nat
  start_address :: nat

definition align_to_block_offset :: "psm \<Rightarrow> nat \<Rightarrow> nat" where
  "align_to_block_offset s off = off div block_size s * block_size s"

definition object_size :: "psm_object \<Rightarrow> nat" where
  "object_size p = sizeof_object + unat (name_len p) + unat (data_len p)"

definition metadata_size :: "psm_object \<Rightarrow> nat" where
  "metadata_size p = sizeof_object + unat (name_len p)"

definition psm_is_data_len_sane :: "psm \<Rightarrow> nat \<Rightarrow> bool" where
  "psm_is_data_len_sane s len \<longleftrightarrow> len < 0xFFFF \<and> len < part_size s div 2"

definition is_object_active :: "psm_object \<Rightarrow> bool" where
  "is_object_active p \<longleftrightarrow> flags p AND PSM_OBJ_INACTIVE \<noteq> 0"

definition is_object_indexable :: "psm_object \<Rightarrow> bool" where
  "is_object_indexable p \<longleftrightarrow> flags p AND PSM_OBJ_INDEX_REQ = 0"

definition is_object_cacheable :: "psm_object \<Rightarrow> bool" where
  "is_object_cacheable p \<longleftrightarrow> flags p AND PSM_OBJ_CACHE_REQ = 0"

definition psm_is_free_space :: "psm_object \<Rightarrow> bool" where
  "psm_is_free_space p \<longleftrightarrow> object_type p = 0xFFFF"

definition psm_calc_metadata_crc32 :: "psm_object \<Rightarrow> u32 \<Rightarrow> u32" where
  "psm_calc_metadata_crc32 p partial_crc32 = soft_crc32 (object_bytes (p\<lparr>crc32 := 0xFFFFFFFF\<rparr>)) partial_crc32"

lemma object_size_pos: "0 < object_size p"
  by (simp add: object_size_def sizeof_object_def)

section \<open>Reading, writing and erasing\<close>

definition psm_erase_flash :: "'c nor_chip \<Rightarrow> psm \<Rightarrow> nat \<Rightarrow> nat \<Rightarrow> 'c \<Rightarrow> int \<times> 'c" where
  "psm_erase_flash C s off len c =
     (if off mod block_size s \<noteq> 0 \<or> len mod block_size s \<noteq> 0 then (SYS_E_INVAL, c)
      else if off + len > part_size s then (SYS_E_INVAL, c)
      else flash_drv_erase C (start_address s + off) len c)"

definition psm_read_flash :: "'c nor_chip \<Rightarrow> psm \<Rightarrow> nat \<Rightarrow> nat \<Rightarrow> 'c \<Rightarrow> int \<times> u8 list" where
  "psm_read_flash C s len off c =
     (if off + len > part_size s then (SYS_E_INVAL, [])
      else flash_drv_read C (start_address s + off) len c)"

definition psm_read_object :: "'c nor_chip \<Rightarrow> psm \<Rightarrow> nat \<Rightarrow> 'c \<Rightarrow> int \<times> psm_object" where
  "psm_read_object C s off c = (let (rv, b) = psm_read_flash C s sizeof_object off c in (rv, object_of b))"

function psm_write_verify :: "'c nor_chip \<Rightarrow> psm \<Rightarrow> u8 list \<Rightarrow> nat \<Rightarrow> 'c \<Rightarrow> int" where
  "psm_write_verify C s reference_buf off c =
     (if reference_buf = [] then SYS_OK
      else let read_size = min READ_BUFFER_SIZE (length reference_buf);
               (rv, buf) = psm_read_flash C s read_size off c
           in if rv \<noteq> SYS_OK then rv
              else if take read_size reference_buf \<noteq> buf then SYS_FAIL
              else psm_write_verify C s (drop read_size reference_buf) (off + read_size) c)"
  by pat_completeness auto
termination
  by (relation "measure (\<lambda>(C, s, b, off, c). length b)") (auto simp: READ_BUFFER_SIZE_def)

declare psm_write_verify.simps [simp del]

function same_device_loop :: "'c nor_chip \<Rightarrow> int \<Rightarrow> u8 list \<Rightarrow> nat \<Rightarrow> 'c \<Rightarrow> int \<times> 'c" where
  "same_device_loop C rv buffer address c =
     (if buffer = [] then (rv, c)
      else let chunk_size = min 16 (length buffer);
               (rv, c) = flash_drv_write C address (take chunk_size buffer) c
           in if rv \<noteq> SYS_OK then (rv, c) else same_device_loop C rv (drop chunk_size buffer) (address + chunk_size) c)"
  by pat_completeness auto
termination
  by (relation "measure (\<lambda>(C, rv, b, a, c). length b)") auto

declare same_device_loop.simps [simp del]

definition psm_write_flash_same_device_rw :: "'c nor_chip \<Rightarrow> (nat \<Rightarrow> bool) \<Rightarrow> u8 list \<Rightarrow> nat \<Rightarrow> 'c \<Rightarrow> int \<times> 'c" where
  "psm_write_flash_same_device_rw C avail buffer address c =
     (if \<not> avail 16 then (SYS_E_NOMEM, c) else same_device_loop C SYS_FAIL buffer address c)"

definition psm_write_flash :: "'c nor_chip \<Rightarrow> (nat \<Rightarrow> bool) \<Rightarrow> psm \<Rightarrow> u8 list \<Rightarrow> nat \<Rightarrow> bool \<Rightarrow> 'c \<Rightarrow> int \<times> 'c" where
  "psm_write_flash C avail s buffer off verify c =
     (if off + length buffer > part_size s then (SYS_E_INVAL, c)
      else let address = start_address s + off;
               (rv, c) = flash_drv_write C address buffer c
           in if rv \<noteq> SYS_OK then
                (if rv = SYS_E_FAULT then psm_write_flash_same_device_rw C avail buffer address c else (rv, c))
              else if verify then (psm_write_verify C s buffer off c, c)
              else (SYS_OK, c))"

definition write_flag_bit :: "'c nor_chip \<Rightarrow> (nat \<Rightarrow> bool) \<Rightarrow> psm \<Rightarrow> nat \<Rightarrow> u8 \<Rightarrow> 'c \<Rightarrow> int \<times> 'c" where
  "write_flag_bit C avail s flag_offset flag c = psm_write_flash C avail s [NOT flag] flag_offset False c"

section \<open>The descriptor of the swap area\<close>

record psm_swap_desc =
  swap_start_offset :: u32
  swap_start_offset_inv :: u32
  checkpoint_marker :: u16
  checkpoint_marker_inv :: u16

definition sizeof_swap_desc :: nat where "sizeof_swap_desc = 12"

definition swap_desc_of :: "u8 list \<Rightarrow> psm_swap_desc" where
  "swap_desc_of b = \<lparr>swap_start_offset = of_le32 (take 4 b), swap_start_offset_inv = of_le32 (take 4 (drop 4 b)),
     checkpoint_marker = of_le16 (take 2 (drop 8 b)), checkpoint_marker_inv = of_le16 (take 2 (drop 10 b))\<rparr>"

text \<open>The result with the bytes of the descriptor.\<close>

definition read_swap_descriptor :: "'c nor_chip \<Rightarrow> psm \<Rightarrow> 'c \<Rightarrow> int \<times> u8 list" where
  "read_swap_descriptor C s c = psm_read_flash C s sizeof_swap_desc (part_size s - sizeof_swap_desc) c"

definition write_swap_descriptor :: "'c nor_chip \<Rightarrow> (nat \<Rightarrow> bool) \<Rightarrow> psm \<Rightarrow> psm_swap_desc \<Rightarrow> bool \<Rightarrow> 'c \<Rightarrow> int \<times> 'c" where
  "write_swap_descriptor C avail s d write_swap_offset c =
     (let off = part_size s - sizeof_swap_desc
      in if write_swap_offset
         then psm_write_flash C avail s (le32 (swap_start_offset d) @ le32 (swap_start_offset_inv d)) off True c
         else psm_write_flash C avail s (le16 (checkpoint_marker d) @ le16 (checkpoint_marker_inv d)) (off + 8) True c)"

definition invalidate_swap_descriptor :: "'c nor_chip \<Rightarrow> (nat \<Rightarrow> bool) \<Rightarrow> psm \<Rightarrow> 'c \<Rightarrow> int \<times> 'c" where
  "invalidate_swap_descriptor C avail s c =
     psm_write_flash C avail s (zeros sizeof_swap_desc) (part_size s - sizeof_swap_desc) True c"

datatype checkpoint = CHECKPOINT_0 | CHECKPOINT_1 | CHECKPOINT_2 | CHECKPOINT_3 | CHECKPOINT_4

definition psm_get_swap_start_offset :: "psm \<Rightarrow> nat" where
  "psm_get_swap_start_offset s =
     align_to_block_offset s (sub32 (part_size s - sizeof_swap_desc) (total_active_object_size s))"

end
