(* ===== verification/Psm_Store.thy ===== *)
theory Psm_Store
  imports Psm_Flash C_Text
begin

text \<open>
  The upper half of \<^verbatim>\<open>components/psm/psm_v2.c\<close>: the index, the scan of the partition, copying and
  recovery with their checkpoints, the search for an object, and reading, writing and deleting
  variables. A function that can run out of the bitmap of object identifiers yields \<^const>\<open>None\<close>
  when it does. The callback for tests and the debug output are left out.
\<close>

section \<open>The index\<close>

definition psm_reset_index :: "psm \<Rightarrow> psm" where
  "psm_reset_index s = s\<lparr>index := None, index_max_elements := 0\<rparr>"

function name_hash_loop :: "'c nor_chip \<Rightarrow> psm \<Rightarrow> nat \<Rightarrow> nat \<Rightarrow> u32 \<Rightarrow> u8 list \<Rightarrow> 'c \<Rightarrow> int \<times> u32 \<times> u8 list" where
  "name_hash_loop C s remaining off crc name_buf c =
     (if remaining = 0 then (SYS_OK, crc, name_buf)
      else let read_size = min READ_BUFFER_SIZE remaining;
               (rv, buf) = psm_read_flash C s read_size off c
           in if rv \<noteq> SYS_OK then (rv, crc, name_buf)
              else name_hash_loop C s (remaining - read_size) (off + read_size) (soft_crc32 buf crc) (name_buf @ buf) c)"
  by pat_completeness auto
termination
  by (relation "measure (\<lambda>(C, s, n, off, crc, b, c). n)") (auto simp: READ_BUFFER_SIZE_def)

declare name_hash_loop.simps [simp del]

definition psm_calc_name_hash :: "'c nor_chip \<Rightarrow> psm \<Rightarrow> psm_object \<Rightarrow> nat \<Rightarrow> 'c \<Rightarrow> int \<times> u32 \<times> u8 list" where
  "psm_calc_name_hash C s pobj off c = name_hash_loop C s (unat (name_len pobj)) (off + sizeof_object) 0 [] c"

definition sizeof_index :: nat where "sizeof_index = 16"
definition sizeof_cache :: nat where "sizeof_cache = 3"

definition psm_add_to_index :: "'c nor_chip \<Rightarrow> (nat \<Rightarrow> bool) \<Rightarrow> psm \<Rightarrow> psm_object \<Rightarrow> nat \<Rightarrow> 'c \<Rightarrow> psm" where
  "psm_add_to_index C avail s pobj off c =
     (let grown =
        (case index s of
           None \<Rightarrow> if avail (sizeof_index * PSM_DEFAULT_INDEX_ELEMENTS)
             then Some (s\<lparr>index := Some [], index_max_elements := PSM_DEFAULT_INDEX_ELEMENTS\<rparr>) else None
         | Some es \<Rightarrow> if length es = index_max_elements s
             then if avail (sizeof_index * index_max_elements s + sizeof_index * PSM_DEFAULT_INDEX_ELEMENTS)
               then Some (s\<lparr>index_max_elements := index_max_elements s + PSM_DEFAULT_INDEX_ELEMENTS\<rparr>) else None
             else Some s)
      in case grown of
           None \<Rightarrow> s
         | Some s \<Rightarrow>
             let cached = is_object_cacheable pobj \<and> avail (sizeof_cache + unat (name_len pobj) + unat (data_len pobj));
                 (rv, hash, name_buf) = psm_calc_name_hash C s pobj off c;
                 entry = (\<lambda>cache. s\<lparr>index := Some (the (index s) @ [\<lparr>name_hash = hash, index_obj_id = obj_id pobj, flash_offset = off, cache = cache\<rparr>])\<rparr>)
             in if rv \<noteq> SYS_OK then s
                else if \<not> cached then entry None
                else if data_len pobj = 0 then entry (Some (name_buf, []))
                else let (rv, data_buf) = psm_read_flash C s (unat (data_len pobj)) (off + metadata_size pobj) c
                     in if rv \<noteq> SYS_OK then s else entry (Some (name_buf, data_buf)))"

definition psm_remove_index_entry :: "psm \<Rightarrow> nat \<Rightarrow> psm" where
  "psm_remove_index_entry s i = s\<lparr>index := map_option (\<lambda>es. take i es @ drop (Suc i) es) (index s)\<rparr>"

lemma psm_add_to_index_frame [simp]:
  "object_offset_limit (psm_add_to_index C avail s p off c) = object_offset_limit s"
  "part_size (psm_add_to_index C avail s p off c) = part_size s"
  "start_address (psm_add_to_index C avail s p off c) = start_address s"
  "block_size (psm_add_to_index C avail s p off c) = block_size s"
  "read_only (psm_add_to_index C avail s p off c) = read_only s"
  by (auto simp: psm_add_to_index_def Let_def split: option.splits prod.splits)

section \<open>The scan\<close>

definition test_and_set_bitmap :: "u8 list \<Rightarrow> u16 \<Rightarrow> (int \<times> u8 list) option" where
  "test_and_set_bitmap bitmap oid =
     (let array_offset = unat oid div 8; bit_offset = unat oid mod 8
      in if array_offset \<ge> length bitmap then None
         else if bit (bitmap ! array_offset) bit_offset then Some (SYS_FAIL, bitmap)
         else Some (SYS_OK, bitmap[array_offset := set_bit bit_offset (bitmap ! array_offset)]))"

definition handle_double_active_object :: "'c nor_chip \<Rightarrow> (nat \<Rightarrow> bool) \<Rightarrow> psm \<Rightarrow> nat \<Rightarrow> 'c \<Rightarrow> 'c" where
  "handle_double_active_object C avail s object_offset c =
     snd (psm_write_flash C avail s (le16 OBJECT_TYPE_INVALID) object_offset False c)"

text \<open>The loop over the objects; it ends with the result, the offset reached and the highest identifier.\<close>

function scan_loop :: "'c nor_chip \<Rightarrow> (nat \<Rightarrow> bool) \<Rightarrow> nat \<Rightarrow> u8 list \<Rightarrow> u16 \<Rightarrow> psm \<Rightarrow> 'c \<Rightarrow> (int \<times> nat \<times> u16 \<times> psm) option \<times> 'c" where
  "scan_loop C avail off bitmap highest s c =
     (if off \<ge> object_offset_limit s then (Some (SYS_OK, off, highest, s), c)
      else let (rv, pobj) = psm_read_object C s off c
        in if rv \<noteq> SYS_OK then (Some (rv, off, highest, s), c)
           else if psm_is_free_space pobj then (Some (SYS_OK, off, highest, s), c)
           else if object_type pobj \<noteq> OBJECT_TYPE_SMALL_BINARY then (Some (SYS_FAIL, off, highest, s), c)
           else if \<not> psm_is_data_len_sane s (unat (data_len pobj)) then (Some (SYS_FAIL, off, highest, s), c)
           else let highest = (if obj_id pobj > highest then obj_id pobj else highest)
             in if \<not> is_object_active pobj then scan_loop C avail (off + object_size pobj) bitmap highest s c
                else case test_and_set_bitmap bitmap (obj_id pobj) of
                    None \<Rightarrow> (None, c)
                  | Some (rv, bitmap) \<Rightarrow>
                      if rv = SYS_FAIL then (Some (rv, off, highest, s), handle_double_active_object C avail s off c)
                      else let s' = (if is_object_indexable pobj then psm_add_to_index C avail s pobj off c else s)
                           in scan_loop C avail (off + object_size pobj) bitmap highest
                                (s'\<lparr>total_active_object_size := total_active_object_size s' + object_size pobj\<rparr>) c)"
  by pat_completeness auto
termination
proof (relation "measure (\<lambda>(C, avail, off, b, h, s, c). object_offset_limit s - off)", goal_cases)
  case (2 C avail off b h s c x rv p)
  then show ?case using object_size_pos [of p] by simp
qed (simp_all add: object_size_pos diff_less_mono2)

declare scan_loop.simps [simp del]

definition psm_part_scan :: "'c nor_chip \<Rightarrow> (nat \<Rightarrow> bool) \<Rightarrow> psm \<Rightarrow> 'c \<Rightarrow> (int \<times> psm) option \<times> 'c" where
  "psm_part_scan C avail s c =
     (let bitmap_size = PSM_MAX_OBJECTS div 8 + 1
      in if \<not> avail bitmap_size then (Some (SYS_E_NOMEM, s), c)
         else case scan_loop C avail 0 (zeros bitmap_size) 0 (psm_reset_index (s\<lparr>total_active_object_size := 0\<rparr>)) c of
             (None, c) \<Rightarrow> (None, c)
           | (Some (rv, off, highest, s), c) \<Rightarrow>
               (Some (rv, s\<lparr>highest_used_obj_id := highest, data_free_offset := off\<rparr>), c))"

section \<open>Copying objects\<close>

function copy_loop :: "'c nor_chip \<Rightarrow> (nat \<Rightarrow> bool) \<Rightarrow> psm \<Rightarrow> nat \<Rightarrow> nat \<Rightarrow> nat \<Rightarrow> u32 \<Rightarrow> 'c \<Rightarrow> (int \<times> u32) \<times> 'c" where
  "copy_loop C avail s remaining source_offset dest_offset cal_crc32 c =
     (if remaining = 0 then ((SYS_OK, cal_crc32), c)
      else let read_size = min READ_BUFFER_SIZE remaining;
               (rv, buf) = psm_read_flash C s read_size source_offset c
           in if rv \<noteq> SYS_OK then ((rv, cal_crc32), c)
              else let (rv, c) = psm_write_flash C avail s buf dest_offset False c
                   in if rv \<noteq> SYS_OK then ((rv, cal_crc32), c)
                      else copy_loop C avail s (remaining - read_size) (source_offset + read_size) (dest_offset + read_size)
                             (soft_crc32 buf cal_crc32) c)"
  by pat_completeness auto
termination
  by (relation "measure (\<lambda>(C, avail, s, n, _). n)") (auto simp: READ_BUFFER_SIZE_def)

declare copy_loop.simps [simp del]

text \<open>The end of both copying functions: the new checksum, or a mark that the object is bad.\<close>

definition finish_copy :: "'c nor_chip \<Rightarrow> (nat \<Rightarrow> bool) \<Rightarrow> psm \<Rightarrow> bool \<Rightarrow> u32 \<Rightarrow> nat \<Rightarrow> 'c \<Rightarrow> int \<times> 'c" where
  "finish_copy C avail s good dest_crc32 dest_object_start_offset c =
     (if good then psm_write_flash C avail s (le32 dest_crc32) (dest_object_start_offset + offset_crc32) False c
      else write_flag_bit C avail s (dest_object_start_offset + offset_flags) PSM_OBJ_INACTIVE c)"

definition psm_copy_object :: "'c nor_chip \<Rightarrow> (nat \<Rightarrow> bool) \<Rightarrow> psm \<Rightarrow> psm_object \<Rightarrow> nat \<Rightarrow> nat \<Rightarrow> u16 \<Rightarrow> 'c \<Rightarrow> int \<times> 'c" where
  "psm_copy_object C avail s pobj source_offset dest_offset new_objid c =
     (let src_ref_crc32 = crc32 pobj;
          new = pobj\<lparr>obj_id := new_objid, crc32 := 0xFFFFFFFF\<rparr>;
          (rv, c) = psm_write_flash C avail s (object_bytes new) dest_offset False c
      in if rv \<noteq> SYS_OK then (rv, c)
         else case copy_loop C avail s (unat (name_len pobj) + unat (data_len pobj)) (source_offset + sizeof_object)
                     (dest_offset + sizeof_object) 0 c of
           ((rv, cal_crc32), c) \<Rightarrow>
             if rv \<noteq> SYS_OK then (rv, c)
             else finish_copy C avail s (psm_calc_metadata_crc32 (new\<lparr>obj_id := obj_id pobj\<rparr>) cal_crc32 = src_ref_crc32)
                    (psm_calc_metadata_crc32 new cal_crc32) dest_offset c)"

text \<open>The upgrade keeps two checksums, one of what it reads and one of what it writes.\<close>

function upgrade_loop :: "'c nor_chip \<Rightarrow> (nat \<Rightarrow> bool) \<Rightarrow> psm \<Rightarrow> nat \<Rightarrow> nat \<Rightarrow> nat \<Rightarrow> u32 \<Rightarrow> u32 \<Rightarrow> 'c \<Rightarrow> (int \<times> u32 \<times> u32) \<times> 'c" where
  "upgrade_loop C avail s remaining source_offset dest_offset src_cal_crc32 dest_cal_crc32 c =
     (if remaining = 0 then ((SYS_OK, src_cal_crc32, dest_cal_crc32), c)
      else let read_size = min READ_BUFFER_SIZE remaining;
               (rv, buf) = psm_read_flash C s read_size source_offset c
           in if rv \<noteq> SYS_OK then ((rv, src_cal_crc32, dest_cal_crc32), c)
              else let src_cal_crc32 = soft_crc32 buf src_cal_crc32;
                       (rv, c) = psm_write_flash C avail s buf dest_offset False c
                   in if rv \<noteq> SYS_OK then ((rv, src_cal_crc32, dest_cal_crc32), c)
                      else upgrade_loop C avail s (remaining - read_size) (source_offset + read_size) (dest_offset + read_size)
                             src_cal_crc32 (soft_crc32 buf dest_cal_crc32) c)"
  by pat_completeness auto
termination
  by (relation "measure (\<lambda>(C, avail, s, n, _). n)") (auto simp: READ_BUFFER_SIZE_def)

declare upgrade_loop.simps [simp del]

definition psm_upgrade_object :: "'c nor_chip \<Rightarrow> (nat \<Rightarrow> bool) \<Rightarrow> psm \<Rightarrow> psm_object \<Rightarrow> nat \<Rightarrow> nat \<Rightarrow> u16 \<Rightarrow> 'c \<Rightarrow> int \<times> 'c" where
  "psm_upgrade_object C avail s pobj source_offset dest_offset new_objid c =
     (let src_ref_crc32 = crc32 pobj;
          new = pobj\<lparr>obj_id := new_objid, crc32 := 0xFFFFFFFF\<rparr>;
          (rv, c) = psm_write_flash C avail s (object_bytes new) dest_offset False c
      in if rv \<noteq> SYS_OK then (rv, c)
         else case upgrade_loop C avail s (unat (name_len pobj) + unat (data_len pobj)) (source_offset + sizeof_object)
                     (dest_offset + sizeof_object) 0 0 c of
           ((rv, src_cal_crc32, dest_cal_crc32), c) \<Rightarrow>
             if rv \<noteq> SYS_OK then (rv, c)
             else finish_copy C avail s (psm_calc_metadata_crc32 (new\<lparr>obj_id := obj_id pobj\<rparr>) src_cal_crc32 = src_ref_crc32)
                    (psm_calc_metadata_crc32 new dest_cal_crc32) dest_offset c)"

function psm_copy_all_objects ::
    "'c nor_chip \<Rightarrow> (nat \<Rightarrow> bool) \<Rightarrow> psm \<Rightarrow> checkpoint \<Rightarrow> nat \<Rightarrow> nat \<Rightarrow> nat \<Rightarrow> nat \<Rightarrow> u16 \<Rightarrow> 'c \<Rightarrow> int \<times> 'c" where
  "psm_copy_all_objects C avail s chk source_offset source_limit dest_offset dest_limit objid_counter c =
     (if source_offset \<ge> source_limit then (SYS_OK, c)
      else if unat objid_counter \<ge> PSM_MAX_OBJECTS then (SYS_FAIL, c)
      else let (rv, pobj) = psm_read_object C s source_offset c
        in if rv \<noteq> SYS_OK then (SYS_FAIL, c)
           else if psm_is_free_space pobj then (SYS_OK, c)
           else if \<not> psm_is_data_len_sane s (unat (data_len pobj)) then (SYS_FAIL, c)
           else if object_type pobj \<noteq> OBJECT_TYPE_SMALL_BINARY then (SYS_OK, c)
           else if \<not> is_object_active pobj
             then psm_copy_all_objects C avail s chk (source_offset + object_size pobj) source_limit dest_offset dest_limit objid_counter c
           else let (rv, c) =
                  (if chk = CHECKPOINT_1 then psm_upgrade_object C avail s pobj source_offset dest_offset (objid_counter + 1) c
                   else if chk = CHECKPOINT_2 then psm_copy_object C avail s pobj source_offset dest_offset (objid_counter + 1) c
                   else (SYS_FAIL, c))
             in if rv \<noteq> SYS_OK then (rv, c)
                else if dest_offset + object_size pobj \<ge> dest_limit then (SYS_FAIL, c)
                else psm_copy_all_objects C avail s chk (source_offset + object_size pobj) source_limit
                       (dest_offset + object_size pobj) dest_limit (objid_counter + 1) c)"
  by pat_completeness auto
termination
  by (relation "measure (\<lambda>(C, avail, s, chk, so, sl, _). sl - so)") (auto simp: object_size_pos intro!: diff_less_mono2)

declare psm_copy_all_objects.simps [simp del]

section \<open>Recovery\<close>

definition get_erase_start_offset :: "psm \<Rightarrow> nat" where
  "get_erase_start_offset s =
     (if data_free_offset s mod block_size s \<noteq> 0 then align_to_block_offset s (data_free_offset s) + block_size s
      else data_free_offset s)"

text \<open>
  The switch falls through: each checkpoint does its work and goes on with the next. The argument
  of the third tells whether the data area has been erased in this run.
\<close>

definition recovery_3 :: "'c nor_chip \<Rightarrow> psm \<Rightarrow> psm_swap_desc \<Rightarrow> bool \<Rightarrow> 'c \<Rightarrow> int \<times> 'c" where
  "recovery_3 C s d data_erase_done c =
     (let erase_start = (if \<not> data_erase_done then get_erase_start_offset s else unat (swap_start_offset d));
          (rv, c) = psm_erase_flash C s erase_start (part_size s - erase_start) c
      in if rv \<noteq> SYS_OK then (SYS_FAIL, c) else (SYS_OK, c))"

definition recovery_2 :: "'c nor_chip \<Rightarrow> (nat \<Rightarrow> bool) \<Rightarrow> psm \<Rightarrow> psm_swap_desc \<Rightarrow> 'c \<Rightarrow> int \<times> 'c" where
  "recovery_2 C avail s d c =
     (let swap_start = unat (swap_start_offset d);
          (rv, c) = psm_erase_flash C s 0 swap_start c
      in if rv \<noteq> SYS_OK then (rv, c)
         else let (rv, c) = psm_copy_all_objects C avail s CHECKPOINT_2 (swap_start + PSM_DATA_SWAP_DEMARCATION)
                    (part_size s - sizeof_swap_desc) 0 swap_start 0 c
           in if rv \<noteq> SYS_OK then (rv, c)
              else let (rv, c) = invalidate_swap_descriptor C avail s c
                in if rv \<noteq> SYS_OK then (rv, c) else recovery_3 C s d True c)"

definition recovery_1 :: "'c nor_chip \<Rightarrow> (nat \<Rightarrow> bool) \<Rightarrow> psm \<Rightarrow> psm_swap_desc \<Rightarrow> bool \<Rightarrow> 'c \<Rightarrow> int \<times> 'c" where
  "recovery_1 C avail s d swap_erase_done c =
     (if \<not> swap_erase_done then (SYS_FAIL, c)
      else let (rv, c) = psm_copy_all_objects C avail s CHECKPOINT_1 0 (data_free_offset s)
                 (unat (swap_start_offset d) + PSM_DATA_SWAP_DEMARCATION) (part_size s - sizeof_swap_desc) 0 c
        in if rv \<noteq> SYS_OK then (rv, c)
           else let d = d\<lparr>checkpoint_marker := CHECKPOINT_MARKER, checkpoint_marker_inv := NOT CHECKPOINT_MARKER\<rparr>;
                    (rv, c) = write_swap_descriptor C avail s d False c
             in if rv \<noteq> SYS_OK then (SYS_FAIL, c) else recovery_2 C avail s d c)"

definition recovery_0 :: "'c nor_chip \<Rightarrow> (nat \<Rightarrow> bool) \<Rightarrow> psm \<Rightarrow> 'c \<Rightarrow> int \<times> 'c" where
  "recovery_0 C avail s c =
     (let swap_start = psm_get_swap_start_offset s;
          (rv, c) = psm_erase_flash C s swap_start (part_size s - swap_start) c
      in if rv \<noteq> SYS_OK then (SYS_FAIL, c)
         else let d = \<lparr>swap_start_offset = of_nat swap_start, swap_start_offset_inv = NOT (of_nat swap_start),
                       checkpoint_marker = 0xFFFF, checkpoint_marker_inv = 0xFFFF\<rparr>;
                  (rv, c) = write_swap_descriptor C avail s d True c
           in if rv \<noteq> SYS_OK then (SYS_FAIL, c) else recovery_1 C avail s d True c)"

definition handle_recovery :: "'c nor_chip \<Rightarrow> (nat \<Rightarrow> bool) \<Rightarrow> psm \<Rightarrow> checkpoint \<Rightarrow> psm_swap_desc \<Rightarrow> 'c \<Rightarrow> int \<times> 'c" where
  "handle_recovery C avail s chk d c =
     (case chk of
        CHECKPOINT_0 \<Rightarrow> recovery_0 C avail s c
      | CHECKPOINT_1 \<Rightarrow> recovery_1 C avail s d False c
      | CHECKPOINT_2 \<Rightarrow> recovery_2 C avail s d c
      | CHECKPOINT_3 \<Rightarrow> recovery_3 C s d False c
      | CHECKPOINT_4 \<Rightarrow> (SYS_OK, c))"

end
