(* ===== verification/Psm_Variables.thy ===== *)
theory Psm_Variables
  imports Psm_Store
begin

text \<open>
  The interface of \<^verbatim>\<open>components/psm/psm_v2.c\<close>: opening, reading, writing, closing and deleting
  objects, variables by name, and the initialisation of a partition. Names are the bytes before
  the terminating NUL; handles are the records themselves, so NULL handles and the list of
  registered partitions are left out.
\<close>

section \<open>The search\<close>

function read_and_match_name :: "'c nor_chip \<Rightarrow> psm \<Rightarrow> u8 list \<Rightarrow> nat \<Rightarrow> 'c \<Rightarrow> int" where
  "read_and_match_name C s name off c =
     (if name = [] then 1
      else let read_size = min READ_BUFFER_SIZE (length name);
               (rv, buf) = psm_read_flash C s read_size off c
           in if rv \<noteq> SYS_OK then rv
              else if take read_size name \<noteq> buf then 0
              else read_and_match_name C s (drop read_size name) (off + read_size) c)"
  by pat_completeness auto
termination
  by (relation "measure (\<lambda>(C, s, n, off, c). length n)") (auto simp: READ_BUFFER_SIZE_def)

declare read_and_match_name.simps [simp del]

text \<open>The result with the object read and the identifier mapped to the name so far.\<close>

definition read_and_match_object :: "'c nor_chip \<Rightarrow> psm \<Rightarrow> psm_object \<Rightarrow> u16 \<Rightarrow> u8 list \<Rightarrow> nat \<Rightarrow> 'c \<Rightarrow> int \<times> psm_object \<times> u16" where
  "read_and_match_object C s pobj oid name off c =
     (let (rv, p) = psm_read_object C s off c;
          matched = (\<lambda>oid. (if is_object_active p then 2 else 1, p, oid))
      in if rv \<noteq> SYS_OK then (rv, pobj, oid)
         else if psm_is_free_space p then (0, p, oid)
         else if object_type p \<noteq> OBJECT_TYPE_SMALL_BINARY then (0, p, oid)
         else if oid = PSM_INVALID_OBJ_ID then
           (if name_len p = 0 then (SYS_FAIL, p, oid)
            else if length name \<noteq> unat (name_len p) then (1, p, oid)
            else let rv = read_and_match_name C s name (off + sizeof_object) c
              in if rv < 0 then (rv, p, oid) else if rv = 0 then (1, p, oid) else matched (obj_id p))
         else if oid \<noteq> obj_id p then (1, p, oid) else matched oid)"

fun search_index_loop :: "'c nor_chip \<Rightarrow> psm \<Rightarrow> u8 list \<Rightarrow> psm_index list \<Rightarrow> nat \<Rightarrow> psm_object \<Rightarrow> 'c \<Rightarrow> nat option \<times> psm_object" where
  "search_index_loop C s name [] cnt pobj c = (None, pobj)"
| "search_index_loop C s name (e # es) cnt pobj c =
     (if soft_crc32 name 0 \<noteq> name_hash e then search_index_loop C s name es (cnt + 1) pobj c
      else case cache e of
          Some (name_buf, data_buf) \<Rightarrow>
            if length name \<noteq> length name_buf \<or> name \<noteq> name_buf then search_index_loop C s name es (cnt + 1) pobj c
            else (Some cnt, pobj)
        | None \<Rightarrow>
            let (rv, p) = psm_read_object C s (flash_offset e) c
            in if rv \<noteq> SYS_OK then (None, pobj)
               else if length name \<noteq> unat (name_len p) then search_index_loop C s name es (cnt + 1) p c
               else let rv = read_and_match_name C s name (flash_offset e + sizeof_object) c
                 in if rv < 0 then (None, p) else if rv = 1 then (Some cnt, p)
                    else search_index_loop C s name es (cnt + 1) p c)"

definition psm_search_index :: "'c nor_chip \<Rightarrow> psm \<Rightarrow> u8 list \<Rightarrow> psm_object \<Rightarrow> 'c \<Rightarrow> nat option \<times> psm_object" where
  "psm_search_index C s name pobj c = search_index_loop C s name (the (index s)) 0 pobj c"

text \<open>The result, the object, the offset where it was found, the identifier and the place in the index.\<close>

type_synonym found_object = "int \<times> psm_object \<times> nat option \<times> u16 \<times> nat option"

function search_loop :: "'c nor_chip \<Rightarrow> psm \<Rightarrow> psm_object \<Rightarrow> u16 \<Rightarrow> u8 list \<Rightarrow> nat \<Rightarrow> 'c \<Rightarrow> found_object" where
  "search_loop C s pobj oid name off c =
     (if off \<ge> object_offset_limit s then (SYS_OK, pobj, None, oid, None)
      else case read_and_match_object C s pobj oid name off c of
        (rv, pobj, oid) \<Rightarrow>
          if rv < 0 then (rv, pobj, None, oid, None)
          else if rv = 0 then (SYS_OK, pobj, None, oid, None)
          else if rv = 2 then (SYS_OK, pobj, Some off, oid, None)
          else search_loop C s pobj oid name (off + object_size pobj) c)"
  by pat_completeness auto
termination
  by (relation "measure (\<lambda>(C, s, p, oid, name, off, c). object_offset_limit s - off)")
    (auto simp: object_size_pos intro!: diff_less_mono2)

declare search_loop.simps [simp del]

definition search_active_object :: "'c nor_chip \<Rightarrow> psm \<Rightarrow> psm_object \<Rightarrow> u8 list \<Rightarrow> 'c \<Rightarrow> found_object" where
  "search_active_object C s pobj name c =
     (let (hit, pobj) = (if index s \<noteq> None then psm_search_index C s name pobj c else (None, pobj))
      in case hit of
           Some i \<Rightarrow>
             let e = the (index s) ! i;
                 pobj = pobj\<lparr>obj_id := index_obj_id e\<rparr>;
                 pobj = (case cache e of None \<Rightarrow> pobj
                   | Some (n, d) \<Rightarrow> pobj\<lparr>data_len := of_nat (length d), name_len := of_nat (length n)\<rparr>)
             in (SYS_OK, pobj, Some (flash_offset e), PSM_INVALID_OBJ_ID, Some i)
         | None \<Rightarrow> search_loop C s pobj PSM_INVALID_OBJ_ID name 0 c)"

section \<open>Opening\<close>

datatype psm_mode = PSM_MODE_READ | PSM_MODE_WRITE

record psm_objinfo =
  pobj :: psm_object
  object_flash_offset :: nat
  curr_flash_offset :: nat
  mode :: psm_mode
  max_data_len :: nat
  oi_crc32 :: u32
  old_active_object_present :: bool
  old_object_flash_offset :: nat
  old_object_size :: nat
  oi_index :: "nat option"

definition zero_object :: psm_object where
  "zero_object = \<lparr>object_type = 0, flags = 0, crc32 = 0, data_len = 0, obj_id = 0, name_len = 0\<rparr>"

definition PSM_INDEXING_ENABLED :: u32 where "PSM_INDEXING_ENABLED = 0x01"
definition PSM_CACHING_ENABLED :: u32 where "PSM_CACHING_ENABLED = 0x02"

definition object_flags :: "u32 option \<Rightarrow> u8" where
  "object_flags attribs =
     (case attribs of None \<Rightarrow> 0xFF
      | Some a \<Rightarrow>
          let f = (if a AND PSM_INDEXING_ENABLED \<noteq> 0 then 0xFF AND NOT PSM_OBJ_INDEX_REQ else 0xFF)
          in if a AND PSM_CACHING_ENABLED \<noteq> 0 then f AND NOT PSM_OBJ_CACHE_REQ else f)"

definition psm_init_new_object :: "u16 \<Rightarrow> nat \<Rightarrow> u32 option \<Rightarrow> psm_mode \<Rightarrow> nat \<Rightarrow> psm_objinfo" where
  "psm_init_new_object oid nlen attribs m max_len =
     \<lparr>pobj = \<lparr>object_type = OBJECT_TYPE_SMALL_BINARY, flags = object_flags attribs, crc32 = 0xFFFFFFFF, data_len = 0xFFFF,
        obj_id = oid, name_len = of_nat nlen\<rparr>,
      object_flash_offset = 0, curr_flash_offset = 0, mode = m, max_data_len = max_len, oi_crc32 = 0,
      old_active_object_present = False, old_object_flash_offset = 0, old_object_size = 0, oi_index = None\<rparr>"

definition psm_is_objid_available :: "psm \<Rightarrow> bool" where
  "psm_is_objid_available s \<longleftrightarrow> highest_used_obj_id s \<noteq> PSM_INVALID_OBJ_ID - 1"

definition psm_get_unused_obj_id :: "psm \<Rightarrow> u16 \<times> psm" where
  "psm_get_unused_obj_id s =
     (if unat (highest_used_obj_id s) \<ge> PSM_MAX_OBJECTS then (PSM_INVALID_OBJ_ID, s)
      else (highest_used_obj_id s + 1, s\<lparr>highest_used_obj_id := highest_used_obj_id s + 1\<rparr>))"

text \<open>Whether the new object fits, and whether it needs a compaction.\<close>

definition manage_space_constraints :: "psm \<Rightarrow> nat \<Rightarrow> int \<times> bool" where
  "manage_space_constraints s new_obj_size =
     (if \<not> psm_is_data_len_sane s new_obj_size then (SYS_E_INVAL, False)
      else let proposed_active = total_active_object_size s + new_obj_size;
               proposed_swap = align_to_block_offset s
                 (sub32 (part_size s - sizeof_swap_desc - PSM_DATA_SWAP_DEMARCATION) proposed_active);
               proposed_free = data_free_offset s + new_obj_size
           in if proposed_free < proposed_swap then (SYS_OK, False)
              else if proposed_active > proposed_swap then (SYS_E_NOSPC, False)
              else (SYS_OK, True))"

definition any_desc :: psm_swap_desc where
  "any_desc = \<lparr>swap_start_offset = 0, swap_start_offset_inv = 0, checkpoint_marker = 0, checkpoint_marker_inv = 0\<rparr>"

definition psm_part_compact :: "'c nor_chip \<Rightarrow> (nat \<Rightarrow> bool) \<Rightarrow> psm \<Rightarrow> 'c \<Rightarrow> (int \<times> psm) option \<times> 'c" where
  "psm_part_compact C avail s c =
     (let (rv, c) = handle_recovery C avail s CHECKPOINT_0 any_desc c
      in if rv \<noteq> SYS_OK then (Some (rv, s), c) else psm_part_scan C avail s c)"

definition open_space :: "'c nor_chip \<Rightarrow> (nat \<Rightarrow> bool) \<Rightarrow> psm \<Rightarrow> nat \<Rightarrow> 'c \<Rightarrow> (int \<times> psm) option \<times> 'c" where
  "open_space C avail s new_size c =
     (if read_only s then (Some (SYS_E_PERM, s), c)
      else let (rv, compaction_reqd) = manage_space_constraints s new_size
        in if rv \<noteq> SYS_OK then (Some (rv, s), c)
           else if compaction_reqd then psm_part_compact C avail s c
           else (Some (SYS_OK, s), c))"

text \<open>The end of opening for writing: the header, still without length and checksum, and the name.\<close>

definition open_write :: "'c nor_chip \<Rightarrow> (nat \<Rightarrow> bool) \<Rightarrow> psm \<Rightarrow> psm_objinfo \<Rightarrow> u8 list \<Rightarrow> nat option \<Rightarrow> 'c \<Rightarrow> (int \<times> psm \<times> psm_objinfo) \<times> 'c" where
  "open_write C avail s oi name i c =
     (let oi = oi\<lparr>object_flash_offset := data_free_offset s, curr_flash_offset := data_free_offset s\<rparr>;
          (rv, c) = psm_write_flash C avail s (object_bytes (pobj oi)) (curr_flash_offset oi) False c
      in if rv \<noteq> SYS_OK then ((rv, s, oi), c)
         else let oi = oi\<lparr>pobj := (pobj oi)\<lparr>data_len := 0\<rparr>, curr_flash_offset := curr_flash_offset oi + sizeof_object\<rparr>;
                  (rv, c) = psm_write_flash C avail s name (curr_flash_offset oi) False c
           in if rv \<noteq> SYS_OK then ((rv, s, oi), c)
              else ((SYS_OK, (case i of None \<Rightarrow> s | Some i \<Rightarrow> psm_remove_index_entry s i),
                     oi\<lparr>pobj := (pobj oi)\<lparr>crc32 := soft_crc32 name 0\<rparr>, curr_flash_offset := curr_flash_offset oi + length name\<rparr>), c))"

definition psm_open :: "'c nor_chip \<Rightarrow> (nat \<Rightarrow> bool) \<Rightarrow> psm \<Rightarrow> u8 list \<Rightarrow> psm_mode \<Rightarrow> nat \<Rightarrow> u32 option \<Rightarrow> psm_objinfo \<Rightarrow> 'c \<Rightarrow>
    (int \<times> psm \<times> psm_objinfo) option \<times> 'c" where
  "psm_open C avail s name m max_len attribs oi0 c =
     (if name = [] \<or> length name > PSM_MAX_OBJNAME_LEN then (Some (SYS_E_INVAL, s, oi0), c)
      else case (if m = PSM_MODE_WRITE then open_space C avail s (sizeof_object + length name + max_len) c else (Some (SYS_OK, s), c)) of
        (None, c) \<Rightarrow> (None, c)
      | (Some (rv, s), c) \<Rightarrow>
          if rv \<noteq> SYS_OK then (Some (rv, s, oi0), c)
          else case search_active_object C s zero_object name c of
            (rv, p, found, oid, i) \<Rightarrow>
              if rv \<noteq> SYS_OK then (Some (rv, s, oi0), c)
              else if m = PSM_MODE_READ then
                (case found of
                   None \<Rightarrow> (Some (SYS_FAIL, s, oi0), c)
                 | Some off \<Rightarrow> (Some (SYS_OK, s, \<lparr>pobj = p, object_flash_offset = off, curr_flash_offset = off + metadata_size p,
                     mode = m, max_data_len = 0, oi_crc32 = soft_crc32 name 0, old_active_object_present = False,
                     old_object_flash_offset = 0, old_object_size = 0, oi_index = i\<rparr>), c))
              else case found of
                   Some off \<Rightarrow>
                     let oi = (psm_init_new_object (obj_id p) (length name) attribs m max_len)
                           \<lparr>old_active_object_present := True, old_object_flash_offset := off, old_object_size := object_size p\<rparr>;
                         (r, c) = open_write C avail s oi name i c
                     in (Some r, c)
                 | None \<Rightarrow>
                     if \<not> psm_is_objid_available s then (Some (SYS_E_NOSPC, s, oi0), c)
                     else let (new_obj_id, s) = (if oid = PSM_INVALID_OBJ_ID then psm_get_unused_obj_id s else (oid, s));
                              (r, c) = open_write C avail s (psm_init_new_object new_obj_id (length name) attribs m max_len) name i c
                          in (Some r, c))"

section \<open>Reading, writing, closing, deleting\<close>

definition psm_write :: "'c nor_chip \<Rightarrow> (nat \<Rightarrow> bool) \<Rightarrow> psm \<Rightarrow> psm_objinfo \<Rightarrow> u8 list \<Rightarrow> 'c \<Rightarrow> (int \<times> psm_objinfo) \<times> 'c" where
  "psm_write C avail s oi data c =
     (let p = pobj oi
      in if data = [] then ((SYS_OK, oi), c)
         else if sub32 (max_data_len oi) (unat (data_len p)) < length data then ((SYS_E_NOSPC, oi), c)
         else let (rv, c) = psm_write_flash C avail s data (curr_flash_offset oi) False c
           in if rv \<noteq> SYS_OK then ((rv, oi), c)
              else ((SYS_OK, oi\<lparr>pobj := p\<lparr>crc32 := soft_crc32 data (crc32 p), data_len := data_len p + of_nat (length data)\<rparr>,
                     curr_flash_offset := curr_flash_offset oi + length data\<rparr>), c))"

definition psm_read :: "'c nor_chip \<Rightarrow> psm \<Rightarrow> psm_objinfo \<Rightarrow> nat \<Rightarrow> 'c \<Rightarrow> int \<times> u8 list \<times> psm_objinfo" where
  "psm_read C s oi max_len c =
     (let p = pobj oi;
          remaining = sub32 (unat (data_len p)) (curr_flash_offset oi - (object_flash_offset oi + metadata_size p));
          read_size = min remaining max_len;
          cached = (case oi_index oi of None \<Rightarrow> None | Some i \<Rightarrow> cache (the (index s) ! i))
      in if max_len = 0 then (SYS_OK, [], oi)
         else if remaining = 0 then (0, [], oi)
         else case cached of
             Some (name_buf, data_buf) \<Rightarrow>
               (int read_size, take read_size (drop (unat (data_len p) - remaining) data_buf),
                oi\<lparr>curr_flash_offset := curr_flash_offset oi + read_size\<rparr>)
           | None \<Rightarrow>
               let (rv, buf) = psm_read_flash C s read_size (curr_flash_offset oi) c
               in if rv \<noteq> SYS_OK then (rv, buf, oi)
                  else let crc = soft_crc32 buf (oi_crc32 oi);
                           crc = (if remaining = read_size then psm_calc_metadata_crc32 p crc else crc)
                    in if remaining = read_size \<and> crc \<noteq> crc32 p then (SYS_E_CRC, buf, oi\<lparr>oi_crc32 := crc\<rparr>)
                       else (int read_size, buf, oi\<lparr>oi_crc32 := crc, curr_flash_offset := curr_flash_offset oi + read_size\<rparr>))"

definition psm_close :: "'c nor_chip \<Rightarrow> (nat \<Rightarrow> bool) \<Rightarrow> psm \<Rightarrow> psm_objinfo \<Rightarrow> 'c \<Rightarrow> (int \<times> psm) \<times> 'c" where
  "psm_close C avail s oi c =
     (if mode oi = PSM_MODE_READ then ((SYS_OK, s), c)
      else let p = (pobj oi)\<lparr>crc32 := psm_calc_metadata_crc32 (pobj oi) (crc32 (pobj oi))\<rparr>;
               (rv, c) = psm_write_flash C avail s (le32 (crc32 p) @ le16 (data_len p)) (object_flash_offset oi + offset_crc32) False c
        in if rv \<noteq> SYS_OK then ((rv, s), c)
           else let s = s\<lparr>total_active_object_size := total_active_object_size s + object_size p\<rparr>;
                    (s, c) =
                      (if old_active_object_present oi
                       then let (rv, c) = write_flag_bit C avail s (old_object_flash_offset oi + offset_flags) PSM_OBJ_INACTIVE c
                            in (s\<lparr>total_active_object_size := sub32 (total_active_object_size s) (old_object_size oi)\<rparr>, c)
                       else (s, c));
                    s = s\<lparr>data_free_offset := data_free_offset s + object_size p\<rparr>
             in ((SYS_OK, if is_object_indexable p then psm_add_to_index C avail s p (object_flash_offset oi) c else s), c))"

definition psm_object_delete :: "'c nor_chip \<Rightarrow> (nat \<Rightarrow> bool) \<Rightarrow> psm \<Rightarrow> u8 list \<Rightarrow> 'c \<Rightarrow> (int \<times> psm) \<times> 'c" where
  "psm_object_delete C avail s name c =
     (if name = [] \<or> length name > PSM_MAX_OBJNAME_LEN then ((SYS_E_INVAL, s), c)
      else case search_active_object C s zero_object name c of
        (rv, p, found, oid, i) \<Rightarrow>
          if rv \<noteq> SYS_OK then ((rv, s), c)
          else case found of
              None \<Rightarrow> ((SYS_OK, s), c)
            | Some off \<Rightarrow>
                let (rv, c) = write_flag_bit C avail s (off + offset_flags) PSM_OBJ_INACTIVE c
                in if rv \<noteq> SYS_OK then ((rv, s), c)
                   else let s = s\<lparr>total_active_object_size := sub32 (total_active_object_size s) (object_size p)\<rparr>
                     in ((SYS_OK, case i of None \<Rightarrow> s | Some i \<Rightarrow> psm_remove_index_entry s i), c))"

section \<open>The interface with handles\<close>

definition sizeof_objinfo :: nat where "sizeof_objinfo = 56"

definition any_objinfo :: psm_objinfo where
  "any_objinfo = psm_init_new_object 0 0 None PSM_MODE_READ 0"

definition psm_object_open :: "'c nor_chip \<Rightarrow> (nat \<Rightarrow> bool) \<Rightarrow> psm \<Rightarrow> u8 list \<Rightarrow> psm_mode \<Rightarrow> nat \<Rightarrow> u32 option \<Rightarrow> 'c \<Rightarrow>
    (int \<times> psm \<times> psm_objinfo option) option \<times> 'c" where
  "psm_object_open C avail s name m max_len attribs c =
     (if m = PSM_MODE_WRITE \<and> \<not> psm_is_data_len_sane s max_len then (Some (SYS_E_INVAL, s, None), c)
      else let attribs = map_option (\<lambda>a. if a AND PSM_CACHING_ENABLED \<noteq> 0 then a OR PSM_INDEXING_ENABLED else a) attribs
        in if \<not> avail sizeof_objinfo then (Some (SYS_E_NOMEM, s, None), c)
           else case psm_open C avail s name m max_len attribs any_objinfo c of
             (None, c) \<Rightarrow> (None, c)
           | (Some (rv, s, oi), c) \<Rightarrow>
               if rv \<noteq> SYS_OK then (Some (rv, s, None), c)
               else (Some (if m = PSM_MODE_WRITE then SYS_OK else int (unat (data_len (pobj oi))), s, Some oi), c))"

definition psm_object_read :: "'c nor_chip \<Rightarrow> psm \<Rightarrow> psm_objinfo \<Rightarrow> nat \<Rightarrow> 'c \<Rightarrow> int \<times> u8 list \<times> psm_objinfo" where
  "psm_object_read C s oi max_len c = (if max_len = 0 then (SYS_E_INVAL, [], oi) else psm_read C s oi max_len c)"

definition psm_object_write :: "'c nor_chip \<Rightarrow> (nat \<Rightarrow> bool) \<Rightarrow> psm \<Rightarrow> psm_objinfo \<Rightarrow> u8 list \<Rightarrow> 'c \<Rightarrow> (int \<times> psm_objinfo) \<times> 'c" where
  "psm_object_write C avail s oi data c =
     (if data = [] then ((SYS_E_INVAL, oi), c)
      else if mode oi \<noteq> PSM_MODE_WRITE then ((SYS_E_PERM, oi), c)
      else psm_write C avail s oi data c)"

definition psm_set_variable :: "'c nor_chip \<Rightarrow> (nat \<Rightarrow> bool) \<Rightarrow> psm \<Rightarrow> u8 list \<Rightarrow> u8 list \<Rightarrow> 'c \<Rightarrow> (int \<times> psm) option \<times> 'c" where
  "psm_set_variable C avail s variable val c =
     (if \<not> psm_is_data_len_sane s (length val) then (Some (SYS_E_INVAL, s), c)
      else case psm_open C avail s variable PSM_MODE_WRITE (length val) None any_objinfo c of
        (None, c) \<Rightarrow> (None, c)
      | (Some (rv, s, oi), c) \<Rightarrow>
          if rv \<noteq> SYS_OK then (Some (rv, s), c)
          else let ((rv, oi), c) = psm_write C avail s oi val c
            in if rv \<noteq> SYS_OK then (Some (rv, s), c)
               else let ((rv, s), c) = psm_close C avail s oi c in (Some (rv, s), c))"

text \<open>The result with what is stored in the buffer; nothing is written to flash.\<close>

definition psm_get_variable :: "'c nor_chip \<Rightarrow> (nat \<Rightarrow> bool) \<Rightarrow> psm \<Rightarrow> u8 list \<Rightarrow> nat \<Rightarrow> 'c \<Rightarrow> (int \<times> u8 list) option" where
  "psm_get_variable C avail s variable max_len c =
     (if max_len = 0 then Some (SYS_E_INVAL, [])
      else case fst (psm_open C avail s variable PSM_MODE_READ 0 None any_objinfo c) of
        None \<Rightarrow> None
      | Some (rv, s, oi) \<Rightarrow>
          if rv \<noteq> SYS_OK then Some (rv, [])
          else if unat (data_len (pobj oi)) > max_len then
            let ((rv, s), c) = psm_close C avail s oi c in Some (if rv \<noteq> SYS_OK then rv else SYS_E_NOSPC, [])
          else let (read_len, buf, oi) = psm_read C s oi max_len c
            in if read_len < SYS_OK then Some (rv, buf)
               else let ((rv, s), c) = psm_close C avail s oi c in Some (if rv \<noteq> SYS_OK then rv else read_len, buf))"

definition psm_get_variable_size :: "'c nor_chip \<Rightarrow> (nat \<Rightarrow> bool) \<Rightarrow> psm \<Rightarrow> u8 list \<Rightarrow> 'c \<Rightarrow> int option" where
  "psm_get_variable_size C avail s variable c =
     (case fst (psm_open C avail s variable PSM_MODE_READ 0 None any_objinfo c) of
        None \<Rightarrow> None
      | Some (rv, s, oi) \<Rightarrow>
          if rv \<noteq> SYS_OK then Some rv
          else let ((rv, s), c) = psm_close C avail s oi c in Some (if rv \<noteq> SYS_OK then rv else int (unat (data_len (pobj oi)))))"

definition psm_is_variable_present :: "'c nor_chip \<Rightarrow> (nat \<Rightarrow> bool) \<Rightarrow> psm \<Rightarrow> u8 list \<Rightarrow> 'c \<Rightarrow> bool option" where
  "psm_is_variable_present C avail s variable c = map_option (\<lambda>n. n \<ge> 0) (psm_get_variable_size C avail s variable c)"

text \<open>Strings and numbers: the text is stored without its NUL, which the getter appends.\<close>

definition psm_set_variable_str :: "'c nor_chip \<Rightarrow> (nat \<Rightarrow> bool) \<Rightarrow> psm \<Rightarrow> u8 list \<Rightarrow> string \<Rightarrow> 'c \<Rightarrow> (int \<times> psm) option \<times> 'c" where
  "psm_set_variable_str C avail s variable val c = psm_set_variable C avail s variable (map of_char val) c"

definition psm_get_variable_str :: "'c nor_chip \<Rightarrow> (nat \<Rightarrow> bool) \<Rightarrow> psm \<Rightarrow> u8 list \<Rightarrow> nat \<Rightarrow> 'c \<Rightarrow> (int \<times> u8 list) option" where
  "psm_get_variable_str C avail s variable max_len c =
     (if max_len = 0 then Some (SYS_E_INVAL, [])
      else do { (ret, valp) \<leftarrow> psm_get_variable C avail s variable (max_len - 1) c;
                Some (ret, if ret \<ge> 0 then take (nat ret) valp @ [0] else valp) })"

definition psm_set_variable_int :: "'c nor_chip \<Rightarrow> (nat \<Rightarrow> bool) \<Rightarrow> psm \<Rightarrow> u8 list \<Rightarrow> int \<Rightarrow> 'c \<Rightarrow> (int \<times> psm) option \<times> 'c" where
  "psm_set_variable_int C avail s variable val c = psm_set_variable_str C avail s variable (format_d val) c"

end
