(* ===== verification/Psm_Module.thy ===== *)
theory Psm_Module
  imports Psm_Variables
begin

text \<open>
  Starting, formatting and listing a partition (\<^verbatim>\<open>components/psm/psm_v2.c\<close>), and the layer of the
  application above the store (\<^verbatim>\<open>app/project_psm_control.c\<close>): settings by module and name.
\<close>

section \<open>Initialisation\<close>

text \<open>\<open>cfg\<close> is the pair of the flags read-only and secure, if a configuration is given.\<close>

definition psm_init_verify_params :: "nat \<Rightarrow> nat \<Rightarrow> (bool \<times> bool) option \<Rightarrow> int" where
  "psm_init_verify_params fl_size blk cfg =
     (if fl_size = 0 then SYS_E_INVAL
      else let cnt = fl_size div blk;
               min_block_cnt_req = (if cfg \<noteq> None \<and> fst (the cfg) then 1 else 2)
           in if cnt < min_block_cnt_req then SYS_E_PERM
              else if blk < 64 then SYS_E_INVAL else SYS_OK)"

definition deduce_checkpoint_at_init :: "'c nor_chip \<Rightarrow> psm \<Rightarrow> 'c \<Rightarrow> int \<times> checkpoint \<times> psm_swap_desc" where
  "deduce_checkpoint_at_init C s c =
     (let (rv, b) = read_swap_descriptor C s c; d = swap_desc_of b
      in if rv \<noteq> SYS_OK then (rv, CHECKPOINT_4, d)
         else if \<forall>x \<in> set b. x = 0xFF then (SYS_OK, CHECKPOINT_4, d)
         else if checkpoint_marker d = NOT (checkpoint_marker_inv d) then
           (if swap_start_offset d = NOT (swap_start_offset_inv d) then (SYS_OK, CHECKPOINT_2, d) else (SYS_OK, CHECKPOINT_3, d))
         else (SYS_OK, CHECKPOINT_3, d))"

definition psm_module_physical_init :: "'c nor_chip \<Rightarrow> (nat \<Rightarrow> bool) \<Rightarrow> psm \<Rightarrow> 'c \<Rightarrow> (int \<times> psm) option \<times> 'c" where
  "psm_module_physical_init C avail s c =
     (case deduce_checkpoint_at_init C s c of
        (rv, chk, d) \<Rightarrow>
          if rv \<noteq> SYS_OK then (Some (rv, s), c)
          else case (if chk = CHECKPOINT_2 then (Some (SYS_OK, chk, s), c)
                     else case psm_part_scan C avail s c of
                       (None, c) \<Rightarrow> (None, c)
                     | (Some (rv, s), c) \<Rightarrow>
                         if rv = SYS_OK then (Some (SYS_OK, chk, s), c)
                         else let (rv, compaction_reqd) = manage_space_constraints s 0
                           in (Some (rv, CHECKPOINT_0, s), c)) of
              (None, c) \<Rightarrow> (None, c)
            | (Some (rv, chk, s), c) \<Rightarrow>
                if rv \<noteq> SYS_OK then (Some (rv, s), c)
                else let (rv, c) = handle_recovery C avail s chk d c
                  in if rv \<noteq> SYS_OK then (Some (rv, s), c)
                     else if chk \<noteq> CHECKPOINT_4 then psm_part_scan C avail s c
                     else (Some (rv, s), c))"

definition new_psm :: "u8 \<Rightarrow> nat \<Rightarrow> nat \<Rightarrow> (bool \<times> bool) option \<Rightarrow> psm" where
  "new_psm dev start fl_size cfg =
     (let cnt = fl_size div PSM_FLASH_SECTOR_SIZE;
          whole = PSM_FLASH_SECTOR_SIZE * cnt;
          (ro, sec) = (case cfg of None \<Rightarrow> (False, False) | Some x \<Rightarrow> x)
      in \<lparr>total_active_object_size = 0,
          object_offset_limit = (if \<not> ro then whole - PSM_FLASH_SECTOR_SIZE - sizeof_object else whole - sizeof_object),
          data_free_offset = 0, highest_used_obj_id = 0, index_max_elements = 0, index = None,
          read_only = ro, secure = sec, fdesc_fl_dev = dev, block_size = PSM_FLASH_SECTOR_SIZE, block_cnt = cnt,
          part_size = whole, start_address = start\<rparr>)"

definition sizeof_psm :: nat where "sizeof_psm = 88"

text \<open>The partition is not registered yet.\<close>

definition psm_module_init :: "'c nor_chip \<Rightarrow> (nat \<Rightarrow> bool) \<Rightarrow> u8 \<Rightarrow> nat \<Rightarrow> nat \<Rightarrow> (bool \<times> bool) option \<Rightarrow> 'c \<Rightarrow> (int \<times> psm option) option \<times> 'c" where
  "psm_module_init C avail dev start fl_size cfg c =
     (let rv = psm_init_verify_params fl_size PSM_FLASH_SECTOR_SIZE cfg
      in if rv \<noteq> SYS_OK then (Some (rv, None), c)
         else if \<not> avail sizeof_psm then (Some (SYS_E_NOMEM, None), c)
         else case psm_module_physical_init C avail (new_psm dev start fl_size cfg) c of
             (None, c) \<Rightarrow> (None, c)
           | (Some (rv, s), c) \<Rightarrow> (Some (rv, if rv \<noteq> SYS_OK then None else Some s), c))"

definition psm_format :: "'c nor_chip \<Rightarrow> (nat \<Rightarrow> bool) \<Rightarrow> psm \<Rightarrow> 'c \<Rightarrow> (int \<times> psm) option \<times> 'c" where
  "psm_format C avail s c =
     (let s = psm_reset_index s;
          (rv, c) = psm_erase_flash C s 0 (part_size s) c
      in if rv \<noteq> SYS_OK then (Some (rv, s), c) else psm_part_scan C avail s c)"

section \<open>Listing\<close>

text \<open>The names given to the callback, until it yields something else than success.\<close>

definition list_object :: "'c nor_chip \<Rightarrow> psm \<Rightarrow> psm_object \<Rightarrow> nat \<Rightarrow> (u8 list \<Rightarrow> int) \<Rightarrow> 'c \<Rightarrow> int \<times> u8 list list" where
  "list_object C s p object_offset list_cb c =
     (if unat (name_len p) > READ_BUFFER_SIZE then (SYS_FAIL, [])
      else let (rv, buf) = psm_read_flash C s (unat (name_len p)) (object_offset + sizeof_object) c
        in if rv \<noteq> SYS_OK then (SYS_FAIL, []) else (list_cb buf, [buf]))"

function psm_objects_list_loop :: "'c nor_chip \<Rightarrow> psm \<Rightarrow> nat \<Rightarrow> (u8 list \<Rightarrow> int) \<Rightarrow> 'c \<Rightarrow> u8 list list" where
  "psm_objects_list_loop C s off list_cb c =
     (if off \<ge> object_offset_limit s then []
      else let (rv, p) = psm_read_object C s off c
        in if rv \<noteq> SYS_OK \<or> psm_is_free_space p \<or> object_type p \<noteq> OBJECT_TYPE_SMALL_BINARY then []
           else if \<not> is_object_active p \<or> name_len p = 0 then psm_objects_list_loop C s (off + object_size p) list_cb c
           else let (rv, names) = list_object C s p off list_cb c
             in if rv \<noteq> SYS_OK then names else names @ psm_objects_list_loop C s (off + object_size p) list_cb c)"
  by pat_completeness auto
termination
  by (relation "measure (\<lambda>(C, s, off, cb, c). object_offset_limit s - off)")
    (auto simp: object_size_pos intro!: diff_less_mono2)

declare psm_objects_list_loop.simps [simp del]

definition psm_objects_list :: "'c nor_chip \<Rightarrow> psm \<Rightarrow> (u8 list \<Rightarrow> int) \<Rightarrow> 'c \<Rightarrow> u8 list list" where
  "psm_objects_list C s list_cb c = psm_objects_list_loop C s 0 list_cb c"

end
