(* ===== verification/Spec2Isabelle.thy ===== *)
theory Spec2Isabelle
  imports Cb_Properties Mb_Properties Autoeclosing Lock_Relay Client_Outcomes Ring_Buffer Time_Properties Json_Properties Command_Properties Psm_Module
begin

text \<open>
  The gateway firmware (application code under \<^verbatim>\<open>app/\<close>, its components under
  \<^verbatim>\<open>components/\<close>) connects the devices of a street cabinet with a cloud: power
  monitoring boards, circuit breakers and a recloser on serial lines, a lock, and an MQTT broker
  reached through a W5500 Ethernet chip. Threads talk to the devices and keep what they learn in
  the shared structure \<^verbatim>\<open>g_device_data\<close>; the MQTT side reads it and sets commands in it.

  How the code is modelled. A C structure is a record, an array a list of its declared length,
  an integer a word of its width. A function that changes the state takes and yields it; an
  access outside an array is the value \<^const>\<open>None\<close>, a C return code an ordinary
  value. Interrupt routines are functions on the state; a thread that sleeps takes the lists of
  the interrupts that arrive in the ticks of its sleep, so every interleaving of the two is an
  argument. One iteration of a thread's loop is one function.

  Parts and theories.
  \<^item> \<^verbatim>\<open>Gateway_Prelude\<close>: C types, byte packing, arrays, result codes
    (\<^verbatim>\<open>components/os/sys_errno.h\<close>).
  \<^item> \<^verbatim>\<open>Device_Data\<close>: \<^verbatim>\<open>sys_type\<close> of
    \<^verbatim>\<open>app/project_config.h\<close>, the fields the modelled code uses.
  \<^item> \<^verbatim>\<open>Modbus_Crc\<close>: the CRC-16 of the three serial protocols; that a burst in
    two neighbouring bytes is always detected.
  \<^item> \<^verbatim>\<open>Uart_Receiver\<close>: interrupts, ticks, and the interface of a receiver that
    the breaker and the recloser provide.
  \<^item> \<^verbatim>\<open>Cb_Registers\<close>, \<^verbatim>\<open>Circuit_Breaker\<close>,
    \<^verbatim>\<open>Cb_Scan\<close>, \<^verbatim>\<open>Cb_Properties\<close>:
    \<^verbatim>\<open>app/circuit_breaker_rs485_handle.c\<close>, the Modbus master of the breakers: register
    images, receiver, requests, replies, bus scan and control thread.
  \<^item> \<^verbatim>\<open>Monitor_Board\<close>, \<^verbatim>\<open>Mb_Properties\<close>:
    \<^verbatim>\<open>app/monitor_board_handle.c\<close>, the frame receiver of the power boards with its state
    machine, the relay loop and the accessors.
  \<^item> \<^verbatim>\<open>Autoeclosing\<close>: \<^verbatim>\<open>app/autoeclosing_rs485_handle.c\<close>, the recloser.
  \<^item> \<^verbatim>\<open>Lock_Relay\<close>: \<^verbatim>\<open>app/lock_rs485_handle.c\<close>, the relay between
    lock and TCP server.
  \<^item> \<^verbatim>\<open>Mqtt_Wire\<close>, \<^verbatim>\<open>Mqtt_Messages\<close>,
    \<^verbatim>\<open>Mqtt_Properties\<close>: \<^verbatim>\<open>components/mqtt\<close>, the packets of MQTT 3.1.1: round
    trips of serializers and parsers, and what the parsers make of malformed packets.
  \<^item> \<^verbatim>\<open>Eth_Network\<close>: \<^verbatim>\<open>app/eth_to_freertos.c\<close> with the two kernel
    functions of \<^verbatim>\<open>components/freertos/tasks.c\<close> that its timers rest on: timers are exact,
    reads and writes return, also when the socket stays busy for ever.
  \<^item> \<^verbatim>\<open>Mqtt_Client\<close>, \<^verbatim>\<open>Client_Properties\<close>,
    \<^verbatim>\<open>Client_Invariant\<close>, \<^verbatim>\<open>Client_Outcomes\<close>:
    \<^verbatim>\<open>app/eth_to_mqtt.c\<close>, the client: packets in and out, receive cycle, operations. The
    network is an interface (\<^verbatim>\<open>mqtt_net\<close>: a read stores at most what was asked for;
    \<^verbatim>\<open>mqtt_link\<close>: a working link delivers the bytes in order to reads of a given patience);
    the Ethernet socket provides it twice, with everything arrived and a tick of patience, and with
    one burst of data and none, which is how the program polls. Topic matching against a specification by levels, the invariant of every reachable client,
    and what the operations achieve on a working link.
  \<^item> \<^verbatim>\<open>Ring_Buffer\<close>:
    \<^verbatim>\<open>components/at_nb_device/core_ring_buffer.c\<close>, a refinement of a bounded queue.
  \<^item> \<^verbatim>\<open>Sys_Time\<close>, \<^verbatim>\<open>Time_Properties\<close>:
    \<^verbatim>\<open>components/sys_time\<close>, the clock and the calendar; the conversions are inverse to each
    other, the date formats of HTTP are read.

  \<^item> \<^verbatim>\<open>Fallible\<close>, \<^verbatim>\<open>Jsmn\<close>,
    \<^verbatim>\<open>Jsmn_Tree\<close>, \<^verbatim>\<open>Json_Parser\<close>: the tokenizer
    \<^verbatim>\<open>components/jsmn\<close> and the parser \<^verbatim>\<open>components/json_parser\<close>; the
    tokens of any text are a forest laid out in preorder, with parent links and sizes.
  \<^item> \<^verbatim>\<open>Json_Safety\<close>, \<^verbatim>\<open>Json_Lookup\<close>: the counting pass and
    the second pass agree; validation is exact; lookups stay inside the tokens.
  \<^item> \<^verbatim>\<open>Json_Text\<close>, \<^verbatim>\<open>Json_Run\<close>,
    \<^verbatim>\<open>Json_Document\<close>, \<^verbatim>\<open>Json_Properties\<close>: JSON as a
    grammar, the tokens of its texts, and that a parsed document reads as its text says.
  \<^item> \<^verbatim>\<open>C_Text\<close>: the functions of the C library on texts.
  \<^item> \<^verbatim>\<open>Flash_Driver\<close>: the flash driver
    \<^verbatim>\<open>peripheral_drivers/qspi_w25q64\<close> over a NOR chip, a parameter with the
    hypothesis \<open>chip_ok\<close> on what its commands do when power fails or stays; a concrete
    chip satisfies it.
  \<^item> \<^verbatim>\<open>Psm_Crc32\<close>, \<^verbatim>\<open>Psm_Flash\<close>,
    \<^verbatim>\<open>Psm_Store\<close>, \<^verbatim>\<open>Psm_Variables\<close>,
    \<^verbatim>\<open>Psm_Module\<close>: \<^verbatim>\<open>components/psm\<close>, the store of settings:
    its checksum, the layout of the objects, index and scan, compaction with its checkpoints and the
    recovery after a power failure, the operations on variables, initialisation.
  \<^item> \<^verbatim>\<open>Mqtt_Command\<close>, \<^verbatim>\<open>Command_Properties\<close>: the
    handler of commands from the cloud, \<^verbatim>\<open>mqtt_subscribe_command\<close> of
    \<^verbatim>\<open>app/eth_mqtt_handle.c\<close>, between the JSON parser, the shared device data and the
    settings of the breakers: from the text of a command to the frame on the serial line.

  Bounds and fuel. Loops bounded by a counter of the code are recursive functions with a measure;
  the loops of the network code are partial functions whose value \<^const>\<open>None\<close>
  includes not returning, and are shown to return. A serial wait is bounded by the code's own
  timeout. No definition uses fuel.

  Not modelled: register access and pin setup, thread creation, logging; the search for power
  boards; the mutexes of the settings store, the flash driver and the MQTT client (their operations
  run with them held), the list of registered partitions; the JSON reports
  of the application, camera, GPS, display, NB-IoT modem; floating point. The socket of the W5500
  is the script of what its calls yield, the flash chip the record of what its commands do.
\<close>

end
